(* ===== verification/Isode_Prelude.thy ===== *)
theory Isode_Prelude
  imports Main "HOL-Library.Word"
begin

text \<open>
  Shared ground of the development: the machine types of the C sources, the outcome type that
  stands for the return conventions of the code (a value, NOTOK or NULL, or a fault of the C
  program), the range-checked conversions of \<^verbatim>\<open>h/conv.h\<close> that the library calls, and the generic
  lemmas on words, lists and outcomes that the component theories use.
\<close>

unbundle bit_operations_syntax

section \<open>Types and outcomes\<close>

type_synonym byte = "8 word"

text \<open>
  The outcome of a C function: \<open>Done\<close> is a normal return with its value, \<open>Notok\<close> the error
  return (NOTOK or a null pointer, with the error code in the state), \<open>Fault\<close> a call of
  \<^verbatim>\<open>abort\<close> or an access outside an object, and \<open>Spent\<close> marks a model that ran out of fuel.
\<close>

datatype 'a outcome = Done 'a | Notok | Fault | Spent

fun obind :: "'a outcome \<times> 's \<Rightarrow> ('a \<Rightarrow> 's \<Rightarrow> 'b outcome \<times> 's) \<Rightarrow> 'b outcome \<times> 's" where
  "obind (Done x, s) f = f x s"
| "obind (Notok, s) f = (Notok, s)"
| "obind (Fault, s) f = (Fault, s)"
| "obind (Spent, s) f = (Spent, s)"

named_theorems conv_simps \<open>the range checks of h/conv.h\<close>
named_theorems ber_simps \<open>octet-level facts of the basic encoding rules\<close>
named_theorems pe_defs \<open>operations on presentation elements\<close>
named_theorems ps_defs \<open>operations on presentation streams\<close>

lemma obind_DoneE:
  assumes "obind r f = (Done y, t)"
  obtains x s where "r = (Done x, s)" "f x s = (Done y, t)"
  using assms by (cases "(r, f)" rule: obind.cases) auto

section \<open>Range-checked conversions (h/conv.h)\<close>

definition INT_MAX :: int where
  "INT_MAX = 2147483647"

definition int2u8 :: "int \<Rightarrow> byte option" where
  "int2u8 n = (if n < 0 \<or> n > 255 then None else Some (word_of_int n))"

definition int2u16 :: "int \<Rightarrow> 16 word option" where
  "int2u16 n = (if n < 0 \<or> n > 65535 then None else Some (word_of_int n))"

definition add_int_to_int :: "int \<Rightarrow> int \<Rightarrow> int option" where
  "add_int_to_int acc n = (if n < 0 \<or> acc < 0 \<or> acc > INT_MAX - n then None else Some (acc + n))"

definition sizet2int :: "nat \<Rightarrow> int option" where
  "sizet2int n = (if int n > INT_MAX then None else Some (int n))"

definition int2sizet :: "int \<Rightarrow> nat option" where
  "int2sizet n = (if n < 0 then None else Some (nat n))"

definition u8_bis :: "byte \<Rightarrow> byte \<Rightarrow> byte" where
  "u8_bis v bits = v OR bits"

definition u8_bic :: "byte \<Rightarrow> byte \<Rightarrow> byte" where
  "u8_bic v bits = v AND NOT bits"

text \<open>
  \<open>mem\<close> says for which sizes the C library's \<^verbatim>\<open>malloc\<close> returns a block. It is a parameter of
  every operation that allocates a data-dependent amount.
\<close>

definition malloc_int :: "(int \<Rightarrow> bool) \<Rightarrow> int \<Rightarrow> bool" where
  "malloc_int mem n = (case int2sizet n of None \<Rightarrow> False | Some len \<Rightarrow> mem (int len))"

lemma malloc_int_iff [conv_simps]: "malloc_int mem n \<longleftrightarrow> 0 \<le> n \<and> mem n"
  by (simp add: malloc_int_def int2sizet_def)

lemma int2u8_Some [conv_simps]: "0 \<le> n \<Longrightarrow> n \<le> 255 \<Longrightarrow> int2u8 n = Some (word_of_int n)"
  by (simp add: int2u8_def)

lemma int2u8_None_iff [conv_simps]: "int2u8 n = None \<longleftrightarrow> n < 0 \<or> n > 255"
  by (simp add: int2u8_def)

lemma int2u16_Some [conv_simps]: "0 \<le> n \<Longrightarrow> n \<le> 65535 \<Longrightarrow> int2u16 n = Some (word_of_int n)"
  by (simp add: int2u16_def)

lemma add_int_to_int_Some_iff [conv_simps]:
  "add_int_to_int a n = Some s \<longleftrightarrow> 0 \<le> a \<and> 0 \<le> n \<and> a + n \<le> INT_MAX \<and> s = a + n"
  by (auto simp: add_int_to_int_def INT_MAX_def)

text \<open>
  The value of a C \<^verbatim>\<open>int\<close> expression as the two's complement hardware computes it.
\<close>

definition c_int :: "int \<Rightarrow> int" where
  "c_int x = signed_take_bit 31 x"

lemma c_int_id: "- 2147483648 \<le> x \<Longrightarrow> x \<le> 2147483647 \<Longrightarrow> c_int x = x"
  by (simp add: c_int_def signed_take_bit_int_eq_self_iff)

text \<open>
  The octets behind a pointer that may be null: the data of a primitive or inline element, the
  base of a string stream.
\<close>

definition octs :: "byte list option \<Rightarrow> byte list" where
  "octs b = (case b of None \<Rightarrow> [] | Some bs \<Rightarrow> bs)"

lemma octs_simps [simp]: "octs None = []" "octs (Some bs) = bs"
  by (simp_all add: octs_def)

section \<open>Octets\<close>

lemma and_exp: "c AND 2 ^ n = (if bit c n then 2 ^ n else 0)" for c :: byte
  by (rule bit_eqI) (auto simp: bit_simps)

lemma and_0x80: "(c AND 0x80 \<noteq> 0) = bit c 7" "(c AND 0x80 = 0) = (\<not> bit c 7)"
  "(c AND 0x80 = 0x80) = bit c 7" for c :: byte
  using and_exp [of c 7] by (simp_all split: if_splits)

lemma mask7: "(0x7f :: 32 word) = mask 7" "(0x7f :: byte) = mask 7"
  by (simp_all add: mask_eq_exp_minus_1)

lemma bit_0x80: "bit (0x80 :: int) j = (j = 7)"
proof -
  have "(0x80 :: int) = 2 ^ 7" by simp
  then show ?thesis by (simp only: bit_exp_iff possible_bit_int) simp
qed

lemma foldl_octets_word:
  "push_bit 8 w OR ucast c = w * 256 + ucast c" for w :: "32 word" and c :: byte
proof -
  have "push_bit 8 w OR ucast c = push_bit 8 w + ucast c"
    by (rule disjunctive_add_eq_or [symmetric]) (auto simp: bit_eq_iff bit_simps dest: bit_imp_le_length)
  then show ?thesis by (simp add: push_bit_eq_mult)
qed

lemma octet_and_small:
  fixes u :: byte
  assumes "unat u < 32"
  shows "u AND 0x1f = u" "u AND 0x20 = 0" "u AND 0xc0 = 0"
proof -
  have "take_bit 5 u = u" using assms by (simp add: word_unat_eq_iff take_bit_eq_mod unat_mod)
  then have u: "u = u AND 0x1f" by (simp add: take_bit_eq_mask mask_eq_exp_minus_1)
  then show "u AND 0x1f = u" by simp
  have "u AND 0x20 = u AND (0x1f AND 0x20)" by (subst u) (simp only: and.assoc)
  then show "u AND 0x20 = 0" by simp
  have "u AND 0xc0 = u AND (0x1f AND 0xc0)" by (subst u) (simp only: and.assoc)
  then show "u AND 0xc0 = 0" by simp
qed

lemma octet_and_seven:
  fixes u :: byte
  assumes "unat u < 128"
  shows "u AND 0x7f = u" "u AND 0x80 = 0" "(u OR 0x80) AND 0x7f = u" "(u OR 0x80) AND 0x80 \<noteq> 0"
proof -
  have "take_bit 7 u = u" using assms by (simp add: word_unat_eq_iff take_bit_eq_mod unat_mod)
  then have u: "u AND 0x7f = u" by (simp add: take_bit_eq_mask mask_eq_exp_minus_1)
  then show "u AND 0x7f = u" .
  have "u AND 0x80 = u AND (0x7f AND 0x80)" by (subst u [symmetric]) (simp only: and.assoc)
  then show "u AND 0x80 = 0" by simp
  then show "(u OR 0x80) AND 0x80 \<noteq> 0" "(u OR 0x80) AND 0x7f = u"
    using u by (simp_all add: bit.conj_disj_distrib2)
qed

end
