(* ===== verification/PElement.thy ===== *)
theory PElement
  imports Isode_Prelude
begin

text \<open>
  Presentation elements (\<^verbatim>\<open>h/psap.h\<close>, \<^verbatim>\<open>psap/pe_*.c\<close>, \<^verbatim>\<open>psap/seq_*.c\<close>, \<^verbatim>\<open>psap/set_*.c\<close>): the
  in-memory trees of ASN.1 values on which every ISODE encoder works. The C structure is a header
  of scalar fields and a union whose arm is chosen by \<^verbatim>\<open>pe_form\<close>; the model is a record for the
  header and one datatype constructor per form. The list of members that C threads through
  \<^verbatim>\<open>pe_next\<close> is a HOL list; \<^verbatim>\<open>pe_cardinal\<close> and \<^verbatim>\<open>pe_nbits\<close> share one field, as the union
  \<^verbatim>\<open>pe_un2\<close> does. Storage management (the free list, \<^verbatim>\<open>pe_free\<close>) has no counterpart: elements are
  values.
\<close>

section \<open>The element\<close>

record pelem_hdr =
  pe_errno :: int
  pe_context :: int
  pe_class :: "8 word"
  pe_id :: "16 word"
  pe_len :: int
  pe_ilen :: int
  pe_un2 :: int
  pe_inline :: bool
  pe_offset :: int

datatype PE =
    PRIM (pe_hdr: pelem_hdr) (pe_prim: "byte list option")
  | CONS (pe_hdr: pelem_hdr) (pe_cons: "PE list")
  | ICONS (pe_hdr: pelem_hdr) (pe_prim: "byte list option")

datatype PElementForm = PE_FORM_PRIM | PE_FORM_CONS | PE_FORM_ICONS

fun pe_form :: "PE \<Rightarrow> PElementForm" where
  "pe_form (PRIM h b) = PE_FORM_PRIM"
| "pe_form (CONS h ps) = PE_FORM_CONS"
| "pe_form (ICONS h b) = PE_FORM_ICONS"

abbreviation pe_cardinal :: "pelem_hdr \<Rightarrow> int" where
  "pe_cardinal \<equiv> pe_un2"

abbreviation pe_nbits :: "pelem_hdr \<Rightarrow> int" where
  "pe_nbits \<equiv> pe_un2"

fun pe_upd :: "(pelem_hdr \<Rightarrow> pelem_hdr) \<Rightarrow> PE \<Rightarrow> PE" where
  "pe_upd f (PRIM h b) = PRIM (f h) b"
| "pe_upd f (CONS h ps) = CONS (f h) ps"
| "pe_upd f (ICONS h b) = ICONS (f h) b"

definition pe_seterr :: "PE \<Rightarrow> int \<Rightarrow> PE" where
  "pe_seterr pe e = pe_upd (\<lambda>h. h\<lparr>pe_errno := e\<rparr>) pe"

definition PE_ERR_NONE :: int where "PE_ERR_NONE = 0"
definition PE_ERR_OVER :: int where "PE_ERR_OVER = 1"
definition PE_ERR_NMEM :: int where "PE_ERR_NMEM = 2"
definition PE_ERR_BIT :: int where "PE_ERR_BIT = 3"
definition PE_ERR_UTCT :: int where "PE_ERR_UTCT = 4"
definition PE_ERR_GENT :: int where "PE_ERR_GENT = 5"
definition PE_ERR_MBER :: int where "PE_ERR_MBER = 6"
definition PE_ERR_PRIM :: int where "PE_ERR_PRIM = 7"
definition PE_ERR_CONS :: int where "PE_ERR_CONS = 8"
definition PE_ERR_TYPE :: int where "PE_ERR_TYPE = 9"
definition PE_ERR_OID :: int where "PE_ERR_OID = 10"
definition PE_ERR_BITS :: int where "PE_ERR_BITS = 11"
definition PE_ERR_DUPLICATE :: int where "PE_ERR_DUPLICATE = 14"
definition PE_ERR_SYNTAX :: int where "PE_ERR_SYNTAX = 15"

definition PE_LEN_INDF :: int where "PE_LEN_INDF = -1"
definition PE_LEN_SMAX :: int where "PE_LEN_SMAX = 127"
definition PE_CLASS_UNIV :: "8 word" where "PE_CLASS_UNIV = 0"
definition PE_UNIV_EOC :: "16 word" where "PE_UNIV_EOC = 0"
definition PE_PRIM_OCTS :: "16 word" where "PE_PRIM_OCTS = 4"

lemmas pe_err_defs [pe_defs] =
  PE_ERR_NONE_def PE_ERR_OVER_def PE_ERR_NMEM_def PE_ERR_BIT_def PE_ERR_UTCT_def PE_ERR_GENT_def
  PE_ERR_MBER_def PE_ERR_PRIM_def PE_ERR_CONS_def PE_ERR_TYPE_def PE_ERR_OID_def PE_ERR_BITS_def
  PE_ERR_DUPLICATE_def PE_ERR_SYNTAX_def PE_LEN_INDF_def PE_LEN_SMAX_def PE_CLASS_UNIV_def
  PE_UNIV_EOC_def PE_PRIM_OCTS_def

text \<open>\<^verbatim>\<open>pe_alloc\<close> hands out a zeroed element with the given class, form and identifier.\<close>

definition hdr0 :: "8 word \<Rightarrow> 16 word \<Rightarrow> pelem_hdr" where
  "hdr0 cl i = \<lparr>pe_errno = 0, pe_context = 0, pe_class = cl, pe_id = i, pe_len = 0, pe_ilen = 0,
     pe_un2 = 0, pe_inline = False, pe_offset = 0\<rparr>"

fun pe_alloc :: "8 word \<Rightarrow> PElementForm \<Rightarrow> 16 word \<Rightarrow> PE" where
  "pe_alloc cl PE_FORM_PRIM i = PRIM (hdr0 cl i) None"
| "pe_alloc cl PE_FORM_CONS i = CONS (hdr0 cl i) []"
| "pe_alloc cl PE_FORM_ICONS i = ICONS (hdr0 cl i) None"

lemma pe_hdr_upd [simp]: "pe_hdr (pe_upd f p) = f (pe_hdr p)"
  by (cases p) auto

lemma pe_form_upd [simp]: "pe_form (pe_upd f p) = pe_form p"
  by (cases p) auto

lemma pe_upd_comp [simp]: "pe_upd f (pe_upd g p) = pe_upd (f \<circ> g) p"
  by (cases p) auto

section \<open>Comparison and copy\<close>

text \<open>
  \<^verbatim>\<open>PEDcmp\<close> is \<^verbatim>\<open>bcmp_int\<close>: true when the first \<open>n\<close> octets differ, and for a negative count.
\<close>

definition PEDcmp :: "byte list option \<Rightarrow> byte list option \<Rightarrow> int \<Rightarrow> bool" where
  "PEDcmp b b' n = (n < 0 \<or> take (nat n) (octs b) \<noteq> take (nat n) (octs b'))"

definition pe_cmp_octets :: "pelem_hdr \<Rightarrow> byte list option \<Rightarrow> pelem_hdr \<Rightarrow> byte list option \<Rightarrow> int" where
  "pe_cmp_octets h b h' b' =
     (if pe_len h \<noteq> 0
      then (if pe_len h \<noteq> pe_len h' \<or> PEDcmp b b' (pe_len h) then 1 else 0)
      else if pe_len h' \<noteq> 0 then 1 else 0)"

text \<open>
  \<^verbatim>\<open>pe_cmp\<close>: 0 when the two elements carry the same value, 1 otherwise. The loop over the
  members compares pairwise; a null element differs from any other.
\<close>

fun pe_cmp :: "PE option \<Rightarrow> PE option \<Rightarrow> int"
and pe_cmp_list :: "PE list \<Rightarrow> PE list \<Rightarrow> int" where
  "pe_cmp None q = (if q = None then 0 else 1)"
| "pe_cmp (Some p) None = 1"
| "pe_cmp (Some p) (Some q) =
     (if pe_class (pe_hdr p) \<noteq> pe_class (pe_hdr q) \<or> pe_form p \<noteq> pe_form q
         \<or> pe_id (pe_hdr p) \<noteq> pe_id (pe_hdr q) then 1
      else case p of
        ICONS h b \<Rightarrow> (case q of
            ICONS h' b' \<Rightarrow> if pe_ilen h \<noteq> pe_ilen h' then 1 else pe_cmp_octets h b h' b'
          | _ \<Rightarrow> 1)
      | PRIM h b \<Rightarrow> (case q of PRIM h' b' \<Rightarrow> pe_cmp_octets h b h' b' | _ \<Rightarrow> 1)
      | CONS h ps \<Rightarrow> (case q of CONS h' qs \<Rightarrow> pe_cmp_list ps qs | _ \<Rightarrow> 1))"
| "pe_cmp_list [] qs = (if qs = [] then 0 else 1)"
| "pe_cmp_list (p # ps) [] = (if pe_cmp (Some p) None \<noteq> 0 then 1 else 0)"
| "pe_cmp_list (p # ps) (q # qs) =
     (if pe_cmp (Some p) (Some q) \<noteq> 0 then 1 else pe_cmp_list ps qs)"

text \<open>
  \<^verbatim>\<open>pe_cpy\<close> copies class, form, identifier, context, length, octets and the cardinality or bit
  count; the error code, the inline mark and the offset of the copy start at zero.
\<close>

definition cpy_hdr :: "pelem_hdr \<Rightarrow> pelem_hdr" where
  "cpy_hdr h = (hdr0 (pe_class h) (pe_id h))\<lparr>pe_context := pe_context h, pe_len := pe_len h,
     pe_un2 := pe_un2 h\<rparr>"

fun pe_cpy :: "(int \<Rightarrow> bool) \<Rightarrow> PE \<Rightarrow> PE option"
and pe_cpy_list :: "(int \<Rightarrow> bool) \<Rightarrow> PE list \<Rightarrow> PE list option" where
  "pe_cpy mem (ICONS h None) = Some (ICONS ((cpy_hdr h)\<lparr>pe_ilen := pe_ilen h\<rparr>) None)"
| "pe_cpy mem (ICONS h (Some b)) =
     (if malloc_int mem (pe_len h)
      then Some (ICONS ((cpy_hdr h)\<lparr>pe_ilen := pe_ilen h\<rparr>) (Some (take (nat (pe_len h)) b)))
      else None)"
| "pe_cpy mem (PRIM h None) = Some (PRIM (cpy_hdr h) None)"
| "pe_cpy mem (PRIM h (Some b)) =
     (if malloc_int mem (pe_len h)
      then Some (PRIM (cpy_hdr h) (Some (take (nat (pe_len h)) b))) else None)"
| "pe_cpy mem (CONS h ps) =
     (case pe_cpy_list mem ps of None \<Rightarrow> None | Some qs \<Rightarrow> Some (CONS (cpy_hdr h) qs))"
| "pe_cpy_list mem [] = Some []"
| "pe_cpy_list mem (p # ps) =
     (case pe_cpy mem p of None \<Rightarrow> None
      | Some q \<Rightarrow> (case pe_cpy_list mem ps of None \<Rightarrow> None | Some qs \<Rightarrow> Some (q # qs)))"

text \<open>
  The abstract value of an element, the well-formedness of its length field, and what the two
  operations mean on them.
\<close>

datatype asn =
    APrim "8 word" "16 word" "byte list"
  | ACons "8 word" "16 word" "asn list"
  | AInline "8 word" "16 word" int "byte list"

fun pe_value :: "PE \<Rightarrow> asn" where
  "pe_value (PRIM h b) = APrim (pe_class h) (pe_id h) (octs b)"
| "pe_value (CONS h ps) = ACons (pe_class h) (pe_id h) (map pe_value ps)"
| "pe_value (ICONS h b) = AInline (pe_class h) (pe_id h) (pe_ilen h) (octs b)"

fun pe_wf :: "PE \<Rightarrow> bool" where
  "pe_wf (PRIM h b) \<longleftrightarrow> pe_len h = int (length (octs b))"
| "pe_wf (CONS h ps) \<longleftrightarrow> list_all pe_wf ps"
| "pe_wf (ICONS h b) \<longleftrightarrow> pe_len h = int (length (octs b))"

lemma pe_cmp_octets_eq:
  assumes "pe_len h = int (length (octs b))" "pe_len h' = int (length (octs b'))"
  shows "pe_cmp_octets h b h' b' = (if octs b = octs b' then 0 else 1)"
  using assms by (auto simp: pe_cmp_octets_def PEDcmp_def)

lemma pe_cmp_value_aux:
  "(\<forall>p q. a = Some p \<longrightarrow> b = Some q \<longrightarrow> pe_wf p \<longrightarrow> pe_wf q \<longrightarrow>
      pe_cmp a b = (if pe_value p = pe_value q then 0 else 1))"
  "list_all pe_wf ps \<Longrightarrow> list_all pe_wf qs \<Longrightarrow>
     pe_cmp_list ps qs = (if map pe_value ps = map pe_value qs then 0 else 1)"
  by (induction a b and ps qs rule: pe_cmp_pe_cmp_list.induct)
    (auto simp: pe_cmp_octets_eq split: PE.splits)

lemma pe_cmp_value:
  "pe_wf p \<Longrightarrow> pe_wf q \<Longrightarrow>
     pe_cmp (Some p) (Some q) = (if pe_value p = pe_value q then 0 else 1)"
  using pe_cmp_value_aux(1) by blast

lemma pe_cpy_value_aux:
  "pe_wf p \<Longrightarrow> pe_cpy mem p = Some q \<Longrightarrow> pe_wf q \<and> pe_value q = pe_value p"
  "list_all pe_wf ps \<Longrightarrow> pe_cpy_list mem ps = Some qs \<Longrightarrow>
     list_all pe_wf qs \<and> map pe_value qs = map pe_value ps"
  by (induction mem p and mem ps arbitrary: q and qs rule: pe_cpy_pe_cpy_list.induct)
    (auto simp: cpy_hdr_def hdr0_def split: option.splits if_splits)

lemma pe_cpy_total_aux:
  "pe_wf p \<Longrightarrow> \<exists>q. pe_cpy (\<lambda>_. True) p = Some q"
  "list_all pe_wf ps \<Longrightarrow> \<exists>qs. pe_cpy_list (\<lambda>_. True) ps = Some qs"
  by (induction "\<lambda>_::int. True" p and "\<lambda>_::int. True" ps rule: pe_cpy_pe_cpy_list.induct)
    (auto simp: conv_simps)

section \<open>Properties\<close>

text \<open>
  C23: on well-formed elements \<^verbatim>\<open>pe_cmp\<close> decides equality of the abstract values (class,
  identifier, octets or members); in particular it is an equivalence.
\<close>

theorem pe_cmp_refines_value:
  assumes "pe_wf p" "pe_wf q"
  shows "pe_cmp (Some p) (Some q) = 0 \<longleftrightarrow> pe_value p = pe_value q"
  using pe_cmp_value [OF assms] by simp

theorem pe_cmp_refines_value_witness:
  "pe_cmp (Some (CONS (hdr0 0 16) [PRIM ((hdr0 0 2)\<lparr>pe_len := 1\<rparr>) (Some [7])]))
     (Some (CONS ((hdr0 0 16)\<lparr>pe_len := 3\<rparr>) [PRIM ((hdr0 0 2)\<lparr>pe_len := 1\<rparr>) (Some [7])])) = 0"
proof -
  let ?p = "CONS (hdr0 0 16) [PRIM ((hdr0 0 2)\<lparr>pe_len := 1\<rparr>) (Some [7])]"
  let ?q = "CONS ((hdr0 0 16)\<lparr>pe_len := 3\<rparr>) [PRIM ((hdr0 0 2)\<lparr>pe_len := 1\<rparr>) (Some [7])]"
  have "pe_wf ?p" "pe_wf ?q" by (simp_all add: hdr0_def)
  moreover have "pe_value ?p = pe_value ?q" by (simp add: hdr0_def)
  ultimately show ?thesis using pe_cmp_refines_value [of ?p ?q] by blast
qed

text \<open>
  C24: a copy made by \<^verbatim>\<open>pe_cpy\<close> is well-formed and \<^verbatim>\<open>pe_cmp\<close> finds it equal to the original, and
  \<^verbatim>\<open>pe_cpy\<close> only fails for lack of memory.
\<close>

theorem pe_cpy_equal:
  assumes "pe_wf p"
  shows "(\<exists>q. pe_cpy (\<lambda>_. True) p = Some q) \<and>
    (\<forall>mem q. pe_cpy mem p = Some q \<longrightarrow> pe_wf q \<and> pe_cmp (Some p) (Some q) = 0)"
  using assms pe_cpy_total_aux(1) pe_cpy_value_aux(1) pe_cmp_value by metis

theorem pe_cpy_equal_witness:
  "\<exists>q. pe_cpy (\<lambda>_. True) (PRIM ((hdr0 0 4)\<lparr>pe_len := 2\<rparr>) (Some [1, 2])) = Some q"
proof -
  have "pe_wf (PRIM ((hdr0 0 4)\<lparr>pe_len := 2\<rparr>) (Some [1, 2]))" by simp
  from pe_cpy_equal [OF this] show ?thesis by blast
qed

end
