(* ===== verification/PMembers.thy ===== *)
theory PMembers
  imports PElement
begin

text \<open>
  Members of SEQUENCE and SET elements (\<^verbatim>\<open>psap/seq_*.c\<close>, \<^verbatim>\<open>psap/set_*.c\<close>, \<^verbatim>\<open>psap/prim2set.c\<close>). A
  sequence keeps its members in the order of \<^verbatim>\<open>pe_offset\<close>, a set is searched by class and
  identifier. Both are finite maps from a key to a member; the locale \<open>member_store\<close> states that
  contract and both are interpreted in it.
\<close>

section \<open>Operations\<close>

abbreviation off :: "PE \<Rightarrow> int" where
  "off p \<equiv> pe_offset (pe_hdr p)"

abbreviation card :: "PE \<Rightarrow> int" where
  "card p \<equiv> pe_cardinal (pe_hdr p)"

definition set_off :: "int \<Rightarrow> PE \<Rightarrow> PE" where
  "set_off i = pe_upd (\<lambda>h. h\<lparr>pe_offset := i\<rparr>)"

text \<open>
  The member list of an element; an operation that follows \<^verbatim>\<open>pe_cons\<close> of an element that is not
  a constructor would follow the other arm of the union.
\<close>

fun seq_ins :: "int \<Rightarrow> PE \<Rightarrow> PE list \<Rightarrow> PE list" where
  "seq_ins i r [] = [r]"
| "seq_ins i r (q # qs) =
     (if off q = i then r # qs
      else if off q > i then r # q # qs
      else q # seq_ins i r qs)"

fun seq_add :: "PE \<Rightarrow> PE option \<Rightarrow> int \<Rightarrow> unit outcome \<times> PE" where
  "seq_add pe None i = (Notok, pe_seterr pe PE_ERR_NMEM)"
| "seq_add (CONS h ps) (Some r) i =
     (let j = (if i < 0 then pe_cardinal h else i);
          ps' = seq_ins j (set_off j r) ps
      in (Done (), CONS (h\<lparr>pe_un2 := (if j \<ge> pe_cardinal h then j + 1 else pe_cardinal h)\<rparr>) ps'))"
| "seq_add pe (Some r) i = (Fault, pe)"

text \<open>
  \<^verbatim>\<open>seq_addon\<close> is handed a pointer to the member after which the new one goes, here its position
  in the list; members behind it are cut off. The element itself may be a null pointer.
\<close>

fun seq_addon :: "PE option \<Rightarrow> nat option \<Rightarrow> PE \<Rightarrow> unit outcome \<times> PE option" where
  "seq_addon None lst new = (Notok, None)"
| "seq_addon (Some pe) None new =
     (case seq_add pe (Some new) (- 1) of (r, pe') \<Rightarrow> (r, Some pe'))"
| "seq_addon (Some (CONS h ps)) (Some k) new =
     (if k < length ps
      then (Done (), Some (CONS (h\<lparr>pe_un2 := pe_cardinal h + 1\<rparr>)
              (take (Suc k) ps @ [set_off (pe_cardinal h) new])))
      else (Fault, Some (CONS h ps)))"
| "seq_addon (Some pe) (Some k) new = (Fault, Some pe)"

text \<open>The loop of \<^verbatim>\<open>seq_del\<close>: the members left and, when the last one went, the new cardinality.\<close>

fun seq_del_loop :: "int \<Rightarrow> int \<Rightarrow> PE list \<Rightarrow> (PE list \<times> int option) option" where
  "seq_del_loop i offset [] = None"
| "seq_del_loop i offset (q # qs) =
     (if off q = i then Some (qs, if qs = [] then Some (offset + 1) else None)
      else if off q > i then None
      else map_option (\<lambda>(qs', c). (q # qs', c)) (seq_del_loop i (off q) qs))"

fun seq_del :: "PE \<Rightarrow> int \<Rightarrow> unit outcome \<times> PE" where
  "seq_del (CONS h ps) i =
     (case seq_del_loop i 0 ps of
        None \<Rightarrow> (Notok, pe_seterr (CONS h ps) PE_ERR_MBER)
      | Some (ps', None) \<Rightarrow> (Done (), CONS h ps')
      | Some (ps', Some c) \<Rightarrow> (Done (), CONS (h\<lparr>pe_un2 := c\<rparr>) ps'))"
| "seq_del pe i = (Fault, pe)"

fun seq_find :: "PE \<Rightarrow> int \<Rightarrow> PE option outcome \<times> PE" where
  "seq_find (CONS h ps) i =
     (if i \<ge> pe_cardinal h then (Done None, pe_seterr (CONS h ps) PE_ERR_MBER)
      else (Done (List.find (\<lambda>p. off p = i) ps), CONS h ps))"
| "seq_find pe i =
     (if i \<ge> card pe then (Done None, pe_seterr pe PE_ERR_MBER) else (Fault, pe))"

text \<open>The search key of a set member, \<^verbatim>\<open>PE_ID (class, code)\<close>.\<close>

definition PE_ID :: "8 word \<Rightarrow> 16 word \<Rightarrow> 32 word" where
  "PE_ID cl code = push_bit 2 (ucast code AND 0x3fff) OR (ucast cl AND 3)"

abbreviation key :: "PE \<Rightarrow> 32 word" where
  "key p \<equiv> PE_ID (pe_class (pe_hdr p)) (pe_id (pe_hdr p))"

fun set_add :: "PE \<Rightarrow> PE option \<Rightarrow> unit outcome \<times> PE" where
  "set_add pe None = (Notok, pe_seterr pe PE_ERR_NMEM)"
| "set_add (CONS h ps) (Some r) =
     (if \<exists>q \<in> set ps. key q = key r
      then (Notok, pe_seterr (CONS h ps) PE_ERR_DUPLICATE)
      else (Done (), CONS h (ps @ [r])))"
| "set_add pe (Some r) = (Fault, pe)"

fun set_addon :: "PE option \<Rightarrow> nat option \<Rightarrow> PE \<Rightarrow> unit outcome \<times> PE option" where
  "set_addon None lst new = (Notok, None)"
| "set_addon (Some pe) None new = (case set_add pe (Some new) of (r, pe') \<Rightarrow> (r, Some pe'))"
| "set_addon (Some (CONS h ps)) (Some k) new =
     (if k < length ps
      then (Done (), Some (CONS (h\<lparr>pe_un2 := pe_cardinal h + 1\<rparr>)
              (take (Suc k) ps @ [set_off (pe_cardinal h) new])))
      else (Fault, Some (CONS h ps)))"
| "set_addon (Some pe) (Some k) new = (Fault, Some pe)"

fun set_del_loop :: "32 word \<Rightarrow> PE list \<Rightarrow> PE list option" where
  "set_del_loop k [] = None"
| "set_del_loop k (q # qs) = (if key q = k then Some qs else map_option ((#) q) (set_del_loop k qs))"

fun set_del :: "PE \<Rightarrow> 8 word \<Rightarrow> 16 word \<Rightarrow> unit outcome \<times> PE" where
  "set_del (CONS h ps) cl i =
     (case set_del_loop (PE_ID cl i) ps of
        None \<Rightarrow> (Notok, pe_seterr (CONS h ps) PE_ERR_MBER)
      | Some ps' \<Rightarrow> (Done (), CONS h ps'))"
| "set_del pe cl i = (Fault, pe)"

text \<open>\<^verbatim>\<open>set_find\<close>: \<open>Inl\<close> is the duplicate-member error, \<open>Inr\<close> what was found.\<close>

fun set_find_loop :: "32 word \<Rightarrow> PE option \<Rightarrow> PE list \<Rightarrow> unit + PE option" where
  "set_find_loop k pfound [] = Inr pfound"
| "set_find_loop k pfound (p # ps) =
     (if key p = k
      then (case pfound of None \<Rightarrow> set_find_loop k (Some p) ps | Some _ \<Rightarrow> Inl ())
      else set_find_loop k pfound ps)"

fun set_find :: "PE \<Rightarrow> 8 word \<Rightarrow> 16 word \<Rightarrow> PE option outcome \<times> PE" where
  "set_find (CONS h ps) cl i =
     (case set_find_loop (PE_ID cl i) None ps of
        Inl _ \<Rightarrow> (Done None, pe_seterr (CONS h ps) PE_ERR_DUPLICATE)
      | Inr f \<Rightarrow> (Done f, CONS h ps))"
| "set_find pe cl i = (Fault, pe)"

fun number_members :: "int \<Rightarrow> PE list \<Rightarrow> PE list" where
  "number_members i [] = []"
| "number_members i (p # ps) = set_off i p # number_members (i + 1) ps"

fun prim2set :: "PE \<Rightarrow> unit outcome \<times> PE" where
  "prim2set (CONS h ps) =
     (Done (), CONS (h\<lparr>pe_un2 := int (length ps)\<rparr>) (number_members 0 ps))"
| "prim2set pe = (Notok, pe_seterr pe PE_ERR_CONS)"

section \<open>The contract of a member container\<close>

locale member_store =
  fixes inv :: "'c \<Rightarrow> bool"
    and tag :: "'k \<Rightarrow> bool"
    and okey :: "'k \<Rightarrow> 'v \<Rightarrow> bool"
    and seen :: "'k \<Rightarrow> 'v \<Rightarrow> 'v"
    and find :: "'c \<Rightarrow> 'k \<Rightarrow> 'v option"
    and put :: "'c \<Rightarrow> 'k \<Rightarrow> 'v \<Rightarrow> 'c option"
    and del :: "'c \<Rightarrow> 'k \<Rightarrow> 'c option"
  assumes put_ok: "inv c \<Longrightarrow> tag k \<Longrightarrow> okey k v \<Longrightarrow> find c k = None \<Longrightarrow>
      \<exists>c'. put c k v = Some c' \<and> inv c'"
    and put_find: "inv c \<Longrightarrow> tag k \<Longrightarrow> okey k v \<Longrightarrow> find c k = None \<Longrightarrow> put c k v = Some c' \<Longrightarrow>
      tag j \<Longrightarrow> find c' j = (if j = k then Some (seen k v) else find c j)"
    and del_ok: "inv c \<Longrightarrow> tag k \<Longrightarrow> (del c k = None) = (find c k = None)"
    and del_inv: "inv c \<Longrightarrow> tag k \<Longrightarrow> del c k = Some c' \<Longrightarrow> inv c'"
    and del_find: "inv c \<Longrightarrow> tag k \<Longrightarrow> del c k = Some c' \<Longrightarrow> tag j \<Longrightarrow>
      find c' j = (if j = k then None else find c j)"
begin

text \<open>Building a container member by member: the result is the map of what was put in.\<close>

fun put_all :: "'c \<Rightarrow> ('k \<times> 'v) list \<Rightarrow> 'c option" where
  "put_all c [] = Some c"
| "put_all c ((k, v) # kvs) = (case put c k v of None \<Rightarrow> None | Some c' \<Rightarrow> put_all c' kvs)"

lemma put_all_find:
  assumes "inv c" "distinct (map fst kvs)"
    and "\<forall>(k, v) \<in> set kvs. tag k \<and> okey k v \<and> find c k = None"
  shows "\<exists>c'. put_all c kvs = Some c' \<and> inv c' \<and> (\<forall>j. tag j \<longrightarrow>
    find c' j = (case map_of kvs j of None \<Rightarrow> find c j | Some v \<Rightarrow> Some (seen j v)))"
  using assms
proof (induction kvs arbitrary: c)
  case Nil
  then show ?case by simp
next
  case (Cons kv kvs)
  obtain k v where kv: "kv = (k, v)" by force
  from Cons.prems kv have ok: "tag k" "okey k v" "find c k = None" by auto
  with Cons.prems obtain c1 where c1: "put c k v = Some c1" "inv c1" using put_ok by blast
  have f1: "\<And>j. tag j \<Longrightarrow> find c1 j = (if j = k then Some (seen k v) else find c j)"
    using put_find ok Cons.prems(1) c1(1) by blast
  have k: "k \<notin> fst ` set kvs" using Cons.prems(2) kv by simp
  have "\<forall>(j, w) \<in> set kvs. tag j \<and> okey j w \<and> find c1 j = None"
    using Cons.prems(3) k f1 by (force split: prod.splits)
  with Cons.IH [OF c1(2)] Cons.prems(2) kv obtain c' where
    "put_all c1 kvs = Some c'" "inv c'"
    "\<forall>j. tag j \<longrightarrow> find c' j = (case map_of kvs j of None \<Rightarrow> find c1 j | Some v \<Rightarrow> Some (seen j v))"
    by auto
  with c1 kv f1 k show ?case
    by (auto simp: map_of_eq_None_iff split: option.splits)
qed

lemma put_del_find:
  assumes "inv c" "tag k" "okey k v" "find c k = None" "put c k v = Some c1" "del c1 k = Some c2"
    and "tag j"
  shows "find c2 j = find c j"
proof -
  have "inv c1" using assms put_ok by fastforce
  then show ?thesis using assms put_find del_find by (metis (full_types))
qed

end

section \<open>Sequences implement the contract\<close>

fun seq_inv :: "PE \<Rightarrow> bool" where
  "seq_inv (CONS h ps) \<longleftrightarrow>
     sorted_wrt (<) (map off ps) \<and> (\<forall>p \<in> set ps. 0 \<le> off p \<and> off p < pe_cardinal h) \<and> 0 \<le> pe_cardinal h"
| "seq_inv _ \<longleftrightarrow> False"

definition seq_lookup :: "PE \<Rightarrow> int \<Rightarrow> PE option" where
  "seq_lookup pe i = (case seq_find pe i of (Done r, _) \<Rightarrow> r | _ \<Rightarrow> None)"

definition seq_put :: "PE \<Rightarrow> int \<Rightarrow> PE \<Rightarrow> PE option" where
  "seq_put pe i r = (case seq_add pe (Some r) i of (Done _, pe') \<Rightarrow> Some pe' | _ \<Rightarrow> None)"

definition seq_drop :: "PE \<Rightarrow> int \<Rightarrow> PE option" where
  "seq_drop pe i = (case seq_del pe i of (Done _, pe') \<Rightarrow> Some pe' | _ \<Rightarrow> None)"

lemma off_set_off [simp]: "off (set_off i p) = i"
  by (simp add: set_off_def)

lemma card_pe_seterr [simp]: "card (pe_seterr p e) = card p"
  by (simp add: pe_seterr_def)

lemma seq_invE:
  assumes "seq_inv pe"
  obtains h ps where "pe = CONS h ps" "sorted_wrt (<) (map off ps)"
    "\<forall>p \<in> set ps. 0 \<le> off p \<and> off p < pe_cardinal h" "0 \<le> pe_cardinal h"
  using assms by (cases pe) auto

lemma seq_lookup_find:
  "\<forall>p \<in> set ps. off p < pe_cardinal h \<Longrightarrow>
     seq_lookup (CONS h ps) i = List.find (\<lambda>p. off p = i) ps"
  by (auto simp: seq_lookup_def eq_commute [of None] find_None_iff)

lemma find_off_greater: "\<forall>p \<in> set ps. i < off p \<Longrightarrow> List.find (\<lambda>p. off p = i) ps = None"
  by (auto simp: find_None_iff)

lemma seq_ins_set: "set (seq_ins i r ps) \<subseteq> insert r (set ps)"
  by (induction i r ps rule: seq_ins.induct) auto

lemma seq_ins_sorted:
  "sorted_wrt (<) (map off ps) \<Longrightarrow> off r = i \<Longrightarrow> sorted_wrt (<) (map off (seq_ins i r ps))"
proof (induction i r ps rule: seq_ins.induct)
  case (2 i r q qs)
  then show ?case using seq_ins_set [of i r qs] by fastforce
qed simp

lemma seq_ins_find:
  "sorted_wrt (<) (map off ps) \<Longrightarrow> off r = i \<Longrightarrow>
     List.find (\<lambda>p. off p = j) (seq_ins i r ps) =
       (if j = i then Some r else List.find (\<lambda>p. off p = j) ps)"
  by (induction i r ps rule: seq_ins.induct) (auto simp: find_off_greater)

lemma seq_ins_append: "\<forall>p \<in> set ps. off p < i \<Longrightarrow> seq_ins i r ps = ps @ [r]"
  by (induction i r ps rule: seq_ins.induct) auto

lemma seq_add_correct:
  assumes "seq_inv pe" "0 \<le> i"
  shows "fst (seq_add pe (Some r) i) = Done ()"
    and "seq_inv (snd (seq_add pe (Some r) i))"
    and "seq_lookup (snd (seq_add pe (Some r) i)) j =
           (if j = i then Some (set_off i r) else seq_lookup pe j)"
proof -
  obtain h ps where pe: "pe = CONS h ps" and inv: "sorted_wrt (<) (map off ps)"
    "\<forall>p \<in> set ps. 0 \<le> off p \<and> off p < pe_cardinal h" "0 \<le> pe_cardinal h"
    using assms(1) by (rule seq_invE)
  let ?c = "if i \<ge> pe_cardinal h then i + 1 else pe_cardinal h"
  let ?ps = "seq_ins i (set_off i r) ps"
  have add: "seq_add pe (Some r) i = (Done (), CONS (h\<lparr>pe_un2 := ?c\<rparr>) ?ps)"
    using assms(2) pe by (simp add: Let_def)
  show "fst (seq_add pe (Some r) i) = Done ()" by (simp add: add)
  have bnd: "\<forall>p \<in> set ?ps. 0 \<le> off p \<and> off p < ?c"
    using seq_ins_set [of i "set_off i r" ps] inv assms(2) by force
  with inv assms(2) show "seq_inv (snd (seq_add pe (Some r) i))"
    by (simp add: add seq_ins_sorted)
  have "seq_lookup (CONS (h\<lparr>pe_un2 := ?c\<rparr>) ?ps) j = List.find (\<lambda>p. off p = j) ?ps"
    using bnd by (subst seq_lookup_find) auto
  also have "\<dots> = (if j = i then Some (set_off i r) else seq_lookup pe j)"
    using inv by (simp add: pe seq_ins_find seq_lookup_find)
  finally show "seq_lookup (snd (seq_add pe (Some r) i)) j =
      (if j = i then Some (set_off i r) else seq_lookup pe j)"
    unfolding add snd_conv .
qed

lemma seq_del_loop_find:
  "sorted_wrt (<) (map off ps) \<Longrightarrow> seq_del_loop i k ps = Some (ps', c) \<Longrightarrow>
     sorted_wrt (<) (map off ps') \<and> set ps' \<subseteq> set ps \<and>
     (\<forall>j. List.find (\<lambda>p. off p = j) ps' =
        (if j = i then None else List.find (\<lambda>p. off p = j) ps))"
proof (induction i k ps arbitrary: ps' rule: seq_del_loop.induct)
  case (2 i k q qs)
  then show ?case
    by (fastforce simp: find_off_greater split: if_splits)
qed simp

lemma seq_del_loop_None:
  "sorted_wrt (<) (map off ps) \<Longrightarrow>
     (seq_del_loop i k ps = None) = (List.find (\<lambda>p. off p = i) ps = None)"
proof (induction i k ps rule: seq_del_loop.induct)
  case (2 i k q qs)
  then show ?case by (cases "i < off q") (auto intro!: find_off_greater)
qed simp

text \<open>
  When the last member goes, the new cardinality is one more than the offset of the member before
  it, so every member left stays below it.
\<close>

lemma seq_del_loop_card:
  "sorted_wrt (<) (map off ps) \<Longrightarrow> seq_del_loop i k ps = Some (ps', Some c) \<Longrightarrow>
     (ps' = [] \<and> c = k + 1) \<or> (ps' \<noteq> [] \<and> c = off (last ps') + 1)"
proof (induction i k ps arbitrary: ps' rule: seq_del_loop.induct)
  case (2 i k q qs)
  then show ?case by (fastforce split: if_splits)
qed simp

lemma sorted_off_last:
  "sorted_wrt (<) (map off ps) \<Longrightarrow> p \<in> set ps \<Longrightarrow> off p \<le> off (last ps)"
  by (induction ps rule: rev_induct) (auto simp: sorted_wrt_append intro: less_imp_le)

lemma seq_del_correct:
  assumes "seq_inv pe"
  shows "(fst (seq_del pe i) = Notok) = (seq_lookup pe i = None)"
    and "fst (seq_del pe i) = Done () \<Longrightarrow> seq_inv (snd (seq_del pe i))"
    and "fst (seq_del pe i) = Done () \<Longrightarrow>
           seq_lookup (snd (seq_del pe i)) j = (if j = i then None else seq_lookup pe j)"
proof -
  obtain h ps where pe: "pe = CONS h ps" and inv: "sorted_wrt (<) (map off ps)"
    "\<forall>p \<in> set ps. 0 \<le> off p \<and> off p < pe_cardinal h" "0 \<le> pe_cardinal h"
    using assms by (rule seq_invE)
  have look: "seq_lookup pe j = List.find (\<lambda>p. off p = j) ps" for j
    using inv pe seq_lookup_find by auto
  show "(fst (seq_del pe i) = Notok) = (seq_lookup pe i = None)"
    using seq_del_loop_None [OF inv(1), of i 0] unfolding look
    by (auto simp: pe split: option.splits prod.splits)
  assume "fst (seq_del pe i) = Done ()"
  then obtain ps' c where loop: "seq_del_loop i 0 ps = Some (ps', c)"
    unfolding pe by (auto split: option.splits)
  let ?h = "case c of None \<Rightarrow> h | Some c \<Rightarrow> h\<lparr>pe_un2 := c\<rparr>"
  have del: "seq_del pe i = (Done (), CONS ?h ps')"
    unfolding pe by (simp add: loop split: option.splits)
  note ps' = seq_del_loop_find [OF inv(1) loop]
  have bnd: "(\<forall>p \<in> set ps'. 0 \<le> off p \<and> off p < pe_cardinal ?h) \<and> 0 \<le> pe_cardinal ?h"
  proof (cases c)
    case None
    then show ?thesis using ps' inv by auto
  next
    case (Some n)
    have n: "(ps' = [] \<and> n = 0 + 1) \<or> (ps' \<noteq> [] \<and> n = off (last ps') + 1)"
      using seq_del_loop_card [OF inv(1) loop [unfolded Some]] .
    have "ps' \<noteq> [] \<Longrightarrow> 0 \<le> off (last ps')" using ps' inv(2) last_in_set by blast
    moreover have "p \<in> set ps' \<Longrightarrow> 0 \<le> off p \<and> off p \<le> off (last ps')" for p
      using ps' inv(2) sorted_off_last by blast
    ultimately show ?thesis using n Some by fastforce
  qed
  with ps' show "seq_inv (snd (seq_del pe i))" by (simp add: del)
  have "seq_lookup (CONS ?h ps') j = List.find (\<lambda>p. off p = j) ps'"
    using bnd by (subst seq_lookup_find) auto
  with ps' show "seq_lookup (snd (seq_del pe i)) j = (if j = i then None else seq_lookup pe j)"
    by (simp add: del look)
qed

lemma seq_put_eq:
  "seq_inv c \<Longrightarrow> 0 \<le> k \<Longrightarrow> seq_put c k v = Some (snd (seq_add c (Some v) k))"
  using seq_add_correct(1) [of c k v] by (auto simp: seq_put_def split: prod.splits)

lemma seq_drop_eq: "seq_drop c k = Some c' \<Longrightarrow> seq_del c k = (Done (), c')"
  by (auto simp: seq_drop_def split: prod.splits outcome.splits)

lemma seq_drop_None: "seq_inv c \<Longrightarrow> (seq_drop c k = None) = (fst (seq_del c k) = Notok)"
  by (auto simp: seq_drop_def elim!: seq_invE split: option.splits prod.splits outcome.splits)

interpretation seqs: member_store seq_inv "\<lambda>i. 0 \<le> i" "\<lambda>_ _. True" set_off
  seq_lookup seq_put seq_drop
proof
  fix c c' k v j
  assume inv: "seq_inv c" and k: "0 \<le> (k :: int)"
  show "\<exists>c'. seq_put c k v = Some c' \<and> seq_inv c'"
    using seq_put_eq [OF inv k] seq_add_correct(2) [OF inv k] by blast
  show "(seq_drop c k = None) = (seq_lookup c k = None)"
    using seq_drop_None [OF inv] seq_del_correct(1) [OF inv] by simp
  show "seq_lookup c' j = (if j = k then Some (set_off k v) else seq_lookup c j)"
    if "seq_put c k v = Some c'"
    using that seq_put_eq [OF inv k] seq_add_correct(3) [OF inv k] by auto
  show "seq_inv c'" and "seq_lookup c' j = (if j = k then None else seq_lookup c j)"
    if "seq_drop c k = Some c'"
    using seq_drop_eq [OF that] seq_del_correct(2,3) [OF inv, of k] by auto
qed

section \<open>Sets implement the contract\<close>

fun set_inv :: "PE \<Rightarrow> bool" where
  "set_inv (CONS h ps) \<longleftrightarrow> distinct (map key ps)"
| "set_inv _ \<longleftrightarrow> False"

definition set_lookup :: "PE \<Rightarrow> 8 word \<times> 16 word \<Rightarrow> PE option" where
  "set_lookup pe k = (case set_find pe (fst k) (snd k) of (Done r, _) \<Rightarrow> r | _ \<Rightarrow> None)"

definition set_put :: "PE \<Rightarrow> 8 word \<times> 16 word \<Rightarrow> PE \<Rightarrow> PE option" where
  "set_put pe k r = (case set_add pe (Some r) of (Done _, pe') \<Rightarrow> Some pe' | _ \<Rightarrow> None)"

definition set_drop :: "PE \<Rightarrow> 8 word \<times> 16 word \<Rightarrow> PE option" where
  "set_drop pe k = (case set_del pe (fst k) (snd k) of (Done _, pe') \<Rightarrow> Some pe' | _ \<Rightarrow> None)"

text \<open>
  Two tags have the same key exactly when they agree on the two class bits and the fourteen
  identifier bits that \<^verbatim>\<open>PE_ID\<close> keeps.
\<close>

lemma PE_ID_unat: "unat (PE_ID cl i) = 4 * (unat i mod 16384) + unat cl mod 4"
proof -
  have a: "(ucast i :: 32 word) AND 0x3fff = take_bit 14 (ucast i)"
    by (simp add: take_bit_eq_mask mask_eq_exp_minus_1)
  have b: "(ucast cl :: 32 word) AND 3 = take_bit 2 (ucast cl)"
    by (simp add: take_bit_eq_mask mask_eq_exp_minus_1)
  have "PE_ID cl i = push_bit 2 (take_bit 14 (ucast i)) OR take_bit 2 (ucast cl)"
    by (simp add: PE_ID_def a b)
  then have "unat (PE_ID cl i) =
      push_bit 2 (take_bit 14 (unat i)) OR take_bit 2 (unat cl)"
    by (simp add: unsigned_or_eq unsigned_push_bit_eq unsigned_take_bit_eq unsigned_ucast_eq
        take_bit_push_bit)
  also have "\<dots> = push_bit 2 (take_bit 14 (unat i)) + take_bit 2 (unat cl)"
    by (rule disjunctive_add_eq_or [symmetric]) (auto simp: bit_eq_iff bit_simps)
  finally show ?thesis by (simp add: push_bit_eq_mult take_bit_eq_mod)
qed

definition tag_ok :: "8 word \<times> 16 word \<Rightarrow> bool" where
  "tag_ok k \<longleftrightarrow> unat (fst k) < 4 \<and> unat (snd k) < 16384"

lemma PE_ID_inj:
  assumes "tag_ok k" "tag_ok j" "PE_ID (fst k) (snd k) = PE_ID (fst j) (snd j)"
  shows "k = j"
proof -
  have "4 * unat (snd k) + unat (fst k) = 4 * unat (snd j) + unat (fst j)"
    using PE_ID_unat [of "fst k" "snd k"] PE_ID_unat [of "fst j" "snd j"] assms
    by (simp add: tag_ok_def)
  moreover have "(4 * a + b) div 4 = a" "(4 * a + b) mod 4 = b" if "b < 4" for a b :: nat
    using that by simp_all
  ultimately have "unat (snd k) = unat (snd j)" "unat (fst k) = unat (fst j)"
    using assms(1,2) unfolding tag_ok_def by metis+
  then show ?thesis by (simp add: prod_eq_iff word_unat_eq_iff)
qed

lemma set_find_loop_unique:
  "distinct (map key ps) \<Longrightarrow>
     (pfound \<noteq> None \<longrightarrow> (\<forall>p \<in> set ps. k \<noteq> key p)) \<Longrightarrow>
     set_find_loop k pfound ps =
       Inr (case List.find (\<lambda>p. key p = k) ps of None \<Rightarrow> pfound | Some p \<Rightarrow> Some p)"
proof (induction k pfound ps rule: set_find_loop.induct)
  case (2 k pfound p ps)
  have "key p = k \<Longrightarrow> List.find (\<lambda>p. key p = k) ps = None"
    using "2.prems"(1) by (auto simp: find_None_iff image_iff)
  with 2 show ?case by (auto simp: image_iff split: option.splits)
qed simp

lemma set_lookup_find:
  "distinct (map key ps) \<Longrightarrow>
     set_lookup (CONS h ps) k = List.find (\<lambda>p. key p = PE_ID (fst k) (snd k)) ps"
  by (simp add: set_lookup_def set_find_loop_unique split: option.splits)

lemma set_del_loop_find:
  "distinct (map key ps) \<Longrightarrow> set_del_loop k ps = Some ps' \<Longrightarrow>
     distinct (map key ps') \<and> set ps' \<subseteq> set ps \<and>
     (\<forall>j. List.find (\<lambda>p. key p = j) ps' =
        (if j = k then None else List.find (\<lambda>p. key p = j) ps))"
proof (induction k ps arbitrary: ps' rule: set_del_loop.induct)
  case (2 k q qs)
  then show ?case by (fastforce simp: find_None_iff image_iff split: if_splits)
qed simp

lemma set_del_loop_None:
  "(set_del_loop k ps = None) = (List.find (\<lambda>p. key p = k) ps = None)"
  by (induction k ps rule: set_del_loop.induct) auto

lemma find_append_new:
  "\<forall>q \<in> set ps. key q \<noteq> key r \<Longrightarrow>
     List.find (\<lambda>p. key p = j) (ps @ [r]) =
       (if j = key r then Some r else List.find (\<lambda>p. key p = j) ps)"
  by (induction ps) auto

lemma set_invE:
  assumes "set_inv pe"
  obtains h ps where "pe = CONS h ps" "distinct (map key ps)"
  using assms by (cases pe) auto

interpretation sets: member_store set_inv tag_ok "\<lambda>k v. key v = PE_ID (fst k) (snd k)" "\<lambda>_ v. v"
  set_lookup set_put set_drop
proof
  fix c c' k v j
  assume inv: "set_inv c" and k: "tag_ok k"
  obtain h ps where c: "c = CONS h ps" and ps: "distinct (map key ps)"
    using inv by (rule set_invE)
  note look = set_lookup_find [OF ps]
  show "(set_drop c k = None) = (set_lookup c k = None)"
    by (simp add: c look set_drop_def set_del_loop_None [symmetric] split: option.splits)
  {
    assume v: "key v = PE_ID (fst k) (snd k)" and new: "set_lookup c k = None"
    have fresh: "\<forall>q \<in> set ps. key q \<noteq> key v"
      using new v by (simp add: c look find_None_iff)
    then have put: "set_put c k v = Some (CONS h (ps @ [v]))"
      by (simp add: set_put_def c)
    have inv': "set_inv (CONS h (ps @ [v]))" using fresh ps by auto
    with put show "\<exists>c'. set_put c k v = Some c' \<and> set_inv c'" by blast
    assume "set_put c k v = Some c'" and j: "tag_ok j"
    with put inv' fresh v show "set_lookup c' j = (if j = k then Some v else set_lookup c j)"
      using PE_ID_inj [OF k j] by (auto simp: c look set_lookup_find find_append_new [OF fresh])
  }
  assume "set_drop c k = Some c'"
  then obtain ps' where del: "set_del_loop (PE_ID (fst k) (snd k)) ps = Some ps'" "c' = CONS h ps'"
    by (auto simp: set_drop_def c split: option.splits)
  note ps' = set_del_loop_find [OF ps del(1)]
  then show "set_inv c'" by (simp add: del)
  show "set_lookup c' j = (if j = k then None else set_lookup c j)" if "tag_ok j"
    using ps' PE_ID_inj [OF k that] by (auto simp: c look del set_lookup_find)
qed

section \<open>Properties\<close>



text \<open>
  the shortcut \<^verbatim>\<open>seq_addon\<close>, given the last member, does exactly what appending with
  \<^verbatim>\<open>seq_add (pe, new, -1)\<close> does.
\<close>

theorem seq_addon_eq_seq_add:
  assumes "seq_inv (CONS h ps)" "ps \<noteq> []"
  shows "seq_addon (Some (CONS h ps)) (Some (length ps - 1)) new =
    (case seq_add (CONS h ps) (Some new) (- 1) of (r, pe') \<Rightarrow> (r, Some pe'))"
proof -
  have "seq_ins (pe_cardinal h) (set_off (pe_cardinal h) new) ps
      = ps @ [set_off (pe_cardinal h) new]"
    using assms by (intro seq_ins_append) auto
  with assms show ?thesis by (simp add: Let_def)
qed

theorem seq_addon_eq_seq_add_witness:
  "seq_addon (Some (CONS ((hdr0 0 16)\<lparr>pe_un2 := 1\<rparr>) [PRIM (hdr0 0 5) None])) (Some 0)
       (PRIM (hdr0 0 1) None) =
     (Done (), Some (CONS ((hdr0 0 16)\<lparr>pe_un2 := 2\<rparr>)
        [PRIM (hdr0 0 5) None, set_off 1 (PRIM (hdr0 0 1) None)]))"
  using seq_addon_eq_seq_add
    [of "(hdr0 0 16)\<lparr>pe_un2 := 1\<rparr>" "[PRIM (hdr0 0 5) None]" "PRIM (hdr0 0 1) None"]
  by (simp add: hdr0_def)

text \<open>
  C19: \<^verbatim>\<open>seq_del\<close> removes exactly the member at the offset, fails exactly when there is none, and
  keeps the sequence invariant.
\<close>

theorem seq_del_find:
  assumes "seq_inv pe"
  shows "if seq_lookup pe i = None then fst (seq_del pe i) = Notok
    else \<exists>pe'. seq_del pe i = (Done (), pe') \<and> seq_inv pe' \<and>
      (\<forall>j. seq_lookup pe' j = (if j = i then None else seq_lookup pe j))"
proof -
  have "fst (seq_del pe i) = Notok \<or> fst (seq_del pe i) = Done ()"
    using assms by (auto elim!: seq_invE split: option.splits prod.splits)
  with seq_del_correct [OF assms, of i] show ?thesis
    by (metis outcome.distinct(1) prod.collapse)
qed

theorem seq_del_find_witness:
  "fst (seq_del (CONS ((hdr0 0 16)\<lparr>pe_un2 := 1\<rparr>) [PRIM (hdr0 0 5) None]) 4) = Notok"
proof -
  have inv: "seq_inv (CONS ((hdr0 0 16)\<lparr>pe_un2 := 1\<rparr>) [PRIM (hdr0 0 5) None])"
    by (simp add: hdr0_def)
  have "seq_lookup (CONS ((hdr0 0 16)\<lparr>pe_un2 := 1\<rparr>) [PRIM (hdr0 0 5) None]) 4 = None"
    by (simp add: seq_lookup_def)
  then show ?thesis using seq_del_find [OF inv, of 4] by simp
qed

text \<open>
  deleting the only member of a sequence leaves the cardinality at 1, not 0: the loop of
  \<^verbatim>\<open>seq_del\<close> starts its notion of "the offset before" at 0. The next append therefore lands at
  offset 1 of an otherwise empty sequence.
\<close>

theorem seq_del_sole_member_cardinal:
  "snd (seq_del (CONS h [p]) (off p)) = CONS (h\<lparr>pe_un2 := 1\<rparr>) [] \<and>
   snd (seq_add (snd (seq_del (CONS h [p]) (off p))) (Some r) (- 1)) =
     CONS (h\<lparr>pe_un2 := 2\<rparr>) [set_off 1 r]"
  by (simp add: Let_def)



end
