(* ===== verification/PNumber.thy ===== *)
theory PNumber
  imports PElement
begin

text \<open>
  BOOLEAN and INTEGER primitives (\<^verbatim>\<open>psap/flag2prim.c\<close>, \<^verbatim>\<open>psap/prim2flag.c\<close>,
  \<^verbatim>\<open>psap/num2prim.c\<close>, \<^verbatim>\<open>psap/prim2num.c\<close>). The C type \<^verbatim>\<open>integer\<close> is a 32-bit two's
  complement integer, modelled as a 32-bit word read with \<open>sint\<close>.
\<close>

section \<open>BOOLEAN\<close>

definition flag2prim :: "(int \<Rightarrow> bool) \<Rightarrow> int \<Rightarrow> int \<Rightarrow> int \<Rightarrow> PE option" where
  "flag2prim mem b class i =
     (case (int2u8 class, int2u16 i) of
        (Some cl, Some pid) \<Rightarrow>
          if malloc_int mem 1
          then (case int2u8 (if b \<noteq> 0 then 0xff else 0) of
                  Some v \<Rightarrow> Some (PRIM ((hdr0 cl pid)\<lparr>pe_len := 1\<rparr>) (Some [v]))
                | None \<Rightarrow> None)
          else None
      | _ \<Rightarrow> None)"

fun prim2flag :: "PE \<Rightarrow> int outcome \<times> PE" where
  "prim2flag (PRIM h (Some bs)) =
     (if pe_len h = 0 then (Notok, pe_seterr (PRIM h (Some bs)) PE_ERR_PRIM)
      else case bs of
        [] \<Rightarrow> (Fault, PRIM h (Some bs))
      | c # _ \<Rightarrow> (Done (if c \<noteq> 0 then 1 else 0), PRIM h (Some bs)))"
| "prim2flag pe = (Notok, pe_seterr pe PE_ERR_PRIM)"

section \<open>INTEGER\<close>

text \<open>
  The loop of \<^verbatim>\<open>num2prim\<close> that finds the shortest length: the mask covers the bits of the leading
  octets and the top bit of the first octet kept.
\<close>

fun num_len :: "nat \<Rightarrow> 32 word \<Rightarrow> 32 word \<Rightarrow> nat" where
  "num_len n sign m =
     (if n > 1 \<and> sign AND m = 0 then num_len (n - 1) sign (signed_drop_bit 8 m) else n)"

declare num_len.simps [simp del]

text \<open>The loop that stores the octets from the last to the first.\<close>

fun num_octets :: "nat \<Rightarrow> 32 word \<Rightarrow> byte list" where
  "num_octets 0 i = []"
| "num_octets (Suc n) i = num_octets n (signed_drop_bit 8 i) @ [ucast (i AND 0xff)]"

definition num2prim :: "(int \<Rightarrow> bool) \<Rightarrow> 32 word \<Rightarrow> int \<Rightarrow> int \<Rightarrow> PE option" where
  "num2prim mem i class ident =
     (case (int2u8 class, int2u16 ident) of
        (Some cl, Some pid) \<Rightarrow>
          let sign = (if sint i \<ge> 0 then i else i XOR (- 1));
              n = num_len 4 sign (push_bit 23 0x1ff)
          in if malloc_int mem (int n)
             then Some (PRIM ((hdr0 cl pid)\<lparr>pe_len := int n\<rparr>) (Some (num_octets n i)))
             else None
      | _ \<Rightarrow> None)"

definition num_value :: "byte list \<Rightarrow> 32 word" where
  "num_value bs =
     foldl (\<lambda>i c. push_bit 8 i OR ucast c) (if hd bs AND 0x80 \<noteq> 0 then - 1 else 0) bs"

text \<open>
  \<^verbatim>\<open>prim2num\<close>: the comparison of \<^verbatim>\<open>pe_len\<close> with \<^verbatim>\<open>sizeof (i)\<close> is unsigned, so a negative length
  is an overflow as well; nine equal leading bits are a syntax error.
\<close>

fun prim2num :: "PE \<Rightarrow> 32 word outcome \<times> PE" where
  "prim2num (PRIM h (Some bs)) =
     (if pe_len h < 0 \<or> pe_len h > 4 then (Notok, pe_seterr (PRIM h (Some bs)) PE_ERR_OVER)
      else let pe = pe_seterr (PRIM h (Some bs)) PE_ERR_NONE in
        case bs of
          [] \<Rightarrow> (Fault, pe)
        | c # cs \<Rightarrow>
            if pe_len h > 1 \<and> cs \<noteq> []
               \<and> (c = 0 \<and> hd cs AND 0x80 = 0 \<or> c = 0xff \<and> hd cs AND 0x80 = 0x80)
            then (Notok, pe_seterr pe PE_ERR_SYNTAX)
            else (Done (num_value (take (nat (pe_len h)) bs)), pe))"
| "prim2num pe = (Notok, pe_seterr pe PE_ERR_PRIM)"

section \<open>Lemmas\<close>

lemma not_mask_drop:
  "k + 8 < 32 \<Longrightarrow> signed_drop_bit 8 (NOT (mask (k + 8)) :: 32 word) = NOT (mask k)"
  by (rule bit_word_eqI) (auto simp: bit_simps min_def)

lemma num_mask_start: "push_bit 23 0x1ff = (NOT (mask 23) :: 32 word)"
  by (simp add: mask_eq_exp_minus_1)

lemma and_not_mask_zero:
  "(x AND NOT (mask k) = 0) = (\<forall>j. k \<le> j \<and> j < 32 \<longrightarrow> \<not> bit x j)" for x :: "32 word"
  by (auto simp: bit_eq_iff bit_simps linorder_not_less [symmetric])

text \<open>
  \<open>num_fits n i\<close>: all bits of \<open>i\<close> from the top bit of its \<open>n\<close>-octet form on agree with the sign.
\<close>

definition num_fits :: "nat \<Rightarrow> 32 word \<Rightarrow> bool" where
  "num_fits n i \<longleftrightarrow> (\<forall>j. 8 * n - 1 \<le> j \<and> j < 32 \<longrightarrow> bit i j = bit i 31)"

lemma num_fits_at: "num_fits n i \<Longrightarrow> 8 * n \<le> Suc j \<Longrightarrow> j < 32 \<Longrightarrow> bit i j = bit i 31"
  unfolding num_fits_def by (metis diff_le_mono diff_Suc_1)

lemma sign_bit: "(sint (i :: 32 word) \<ge> 0) = (\<not> bit i 31)"
  using bit_last_iff [of i] by (simp add: not_less)

lemma sign_fits:
  "((if sint i \<ge> 0 then i else i XOR (- 1)) AND NOT (mask (8 * n - 1)) = 0) = num_fits n i"
  by (auto simp: and_not_mask_zero num_fits_def sign_bit bit_simps)

lemma num_len_unfold:
  "num_len 4 s (NOT (mask 23)) =
     (if s AND NOT (mask 23) \<noteq> 0 then 4 else if s AND NOT (mask 15) \<noteq> 0 then 3
      else if s AND NOT (mask 7) \<noteq> 0 then 2 else 1)"
proof -
  have "signed_drop_bit 8 (NOT (mask 23) :: 32 word) = NOT (mask 15)"
    "signed_drop_bit 8 (NOT (mask 15) :: 32 word) = NOT (mask 7)"
    using not_mask_drop [of 15] not_mask_drop [of 7] by simp_all
  then show ?thesis by (simp add: num_len.simps)
qed

lemma num_len_fits:
  "num_len 4 (if sint i \<ge> 0 then i else i XOR (- 1)) (push_bit 23 0x1ff) =
     (if \<not> num_fits 3 i then 4 else if \<not> num_fits 2 i then 3 else if \<not> num_fits 1 i then 2 else 1)"
  using sign_fits [of i 3] sign_fits [of i 2] sign_fits [of i 1]
  unfolding num_mask_start num_len_unfold by simp

lemma num_fits_4: "num_fits 4 i"
  by (auto simp: num_fits_def le_less_Suc_eq dest: le_antisym)

lemma length_num_octets [simp]: "length (num_octets n i) = n"
  by (induction n i rule: num_octets.induct) auto

lemma nth_num_octets:
  "k < n \<Longrightarrow> n \<le> 4 \<Longrightarrow> j < 8 \<Longrightarrow> bit (num_octets n i ! k) j = bit i (8 * (n - 1 - k) + j)"
proof (induction n i rule: num_octets.induct)
  case (2 n i)
  show ?case
  proof (cases "k < n")
    case True
    then have idx: "8 * (n - 1 - k) + j + 8 = 8 * (Suc n - 1 - k) + j" by simp
    have "8 * (n - 1 - k) + j < 24" using 2 by simp
    then have "bit (num_octets n (signed_drop_bit 8 i) ! k) j = bit i (8 * (n - 1 - k) + j + 8)"
      using 2 True by (simp add: bit_signed_drop_bit_iff add.commute)
    with True show ?thesis unfolding idx by (simp add: nth_append)
  next
    case False
    have m: "(0xff :: 32 word) = mask 8" by (simp add: mask_eq_exp_minus_1)
    from False 2 show ?thesis by (auto simp: nth_append m bit_simps)
  qed
qed simp

lemma num_octets_foldl:
  "n \<le> 4 \<Longrightarrow> foldl (\<lambda>i c. push_bit 8 i OR ucast c) a (num_octets n i) =
     push_bit (8 * n) a OR take_bit (8 * n) i"
proof (induction n i rule: num_octets.induct)
  case (2 n i)
  have m: "(0xff :: 32 word) = mask 8" by (simp add: mask_eq_exp_minus_1)
  from 2 show ?case
    by (auto simp: m intro!: bit_word_eqI) (auto simp: bit_simps split: if_splits)
qed simp

lemma num_value_octets:
  assumes "1 \<le> n" "n \<le> 4" "num_fits n i"
  shows "num_value (num_octets n i) = i"
proof -
  have "hd (num_octets n i) = num_octets n i ! 0"
    using assms(1) by (intro hd_conv_nth) (metis length_num_octets list.size(3) not_one_le_zero)
  moreover have "bit i (8 * (n - 1) + 7) = bit i 31"
    using assms(1,2) by (intro num_fits_at [OF assms(3)]) auto
  ultimately have "bit (hd (num_octets n i)) 7 = bit i 31"
    using nth_num_octets [of 0 n 7 i] assms(1,2) by simp
  then have "num_value (num_octets n i) =
      push_bit (8 * n) (if bit i 31 then - 1 else 0) OR take_bit (8 * n) i"
    using assms(2) by (simp add: num_value_def and_0x80 num_octets_foldl)
  also have "\<dots> = i"
  proof (rule bit_word_eqI)
    fix j assume "j < LENGTH(32)"
    moreover from this have "8 * n \<le> j \<Longrightarrow> bit i j = bit i 31"
      by (intro num_fits_at [OF assms(3)]) auto
    ultimately show
      "bit (push_bit (8 * n) (if bit i 31 then - 1 else 0) OR take_bit (8 * n) i) j = bit i j"
      by (cases "j < 8 * n") (auto simp: bit_simps)
  qed
  finally show ?thesis .
qed

text \<open>An octet string with nine equal leading bits would have fitted in one octet less.\<close>

lemma num_octets_leading:
  assumes "2 \<le> n" "n \<le> 4" "num_fits n i"
    and top: "\<forall>j < 8. bit (num_octets n i ! 0) j = b" and nxt: "bit (num_octets n i ! 1) 7 = b"
  shows "num_fits (n - 1) i"
proof -
  have "8 * (n - 1 - 1) + 7 = 8 * (n - 1) - 1" using assms(1) by arith
  then have low: "bit i (8 * (n - 1) - 1) = b"
    using nth_num_octets [of 1 n 7 i] assms(1,2) nxt by simp
  have mid: "bit i (8 * (n - 1) + j) = b" if "j < 8" for j
    using nth_num_octets [of 0 n j i] assms(1,2) top that by simp
  have "8 * (n - 1) + 7 < 32" "8 * n \<le> Suc (8 * (n - 1) + 7)" using assms(1,2) by auto
  then have b: "bit i 31 = b" using num_fits_at [OF assms(3), of "8 * (n - 1) + 7"] mid [of 7] by simp
  have "bit i j = b" if j: "8 * (n - 1) - 1 \<le> j" "j < 32" for j
  proof -
    consider "j = 8 * (n - 1) - 1" | "8 * (n - 1) \<le> j" "j < 8 * n" | "8 * n \<le> j"
      using j by linarith
    then show ?thesis
    proof cases
      case 2
      then have "j - 8 * (n - 1) < 8" using assms(1) by arith
      from mid [OF this] 2 show ?thesis by simp
    qed (use low b num_fits_at [OF assms(3), of j] j in auto)
  qed
  with b show ?thesis by (simp add: num_fits_def)
qed

lemma num_octets_syntax:
  assumes "2 \<le> n" "n \<le> 4" "num_fits n i" "\<not> num_fits (n - 1) i"
  shows "\<not> (num_octets n i ! 0 = 0 \<and> \<not> bit (num_octets n i ! 1) 7 \<or>
    num_octets n i ! 0 = 0xff \<and> bit (num_octets n i ! 1) 7)"
proof -
  have m: "(0xff :: byte) = mask 8" by (simp add: mask_eq_exp_minus_1)
  have "\<not> (num_octets n i ! 0 = 0 \<and> \<not> bit (num_octets n i ! 1) 7)"
    using num_octets_leading [OF assms(1-3), of False] assms(4) by (metis bit_0_eq bot_apply bot_bool_def)
  moreover have "\<not> (num_octets n i ! 0 = 0xff \<and> bit (num_octets n i ! 1) 7)"
    using num_octets_leading [OF assms(1-3), of True] assms(4) by (auto simp: m bit_simps)
  ultimately show ?thesis by blast
qed

lemma flag2prim_roundtrip:
  assumes "0 \<le> class" "class \<le> 255" "0 \<le> ident" "ident \<le> 65535"
  shows "\<exists>pe. flag2prim (\<lambda>_. True) b class ident = Some pe \<and> pe_wf pe \<and>
    fst (prim2flag pe) = Done (if b = 0 then 0 else 1)"
  using assms by (simp add: flag2prim_def conv_simps)

section \<open>Properties\<close>

text \<open>
  C21: \<^verbatim>\<open>prim2num\<close> reads back every integer that \<^verbatim>\<open>num2prim\<close> encodes, for any tag; the encoding has
  one to four octets and \<^verbatim>\<open>pe_len\<close> counts them.
\<close>

theorem num2prim_roundtrip:
  assumes "0 \<le> class" "class \<le> 255" "0 \<le> ident" "ident \<le> 65535"
  shows "\<exists>pe. num2prim (\<lambda>_. True) i class ident = Some pe \<and> pe_wf pe \<and>
    1 \<le> pe_len (pe_hdr pe) \<and> pe_len (pe_hdr pe) \<le> 4 \<and> fst (prim2num pe) = Done i"
proof -
  define n where "n = num_len 4 (if sint i \<ge> 0 then i else i XOR (- 1)) (push_bit 23 0x1ff)"
  have n: "1 \<le> n" "n \<le> 4" "num_fits n i" "1 < n \<longrightarrow> \<not> num_fits (n - 1) i"
    unfolding n_def num_len_fits using num_fits_4 [of i] by auto
  define pe where "pe = PRIM ((hdr0 (word_of_int class) (word_of_int ident))\<lparr>pe_len := int n\<rparr>)
    (Some (num_octets n i))"
  have num: "num2prim (\<lambda>_. True) i class ident = Some pe"
    using assms by (simp add: num2prim_def conv_simps n_def pe_def Let_def)
  obtain c cs where cs: "num_octets n i = c # cs"
    using n(1) length_num_octets [of n i] by (cases "num_octets n i") auto
  have "\<not> (1 < n \<and> cs \<noteq> [] \<and> (c = 0 \<and> hd cs AND 0x80 = 0 \<or> c = 0xff \<and> hd cs AND 0x80 = 0x80))"
  proof
    assume *: "1 < n \<and> cs \<noteq> [] \<and> (c = 0 \<and> hd cs AND 0x80 = 0 \<or> c = 0xff \<and> hd cs AND 0x80 = 0x80)"
    then have "num_octets n i ! 1 = hd cs" by (simp add: cs hd_conv_nth)
    with * num_octets_syntax [of n i] n cs show False by (auto simp: and_0x80)
  qed
  then have "fst (prim2num pe) = Done (num_value (num_octets n i))"
    using n(1,2) length_num_octets [of n i] unfolding pe_def cs by (auto simp: Let_def)
  then show ?thesis
    using num n num_value_octets by (auto simp: pe_def)
qed

theorem num2prim_roundtrip_witness:
  "\<exists>pe. num2prim (\<lambda>_. True) (- 129) 0 2 = Some pe \<and> fst (prim2num pe) = Done (- 129)"
  using num2prim_roundtrip [of 0 2 "- 129"] by auto

end
