(* ===== verification/POid.thy ===== *)
theory POid
  imports PNumber
begin

text \<open>
  OBJECT IDENTIFIERs (\<^verbatim>\<open>psap/oid_cmp.c\<close>, \<^verbatim>\<open>psap/oid_cpy.c\<close>, \<^verbatim>\<open>psap/obj2prim.c\<close>,
  \<^verbatim>\<open>psap/prim2oid.c\<close>, \<^verbatim>\<open>psap/str2oid.c\<close>, \<^verbatim>\<open>psap/sprintoid.c\<close>, \<^verbatim>\<open>compat/str2elem.c\<close>). An OID is its
  list of sub-identifiers, 32-bit unsigned integers; a null pointer is \<open>None\<close>.
\<close>

type_synonym OID = "32 word list"

section \<open>Comparison and copy\<close>

fun elem_cmp :: "32 word list \<Rightarrow> 32 word list \<Rightarrow> int" where
  "elem_cmp [] js = (if js = [] then 0 else - 1)"
| "elem_cmp (i # is) [] = 1"
| "elem_cmp (i # is) (j # js) = (if i > j then 1 else if i < j then - 1 else elem_cmp is js)"

text \<open>
  \<^verbatim>\<open>oid_cmp\<close> tests its first argument for a null pointer; a null second argument with a non-null
  first is dereferenced.
\<close>

fun oid_cmp :: "OID option \<Rightarrow> OID option \<Rightarrow> int outcome" where
  "oid_cmp None q = Done (if q = None then 0 else - 1)"
| "oid_cmp (Some p) None = Fault"
| "oid_cmp (Some p) (Some q) = Done (elem_cmp p q)"

definition oid_cpy :: "OID option \<Rightarrow> OID option" where
  "oid_cpy q = (case q of None \<Rightarrow> None | Some es \<Rightarrow> if length es < 1 then None else Some es)"

section \<open>Encoding\<close>

text \<open>The number of seven-bit groups of a sub-identifier.\<close>

function sub_len :: "32 word \<Rightarrow> nat" where
  "sub_len j = (let k = drop_bit 7 j in if k = 0 then 1 else Suc (sub_len k))"
  by auto
termination
proof (relation "measure unat", goal_cases)
  case (2 j k)
  then have "j \<noteq> 0" by auto
  then have "unat j \<noteq> 0" by (simp add: unat_eq_zero)
  then have "unat j div 128 < unat j" by simp
  with 2 show ?case by (simp add: drop_bit_eq_div unat_div)
qed simp

declare sub_len.simps [simp del]

fun sub_fill :: "nat \<Rightarrow> 32 word \<Rightarrow> byte list" where
  "sub_fill 0 j = []"
| "sub_fill (Suc m) j = sub_fill m (drop_bit 7 j) @ [ucast (j AND 0x7f) OR 0x80]"

text \<open>All octets get the more-to-come bit, then it is cleared in the last one.\<close>

definition sub_octets :: "32 word \<Rightarrow> byte list" where
  "sub_octets j = (let bs = sub_fill (sub_len j) j in butlast bs @ [u8_bic (last bs) 0x80])"

fun oid_total :: "int \<Rightarrow> 32 word list \<Rightarrow> int option" where
  "oid_total n [] = Some n"
| "oid_total n (j # js) =
     (case add_int_to_int n (int (sub_len j)) of None \<Rightarrow> None | Some n' \<Rightarrow> oid_total n' js)"

text \<open>The sub-identifiers as encoded: the first two share one number, computed modulo \<open>2^32\<close>.\<close>

fun oid_subs :: "OID \<Rightarrow> 32 word list" where
  "oid_subs (a # b # es) = (a * 40 + b) # es"
| "oid_subs es = es"

definition obj2prim :: "(int \<Rightarrow> bool) \<Rightarrow> OID option \<Rightarrow> 8 word \<Rightarrow> 16 word \<Rightarrow> PE option" where
  "obj2prim mem ob class i =
     (case ob of None \<Rightarrow> None
      | Some es \<Rightarrow>
          if length es \<le> 1 \<or> es ! 0 > 2 \<or> (es ! 0 < 2 \<and> es ! 1 > 39)
             \<or> \<not> malloc_int mem (4 * int (length es)) then None
          else case oid_total 0 (oid_subs es) of
            None \<Rightarrow> None
          | Some n \<Rightarrow>
              if malloc_int mem n
              then Some (PRIM ((hdr0 class i)\<lparr>pe_len := n\<rparr>)
                     (Some (concat (map sub_octets (oid_subs es)))))
              else None)"

section \<open>Decoding\<close>

text \<open>
  The first loop of \<^verbatim>\<open>prim2oid\<close> counts the sub-identifiers. Its inner loop tests the pointer
  against the end only after it has fetched the octet, so a last octet that announces another one
  makes it read past the contents.
\<close>

fun oid_scan :: "byte list \<Rightarrow> nat \<Rightarrow> nat outcome"
and oid_skip :: "byte list \<Rightarrow> nat \<Rightarrow> nat outcome" where
  "oid_scan [] i = Done i"
| "oid_scan (c # cs) i = (if c = 0x80 then Notok else oid_skip (c # cs) i)"
| "oid_skip [] i = Fault"
| "oid_skip (c # cs) i = (if c AND 0x80 \<noteq> 0 then oid_skip cs i else oid_scan cs (i + 1))"

text \<open>
  The second loop: shift seven bits in per octet until one without the more-to-come bit. Larger
  sub-identifiers wrap at 32 bits.
\<close>

definition sub_step :: "32 word \<Rightarrow> byte \<Rightarrow> 32 word" where
  "sub_step i c = push_bit 7 i OR ucast (c AND 0x7f)"

fun oid_dec :: "32 word \<Rightarrow> byte list \<Rightarrow> 32 word list" where
  "oid_dec i [] = []"
| "oid_dec i (c # cs) =
     (let i' = sub_step i c in if c AND 0x80 \<noteq> 0 then oid_dec i' cs else i' # oid_dec 0 cs)"

fun oid_split :: "32 word list \<Rightarrow> OID" where
  "oid_split [] = []"
| "oid_split (i # is) =
     (if i < 40 then 0 # i # is else if i < 80 then 1 # (i - 40) # is else 2 # (i - 80) # is)"

fun prim2oid :: "(int \<Rightarrow> bool) \<Rightarrow> PE \<Rightarrow> OID outcome \<times> PE" where
  "prim2oid mem (PRIM h (Some bs)) =
     (if pe_len h = 0 then (Notok, pe_seterr (PRIM h (Some bs)) PE_ERR_PRIM)
      else if pe_len h < 0 then (Fault, PRIM h (Some bs))
      else case oid_scan (take (nat (pe_len h)) bs) 1 of
        Done n \<Rightarrow>
          (case sizet2int n of
             None \<Rightarrow> (Notok, pe_seterr (PRIM h (Some bs)) PE_ERR_NMEM)
           | Some nelem \<Rightarrow>
               (case add_int_to_int nelem 1 of
                  None \<Rightarrow> (Notok, pe_seterr (PRIM h (Some bs)) PE_ERR_NMEM)
                | Some nalloc \<Rightarrow>
                    if malloc_int mem (4 * nalloc)
                    then (Done (oid_split (oid_dec 0 (take (nat (pe_len h)) bs))), PRIM h (Some bs))
                    else (Notok, pe_seterr (PRIM h (Some bs)) PE_ERR_NMEM)))
      | Notok \<Rightarrow> (Notok, pe_seterr (PRIM h (Some bs)) PE_ERR_OID)
      | Fault \<Rightarrow> (Fault, PRIM h (Some bs))
      | Spent \<Rightarrow> (Spent, PRIM h (Some bs)))"
| "prim2oid mem pe = (Notok, pe_seterr pe PE_ERR_PRIM)"

section \<open>Lemmas on sub-identifiers\<close>

abbreviation sub_groups :: "32 word \<Rightarrow> byte list" where
  "sub_groups j \<equiv> sub_fill (sub_len j) j"

lemma sub_groups_rec:
  "sub_groups j = (if drop_bit 7 j = 0 then [] else sub_groups (drop_bit 7 j))
     @ [ucast (j AND 0x7f) OR 0x80]"
  by (subst sub_len.simps) (simp add: Let_def)

lemma sub_groups_more: "c \<in> set (sub_groups j) \<Longrightarrow> bit c 7"
proof (induction j rule: sub_len.induct)
  case (1 j)
  then show ?case
    by (subst (asm) sub_groups_rec) (auto simp: bit_simps bit_0x80 split: if_splits)
qed

lemma sub_step_group: "sub_step (drop_bit 7 j) (ucast (j AND 0x7f) OR 0x80) = j"
  unfolding sub_step_def mask7
proof (rule bit_word_eqI)
  fix n assume "n < LENGTH(32)"
  then show "bit (push_bit 7 (drop_bit 7 j) OR
      ucast ((ucast (j AND mask 7) OR (0x80 :: byte)) AND mask 7)) n = bit j n"
    by (cases "n < 7") (auto simp: bit_simps bit_0x80)
qed

lemma sub_groups_foldl: "foldl sub_step 0 (sub_groups j) = j"
proof (induction j rule: sub_len.induct)
  case (1 j)
  then show ?case
    using sub_step_group [of j] by (subst sub_groups_rec) auto
qed

lemma sub_groups_nonempty [simp]: "sub_groups j \<noteq> []"
  by (subst sub_groups_rec) simp

lemma sub_groups_hd: "drop_bit 7 j \<noteq> 0 \<Longrightarrow> hd (sub_groups j) \<noteq> 0x80"
proof (induction j rule: sub_len.induct)
  case (1 j)
  let ?k = "drop_bit 7 j"
  have "hd (sub_groups j) = hd (sub_groups ?k)"
    using "1.prems" by (subst sub_groups_rec) simp
  moreover have "hd (sub_groups ?k) \<noteq> 0x80" if "drop_bit 7 ?k = 0"
  proof
    assume "hd (sub_groups ?k) = 0x80"
    with that have eq: "ucast (?k AND 0x7f) OR 0x80 = (0x80 :: byte)"
      by (subst (asm) sub_groups_rec) simp
    have "?k = 0"
    proof (rule bit_word_eqI)
      fix n assume "n < LENGTH(32)"
      show "bit ?k n = bit (0 :: 32 word) n"
      proof (cases "n < 7")
        case True
        with arg_cong [OF eq, of "\<lambda>x. bit x n"] show ?thesis
          by (auto simp: mask7 bit_simps bit_0x80)
      next
        case False
        with that have "\<not> bit (drop_bit 7 ?k) (n - 7)" by simp
        with False show ?thesis by (simp add: bit_simps)
      qed
    qed
    with "1.prems" show False by simp
  qed
  ultimately show ?case using 1 by (cases "drop_bit 7 ?k = 0") auto
qed

lemma bic_0x80: "\<not> bit (u8_bic c 0x80) 7" "u8_bic c 0x80 AND 0x7f = c AND 0x7f"
  unfolding u8_bic_def mask7 by (auto simp: bit_simps bit_0x80 intro!: bit_word_eqI)

lemma sub_octets_split:
  obtains bs d where "sub_octets j = bs @ [d]" "\<forall>c \<in> set bs. bit c 7" "\<not> bit d 7"
    "foldl sub_step 0 (bs @ [d]) = j" "hd (bs @ [d]) \<noteq> 0x80"
proof -
  let ?g = "sub_groups j"
  let ?d = "u8_bic (last ?g) 0x80"
  have g: "?g = butlast ?g @ [last ?g]" by simp
  have "sub_step i ?d = sub_step i (last ?g)" for i by (simp add: sub_step_def bic_0x80)
  moreover have "foldl sub_step 0 ?g = sub_step (foldl sub_step 0 (butlast ?g)) (last ?g)"
    by (subst g) (simp only: foldl_append foldl_Cons foldl_Nil)
  ultimately have "foldl sub_step 0 (butlast ?g @ [?d]) = foldl sub_step 0 ?g"
    by simp
  moreover have "hd (butlast ?g @ [?d]) \<noteq> 0x80"
  proof (cases "drop_bit 7 j = 0")
    case True
    then have "butlast ?g = []" by (subst sub_groups_rec) simp
    with bic_0x80(1) [of "last ?g"] show ?thesis by (auto simp: bit_0x80)
  next
    case False
    then have "butlast ?g = sub_groups (drop_bit 7 j)" by (subst sub_groups_rec) simp
    then show ?thesis
      using sub_groups_hd [OF False] g by (metis hd_append2 sub_groups_nonempty)
  qed
  ultimately show thesis
    using that [of "butlast ?g" ?d] sub_groups_more [of _ j] sub_groups_foldl [of j] bic_0x80(1)
    by (auto simp: sub_octets_def Let_def dest: in_set_butlastD)
qed

lemma oid_dec_sub:
  "\<forall>c \<in> set bs. bit c 7 \<Longrightarrow> \<not> bit d 7 \<Longrightarrow>
     oid_dec i (bs @ d # rest) = foldl sub_step i (bs @ [d]) # oid_dec 0 rest"
  by (induction bs arbitrary: i) (auto simp: and_0x80 Let_def)

lemma oid_skip_sub:
  "\<forall>c \<in> set bs. bit c 7 \<Longrightarrow> \<not> bit d 7 \<Longrightarrow> oid_skip (bs @ d # rest) n = oid_scan rest (n + 1)"
  by (induction bs) (auto simp: and_0x80)

lemma oid_scan_sub: "oid_scan (sub_octets j @ rest) n = oid_scan rest (n + 1)"
proof -
  obtain bs d where j: "sub_octets j = bs @ [d]" "\<forall>c \<in> set bs. bit c 7" "\<not> bit d 7"
    "hd (bs @ [d]) \<noteq> 0x80" using sub_octets_split [of j] by metis
  have "oid_scan (bs @ d # rest) n = oid_skip (bs @ d # rest) n"
    using j(4) by (cases bs) auto
  then show ?thesis using j oid_skip_sub by simp
qed

lemma oid_dec_octets: "oid_dec 0 (sub_octets j @ rest) = j # oid_dec 0 rest"
proof -
  obtain bs d where "sub_octets j = bs @ [d]" "\<forall>c \<in> set bs. bit c 7" "\<not> bit d 7"
    "foldl sub_step 0 (bs @ [d]) = j" using sub_octets_split [of j] by metis
  then show ?thesis using oid_dec_sub [of bs d 0 rest] by simp
qed

lemma oid_scan_concat: "oid_scan (concat (map sub_octets js)) n = Done (n + length js)"
  by (induction js arbitrary: n) (auto simp: oid_scan_sub)

lemma oid_dec_concat: "oid_dec 0 (concat (map sub_octets js)) = js"
  by (induction js) (auto simp: oid_dec_octets)

lemma length_sub_fill [simp]: "length (sub_fill m j) = m"
  by (induction m j rule: sub_fill.induct) auto

lemma length_sub_octets [simp]: "length (sub_octets j) = sub_len j"
proof -
  have "0 < length (sub_groups j)" using sub_groups_nonempty length_greater_0_conv by blast
  then show ?thesis by (simp add: sub_octets_def Let_def)
qed

lemma sub_len_bound: "unat j < 128 ^ Suc m \<Longrightarrow> sub_len j \<le> Suc m"
proof (induction m arbitrary: j)
  case 0
  then have "drop_bit 7 j = 0" by (simp add: drop_bit_eq_div word_unat_eq_iff unat_div)
  then show ?case by (simp add: sub_len.simps)
next
  case (Suc m)
  have "unat j < 128 * 128 ^ Suc m" using Suc.prems by (simp only: power_Suc)
  then have "unat j div 128 < 128 ^ Suc m" by (subst div_less_iff_less_mult) (simp_all add: mult.commute)
  then have "sub_len (drop_bit 7 j) \<le> Suc m"
    by (intro Suc.IH) (simp add: drop_bit_eq_div unat_div)
  then show ?case by (subst sub_len.simps) (simp add: Let_def)
qed

lemma sub_len_le: "sub_len j \<le> 5"
proof -
  have "unat j < 2 ^ LENGTH(32)" by (rule unsigned_less)
  then show ?thesis using sub_len_bound [of j 4] by simp
qed

lemma oid_total_sum:
  "0 \<le> n \<Longrightarrow> n + 5 * int (length js) \<le> INT_MAX \<Longrightarrow>
     oid_total n js = Some (n + int (length (concat (map sub_octets js))))"
proof (induction js arbitrary: n)
  case (Cons j js)
  have "int (sub_len j) \<le> 5" using sub_len_le [of j] by simp
  with Cons.prems have "add_int_to_int n (int (sub_len j)) = Some (n + int (sub_len j))"
    by (simp add: conv_simps)
  with Cons \<open>int (sub_len j) \<le> 5\<close> show ?case by (auto simp: o_def)
qed simp

section \<open>The order of object identifiers\<close>

lemma elem_cmp_eq: "elem_cmp p q = 0 \<longleftrightarrow> p = q"
  by (induction p q rule: elem_cmp.induct) auto

lemma elem_cmp_range: "elem_cmp p q \<in> {- 1, 0, 1}"
  by (induction p q rule: elem_cmp.induct) auto

lemma elem_cmp_swap: "elem_cmp q p = - elem_cmp p q"
proof (induction p q rule: elem_cmp.induct)
  case (1 js)
  then show ?case by (cases js) auto
qed auto

lemma elem_cmp_trans: "elem_cmp p q < 0 \<Longrightarrow> elem_cmp q r < 0 \<Longrightarrow> elem_cmp p r < 0"
proof (induction p q arbitrary: r rule: elem_cmp.induct)
  case (1 js)
  then show ?case by (cases js; cases r) (auto split: if_splits)
next
  case (3 i "is" j js)
  then show ?case by (cases r) (auto split: if_splits)
qed auto

section \<open>Properties\<close>

definition oid_valid :: "OID \<Rightarrow> bool" where
  "oid_valid es \<longleftrightarrow> 2 \<le> length es \<and> es ! 0 \<le> 2 \<and> (es ! 0 < 2 \<longrightarrow> es ! 1 \<le> 39) \<and>
     (es ! 0 = 2 \<longrightarrow> es ! 1 \<le> 0xffffffff - 80) \<and> 5 * int (length es) \<le> INT_MAX"

lemma oid_split_subs:
  assumes "oid_valid es"
  shows "oid_split (oid_subs es) = es"
proof -
  obtain a b rest where es: "es = a # b # rest"
    using assms by (cases es rule: oid_subs.cases) (auto simp: oid_valid_def)
  have v: "a \<le> 2" "a < 2 \<longrightarrow> b \<le> 39" "a = 2 \<longrightarrow> b \<le> 0xffffffff - 80"
    using assms by (auto simp: oid_valid_def es)
  consider "a = 0" | "a = 1" | "a = 2"
    using v(1) by (auto simp: word_le_nat_alt word_unat_eq_iff) linarith
  then show ?thesis
  proof cases
    case 3
    then have "unat (80 + b) = 80 + unat b"
      using v by (simp add: word_le_nat_alt unat_word_ariths)
    then show ?thesis using 3 by (simp add: es word_less_nat_alt)
  qed (use v in \<open>auto simp: es word_less_nat_alt word_le_nat_alt unat_word_ariths\<close>)
qed

text \<open>
  C22: an object identifier whose first two components fit the X.208 rules (and whose combined
  first number does not wrap) is encoded by \<^verbatim>\<open>obj2prim\<close> and read back unchanged by
  \<^verbatim>\<open>prim2oid\<close>; \<^verbatim>\<open>pe_len\<close> counts the octets.
\<close>

theorem obj2prim_roundtrip:
  assumes "oid_valid es"
  shows "\<exists>pe. obj2prim (\<lambda>_. True) (Some es) cl i = Some pe \<and> pe_wf pe \<and>
    fst (prim2oid (\<lambda>_. True) pe) = Done es"
proof -
  let ?bs = "concat (map sub_octets (oid_subs es))"
  let ?pe = "PRIM ((hdr0 cl i)\<lparr>pe_len := int (length ?bs)\<rparr>) (Some ?bs)"
  have len: "2 \<le> length es" "5 * int (length es) \<le> INT_MAX" using assms by (auto simp: oid_valid_def)
  then have subs: "length (oid_subs es) = length es - 1" "oid_subs es \<noteq> []"
    by (cases es rule: oid_subs.cases; simp)+
  have "oid_total 0 (oid_subs es) = Some (int (length ?bs))"
    using oid_total_sum [of 0 "oid_subs es"] len subs by simp
  then have enc: "obj2prim (\<lambda>_. True) (Some es) cl i = Some ?pe"
    using assms len by (auto simp: obj2prim_def oid_valid_def conv_simps)
  have "?bs \<noteq> []"
    using subs(2) by (cases "oid_subs es") (simp_all add: sub_octets_def Let_def)
  moreover have "oid_scan ?bs 1 = Done (length es)"
    using subs len by (simp add: oid_scan_concat)
  ultimately have "fst (prim2oid (\<lambda>_. True) ?pe) = Done es"
    using len assms by (simp add: oid_dec_concat oid_split_subs sizet2int_def conv_simps
        add_int_to_int_def INT_MAX_def)
  with enc show ?thesis by auto
qed

theorem obj2prim_roundtrip_witness:
  "\<exists>pe. obj2prim (\<lambda>_. True) (Some [2, 5, 4, 840]) 0 6 = Some pe \<and>
     fst (prim2oid (\<lambda>_. True) pe) = Done [2, 5, 4, 840]"
proof -
  have "oid_valid [2, 5, 4, 840]" by (simp add: oid_valid_def INT_MAX_def)
  from obj2prim_roundtrip [OF this] show ?thesis by blast
qed

text \<open>
  the combined first number of \<^verbatim>\<open>obj2prim\<close> wraps at 32 bits: the identifier 2.4294967295
  passes the checks and is encoded with the very octets of 1.39.
\<close>

theorem obj2prim_first_component_wraps:
  "obj2prim (\<lambda>_. True) (Some (2 # 0xffffffff # es)) cl i =
   obj2prim (\<lambda>_. True) (Some (1 # 39 # es)) cl i"
proof -
  have "oid_subs (2 # 0xffffffff # es) = oid_subs (1 # 39 # es)" by simp
  moreover have "(0xffffffff :: 32 word) > 39" by simp
  ultimately show ?thesis
    by (simp add: obj2prim_def conv_simps del: oid_subs.simps split: option.split)
qed

lemma prim2oid_fault:
  "oid_scan bs 1 = Fault \<Longrightarrow> bs \<noteq> [] \<Longrightarrow>
     fst (prim2oid mem (PRIM (h\<lparr>pe_len := int (length bs)\<rparr>) (Some bs))) = Fault"
  by simp

text \<open>
  C29: contents whose last octet announces another one make \<^verbatim>\<open>prim2oid\<close> read past their end,
  whatever complete sub-identifiers come first: the end test comes after the fetch.
\<close>

theorem prim2oid_truncated_overrun:
  assumes "bs \<noteq> []" "\<forall>c \<in> set bs. bit c 7" "hd bs \<noteq> 0x80"
  shows "fst (prim2oid mem (PRIM (h\<lparr>pe_len := int (length (concat (map sub_octets js) @ bs))\<rparr>)
     (Some (concat (map sub_octets js) @ bs)))) = Fault"
proof -
  have skip: "oid_skip cs n = Fault" if "\<forall>c \<in> set cs. bit c 7" for cs n
    using that by (induction cs) (auto simp: and_0x80)
  have "oid_scan bs n = Fault" for n
    using assms skip [of bs n] by (cases bs) auto
  moreover have "oid_scan (concat (map sub_octets js) @ bs) n = oid_scan bs (n + length js)" for n
    by (induction js arbitrary: n) (auto simp: oid_scan_sub)
  ultimately have "oid_scan (concat (map sub_octets js) @ bs) 1 = Fault" by simp
  then show ?thesis using assms(1) by (intro prim2oid_fault) simp_all
qed

theorem prim2oid_truncated_overrun_witness:
  "fst (prim2oid (\<lambda>_. True) (PRIM ((hdr0 0 6)\<lparr>pe_len := 1\<rparr>) (Some [0x81]))) = Fault"
proof -
  have "bit (0x81 :: byte) 7" by simp
  then show ?thesis
    using prim2oid_truncated_overrun [of "[0x81]" "\<lambda>_. True" "[]" "hdr0 0 6"] by simp
qed

end
