(* ===== verification/PStream.thy ===== *)
theory PStream
  imports Isode_Prelude
begin

text \<open>
  Presentation streams (\<^verbatim>\<open>psap/ps_io.c\<close>, \<^verbatim>\<open>psap/str2ps.c\<close>, \<^verbatim>\<open>psap/qbuf2ps.c\<close>): the byte streams
  over which elements are read and written. A stream dispatches through function pointers; the
  read and write routines are arguments of the operations here. Two locales state what the
  element codec relies on, \<open>ps_source\<close> for reading and \<open>ps_sink\<close> for writing, and the string and
  queued-buffer streams are interpreted in them.
\<close>

section \<open>The stream and its dispatch loop\<close>

record PS =
  ps_errno :: int
  ps_base :: "byte list option"
  ps_cnt :: int
  ps_ptr :: int
  ps_bufsiz :: int
  ps_addr :: "byte list list option"
  ps_inline :: bool
  ps_byteno :: int

definition PS_ERR_NONE :: int where "PS_ERR_NONE = 0"
definition PS_ERR_OVERID :: int where "PS_ERR_OVERID = 1"
definition PS_ERR_OVERLEN :: int where "PS_ERR_OVERLEN = 2"
definition PS_ERR_NMEM :: int where "PS_ERR_NMEM = 3"
definition PS_ERR_EOF :: int where "PS_ERR_EOF = 4"
definition PS_ERR_EOFID :: int where "PS_ERR_EOFID = 5"
definition PS_ERR_EOFLEN :: int where "PS_ERR_EOFLEN = 6"
definition PS_ERR_LEN :: int where "PS_ERR_LEN = 7"
definition PS_ERR_INDF :: int where "PS_ERR_INDF = 9"

lemmas ps_err_defs [ps_defs] =
  PS_ERR_NONE_def PS_ERR_OVERID_def PS_ERR_OVERLEN_def PS_ERR_NMEM_def PS_ERR_EOF_def
  PS_ERR_EOFID_def PS_ERR_EOFLEN_def PS_ERR_LEN_def PS_ERR_INDF_def

definition BUFSIZ :: int where "BUFSIZ = 8192"

definition ps_seterr :: "PS \<Rightarrow> int \<Rightarrow> PS" where
  "ps_seterr ps e = ps\<lparr>ps_errno := e\<rparr>"

text \<open>A fresh stream: \<^verbatim>\<open>ps_alloc\<close> clears the structure before the open routine fills it.\<close>

definition ps_alloc :: PS where
  "ps_alloc = \<lparr>ps_errno = 0, ps_base = None, ps_cnt = 0, ps_ptr = 0, ps_bufsiz = 0,
     ps_addr = None, ps_inline = False, ps_byteno = 0\<rparr>"

text \<open>
  A read routine is asked for up to \<open>n\<close> octets and answers with some, with none at the end of the
  data, or with NOTOK (\<open>None\<close>). A write routine is given the octets that are left to write and
  answers with the number it took.
\<close>

type_synonym reader = "PS \<Rightarrow> int \<Rightarrow> byte list option \<times> PS"
type_synonym writer = "PS \<Rightarrow> byte list \<Rightarrow> bool \<Rightarrow> nat option \<times> PS"

text \<open>\<^verbatim>\<open>ps_io\<close>, once for reading and once for writing.\<close>

function ps_io_read :: "reader \<Rightarrow> PS \<Rightarrow> int \<Rightarrow> byte list \<Rightarrow> byte list outcome \<times> PS" where
  "ps_io_read rd ps n acc =
     (if n \<le> 0 then (Done acc, ps)
      else case rd ps n of
        (None, ps') \<Rightarrow> (Notok, ps')
      | (Some bs, ps') \<Rightarrow>
          if bs = [] then (Notok, ps_seterr ps' PS_ERR_EOF)
          else ps_io_read rd (ps'\<lparr>ps_byteno := ps_byteno ps' + int (length bs)\<rparr>)
                 (n - int (length bs)) (acc @ bs))"
  by pat_completeness auto
termination
proof (relation "measure (\<lambda>(rd, ps, n, acc). nat n)", goal_cases)
  case (2 rd ps n acc a b bs)
  then have "0 < length bs" by simp
  with 2 show ?case by simp
qed simp

declare ps_io_read.simps [simp del]

function ps_io_write :: "writer \<Rightarrow> PS \<Rightarrow> byte list \<Rightarrow> bool \<Rightarrow> unit outcome \<times> PS" where
  "ps_io_write wr ps data in_line =
     (if data = [] then (Done (), ps)
      else case wr ps data in_line of
        (None, ps') \<Rightarrow> (Notok, ps')
      | (Some cc, ps') \<Rightarrow>
          if cc = 0 then (Notok, ps_seterr ps' PS_ERR_EOF)
          else ps_io_write wr (ps'\<lparr>ps_byteno := ps_byteno ps' + int cc\<rparr>) (drop cc data) in_line)"
  by pat_completeness auto
termination
  by (relation "measure (\<lambda>(wr, ps, data, il). length data)") auto

declare ps_io_write.simps [simp del]

definition ps_read :: "reader \<Rightarrow> PS \<Rightarrow> int \<Rightarrow> byte list outcome \<times> PS" where
  "ps_read rd ps n = ps_io_read rd ps n []"

definition ps_write :: "writer \<Rightarrow> PS \<Rightarrow> byte list \<Rightarrow> unit outcome \<times> PS" where
  "ps_write wr ps data = ps_io_write wr ps data False"

section \<open>String streams\<close>

definition str_read :: reader where
  "str_read ps n =
     (case ps_base ps of
        None \<Rightarrow> (Some [], ps)
      | Some b \<Rightarrow>
          if ps_cnt ps \<le> 0 then (Some [], ps)
          else let cc = (if ps_cnt ps > n then n else ps_cnt ps) in
            if cc < 0 then (Some [], ps)
            else (Some (take (nat cc) (drop (nat (ps_ptr ps)) b)),
                  ps\<lparr>ps_ptr := ps_ptr ps + cc, ps_cnt := ps_cnt ps - cc\<rparr>))"

definition buf_put :: "byte list \<Rightarrow> int \<Rightarrow> byte list \<Rightarrow> byte list" where
  "buf_put b p data = take (nat p) b @ data @ drop (nat p + length data) b"

text \<open>The copy at the label \<^verbatim>\<open>partial\<close>.\<close>

definition str_put :: "PS \<Rightarrow> byte list \<Rightarrow> int \<Rightarrow> nat option \<times> PS" where
  "str_put ps data n =
     (if n < 0 then (None, ps_seterr ps PS_ERR_NMEM)
      else (Some (nat n),
        ps\<lparr>ps_base := map_option (\<lambda>b. buf_put b (ps_ptr ps) (take (nat n) data)) (ps_base ps),
           ps_ptr := ps_ptr ps + n, ps_cnt := ps_cnt ps - n\<rparr>))"

text \<open>Fresh buffer space has no defined contents; the model fills it with zero octets.\<close>

definition str_write :: "(int \<Rightarrow> bool) \<Rightarrow> writer" where
  "str_write mem ps data in_line =
     (let n = int (length data) in
      case ps_base ps of
        None \<Rightarrow>
          (case add_int_to_int n BUFSIZ of
             None \<Rightarrow> (None, ps_seterr ps PS_ERR_NMEM)
           | Some cc \<Rightarrow>
               if malloc_int mem cc
               then str_put (ps\<lparr>ps_base := Some (replicate (nat cc) 0), ps_ptr := 0,
                      ps_bufsiz := cc, ps_cnt := cc\<rparr>) data n
               else (None, ps_seterr ps PS_ERR_NMEM))
      | Some b \<Rightarrow>
          if ps_cnt ps < n
          then (if ps_inline ps then str_put ps data (ps_cnt ps)
                else case add_int_to_int n BUFSIZ of
                  None \<Rightarrow> (None, ps_seterr ps PS_ERR_NMEM)
                | Some cc \<Rightarrow>
                    (case (add_int_to_int (ps_bufsiz ps) cc, add_int_to_int (ps_cnt ps) cc) of
                       (Some newsize, Some newcnt) \<Rightarrow>
                         if malloc_int mem newsize
                         then str_put (ps\<lparr>ps_base := Some (b @ replicate (nat cc) 0),
                                ps_bufsiz := newsize, ps_cnt := newcnt\<rparr>) data n
                         else (None, ps_seterr ps PS_ERR_NMEM)
                     | _ \<Rightarrow> (None, ps_seterr ps PS_ERR_NMEM)))
          else str_put ps data n)"

definition str_setup :: "(int \<Rightarrow> bool) \<Rightarrow> PS \<Rightarrow> byte list option \<Rightarrow> int \<Rightarrow> bool \<Rightarrow> unit outcome \<times> PS" where
  "str_setup mem ps cp cc in_line =
     (if in_line
      then (Done (), ps\<lparr>ps_inline := True, ps_base := cp, ps_ptr := 0, ps_bufsiz := cc, ps_cnt := cc\<rparr>)
      else if cc > 0
      then (if malloc_int mem cc
            then (Done (), ps\<lparr>ps_base := Some (case cp of None \<Rightarrow> replicate (nat cc) 0
                                              | Some s \<Rightarrow> take (nat cc) s),
                    ps_ptr := 0, ps_bufsiz := cc, ps_cnt := cc\<rparr>)
            else (Notok, ps_seterr ps PS_ERR_NMEM))
      else (Done (), ps))"

section \<open>Queued buffers\<close>

text \<open>
  A queue of buffers is the list of their octets. The loop of \<^verbatim>\<open>qbuf_read\<close> copies from the first
  buffer and unlinks it as soon as it is empty.
\<close>

fun qb_take :: "nat \<Rightarrow> byte list list \<Rightarrow> byte list \<times> byte list list" where
  "qb_take n [] = ([], [])"
| "qb_take n (q # qs) =
     (if n = 0 then ([], q # qs)
      else if length q \<le> n
      then (let (bs, qs') = qb_take (n - length q) qs in (q @ bs, qs'))
      else (take n q, drop n q # qs))"

definition qbuf_read :: reader where
  "qbuf_read ps n =
     (case ps_addr ps of
        None \<Rightarrow> (Some [], ps)
      | Some qs \<Rightarrow> (let (bs, qs') = qb_take (nat n) qs in (Some bs, ps\<lparr>ps_addr := Some qs'\<rparr>)))"


definition qbuf_setup :: "PS \<Rightarrow> byte list list \<Rightarrow> PS" where
  "qbuf_setup ps qs = ps\<lparr>ps_addr := Some qs\<rparr>"

section \<open>The source interface\<close>

text \<open>
  What the decoder relies on: \<open>content\<close> is what is left to read. A read takes a non-empty prefix of
  it, or nothing when it is empty, and leaves the counters of the stream alone. An inline stream
  keeps its content in memory at \<^verbatim>\<open>ps_ptr\<close>, where the decoder takes it directly.
\<close>

locale ps_source =
  fixes rd :: reader
    and content :: "PS \<Rightarrow> byte list"
    and live :: "PS \<Rightarrow> bool"
  assumes rd_law: "live ps \<Longrightarrow> 0 < n \<Longrightarrow>
      \<exists>bs ps'. rd ps n = (Some bs, ps') \<and> live ps' \<and> content ps = bs @ content ps'
        \<and> length bs \<le> nat n \<and> (bs = [] \<longrightarrow> content ps = [])
        \<and> ps_byteno ps' = ps_byteno ps \<and> ps_inline ps' = ps_inline ps"
    and live_frame: "live (ps\<lparr>ps_byteno := i\<rparr>) = live ps" "live (ps_seterr ps e) = live ps"
    and content_frame: "content (ps\<lparr>ps_byteno := i\<rparr>) = content ps" "content (ps_seterr ps e) = content ps"
    and inline_law: "live ps \<Longrightarrow> ps_inline ps \<Longrightarrow>
      \<exists>b. ps_base ps = Some b \<and> ps_cnt ps = int (length (content ps)) \<and> 0 \<le> ps_ptr ps
        \<and> content ps = take (nat (ps_cnt ps)) (drop (nat (ps_ptr ps)) b)"
    and inline_adv: "live ps \<Longrightarrow> ps_inline ps \<Longrightarrow> 0 \<le> n \<Longrightarrow> n \<le> ps_cnt ps \<Longrightarrow>
      live (ps\<lparr>ps_ptr := ps_ptr ps + n, ps_cnt := ps_cnt ps - n\<rparr>)
      \<and> content (ps\<lparr>ps_ptr := ps_ptr ps + n, ps_cnt := ps_cnt ps - n\<rparr>) = drop (nat n) (content ps)"
begin

lemma seterr_fields:
  "ps_byteno (ps_seterr ps e) = ps_byteno ps" "ps_inline (ps_seterr ps e) = ps_inline ps"
  "ps_errno (ps_seterr ps e) = e"
  by (simp_all add: ps_seterr_def)

text \<open>The position invariant: octets read and octets left add up.\<close>

definition follows :: "PS \<Rightarrow> PS \<Rightarrow> bool" where
  "follows ps ps' \<longleftrightarrow> live ps' \<and> ps_inline ps' = ps_inline ps
     \<and> (\<exists>us. content ps = us @ content ps' \<and> ps_byteno ps' = ps_byteno ps + int (length us))"

lemma follows_refl: "live ps \<Longrightarrow> follows ps ps"
  by (simp add: follows_def)

lemma follows_trans: "follows ps ps' \<Longrightarrow> follows ps' ps'' \<Longrightarrow> follows ps ps''"
  by (fastforce simp: follows_def)

lemma follows_seterr: "follows ps ps' \<Longrightarrow> follows ps (ps_seterr ps' e)"
  by (simp add: follows_def live_frame content_frame seterr_fields)

lemma follows_length: "follows ps ps' \<Longrightarrow> length (content ps') \<le> length (content ps)"
  by (auto simp: follows_def)

lemma read_exact_aux:
  assumes "live ps" "0 \<le> n" "nat n \<le> length (content ps)"
  shows "\<exists>ps'. ps_io_read rd ps n acc = (Done (acc @ take (nat n) (content ps)), ps')
    \<and> live ps' \<and> content ps' = drop (nat n) (content ps) \<and> ps_byteno ps' = ps_byteno ps + n
    \<and> ps_inline ps' = ps_inline ps"
  using assms
proof (induction "nat n" arbitrary: ps n acc rule: less_induct)
  case less
  show ?case
  proof (cases "n = 0")
    case True
    with less.prems show ?thesis by (simp add: ps_io_read.simps)
  next
    case False
    with less.prems have n: "0 < n" by simp
    from rd_law [OF less.prems(1) n] obtain bs ps' where r: "rd ps n = (Some bs, ps')"
      and l: "live ps'" and c: "content ps = bs @ content ps'" and len: "length bs \<le> nat n"
      and e: "bs = [] \<longrightarrow> content ps = []" and f: "ps_byteno ps' = ps_byteno ps"
      "ps_inline ps' = ps_inline ps" by blast
    from e n less.prems(3) have ne: "bs \<noteq> []" by auto
    let ?q = "ps'\<lparr>ps_byteno := ps_byteno ps' + int (length bs)\<rparr>"
    let ?m = "n - int (length bs)"
    have m: "nat ?m < nat n" "0 \<le> ?m" "nat ?m \<le> length (content ?q)" "live ?q"
      using ne len n less.prems(3) c l by (auto simp: content_frame live_frame)
    from less.hyps [OF m(1) m(4) m(2) m(3), of "acc @ bs"] obtain ps'' where
      "ps_io_read rd ?q ?m (acc @ bs) = (Done ((acc @ bs) @ take (nat ?m) (content ?q)), ps'')"
      "live ps''" "content ps'' = drop (nat ?m) (content ?q)" "ps_byteno ps'' = ps_byteno ?q + ?m"
      "ps_inline ps'' = ps_inline ?q" by blast
    moreover have "nat ?m = nat n - length bs" by simp
    moreover have "ps_io_read rd ps n acc = ps_io_read rd ?q ?m (acc @ bs)"
      using n r ne by (subst ps_io_read.simps) simp
    ultimately show ?thesis using c len f by (auto simp: content_frame)
  qed
qed

lemma read_exact:
  assumes "live ps" "0 \<le> n" "content ps = us @ vs" "int (length us) = n"
  shows "\<exists>ps'. ps_read rd ps n = (Done us, ps') \<and> live ps' \<and> content ps' = vs
    \<and> ps_byteno ps' = ps_byteno ps + n \<and> ps_inline ps' = ps_inline ps"
  using read_exact_aux [of ps n "[]"] assms by (auto simp: ps_read_def)

lemma read_short_aux:
  assumes "live ps" "int (length (content ps)) < n"
  shows "\<exists>ps'. ps_io_read rd ps n acc = (Notok, ps') \<and> follows ps ps' \<and> ps_errno ps' = PS_ERR_EOF"
  using assms
proof (induction "nat n" arbitrary: ps n acc rule: less_induct)
  case less
  then have n: "0 < n" by simp
  from rd_law [OF less.prems(1) n] obtain bs ps' where r: "rd ps n = (Some bs, ps')"
    and l: "live ps'" and c: "content ps = bs @ content ps'"
    and f: "ps_byteno ps' = ps_byteno ps" "ps_inline ps' = ps_inline ps" by blast
  let ?q = "ps'\<lparr>ps_byteno := ps_byteno ps' + int (length bs)\<rparr>"
  have q: "follows ps ?q" using l c f by (auto simp: follows_def live_frame content_frame)
  show ?case
  proof (cases "bs = []")
    case True
    then have "ps_io_read rd ps n acc = (Notok, ps_seterr ps' PS_ERR_EOF)"
      using n r by (subst ps_io_read.simps) simp
    moreover have "follows ps ps'" using l c f True by (simp add: follows_def)
    ultimately show ?thesis by (simp add: follows_seterr seterr_fields)
  next
    case False
    have "nat (n - int (length bs)) < nat n" "live ?q" "int (length (content ?q)) < n - int (length bs)"
      using False n less.prems c l by (auto simp: content_frame live_frame)
    from less.hyps [OF this, of "acc @ bs"] obtain ps'' where
      "ps_io_read rd ?q (n - int (length bs)) (acc @ bs) = (Notok, ps'')" "follows ?q ps''"
      "ps_errno ps'' = PS_ERR_EOF" by blast
    moreover have "ps_io_read rd ps n acc = ps_io_read rd ?q (n - int (length bs)) (acc @ bs)"
      using n r False by (subst ps_io_read.simps) simp
    ultimately show ?thesis using q follows_trans by metis
  qed
qed

lemma read_short:
  "live ps \<Longrightarrow> int (length (content ps)) < n \<Longrightarrow>
     \<exists>ps'. ps_read rd ps n = (Notok, ps') \<and> follows ps ps' \<and> ps_errno ps' = PS_ERR_EOF"
  unfolding ps_read_def by (rule read_short_aux)

lemma read_total:
  assumes "live ps" "0 \<le> n"
  obtains (data) us vs ps' where "ps_read rd ps n = (Done us, ps')" "content ps = us @ vs"
      "int (length us) = n" "live ps'" "content ps' = vs" "ps_byteno ps' = ps_byteno ps + n"
      "follows ps ps'"
  | (eof) ps' where "ps_read rd ps n = (Notok, ps')" "follows ps ps'" "ps_errno ps' = PS_ERR_EOF"
proof (cases "nat n \<le> length (content ps)")
  case True
  let ?us = "take (nat n) (content ps)" and ?vs = "drop (nat n) (content ps)"
  have l: "content ps = ?us @ ?vs" "int (length ?us) = n" using True assms by auto
  from read_exact [OF assms l] obtain ps' where p: "ps_read rd ps n = (Done ?us, ps')"
    "live ps'" "content ps' = ?vs" "ps_byteno ps' = ps_byteno ps + n" "ps_inline ps' = ps_inline ps"
    by blast
  have "follows ps ps'" unfolding follows_def
    using p l by (metis append_take_drop_id)
  with p l data show thesis by blast
next
  case False
  then have "int (length (content ps)) < n" using assms by linarith
  from read_short [OF assms(1) this] eof show thesis by blast
qed

end

definition str_content :: "PS \<Rightarrow> byte list" where
  "str_content ps = take (nat (ps_cnt ps)) (drop (nat (ps_ptr ps)) (octs (ps_base ps)))"

definition str_live :: "PS \<Rightarrow> bool" where
  "str_live ps \<longleftrightarrow> ps_base ps \<noteq> None \<and> 0 \<le> ps_cnt ps \<and> 0 \<le> ps_ptr ps
     \<and> ps_ptr ps + ps_cnt ps \<le> int (length (octs (ps_base ps)))"

definition qbuf_content :: "PS \<Rightarrow> byte list" where
  "qbuf_content ps = (case ps_addr ps of None \<Rightarrow> [] | Some qs \<Rightarrow> concat qs)"

definition qbuf_live :: "PS \<Rightarrow> bool" where
  "qbuf_live ps \<longleftrightarrow> ps_addr ps \<noteq> None \<and> \<not> ps_inline ps"

lemma qb_take_spec:
  "qb_take n qs = (bs, qs') \<Longrightarrow>
     concat qs = bs @ concat qs' \<and> length bs \<le> n \<and> (0 < n \<longrightarrow> bs = [] \<longrightarrow> concat qs = [])"
proof (induction n qs arbitrary: bs qs' rule: qb_take.induct)
  case (2 n q qs)
  then show ?case
    by (cases "n = 0"; cases "length q \<le> n") (fastforce split: prod.splits)+
qed simp

lemma str_read_law:
  assumes "str_live ps" "0 < n"
  shows "\<exists>bs ps'. str_read ps n = (Some bs, ps') \<and> str_live ps' \<and> str_content ps = bs @ str_content ps'
    \<and> length bs \<le> nat n \<and> (bs = [] \<longrightarrow> str_content ps = [])
    \<and> ps_byteno ps' = ps_byteno ps \<and> ps_inline ps' = ps_inline ps"
proof -
  from assms obtain b where b: "ps_base ps = Some b" "0 \<le> ps_cnt ps" "0 \<le> ps_ptr ps"
    "ps_ptr ps + ps_cnt ps \<le> int (length b)" by (auto simp: str_live_def octs_def)
  let ?c = "min n (ps_cnt ps)"
  have split: "take (nat (ps_cnt ps)) (drop (nat (ps_ptr ps)) b) =
      take (nat ?c) (drop (nat (ps_ptr ps)) b)
      @ take (nat (ps_cnt ps) - nat ?c) (drop (nat (ps_ptr ps) + nat ?c) b)"
  proof -
    have "take (k + m) xs = take k xs @ take m (drop k xs)" for k m and xs :: "byte list"
      by (rule take_add)
    from this [of "nat ?c" "nat (ps_cnt ps) - nat ?c" "drop (nat (ps_ptr ps)) b"] show ?thesis
      by (simp add: add.commute)
  qed
  show ?thesis
  proof (cases "ps_cnt ps = 0")
    case True
    then show ?thesis using b assms by (simp add: str_read_def str_content_def str_live_def)
  next
    case False
    let ?q = "ps\<lparr>ps_ptr := ps_ptr ps + ?c, ps_cnt := ps_cnt ps - ?c\<rparr>"
    have "str_read ps n = (Some (take (nat ?c) (drop (nat (ps_ptr ps)) b)), ?q)"
      using False b assms(2) by (simp add: str_read_def Let_def min_def)
    moreover have "str_live ?q" using b assms(2) by (simp add: str_live_def octs_def)
    moreover have "str_content ps = take (nat ?c) (drop (nat (ps_ptr ps)) b) @ str_content ?q"
      using split b assms(2) by (simp add: str_content_def octs_def nat_add_distrib nat_diff_distrib)
    moreover have "take (nat ?c) (drop (nat (ps_ptr ps)) b) \<noteq> []"
      using False b assms(2) by (simp add: min_def)
    ultimately show ?thesis by (fastforce simp: assms(2))
  qed
qed

interpretation strs: ps_source str_read str_content str_live
proof (unfold_locales, goal_cases)
  case (1 ps n)
  then show ?case by (rule str_read_law)
next
  case (6 ps)
  then show ?case by (auto simp: str_live_def str_content_def octs_def)
next
  case (7 ps n)
  then show ?case
    by (auto simp: str_live_def str_content_def drop_take nat_add_distrib nat_diff_distrib add.commute)
qed (simp_all add: str_live_def str_content_def ps_seterr_def)

interpretation qbufs: ps_source qbuf_read qbuf_content qbuf_live
proof (unfold_locales, goal_cases)
  case (1 ps n)
  then obtain qs where q: "ps_addr ps = Some qs" by (auto simp: qbuf_live_def)
  obtain bs qs' where t: "qb_take (nat n) qs = (bs, qs')" by fastforce
  have "qbuf_read ps n = (Some bs, ps\<lparr>ps_addr := Some qs'\<rparr>)" using q t by (simp add: qbuf_read_def)
  moreover have "0 < nat n" using 1 by simp
  with qb_take_spec [OF t] have
    "concat qs = bs @ concat qs'" "length bs \<le> nat n" "bs = [] \<longrightarrow> concat qs = []" by blast+
  ultimately show ?case using q 1
    by (auto simp: qbuf_content_def qbuf_live_def simp del: concat_eq_Nil_conv)
qed (simp_all add: qbuf_live_def qbuf_content_def ps_seterr_def)

section \<open>The sink interface\<close>

text \<open>
  What the encoder relies on: \<open>quota\<close> octets can be written for certain, and what is written is
  appended to \<open>written\<close>.
\<close>

locale ps_sink =
  fixes wr :: writer
    and written :: "PS \<Rightarrow> byte list"
    and ready :: "PS \<Rightarrow> bool"
    and quota :: "PS \<Rightarrow> nat"
  assumes wr_law: "ready ps \<Longrightarrow> data \<noteq> [] \<Longrightarrow> length data \<le> quota ps \<Longrightarrow>
      \<exists>cc ps'. wr ps data il = (Some cc, ps') \<and> 0 < cc \<and> cc \<le> length data \<and> ready ps'
        \<and> written ps' = written ps @ take cc data \<and> quota ps \<le> quota ps' + cc"
    and frame: "ready (ps\<lparr>ps_byteno := i\<rparr>) = ready ps" "written (ps\<lparr>ps_byteno := i\<rparr>) = written ps"
      "quota (ps\<lparr>ps_byteno := i\<rparr>) = quota ps"
begin

definition wrote :: "PS \<Rightarrow> byte list \<Rightarrow> PS \<Rightarrow> bool" where
  "wrote ps data ps' \<longleftrightarrow> ready ps' \<and> written ps' = written ps @ data
     \<and> quota ps \<le> quota ps' + length data"

lemma write_ok:
  "ready ps \<Longrightarrow> length data \<le> quota ps \<Longrightarrow>
     \<exists>ps'. ps_io_write wr ps data il = (Done (), ps') \<and> wrote ps data ps'"
proof (induction "length data" arbitrary: ps data rule: less_induct)
  case less
  show ?case
  proof (cases "data = []")
    case True
    with less.prems show ?thesis by (simp add: ps_io_write.simps wrote_def)
  next
    case False
    from wr_law [OF less.prems(1) False less.prems(2), of il] obtain cc ps' where
      w: "wr ps data il = (Some cc, ps')" "0 < cc" "cc \<le> length data" "ready ps'"
      "written ps' = written ps @ take cc data" "quota ps \<le> quota ps' + cc" by blast
    let ?q = "ps'\<lparr>ps_byteno := ps_byteno ps' + int cc\<rparr>"
    have "length (drop cc data) < length data" "ready ?q" "length (drop cc data) \<le> quota ?q"
      using w less.prems False by (auto simp: frame)
    from less.hyps [OF this] obtain ps'' where
      "ps_io_write wr ?q (drop cc data) il = (Done (), ps'')" "wrote ?q (drop cc data) ps''" by blast
    moreover have "ps_io_write wr ps data il = ps_io_write wr ?q (drop cc data) il"
      using w False by (subst ps_io_write.simps) simp
    ultimately show ?thesis using w by (auto simp: wrote_def frame)
  qed
qed

lemma wrote_trans:
  "wrote ps us ps' \<Longrightarrow> wrote ps' vs ps'' \<Longrightarrow> wrote ps (us @ vs) ps''"
  by (simp add: wrote_def)

lemma wrote_quota: "wrote ps us ps' \<Longrightarrow> n + length us \<le> quota ps \<Longrightarrow> n \<le> quota ps'"
  by (simp add: wrote_def)

end

text \<open>
  A string stream that may grow. Every growth reserves \<^verbatim>\<open>BUFSIZ\<close> octets more than asked for, and
  the checked additions keep the buffer within an \<^verbatim>\<open>int\<close>: the quota is half of what is left.
\<close>

definition str_written :: "PS \<Rightarrow> byte list" where
  "str_written ps = take (nat (ps_ptr ps)) (octs (ps_base ps))"

definition str_ready :: "PS \<Rightarrow> bool" where
  "str_ready ps \<longleftrightarrow> \<not> ps_inline ps \<and> 0 \<le> ps_cnt ps \<and> 0 \<le> ps_ptr ps
     \<and> ps_ptr ps + ps_cnt ps = ps_bufsiz ps \<and> int (length (octs (ps_base ps))) = ps_bufsiz ps"

definition str_quota :: "PS \<Rightarrow> nat" where
  "str_quota ps = nat ((INT_MAX - BUFSIZ - ps_bufsiz ps - max 0 (BUFSIZ - ps_cnt ps)) div 2)"

lemma str_put_law:
  assumes "str_ready ps" "ps_base ps \<noteq> None" "int (length data) \<le> ps_cnt ps"
    "quota \<le> str_quota (ps\<lparr>ps_cnt := ps_cnt ps - int (length data)\<rparr>) + length data"
  shows "\<exists>ps'. str_put ps data (int (length data)) = (Some (length data), ps') \<and> str_ready ps'
    \<and> str_written ps' = str_written ps @ data \<and> quota \<le> str_quota ps' + length data"
  using assms
  by (auto simp: str_put_def str_ready_def str_written_def buf_put_def nat_add_distrib str_quota_def)

lemma str_write_law:
  assumes "str_ready ps" "data \<noteq> []" "length data \<le> str_quota ps"
  shows "\<exists>cc ps'. str_write (\<lambda>_. True) ps data il = (Some cc, ps') \<and> 0 < cc \<and> cc \<le> length data
    \<and> str_ready ps' \<and> str_written ps' = str_written ps @ take cc data \<and> str_quota ps \<le> str_quota ps' + cc"
proof -
  let ?n = "int (length data)"
  have q: "?n \<le> (INT_MAX - BUFSIZ - ps_bufsiz ps - max 0 (BUFSIZ - ps_cnt ps)) div 2" and n: "0 < ?n"
    using assms(2,3) by (cases data; simp add: str_quota_def)+
  have grow: "str_quota ps \<le> str_quota (p\<lparr>ps_cnt := ps_cnt p - ?n\<rparr>) + length data"
    if "ps_bufsiz p - ps_bufsiz ps + max 0 (BUFSIZ - (ps_cnt p - ?n)) - max 0 (BUFSIZ - ps_cnt ps) \<le> 2 * ?n" for p
    using that by (simp add: str_quota_def)
  have go: ?thesis if "str_write (\<lambda>_. True) ps data il = str_put p data ?n" "str_ready p"
    "ps_base p \<noteq> None" "?n \<le> ps_cnt p" "str_written p = str_written ps"
    "ps_bufsiz p - ps_bufsiz ps + max 0 (BUFSIZ - (ps_cnt p - ?n)) - max 0 (BUFSIZ - ps_cnt ps) \<le> 2 * ?n" for p
    using str_put_law [OF that(2,3,4) grow [OF that(6)]] that(1,5) n by fastforce
  show ?thesis
  proof (cases "ps_base ps")
    case None
    let ?p = "ps\<lparr>ps_base := Some (replicate (nat (?n + BUFSIZ)) 0), ps_ptr := 0,
      ps_bufsiz := ?n + BUFSIZ, ps_cnt := ?n + BUFSIZ\<rparr>"
    have z: "ps_bufsiz ps = 0" "ps_cnt ps = 0" "ps_ptr ps = 0" using None assms(1) by (auto simp: str_ready_def)
    show ?thesis
    proof (rule go [of ?p])
      show "str_write (\<lambda>_. True) ps data il = str_put ?p data ?n"
        using None q z n by (simp add: str_write_def Let_def add_int_to_int_def malloc_int_iff BUFSIZ_def INT_MAX_def)
    qed (use None assms(1) n z in \<open>auto simp: str_ready_def str_written_def BUFSIZ_def\<close>)
  next
    case (Some b)
    show ?thesis
    proof (cases "ps_cnt ps < ?n")
      case False
      show ?thesis
      proof (rule go [of ps])
        show "str_write (\<lambda>_. True) ps data il = str_put ps data ?n"
          using Some False by (simp add: str_write_def)
      qed (use Some False assms(1) n in auto)
    next
      case True
      let ?c = "?n + BUFSIZ"
      let ?p = "ps\<lparr>ps_base := Some (b @ replicate (nat ?c) 0), ps_bufsiz := ps_bufsiz ps + ?c,
        ps_cnt := ps_cnt ps + ?c\<rparr>"
      have r: "\<not> ps_inline ps" "0 \<le> ps_cnt ps" "0 \<le> ps_bufsiz ps" "ps_cnt ps \<le> ps_bufsiz ps"
        using assms(1) by (auto simp: str_ready_def)
      have room: "ps_bufsiz ps + ?c \<le> INT_MAX" using q r n by (simp add: BUFSIZ_def INT_MAX_def)
      show ?thesis
      proof (rule go [of ?p])
        show "str_write (\<lambda>_. True) ps data il = str_put ?p data ?n"
          using Some True room r n
          by (simp add: str_write_def Let_def add_int_to_int_def malloc_int_iff BUFSIZ_def INT_MAX_def)
      qed (use Some True assms(1) n in \<open>auto simp: str_ready_def str_written_def BUFSIZ_def\<close>)
    qed
  qed
qed

interpretation strw: ps_sink "str_write (\<lambda>_. True)" str_written str_ready str_quota
proof (unfold_locales, goal_cases)
  case (1 ps data il)
  then show ?case by (rule str_write_law)
qed (simp_all add: str_ready_def str_written_def str_quota_def)

end
