(* ===== verification/Pe2ps.thy ===== *)
theory Pe2ps
  imports PElement PStream
begin

text \<open>
  The encoder of the basic encoding rules: sizing of an element under the three length strategies
  (\<^verbatim>\<open>psap/ps_get_abs.c\<close>), the stream encoder (\<^verbatim>\<open>psap/pe2ps.c\<close>), the one-buffer encoder
  (\<^verbatim>\<open>psap/pe2qb_f.c\<close>) and its caller \<^verbatim>\<open>psap/pe2ssdu.c\<close>. The reference is the function \<open>ber\<close> from
  elements to octet strings: both encoders produce it, and sizing predicts its length.
\<close>

section \<open>Identifier and length octets\<close>

definition PE_ID_XTND :: "16 word" where "PE_ID_XTND = 31"

function id_groups :: "16 word \<Rightarrow> byte list" where
  "id_groups i = (if i = 0 then [] else id_groups (drop_bit 7 i) @ [ucast (i AND 127)])"
  by pat_completeness auto
termination
proof (relation "measure unat", goal_cases)
  case (2 i)
  then have "unat i \<noteq> 0" by (simp add: unat_eq_0)
  then show ?case by (simp add: drop_bit_eq_div unat_div)
qed simp

declare id_groups.simps [simp del]

text \<open>
  The octets that \<^verbatim>\<open>ps_write_id\<close> prepares. Its buffer holds \<^verbatim>\<open>1 + sizeof (PElementID)\<close> = 3 octets; a
  third group of seven bits is stored past its end (\<open>None\<close>).
\<close>

definition id_first :: "8 word \<Rightarrow> bool \<Rightarrow> byte" where
  "id_first cl constr = (push_bit 6 cl AND 0xc0) OR (if constr then 0x20 else 0)"

definition id_octets :: "8 word \<Rightarrow> bool \<Rightarrow> 16 word \<Rightarrow> byte list option" where
  "id_octets cl constr i =
     (if i < PE_ID_XTND then Some [id_first cl constr OR ucast i]
      else let gs = id_groups i in
        if length gs > 2 then None
        else Some ((id_first cl constr OR 0x1f) # map (\<lambda>g. g OR 0x80) (butlast gs) @ [last gs]))"

text \<open>The loop of \<^verbatim>\<open>ps_write_len\<close> fills its five-octet buffer from the end.\<close>

fun len_fill :: "nat \<Rightarrow> int \<Rightarrow> byte list" where
  "len_fill 0 n = []"
| "len_fill (Suc k) n = (if n = 0 then [] else len_fill k (n div 256) @ [word_of_int n])"

definition len_octets :: "int \<Rightarrow> byte list" where
  "len_octets n =
     (if n = PE_LEN_INDF then [0x80]
      else if n \<le> PE_LEN_SMAX then [word_of_int n]
      else let bs = len_fill 4 n in (0x80 OR of_nat (length bs)) # bs)"

section \<open>Sizing (psap/ps_get_abs.c)\<close>

datatype len_strategy = PS_LEN_SPAG | PS_LEN_INDF | PS_LEN_LONG

definition ps_get_id :: "16 word \<Rightarrow> int" where
  "ps_get_id i = (if i < PE_ID_XTND then 1 else 1 + int (length (id_groups i)))"

function len_count :: "int \<Rightarrow> int" where
  "len_count n = (if n > 0 then 1 + len_count (n div 256) else 0)"
  by pat_completeness auto
termination
  by (relation "measure nat") auto

declare len_count.simps [simp del]

definition ps_get_len :: "int \<Rightarrow> int" where
  "ps_get_len n = (if n = PE_LEN_INDF \<or> n \<le> PE_LEN_SMAX then 1 else 1 + len_count n)"

fun cons_len :: "len_strategy \<Rightarrow> int \<Rightarrow> int \<times> int" where
  "cons_len PS_LEN_SPAG n = (if n \<le> PE_LEN_SMAX then (n, n) else (PE_LEN_INDF, c_int (n + 2)))"
| "cons_len PS_LEN_INDF n = (PE_LEN_INDF, c_int (n + 2))"
| "cons_len PS_LEN_LONG n = (n, n)"

fun ps_get_abs :: "len_strategy \<Rightarrow> PE \<Rightarrow> int \<times> PE"
and ps_get_abs_list :: "len_strategy \<Rightarrow> PE list \<Rightarrow> int \<Rightarrow> int \<times> PE list" where
  "ps_get_abs s (PRIM h b) =
     (c_int (c_int (ps_get_id (pe_id h) + ps_get_len (pe_len h)) + pe_len h), PRIM h b)"
| "ps_get_abs s (CONS h ps) =
     (let (m, qs) = ps_get_abs_list s ps 0; (plen, n) = cons_len s m in
      (c_int (c_int (ps_get_id (pe_id h) + ps_get_len plen) + n), CONS (h\<lparr>pe_len := plen\<rparr>) qs))"
| "ps_get_abs s (ICONS h b) = (pe_len h, ICONS h b)"
| "ps_get_abs_list s [] n = (n, [])"
| "ps_get_abs_list s (p # ps) n =
     (let (m, q) = ps_get_abs s p; (r, qs) = ps_get_abs_list s ps (c_int (n + m)) in (r, q # qs))"

section \<open>The stream encoder (psap/pe2ps.c)\<close>

definition ps_write_id :: "writer \<Rightarrow> PS \<Rightarrow> PE \<Rightarrow> unit outcome \<times> PS" where
  "ps_write_id wr ps pe =
     (case id_octets (pe_class (pe_hdr pe)) (pe_form pe \<noteq> PE_FORM_PRIM) (pe_id (pe_hdr pe)) of
        None \<Rightarrow> (Fault, ps)
      | Some bs \<Rightarrow> ps_write wr ps bs)"

definition ps_write_len :: "writer \<Rightarrow> PS \<Rightarrow> PE \<Rightarrow> unit outcome \<times> PS" where
  "ps_write_len wr ps pe = ps_write wr ps (len_octets (pe_len (pe_hdr pe)))"

text \<open>The octets of \<^verbatim>\<open>pe_prim\<close> that \<^verbatim>\<open>pe_len\<close> announces; a length past the data reads out of bounds.\<close>

definition prim_write :: "writer \<Rightarrow> PS \<Rightarrow> pelem_hdr \<Rightarrow> byte list option \<Rightarrow> unit outcome \<times> PS" where
  "prim_write wr ps h b =
     (if pe_len h > int (length (octs b)) then (Fault, ps)
      else ps_io_write wr ps (take (nat (pe_len h)) (octs b)) True)"

definition pe2ps_prim :: "writer \<Rightarrow> PS \<Rightarrow> pelem_hdr \<Rightarrow> byte list option \<Rightarrow> unit outcome \<times> PS" where
  "pe2ps_prim wr ps h b =
     obind (ps_write_id wr ps (PRIM h b)) (\<lambda>_ ps.
     obind (ps_write_len wr ps (PRIM h b)) (\<lambda>_ ps. prim_write wr ps h b))"

definition pe_eoc :: pelem_hdr where
  "pe_eoc = hdr0 PE_CLASS_UNIV PE_UNIV_EOC"

fun pe2ps_aux2 :: "writer \<Rightarrow> PS \<Rightarrow> PE \<Rightarrow> int \<Rightarrow> unit outcome \<times> PS"
and pe2ps_list :: "writer \<Rightarrow> PS \<Rightarrow> PE list \<Rightarrow> unit outcome \<times> PS" where
  "pe2ps_aux2 wr ps (ICONS h b) eval = prim_write wr ps h b"
| "pe2ps_aux2 wr ps (PRIM h b) eval = pe2ps_prim wr ps h b"
| "pe2ps_aux2 wr ps (CONS h cs) eval =
     obind (ps_write_id wr ps (CONS h cs)) (\<lambda>_ ps.
     obind (ps_write_len wr ps (CONS h cs)) (\<lambda>_ ps.
       if eval < 0 \<or> pe_len h = 0 then (Done (), ps)
       else obind (pe2ps_list wr ps cs) (\<lambda>_ ps.
         if pe_len h = PE_LEN_INDF then pe2ps_prim wr ps pe_eoc None else (Done (), ps))))"
| "pe2ps_list wr ps [] = (Done (), ps)"
| "pe2ps_list wr ps (p # cs) = obind (pe2ps_aux2 wr ps p 0) (\<lambda>_ ps. pe2ps_list wr ps cs)"

text \<open>
  \<^verbatim>\<open>pe2ps_aux\<close> sizes a constructor first when \<open>eval\<close> is positive. \<^verbatim>\<open>ps_flush\<close> calls the flush routine
  of the stream; string streams have none, and it answers OK.
\<close>

definition pe2ps_aux :: "len_strategy \<Rightarrow> writer \<Rightarrow> PS \<Rightarrow> PE \<Rightarrow> int \<Rightarrow> unit outcome \<times> PS" where
  "pe2ps_aux s wr ps pe eval =
     pe2ps_aux2 wr ps
       (if eval > 0 \<and> pe_form pe = PE_FORM_CONS then snd (ps_get_abs s pe) else pe) eval"

section \<open>The one-buffer encoder (psap/pe2qb_f.c, psap/pe2ssdu.c)\<close>

text \<open>
  The globals \<^verbatim>\<open>Qcp\<close> and \<^verbatim>\<open>Ecp\<close> point into one block: the state is what has been stored before
  \<^verbatim>\<open>Qcp\<close>, the size of the block, and the counter \<^verbatim>\<open>Len\<close>. Copies through \<^verbatim>\<open>moveit\<close> are checked against
  \<^verbatim>\<open>Ecp\<close>; single octets are stored unchecked.
\<close>

record qbf =
  qout :: "byte list"
  qcap :: int
  Len :: int

definition moveit :: "byte list \<Rightarrow> int \<Rightarrow> qbf \<Rightarrow> unit outcome \<times> qbf" where
  "moveit c l q =
     (case int2sizet l of
        None \<Rightarrow> (Notok, q)
      | Some n \<Rightarrow>
          if int (length (qout q)) + int n > qcap q then (Notok, q)
          else if n > length c then (Fault, q)
          else (Done (), q\<lparr>qout := qout q @ take n c, Len := Len q + l\<rparr>))"

definition putoctet :: "byte \<Rightarrow> qbf \<Rightarrow> unit outcome \<times> qbf" where
  "putoctet c q =
     (if int (length (qout q)) \<ge> qcap q then (Fault, q)
      else (Done (), q\<lparr>qout := qout q @ [c], Len := Len q + 1\<rparr>))"

definition qb_id :: "8 word \<Rightarrow> bool \<Rightarrow> 16 word \<Rightarrow> qbf \<Rightarrow> unit outcome \<times> qbf" where
  "qb_id cl constr i q =
     (if int (length (qout q)) \<ge> qcap q then (Fault, q)
      else case id_octets cl constr i of
        None \<Rightarrow> (Fault, q)
      | Some bs \<Rightarrow> if i < PE_ID_XTND then putoctet (hd bs) q else moveit bs (int (length bs)) q)"

definition qb_len :: "int \<Rightarrow> qbf \<Rightarrow> unit outcome \<times> qbf" where
  "qb_len n q =
     (if n = PE_LEN_INDF then putoctet 0x80 q
      else if n \<le> PE_LEN_SMAX
      then (case int2u8 n of None \<Rightarrow> (Notok, q) | Some b \<Rightarrow> putoctet b q)
      else moveit (len_octets n) (int (length (len_octets n))) q)"

definition pe2qb_prim :: "pelem_hdr \<Rightarrow> byte list option \<Rightarrow> qbf \<Rightarrow> int outcome \<times> qbf" where
  "pe2qb_prim h b q =
     obind (qb_id (pe_class h) False (pe_id h) q) (\<lambda>_ q.
     obind (qb_len (pe_len h) q) (\<lambda>_ q.
     obind (moveit (octs b) (pe_len h) q) (\<lambda>_ q. (Done (Len q), q))))"

fun pe2qb_f :: "PE \<Rightarrow> qbf \<Rightarrow> int outcome \<times> qbf"
and pe2qb_list :: "PE list \<Rightarrow> qbf \<Rightarrow> unit outcome \<times> qbf" where
  "pe2qb_f (ICONS h b) q = obind (moveit (octs b) (pe_len h) q) (\<lambda>_ q. (Done (Len q), q))"
| "pe2qb_f (PRIM h b) q = pe2qb_prim h b q"
| "pe2qb_f (CONS h cs) q =
     obind (qb_id (pe_class h) True (pe_id h) q) (\<lambda>_ q.
     obind (qb_len (pe_len h) q) (\<lambda>_ q.
       if pe_len h = 0 then (Done (Len q), q)
       else obind (pe2qb_list cs q) (\<lambda>_ q.
         if pe_len h = PE_LEN_INDF
         then obind (pe2qb_prim pe_eoc None q) (\<lambda>_ q. (Done (Len q), q))
         else (Done (Len q), q))))"
| "pe2qb_list [] q = (Done (), q)"
| "pe2qb_list (p # ps) q = obind (pe2qb_f p q) (\<lambda>_ q. pe2qb_list ps q)"

definition pe2ssdu :: "(int \<Rightarrow> bool) \<Rightarrow> len_strategy \<Rightarrow> PE \<Rightarrow> byte list outcome \<times> PE" where
  "pe2ssdu mem s pe =
     (let (plen, pe') = ps_get_abs s pe in
      if \<not> mem (plen mod 2 ^ 32) then (Notok, pe')
      else case pe2qb_f pe' \<lparr>qout = [], qcap = plen, Len = 0\<rparr> of
        (Fault, q) \<Rightarrow> (Fault, pe')
      | (Spent, q) \<Rightarrow> (Spent, pe')
      | (r, q) \<Rightarrow>
          if (case r of Done n \<Rightarrow> n | _ \<Rightarrow> -1) = plen then (Done (qout q), pe') else (Notok, pe'))"

section \<open>The reference encoding\<close>

definition id_enc :: "8 word \<Rightarrow> bool \<Rightarrow> 16 word \<Rightarrow> byte list" where
  "id_enc cl constr i = the (id_octets cl constr i)"

fun ber :: "PE \<Rightarrow> byte list" where
  "ber (PRIM h b) = id_enc (pe_class h) False (pe_id h) @ len_octets (pe_len h) @ octs b"
| "ber (CONS h cs) = id_enc (pe_class h) True (pe_id h) @ len_octets (pe_len h) @
     (if pe_len h = 0 then []
      else concat (map ber cs) @ (if pe_len h = PE_LEN_INDF then [0, 0] else []))"
| "ber (ICONS h b) = octs b"

text \<open>
  Elements that are ready to be written: lengths agree with the contents, identifiers fit the
  fourteen bits that \<^verbatim>\<open>h/psap.h\<close> calls meaningful.
\<close>

definition id_ok :: "pelem_hdr \<Rightarrow> bool" where
  "id_ok h \<longleftrightarrow> pe_id h < 2 ^ 14"

fun sized :: "PE \<Rightarrow> bool" where
  "sized (PRIM h b) \<longleftrightarrow> id_ok h \<and> pe_len h = int (length (octs b))"
| "sized (CONS h cs) \<longleftrightarrow> id_ok h \<and> list_all sized cs \<and>
     (pe_len h = PE_LEN_INDF \<or> pe_len h = int (length (concat (map ber cs))))"
| "sized (ICONS h b) \<longleftrightarrow> pe_len h = int (length (octs b))"

fun ids_ok :: "PE \<Rightarrow> bool" where
  "ids_ok (PRIM h b) \<longleftrightarrow> id_ok h"
| "ids_ok (CONS h cs) \<longleftrightarrow> id_ok h \<and> list_all ids_ok cs"
| "ids_ok (ICONS h b) \<longleftrightarrow> True"

text \<open>An upper bound on the size of any encoding, by which the theorems exclude \<^verbatim>\<open>int\<close> overflow.\<close>

fun weight :: "PE \<Rightarrow> int" where
  "weight (PRIM h b) = 8 + int (length (octs b))"
| "weight (CONS h cs) = 10 + sum_list (map weight cs)"
| "weight (ICONS h b) = int (length (octs b))"

lemma id_lt_unat: "i < 2 ^ 14 \<longleftrightarrow> unat i < 16384" for i :: "16 word"
  by (simp add: word_less_nat_alt)

lemma drop7_unat: "unat (drop_bit 7 i) = unat i div 128" for i :: "16 word"
  by (simp add: drop_bit_eq_div unat_div)

lemma drop7_zero: "drop_bit 7 i = 0 \<longleftrightarrow> unat i < 128" for i :: "16 word"
  by (simp add: unat_eq_0 [symmetric] drop7_unat div_eq_0_iff del: unat_eq_0)

lemma and127_small: "unat i < 128 \<Longrightarrow> i AND 127 = i" for i :: "16 word"
proof -
  assume "unat i < 128"
  then have "take_bit 7 i = i" by (simp add: word_unat_eq_iff take_bit_eq_mod unat_mod)
  then show ?thesis by (simp add: take_bit_eq_mask mask_eq_exp_minus_1)
qed

lemma id_groups_one: "0 < unat i \<Longrightarrow> unat i < 128 \<Longrightarrow> id_groups i = [ucast i]"
  using drop7_zero [of i] id_groups.simps [of 0]
  by (subst id_groups.simps) (auto simp: and127_small)

lemma id_groups_two:
  assumes "128 \<le> unat i" "unat i < 16384"
  shows "id_groups i = [ucast (drop_bit 7 i), ucast (i AND 127)]"
proof -
  have "id_groups (drop_bit 7 i) = [ucast (drop_bit 7 i)]"
    using assms by (intro id_groups_one) (auto simp: drop7_unat)
  moreover have "i \<noteq> 0" using assms by auto
  ultimately show ?thesis by (simp add: id_groups.simps [of i])
qed

lemma id_octets_cases:
  assumes "i < 2 ^ 14"
  obtains (short) "i < 31" "id_octets cl constr i = Some [id_first cl constr OR ucast i]"
  | (one) "31 \<le> unat i" "unat i < 128" "id_octets cl constr i = Some [id_first cl constr OR 0x1f, ucast i]"
  | (two) "128 \<le> unat i" "unat i < 16384" "id_octets cl constr i =
      Some [id_first cl constr OR 0x1f, ucast (drop_bit 7 i) OR 0x80, ucast (i AND 127)]"
proof -
  have "i < 31 \<longleftrightarrow> unat i < 31" by (simp add: word_less_nat_alt)
  then consider "unat i < 31" | "31 \<le> unat i" "unat i < 128" | "128 \<le> unat i" "unat i < 16384"
    using assms unfolding id_lt_unat by linarith
  then show thesis
  proof cases
    case 1 then show thesis by (intro short) (auto simp: id_octets_def PE_ID_XTND_def word_less_nat_alt)
  next
    case 2 then show thesis
      by (intro one) (auto simp: id_octets_def PE_ID_XTND_def id_groups_one word_less_nat_alt)
  next
    case 3 then show thesis
      by (intro two) (auto simp: id_octets_def PE_ID_XTND_def id_groups_two word_less_nat_alt)
  qed
qed

lemma id_octets_enc: "i < 2 ^ 14 \<Longrightarrow> id_octets cl constr i = Some (id_enc cl constr i)"
  by (rule id_octets_cases [of i cl constr]) (auto simp: id_enc_def)

lemma id_enc_length:
  "i < 2 ^ 14 \<Longrightarrow> int (length (id_enc cl constr i)) = ps_get_id i \<and> 1 \<le> ps_get_id i \<and> ps_get_id i \<le> 3"
  by (rule id_octets_cases [of i cl constr])
    (auto simp: id_enc_def ps_get_id_def PE_ID_XTND_def id_groups_one id_groups_two word_less_nat_alt)

lemma len_fill_count:
  "0 \<le> n \<Longrightarrow> n < 256 ^ k \<Longrightarrow> int (length (len_fill k n)) = len_count n"
proof (induction k n rule: len_fill.induct)
  case (1 n) then show ?case by (simp add: len_count.simps)
next
  case (2 k n)
  then show ?case by (auto simp: len_count.simps [of n] div_less_iff_less_mult mult.commute)
qed

lemma len_fill_length: "length (len_fill k n) \<le> k"
  by (induction k n rule: len_fill.induct) auto

lemma len_octets_length:
  assumes "n = PE_LEN_INDF \<or> 0 \<le> n" "n \<le> INT_MAX"
  shows "int (length (len_octets n)) = ps_get_len n \<and> 1 \<le> ps_get_len n \<and> ps_get_len n \<le> 5"
  using assms len_fill_count [of n 4] len_fill_length [of 4 n]
  by (auto simp: len_octets_def ps_get_len_def PE_LEN_INDF_def PE_LEN_SMAX_def INT_MAX_def Let_def)

section \<open>Sizing predicts the encoding\<close>

lemma weight_nonneg: "0 \<le> weight p"
  by (induction p rule: weight.induct) (auto intro!: add_nonneg_nonneg sum_list_nonneg)

lemma weights_nonneg: "0 \<le> sum_list (map weight ps)"
  by (auto intro!: sum_list_nonneg weight_nonneg)

lemma cons_len_law:
  assumes "cons_len s m = (plen, n)" "0 \<le> m" "m + 2 \<le> INT_MAX"
  shows "(plen = PE_LEN_INDF \<and> n = m + 2 \<or> plen = m \<and> n = m)"
  using assms by (cases s) (auto simp: c_int_id INT_MAX_def split: if_splits)

lemma ps_get_abs_spec:
  "ids_ok p \<Longrightarrow> pe_wf p \<Longrightarrow> weight p \<le> INT_MAX \<Longrightarrow> ps_get_abs s p = (n, q) \<Longrightarrow>
     sized q \<and> n = int (length (ber q)) \<and> n \<le> weight p \<and> pe_value q = pe_value p"
  "list_all ids_ok ps \<Longrightarrow> list_all pe_wf ps \<Longrightarrow> 0 \<le> a \<Longrightarrow> a + sum_list (map weight ps) \<le> INT_MAX \<Longrightarrow>
     ps_get_abs_list s ps a = (n, qs) \<Longrightarrow>
     list_all sized qs \<and> n = a + int (length (concat (map ber qs)))
     \<and> n \<le> a + sum_list (map weight ps) \<and> map pe_value qs = map pe_value ps"
proof (induction s p and s ps a arbitrary: n q and n qs rule: ps_get_abs_ps_get_abs_list.induct)
  case (1 s h b)
  have "pe_id h < 2 ^ 14" using 1 by (simp add: id_ok_def)
  moreover have "pe_len h \<le> INT_MAX" "0 \<le> pe_len h" using 1 by auto
  ultimately show ?case
    using 1 id_enc_length [of "pe_id h" "pe_class h" False] len_octets_length [of "pe_len h"]
    by (auto simp: c_int_id INT_MAX_def)
next
  case (2 s h ps)
  obtain m qs where m: "ps_get_abs_list s ps 0 = (m, qs)" by fastforce
  obtain plen k where c: "cons_len s m = (plen, k)" by fastforce
  have "sum_list (map weight ps) \<le> INT_MAX" using 2 by simp
  with 2 m have IH: "list_all sized qs" "m = int (length (concat (map ber qs)))"
    "m \<le> sum_list (map weight ps)" "map pe_value qs = map pe_value ps" by auto
  have b: "0 \<le> m" "m + 10 \<le> INT_MAX" using IH 2 by auto
  with cons_len_law [OF c] have k: "plen = PE_LEN_INDF \<and> k = m + 2 \<or> plen = m \<and> k = m" by simp
  have i: "pe_id h < 2 ^ 14" using 2 by (simp add: id_ok_def)
  have l: "plen = PE_LEN_INDF \<or> 0 \<le> plen" "plen \<le> INT_MAX" using k b by (auto simp: PE_LEN_INDF_def)
  have sz: "1 \<le> ps_get_id (pe_id h)" "ps_get_id (pe_id h) \<le> 3" "1 \<le> ps_get_len plen" "ps_get_len plen \<le> 5"
    "int (length (id_enc (pe_class h) True (pe_id h))) = ps_get_id (pe_id h)"
    "int (length (len_octets plen)) = ps_get_len plen"
    using id_enc_length [OF i, of "pe_class h" True] len_octets_length [OF l] by simp_all
  have "k \<le> m + 2" "0 \<le> k" using k b by auto
  then have "c_int (c_int (ps_get_id (pe_id h) + ps_get_len plen) + k) = ps_get_id (pe_id h) + ps_get_len plen + k"
    using sz b by (simp add: c_int_id INT_MAX_def)
  then have q: "q = CONS (h\<lparr>pe_len := plen\<rparr>) qs" and n: "n = ps_get_id (pe_id h) + ps_get_len plen + k"
    using 2(5) m c by simp_all
  have "int (length (ber q)) = ps_get_id (pe_id h) + ps_get_len plen + k"
    unfolding q using k sz IH(2) by (auto simp: PE_LEN_INDF_def simp del: length_concat)
  moreover have "sized q" using i IH k unfolding q by (auto simp: id_ok_def)
  ultimately show ?case using n IH(3,4) sz \<open>k \<le> m + 2\<close> by (simp add: q)
next
  case (5 s p ps a)
  obtain m q where m: "ps_get_abs s p = (m, q)" by fastforce
  obtain r rs where r: "ps_get_abs_list s ps (c_int (a + m)) = (r, rs)" by fastforce
  have w: "weight p \<le> INT_MAX" "0 \<le> weight p" "0 \<le> sum_list (map weight ps)"
    using 5 weights_nonneg [of ps] weight_nonneg [of p] by auto
  with 5 m have p: "sized q" "m = int (length (ber q))" "m \<le> weight p" "pe_value q = pe_value p" by auto
  have c: "c_int (a + m) = a + m" using p w 5 by (intro c_int_id) (auto simp: INT_MAX_def)
  have "list_all sized rs \<and> r = c_int (a + m) + int (length (concat (map ber rs)))
      \<and> r \<le> c_int (a + m) + sum_list (map weight ps) \<and> map pe_value rs = map pe_value ps"
    by (rule "5.IH"(2) [OF m [symmetric] refl _ _ _ _ r]) (use c "5.prems" p w in auto)
  with "5.prems" m r p w c show ?case by auto
qed auto

section \<open>Both encoders write the reference encoding\<close>

lemma sized_lens: "sized p \<Longrightarrow> pe_form p \<noteq> PE_FORM_ICONS \<Longrightarrow>
  pe_len (pe_hdr p) = PE_LEN_INDF \<or> 0 \<le> pe_len (pe_hdr p)"
  by (cases p) auto

lemma eoc_octets: "id_octets 0 False 0 = Some [0]" "len_octets 0 = [0]"
  by (simp_all add: id_octets_def id_first_def PE_ID_XTND_def len_octets_def PE_LEN_INDF_def PE_LEN_SMAX_def)

lemma eoc_ber: "ber (PRIM pe_eoc None) = [0, 0]"
  by (simp add: pe_eoc_def hdr0_def PE_CLASS_UNIV_def PE_UNIV_EOC_def eoc_octets id_enc_def)

lemma eoc_sized: "sized (PRIM pe_eoc None)"
  by (simp add: pe_eoc_def hdr0_def PE_UNIV_EOC_def id_ok_def)

context ps_sink
begin

lemma write_then:
  assumes "ready ps" "length (us @ vs) \<le> quota ps"
    and "\<And>ps'. ready ps' \<Longrightarrow> length vs \<le> quota ps' \<Longrightarrow> \<exists>ps''. f () ps' = (Done (), ps'') \<and> wrote ps' vs ps''"
    and "\<exists>ps'. r = (Done (), ps') \<and> wrote ps us ps'"
  shows "\<exists>ps''. obind r f = (Done (), ps'') \<and> wrote ps (us @ vs) ps''"
proof -
  from assms(4) obtain ps' where p: "r = (Done (), ps')" "wrote ps us ps'" by blast
  with assms(2) have "ready ps'" "length vs \<le> quota ps'" by (auto simp: wrote_def)
  from assms(3) [OF this] p wrote_trans show ?thesis by fastforce
qed

lemma write_id_ok:
  "id_ok (pe_hdr p) \<Longrightarrow> ready ps \<Longrightarrow>
   length (id_enc (pe_class (pe_hdr p)) (pe_form p \<noteq> PE_FORM_PRIM) (pe_id (pe_hdr p))) \<le> quota ps \<Longrightarrow>
   \<exists>ps'. ps_write_id wr ps p = (Done (), ps')
     \<and> wrote ps (id_enc (pe_class (pe_hdr p)) (pe_form p \<noteq> PE_FORM_PRIM) (pe_id (pe_hdr p))) ps'"
  by (simp add: ps_write_id_def id_ok_def id_octets_enc ps_write_def write_ok)

lemma write_len_ok:
  "ready ps \<Longrightarrow> length (len_octets (pe_len (pe_hdr p))) \<le> quota ps \<Longrightarrow>
   \<exists>ps'. ps_write_len wr ps p = (Done (), ps') \<and> wrote ps (len_octets (pe_len (pe_hdr p))) ps'"
  by (simp add: ps_write_len_def ps_write_def write_ok)

lemma prim_write_ok:
  "pe_len h = int (length (octs b)) \<Longrightarrow> ready ps \<Longrightarrow> length (octs b) \<le> quota ps \<Longrightarrow>
   \<exists>ps'. prim_write wr ps h b = (Done (), ps') \<and> wrote ps (octs b) ps'"
  by (simp add: prim_write_def write_ok)

lemma pe2ps_prim_ok:
  assumes "sized (PRIM h b)" "ready ps" "length (ber (PRIM h b)) \<le> quota ps"
  shows "\<exists>ps'. pe2ps_prim wr ps h b = (Done (), ps') \<and> wrote ps (ber (PRIM h b)) ps'"
  unfolding pe2ps_prim_def ber.simps
  by (intro write_then write_id_ok [of "PRIM h b", simplified] write_len_ok [of _ "PRIM h b", simplified]
      prim_write_ok) (use assms in auto)

lemma wrote_nil: "ready ps \<Longrightarrow> wrote ps [] ps"
  by (simp add: wrote_def)

lemma pe2ps_list_ok:
  assumes "\<And>p ps. p \<in> set cs \<Longrightarrow> ready ps \<Longrightarrow> length (ber p) \<le> quota ps \<Longrightarrow>
      \<exists>ps'. pe2ps_aux2 wr ps p 0 = (Done (), ps') \<and> wrote ps (ber p) ps'"
  shows "ready ps \<Longrightarrow> length (concat (map ber cs)) \<le> quota ps \<Longrightarrow>
     \<exists>ps'. pe2ps_list wr ps cs = (Done (), ps') \<and> wrote ps (concat (map ber cs)) ps'"
  using assms
proof (induction cs arbitrary: ps)
  case Nil
  then show ?case by (simp add: wrote_nil)
next
  case (Cons p cs)
  have "\<exists>ps''. obind (pe2ps_aux2 wr ps p 0) (\<lambda>_ ps. pe2ps_list wr ps cs) = (Done (), ps'')
      \<and> wrote ps (ber p @ concat (map ber cs)) ps''"
    by (rule write_then) (use Cons in auto)
  then show ?case by simp
qed

lemma pe2ps_ok:
  "sized p \<Longrightarrow> ready ps \<Longrightarrow> length (ber p) \<le> quota ps \<Longrightarrow> 0 \<le> eval \<Longrightarrow>
     \<exists>ps'. pe2ps_aux2 wr ps p eval = (Done (), ps') \<and> wrote ps (ber p) ps'"
proof (induction p arbitrary: ps eval)
  case (PRIM h b)
  then show ?case using pe2ps_prim_ok by simp
next
  case (ICONS h b)
  then show ?case using prim_write_ok by simp
next
  case (CONS h cs)
  let ?body = "if pe_len h = 0 then []
    else concat (map ber cs) @ (if pe_len h = PE_LEN_INDF then [0, 0] else [])"
  have members: "\<And>p ps. p \<in> set cs \<Longrightarrow> ready ps \<Longrightarrow> length (ber p) \<le> quota ps \<Longrightarrow>
      \<exists>ps'. pe2ps_aux2 wr ps p 0 = (Done (), ps') \<and> wrote ps (ber p) ps'"
    using CONS by (simp add: list_all_iff)
  have fin: "\<exists>ps'. (if pe_len h = PE_LEN_INDF then pe2ps_prim wr ps pe_eoc None else (Done (), ps)) = (Done (), ps')
      \<and> wrote ps (if pe_len h = PE_LEN_INDF then [0, 0] else []) ps'"
    if "ready ps" "length (if pe_len h = PE_LEN_INDF then [0, 0::byte] else []) \<le> quota ps" for ps
    using that pe2ps_prim_ok [OF eoc_sized that(1), unfolded eoc_ber] by (auto simp: wrote_nil)
  have body: "\<exists>ps'. (if eval < 0 \<or> pe_len h = 0 then (Done (), ps)
       else obind (pe2ps_list wr ps cs) (\<lambda>_ ps.
         if pe_len h = PE_LEN_INDF then pe2ps_prim wr ps pe_eoc None else (Done (), ps))) = (Done (), ps')
      \<and> wrote ps ?body ps'" if "ready ps" "length ?body \<le> quota ps" for ps
  proof (cases "pe_len h = 0")
    case True
    then show ?thesis using that by (simp add: wrote_nil)
  next
    case False
    have "\<exists>ps'. obind (pe2ps_list wr ps cs) (\<lambda>_ ps.
        if pe_len h = PE_LEN_INDF then pe2ps_prim wr ps pe_eoc None else (Done (), ps)) = (Done (), ps')
      \<and> wrote ps (concat (map ber cs) @ (if pe_len h = PE_LEN_INDF then [0, 0] else [])) ps'"
    proof (rule write_then [OF that(1)])
      show "\<exists>ps'. pe2ps_list wr ps cs = (Done (), ps') \<and> wrote ps (concat (map ber cs)) ps'"
        by (rule pe2ps_list_ok) (use members that False in \<open>auto split: if_splits\<close>)
    next
      fix ps'
      assume "ready ps'" "length (if pe_len h = PE_LEN_INDF then [0, 0::byte] else []) \<le> quota ps'"
      then show "\<exists>ps''. (if pe_len h = PE_LEN_INDF then pe2ps_prim wr ps' pe_eoc None else (Done (), ps')) = (Done (), ps'')
          \<and> wrote ps' (if pe_len h = PE_LEN_INDF then [0, 0] else []) ps''" by (rule fin)
    qed (use that False in \<open>auto split: if_splits\<close>)
    then show ?thesis using False CONS(5) by simp
  qed
  show ?case unfolding pe2ps_aux2.simps ber.simps
    by (intro write_then write_id_ok [of "CONS h cs", simplified] write_len_ok [of _ "CONS h cs", simplified] body)
      (use CONS in auto)
qed

end

text \<open>The one-buffer encoder.\<close>

definition stored :: "qbf \<Rightarrow> byte list \<Rightarrow> qbf" where
  "stored q bs = q\<lparr>qout := qout q @ bs, Len := Len q + int (length bs)\<rparr>"

lemma stored_simps [simp]:
  "qout (stored q bs) = qout q @ bs" "qcap (stored q bs) = qcap q"
  "Len (stored q bs) = Len q + int (length bs)" "stored (stored q us) vs = stored q (us @ vs)"
  "stored q [] = q"
  by (simp_all add: stored_def)

lemma moveit_ok:
  "int (length (qout q)) + int (length c) \<le> qcap q \<Longrightarrow> moveit c (int (length c)) q = (Done (), stored q c)"
  by (simp add: moveit_def int2sizet_def stored_def)

lemma putoctet_ok: "int (length (qout q)) < qcap q \<Longrightarrow> putoctet c q = (Done (), stored q [c])"
  by (simp add: putoctet_def stored_def)

lemma qb_id_ok:
  assumes "i < 2 ^ 14" "int (length (qout q)) + int (length (id_enc cl constr i)) \<le> qcap q"
  shows "qb_id cl constr i q = (Done (), stored q (id_enc cl constr i))"
proof (cases "i < PE_ID_XTND")
  case True
  then have "id_enc cl constr i = [id_first cl constr OR ucast i]" by (simp add: id_enc_def id_octets_def)
  with True assms show ?thesis by (simp add: qb_id_def id_octets_enc putoctet_ok)
next
  case False
  have "1 \<le> int (length (id_enc cl constr i))" using id_enc_length [OF assms(1), of cl constr] by simp
  with False assms show ?thesis by (simp add: qb_id_def id_octets_enc moveit_ok)
qed

lemma qb_len_ok:
  assumes "n = PE_LEN_INDF \<or> 0 \<le> n" "int (length (qout q)) + int (length (len_octets n)) \<le> qcap q"
  shows "qb_len n q = (Done (), stored q (len_octets n))"
proof (cases "n = PE_LEN_INDF \<or> n \<le> PE_LEN_SMAX")
  case True
  with assms show ?thesis
    by (auto simp: qb_len_def len_octets_def int2u8_def PE_LEN_INDF_def PE_LEN_SMAX_def putoctet_ok)
next
  case False
  then show ?thesis using moveit_ok [OF assms(2)] by (simp add: qb_len_def)
qed

lemma pe2qb_prim_ok:
  assumes "sized (PRIM h b)" "int (length (qout q)) + int (length (ber (PRIM h b))) \<le> qcap q"
  shows "pe2qb_prim h b q = (Done (Len q + int (length (ber (PRIM h b)))), stored q (ber (PRIM h b)))"
  using assms by (simp add: pe2qb_prim_def qb_id_ok qb_len_ok id_ok_def moveit_ok)

lemma pe2qb_list_ok:
  assumes "\<And>p q. p \<in> set ps \<Longrightarrow> int (length (qout q)) + int (length (ber p)) \<le> qcap q \<Longrightarrow>
      pe2qb_f p q = (Done (Len q + int (length (ber p))), stored q (ber p))"
  shows "int (length (qout q)) + int (length (concat (map ber ps))) \<le> qcap q \<Longrightarrow>
    pe2qb_list ps q = (Done (), stored q (concat (map ber ps)))"
  using assms by (induction ps arbitrary: q) auto

lemma pe2qb_f_ok:
  "sized p \<Longrightarrow> int (length (qout q)) + int (length (ber p)) \<le> qcap q \<Longrightarrow>
     pe2qb_f p q = (Done (Len q + int (length (ber p))), stored q (ber p))"
proof (induction p arbitrary: q)
  case (CONS h cs)
  have members: "\<And>p q. p \<in> set cs \<Longrightarrow> int (length (qout q)) + int (length (ber p)) \<le> qcap q \<Longrightarrow>
      pe2qb_f p q = (Done (Len q + int (length (ber p))), stored q (ber p))"
    using CONS by (simp add: list_all_iff)
  have eq: "pe2qb_prim pe_eoc None q = (Done (Len q + 2), stored q [0, 0])"
    if "int (length (qout q)) + 2 \<le> qcap q" for q
    using pe2qb_prim_ok [OF eoc_sized, of q, unfolded eoc_ber] that by simp
  let ?i = "id_enc (pe_class h) True (pe_id h)" and ?l = "len_octets (pe_len h)"
  let ?q = "stored q (?i @ ?l)" and ?cs = "concat (map ber cs)"
  have "pe_len h = PE_LEN_INDF \<or> 0 \<le> pe_len h" "pe_id h < 2 ^ 14" using CONS(2) by (auto simp: id_ok_def)
  then have hd: "qb_id (pe_class h) True (pe_id h) q = (Done (), stored q ?i)" "qb_len (pe_len h) (stored q ?i) = (Done (), ?q)"
    using CONS(3) by (simp_all add: qb_id_ok qb_len_ok)
  show ?case
  proof (cases "pe_len h = 0")
    case True
    with hd show ?thesis by simp
  next
    case False
    then have "pe2qb_list cs ?q = (Done (), stored ?q ?cs)"
      using CONS(3) by (intro pe2qb_list_ok [OF members]) (auto simp del: length_concat)
    with False hd eq [of "stored ?q ?cs"] CONS(3) show ?thesis
      by (cases "pe_len h = PE_LEN_INDF") (simp_all del: length_concat)
  qed
qed (simp_all add: pe2qb_prim_ok moveit_ok)

lemma id_octets_None:
  assumes "2 ^ 14 \<le> i"
  shows "id_octets cl constr i = None"
proof -
  have "16384 \<le> unat i" using assms by (simp add: word_le_nat_alt)
  moreover have "unat i < 65536" using unsigned_less [of i] by simp
  ultimately have "id_groups (drop_bit 7 i) = [ucast (drop_bit 7 (drop_bit 7 i)), ucast (drop_bit 7 i AND 127)]"
    by (intro id_groups_two) (auto simp: drop7_unat)
  moreover have "i \<noteq> 0" "\<not> i < 31" using \<open>16384 \<le> unat i\<close> by (auto simp: word_less_nat_alt)
  ultimately have "length (id_groups i) = 3" by (simp add: id_groups.simps [of i])
  with \<open>\<not> i < 31\<close> show ?thesis by (simp add: id_octets_def PE_ID_XTND_def)
qed

lemma ber_le_weight:
  "ids_ok p \<Longrightarrow> pe_wf p \<Longrightarrow> weight p \<le> INT_MAX \<Longrightarrow> int (length (ber (snd (ps_get_abs s p)))) \<le> weight p"
  using ps_get_abs_spec(1) [of p s "fst (ps_get_abs s p)" "snd (ps_get_abs s p)"] by simp

lemma pe2ps_aux_sized:
  "pe2ps_aux s wr ps p 1 = pe2ps_aux2 wr ps (snd (ps_get_abs s p)) 1"
  by (cases p) (auto simp: pe2ps_aux_def)

lemma pe2ssdu_ok:
  assumes "ids_ok p" "pe_wf p" "weight p \<le> INT_MAX"
  shows "pe2ssdu (\<lambda>_. True) s p = (Done (ber (snd (ps_get_abs s p))), snd (ps_get_abs s p))"
proof -
  obtain n q where q: "ps_get_abs s p = (n, q)" by fastforce
  from ps_get_abs_spec(1) [OF assms q] have "sized q" "n = int (length (ber q))" by auto
  with pe2qb_f_ok [OF this(1), of "\<lparr>qout = [], qcap = n, Len = 0\<rparr>"] q show ?thesis
    by (simp add: pe2ssdu_def)
qed

section \<open>Properties\<close>

text \<open>
  C13: for every length strategy, \<^verbatim>\<open>ps_get_abs\<close> returns exactly the number of octets of the encoding
  of the element it leaves behind; it sets the lengths consistently and changes no value.
\<close>

theorem ps_get_abs_exact:
  assumes "ids_ok p" "pe_wf p" "weight p \<le> INT_MAX"
  shows "case ps_get_abs s p of (n, q) \<Rightarrow>
    n = int (length (ber q)) \<and> sized q \<and> pe_value q = pe_value p"
  using ps_get_abs_spec(1) [OF assms] by (auto split: prod.splits)

theorem ps_get_abs_exact_witness:
  "case ps_get_abs PS_LEN_INDF (CONS (hdr0 0 16) [PRIM ((hdr0 2 300)\<lparr>pe_len := 1\<rparr>) (Some [7])]) of (n, q) \<Rightarrow>
     n = int (length (ber q)) \<and> sized q
     \<and> pe_value q = pe_value (CONS (hdr0 0 16) [PRIM ((hdr0 2 300)\<lparr>pe_len := 1\<rparr>) (Some [7])])"
  by (rule ps_get_abs_exact) (simp_all add: hdr0_def id_ok_def INT_MAX_def)

text \<open>
  C12: the two encoders agree. The one-buffer encoder fills the block that sizing asked for exactly,
  without an error return and without a store outside it, and writing the same element to a string
  stream produces the same octets.
\<close>

theorem pe2ssdu_agrees_pe2ps:
  assumes "ids_ok p" "pe_wf p" "weight p \<le> 1000000000"
  shows "\<exists>bs ps'. pe2ssdu (\<lambda>_. True) s p = (Done bs, snd (ps_get_abs s p))
    \<and> int (length bs) = fst (ps_get_abs s p)
    \<and> pe2ps_aux s (str_write (\<lambda>_. True)) ps_alloc p 1 = (Done (), ps') \<and> str_written ps' = bs"
proof -
  let ?q = "snd (ps_get_abs s p)"
  have w: "weight p \<le> INT_MAX" using assms(3) by (simp add: INT_MAX_def)
  have "str_ready ps_alloc" by (simp add: str_ready_def ps_alloc_def)
  moreover have "length (ber ?q) \<le> str_quota ps_alloc"
    using ber_le_weight [OF assms(1,2) w, of s] assms(3)
    by (simp add: str_quota_def ps_alloc_def INT_MAX_def BUFSIZ_def)
  moreover have "sized ?q" "int (length (ber ?q)) = fst (ps_get_abs s p)"
    using ps_get_abs_spec(1) [OF assms(1,2) w, of s "fst (ps_get_abs s p)" ?q] by auto
  ultimately obtain ps' where "pe2ps_aux2 (str_write (\<lambda>_. True)) ps_alloc ?q 1 = (Done (), ps')"
    "str_written ps' = str_written ps_alloc @ ber ?q"
    using strw.pe2ps_ok [of ?q ps_alloc 1] by (auto simp: strw.wrote_def)
  moreover have "str_written ps_alloc = []" by (simp add: str_written_def ps_alloc_def)
  ultimately show ?thesis
    using pe2ssdu_ok [OF assms(1,2) w, of s] \<open>int (length (ber ?q)) = fst (ps_get_abs s p)\<close>
    by (auto simp: pe2ps_aux_sized)
qed

theorem pe2ssdu_agrees_pe2ps_witness:
  "\<exists>bs ps'. pe2ssdu (\<lambda>_. True) PS_LEN_SPAG (CONS (hdr0 0 16) [PRIM ((hdr0 0 2)\<lparr>pe_len := 1\<rparr>) (Some [7])])
      = (Done bs, snd (ps_get_abs PS_LEN_SPAG (CONS (hdr0 0 16) [PRIM ((hdr0 0 2)\<lparr>pe_len := 1\<rparr>) (Some [7])])))
    \<and> str_written ps' = bs"
proof -
  let ?p = "CONS (hdr0 0 16) [PRIM ((hdr0 0 2)\<lparr>pe_len := 1\<rparr>) (Some [7])]"
  have "ids_ok ?p" "pe_wf ?p" "weight ?p \<le> 1000000000" by (simp_all add: hdr0_def id_ok_def)
  from pe2ssdu_agrees_pe2ps [OF this, of PS_LEN_SPAG] show ?thesis by blast
qed

text \<open>
  C27: an element whose identifier needs more than fourteen bits makes both encoders store past the
  end of their three-octet identifier buffer.
\<close>

theorem pe2ps_wide_id_overruns:
  assumes "2 ^ 14 \<le> pe_id (pe_hdr p)" "pe_form p \<noteq> PE_FORM_ICONS"
  shows "fst (pe2ps_aux s wr ps p eval) = Fault \<and> fst (pe2qb_f p q) = Fault"
proof -
  have n: "id_octets cl c (pe_id (pe_hdr p)) = None" for cl c using id_octets_None [OF assms(1)] .
  have "ps_write_id wr ps p' = (Fault, ps)" if "pe_id (pe_hdr p') = pe_id (pe_hdr p)" for p'
    using n that by (simp add: ps_write_id_def)
  moreover have "qb_id cl c (pe_id (pe_hdr p)) q = (Fault, q)" for cl c
    using n by (simp add: qb_id_def)
  ultimately show ?thesis using assms(2)
    by (cases p) (auto simp: pe2ps_aux_def pe2ps_prim_def pe2qb_prim_def split: prod.splits)
qed

theorem pe2ps_wide_id_overruns_witness:
  "fst (pe2ps_aux PS_LEN_SPAG (str_write (\<lambda>_. True)) ps_alloc (pe_alloc 2 PE_FORM_PRIM 16384) 1) = Fault"
  using pe2ps_wide_id_overruns [of "pe_alloc 2 PE_FORM_PRIM 16384"] by (simp add: hdr0_def)

end
