(* ===== verification/Ps2pe.thy ===== *)
theory Ps2pe
  imports Pe2ps
begin

text \<open>
  The decoder of the basic encoding rules: \<^verbatim>\<open>psap/ps2pe.c\<close> over any stream, and its two callers
  \<^verbatim>\<open>psap/ssdu2pe.c\<close> (one block of memory) and \<^verbatim>\<open>psap/qbuf2pe.c\<close> (a queue of buffers). The loops of the
  decoder run as long as the stream delivers octets; the model counts them with fuel, one unit per
  loop step and call level, and the theorems show how much is enough for a stream of known length.
\<close>

section \<open>Identifier and length\<close>

definition PE_ID_OVERSHIFT :: "16 word" where
  "PE_ID_OVERSHIFT = push_bit (14 - 7) 0x7f"

definition if_eof :: "int \<Rightarrow> PS \<Rightarrow> PS" where
  "if_eof e ps = (if ps_errno ps = PS_ERR_EOF then ps_seterr ps e else ps)"

text \<open>One octet; a failed read returns NOTOK after the error code is adjusted.\<close>

definition ps_octet :: "reader \<Rightarrow> (PS \<Rightarrow> PS) \<Rightarrow> PS \<Rightarrow> byte outcome \<times> PS" where
  "ps_octet rd adj ps =
     (case ps_read rd ps 1 of
        (Done bs, ps') \<Rightarrow> (Done (hd bs), ps')
      | (_, ps') \<Rightarrow> (Notok, adj ps'))"

fun ps_read_xid :: "reader \<Rightarrow> nat \<Rightarrow> PS \<Rightarrow> 16 word \<Rightarrow> 16 word outcome \<times> PS" where
  "ps_read_xid rd 0 ps j = (Spent, ps)"
| "ps_read_xid rd (Suc k) ps j =
     obind (ps_octet rd (if_eof PS_ERR_EOFID) ps) (\<lambda>d ps.
       let j = j OR ucast (d AND 0x7f) in
       if d AND 0x80 = 0 then (Done j, ps)
       else if j AND PE_ID_OVERSHIFT \<noteq> 0 then (Notok, ps_seterr ps PS_ERR_OVERID)
       else ps_read_xid rd k ps (push_bit 7 j))"

definition ps_read_id :: "reader \<Rightarrow> nat \<Rightarrow> bool \<Rightarrow> PS \<Rightarrow> (8 word \<times> bool \<times> 16 word) outcome \<times> PS" where
  "ps_read_id rd k is_top ps =
     obind (ps_octet rd (if is_top then if_eof PS_ERR_NONE else id) ps) (\<lambda>c ps.
       let cl = drop_bit 6 (c AND 0xc0); constr = (c AND 0x20 \<noteq> 0); j = ucast (c AND 0x1f) in
       if j = PE_ID_XTND
       then obind (ps_read_xid rd k ps 0) (\<lambda>j ps. (Done (cl, constr, j), ps))
       else (Done (cl, constr, j), ps))"

text \<open>The length octets: at most \<^verbatim>\<open>sizeof (PElementLen)\<close> = 4, shifted into a 32-bit \<^verbatim>\<open>int\<close>.\<close>

fun ps_read_lens :: "reader \<Rightarrow> nat \<Rightarrow> PS \<Rightarrow> 32 word \<Rightarrow> 32 word outcome \<times> PS" where
  "ps_read_lens rd 0 ps j = (Done j, ps)"
| "ps_read_lens rd (Suc i) ps j =
     obind (ps_octet rd (if_eof PS_ERR_EOFLEN) ps) (\<lambda>c ps.
       ps_read_lens rd i ps (push_bit 8 j OR ucast c))"

definition ps_read_len :: "reader \<Rightarrow> PS \<Rightarrow> int outcome \<times> PS" where
  "ps_read_len rd ps =
     obind (ps_octet rd id ps) (\<lambda>c ps.
       if c AND 0x80 \<noteq> 0
       then (let i = unat (c AND 0x7f) in
         if i > 4 then (Notok, ps_seterr ps PS_ERR_OVERLEN)
         else if i \<noteq> 0 then obind (ps_read_lens rd i ps 0) (\<lambda>j ps. (Done (sint j), ps))
         else (Done PE_LEN_INDF, ps))
       else (Done (uint c), ps))"

section \<open>The element\<close>

text \<open>
  The contents of a primitive. On an inline stream they are taken where they are; otherwise a block
  is allocated. When that fails the code clears its only pointer to the element and then frees it:
  \<^verbatim>\<open>pe_free\<close> of a null element faults.
\<close>

definition ps2pe_prim :: "(int \<Rightarrow> bool) \<Rightarrow> reader \<Rightarrow> pelem_hdr \<Rightarrow> PS \<Rightarrow> PE outcome \<times> PS" where
  "ps2pe_prim mem rd h ps =
     (let len = pe_len h in
      if len = PE_LEN_INDF then (Notok, ps_seterr ps PS_ERR_INDF)
      else if len > 0
      then (if ps_inline ps
            then (if ps_base ps = None \<or> ps_cnt ps < len then (Notok, ps_seterr ps PS_ERR_EOF)
                  else (Done (PRIM (h\<lparr>pe_inline := True\<rparr>)
                          (Some (take (nat len) (drop (nat (ps_ptr ps)) (octs (ps_base ps)))))),
                        ps\<lparr>ps_ptr := ps_ptr ps + len, ps_cnt := ps_cnt ps - len,
                           ps_byteno := ps_byteno ps + len\<rparr>))
            else if \<not> malloc_int mem len then (Fault, ps_seterr ps PS_ERR_NMEM)
            else obind (ps_read rd ps len) (\<lambda>bs ps. (Done (PRIM h (Some bs)), ps)))
      else (Done (PRIM h None), ps))"

definition is_eoc :: "PE \<Rightarrow> bool" where
  "is_eoc p \<longleftrightarrow> pe_class (pe_hdr p) = PE_CLASS_UNIV \<and> pe_id (pe_hdr p) = PE_UNIV_EOC"

text \<open>
  \<^verbatim>\<open>ps2pe_aux\<close> and \<^verbatim>\<open>ps_read_cons\<close> with its two loops: members until an end-of-contents element, or
  until the stream has advanced by the announced length. \<^verbatim>\<open>ps_prime\<close> calls the prime routine of
  the stream; string and queued-buffer streams have none, and it answers OK.
\<close>

fun ps2pe_aux :: "(int \<Rightarrow> bool) \<Rightarrow> reader \<Rightarrow> nat \<Rightarrow> bool \<Rightarrow> bool \<Rightarrow> PS \<Rightarrow> PE outcome \<times> PS"
and ps_read_cons :: "(int \<Rightarrow> bool) \<Rightarrow> reader \<Rightarrow> nat \<Rightarrow> PS \<Rightarrow> int \<Rightarrow> PE list outcome \<times> PS"
and cons_indefinite :: "(int \<Rightarrow> bool) \<Rightarrow> reader \<Rightarrow> nat \<Rightarrow> PS \<Rightarrow> PE list outcome \<times> PS"
and cons_definite :: "(int \<Rightarrow> bool) \<Rightarrow> reader \<Rightarrow> nat \<Rightarrow> PS \<Rightarrow> int \<Rightarrow> PE list outcome \<times> PS" where
  "ps2pe_aux mem rd 0 is_top all ps = (Spent, ps)"
| "ps2pe_aux mem rd (Suc k) is_top all ps =
     obind (ps_read_id rd (Suc k) is_top ps) (\<lambda>(cl, constr, i) ps.
     obind (ps_read_len rd ps) (\<lambda>len ps.
       let h = (hdr0 cl i)\<lparr>pe_len := len\<rparr> in
       if \<not> all then (Done (if constr then CONS h [] else PRIM h None), ps)
       else if \<not> constr then ps2pe_prim mem rd h ps
       else if len = 0 then (Done (CONS h []), ps)
       else obind (ps_read_cons mem rd k ps len) (\<lambda>cs ps. (Done (CONS h cs), ps))))"
| "ps_read_cons mem rd 0 ps len = (Spent, ps)"
| "ps_read_cons mem rd (Suc k) ps len =
     (let cc = c_int (ps_byteno ps + len) in
      obind (ps2pe_aux mem rd k False True ps) (\<lambda>p ps.
        if len = PE_LEN_INDF
        then (if is_eoc p then (Done [], ps)
              else obind (cons_indefinite mem rd k ps) (\<lambda>qs ps. (Done (p # qs), ps)))
        else obind (cons_definite mem rd k ps cc) (\<lambda>qs ps. (Done (p # qs), ps))))"
| "cons_indefinite mem rd 0 ps = (Spent, ps)"
| "cons_indefinite mem rd (Suc k) ps =
     obind (ps2pe_aux mem rd k False True ps) (\<lambda>p ps.
       if is_eoc p then (Done [], ps)
       else obind (cons_indefinite mem rd k ps) (\<lambda>qs ps. (Done (p # qs), ps)))"
| "cons_definite mem rd 0 ps cc = (Spent, ps)"
| "cons_definite mem rd (Suc k) ps cc =
     (if cc < ps_byteno ps then (Notok, ps_seterr ps PS_ERR_LEN)
      else if cc = ps_byteno ps then (Done [], ps)
      else obind (ps2pe_aux mem rd k False True ps) (\<lambda>p ps.
        obind (cons_definite mem rd k ps cc) (\<lambda>qs ps. (Done (p # qs), ps))))"

section \<open>The callers\<close>

definition ps2pe :: "(int \<Rightarrow> bool) \<Rightarrow> reader \<Rightarrow> nat \<Rightarrow> PS \<Rightarrow> PE outcome \<times> PS" where
  "ps2pe mem rd k ps = ps2pe_aux mem rd k True True ps"

text \<open>
  The result codes of \<^verbatim>\<open>ssdu2pe\<close> and \<^verbatim>\<open>qbuf2pe\<close>: no error with an element, and an end of file when
  the decoder failed without setting one. \<open>realbase\<close> says whether the caller keeps the block alive,
  so that primitives may point into it.
\<close>

definition no_error_is_eof :: "PS \<Rightarrow> int" where
  "no_error_is_eof ps = (if ps_errno ps = PS_ERR_NONE then PS_ERR_EOF else ps_errno ps)"

definition ssdu2pe :: "(int \<Rightarrow> bool) \<Rightarrow> nat \<Rightarrow> byte list option \<Rightarrow> int \<Rightarrow> bool \<Rightarrow> PE outcome \<times> int" where
  "ssdu2pe mem k base len realbase =
     (case str_setup mem ps_alloc base len True of
        (Done _, ps) \<Rightarrow>
          (case ps2pe mem str_read k (if realbase then ps else ps\<lparr>ps_inline := False\<rparr>) of
             (Done pe, ps') \<Rightarrow> (Done pe, PS_ERR_NONE)
           | (r, ps') \<Rightarrow> (r, no_error_is_eof ps'))
      | (_, ps) \<Rightarrow> (Notok, ps_errno ps))"

definition qbuf2pe :: "(int \<Rightarrow> bool) \<Rightarrow> nat \<Rightarrow> byte list list \<Rightarrow> PE outcome \<times> int" where
  "qbuf2pe mem k qb =
     (case ps2pe mem qbuf_read k (qbuf_setup ps_alloc qb) of
        (Done pe, ps') \<Rightarrow> (Done pe, PS_ERR_NONE)
      | (r, ps') \<Rightarrow> (r, no_error_is_eof ps'))"

end
