(* ===== verification/Ber_Codec.thy ===== *)
theory Ber_Codec
  imports Ps2pe
begin

text \<open>
  Correctness of the decoder over any stream that satisfies the source interface: it reads back what
  the encoders write, it consumes exactly the encoding, and it always returns once it has fuel for
  the octets of the stream. The results are carried over to \<^verbatim>\<open>ssdu2pe\<close> and \<^verbatim>\<open>qbuf2pe\<close> through the
  interpretations of the interface.
\<close>

section \<open>Octet-level facts\<close>

lemma class_cases: "cl < 4 \<Longrightarrow> cl = 0 \<or> cl = 1 \<or> cl = 2 \<or> cl = 3" for cl :: "8 word"
proof -
  assume "cl < 4"
  then have "unat cl = 0 \<or> unat cl = 1 \<or> unat cl = 2 \<or> unat cl = 3" by (auto simp: word_less_nat_alt)
  then show ?thesis by (auto simp: word_unat_eq_iff)
qed

lemma first_octet:
  fixes u :: byte
  assumes "cl < 4" "unat u < 32"
  shows "drop_bit 6 ((id_first cl constr OR u) AND 0xc0) = cl"
    "(id_first cl constr OR u) AND 0x20 \<noteq> 0 \<longleftrightarrow> constr" "(id_first cl constr OR u) AND 0x1f = u"
  using class_cases [OF assms(1)] octet_and_small [OF assms(2)]
  by (auto simp: id_first_def bit.conj_disj_distrib2 drop_bit_eq_div)

lemma ucast_small_unat: "unat i < 256 \<Longrightarrow> unat (ucast i :: byte) = unat i" for i :: "16 word"
  by (simp add: unsigned_ucast_eq take_bit_eq_mod)

lemma ucast_back: "unat i < 256 \<Longrightarrow> ucast (ucast i :: byte) = i" for i :: "16 word"
  by (simp add: word_unat_eq_iff unsigned_ucast_eq take_bit_eq_mod unat_mod)

lemma overshift_small: "unat j < 128 \<Longrightarrow> j AND PE_ID_OVERSHIFT = 0"
proof -
  assume "unat j < 128"
  then have "j = j AND 127" by (simp add: and127_small)
  then have "j AND PE_ID_OVERSHIFT = j AND (127 AND PE_ID_OVERSHIFT)" by (metis and.assoc)
  then show ?thesis by (simp add: PE_ID_OVERSHIFT_def)
qed

lemma id_join: "push_bit 7 (drop_bit 7 i) OR (i AND 127) = i" for i :: "16 word"
proof -
  have "push_bit 7 (drop_bit 7 i) OR take_bit 7 i = i"
    by (rule bit_word_eqI) (auto simp: bit_simps)
  then show ?thesis by (simp add: take_bit_eq_mask mask_eq_exp_minus_1)
qed

lemma and127_unat: "unat (i AND 127) < 128" for i :: "16 word"
proof -
  have "unat (take_bit 7 i) < 128" by (simp add: take_bit_eq_mod unat_mod)
  then show ?thesis by (simp add: take_bit_eq_mask mask_eq_exp_minus_1)
qed

definition len_word :: "32 word \<Rightarrow> byte list \<Rightarrow> 32 word" where
  "len_word = foldl (\<lambda>j c. push_bit 8 j OR ucast c)"

lemma len_word_fill:
  "0 \<le> n \<Longrightarrow> n < 256 ^ k \<Longrightarrow> len_word 0 (len_fill k n) = word_of_int n"
proof (induction k n rule: len_fill.induct)
  case (1 n) then have "n = 0" by simp
  then show ?case by (simp add: len_word_def)
next
  case (2 k n)
  show ?case
  proof (cases "n = 0")
    case False
    have "n div 256 < 256 ^ k" using 2 by (simp add: div_less_iff_less_mult mult.commute)
    with 2 False have "len_word 0 (len_fill k (n div 256)) = word_of_int (n div 256)" by simp
    moreover have "ucast (word_of_int n :: byte) = (word_of_int (n mod 256) :: 32 word)"
      by (simp add: unsigned_of_int take_bit_eq_mod)
    moreover have "word_of_int n = (word_of_int (n div 256) * 256 + word_of_int (n mod 256) :: 32 word)"
    proof -
      have "word_of_int n = (word_of_int (n div 256 * 256 + n mod 256) :: 32 word)" by simp
      then show ?thesis by (simp only: of_int_add of_int_mult of_int_numeral)
    qed
    ultimately show ?thesis using False by (simp add: len_word_def foldl_octets_word)
  qed (simp add: len_word_def)
qed

lemma sint_len: "0 \<le> n \<Longrightarrow> n \<le> INT_MAX \<Longrightarrow> sint (word_of_int n :: 32 word) = n"
  by (simp add: INT_MAX_def signed_of_int signed_take_bit_int_eq_self_iff)

text \<open>
  What decoding an encoding gives: the lengths as they were written, primitives marked inline when the
  stream is, and a null pointer for empty contents. \<open>plain\<close> elements have a class of two bits, no
  pre-encoded parts, and no member that looks like an end-of-contents mark.
\<close>

fun norm :: "bool \<Rightarrow> PE \<Rightarrow> PE" where
  "norm il (PRIM h b) = PRIM ((hdr0 (pe_class h) (pe_id h))
     \<lparr>pe_len := pe_len h, pe_inline := il \<and> octs b \<noteq> []\<rparr>) (if octs b = [] then None else Some (octs b))"
| "norm il (CONS h cs) = CONS ((hdr0 (pe_class h) (pe_id h))\<lparr>pe_len := pe_len h\<rparr>) (map (norm il) cs)"
| "norm il (ICONS h b) = ICONS h b"

fun plain :: "PE \<Rightarrow> bool" where
  "plain (PRIM h b) \<longleftrightarrow> pe_class h < 4"
| "plain (CONS h cs) \<longleftrightarrow> pe_class h < 4 \<and> list_all (\<lambda>c. plain c \<and> \<not> is_eoc c) cs"
| "plain (ICONS h b) \<longleftrightarrow> False"

lemma hdr0_fields [simp]:
  "pe_class (hdr0 c i) = c" "pe_id (hdr0 c i) = i" "pe_len (hdr0 c i) = 0" "pe_inline (hdr0 c i) = False"
  "pe_errno (hdr0 c i) = 0"
  by (simp_all add: hdr0_def)

lemma norm_value: "plain p \<Longrightarrow> pe_value (norm il p) = pe_value p"
  by (induction p) (auto simp: list_all_iff)

lemma norm_wf: "plain p \<Longrightarrow> sized p \<Longrightarrow> pe_wf (norm il p)"
  by (induction p) (auto simp: list_all_iff)

lemma norm_eoc: "plain p \<Longrightarrow> is_eoc (norm il p) = is_eoc p"
  by (cases p) (auto simp: is_eoc_def)

lemma header_length: "i < 2 ^ 14 \<Longrightarrow> 2 \<le> length (id_enc cl c i @ len_octets n)"
proof -
  assume "i < 2 ^ 14"
  then have "1 \<le> length (id_enc cl c i)" using id_enc_length [of i cl c] by linarith
  moreover have "1 \<le> length (len_octets n)" by (simp add: len_octets_def Let_def)
  ultimately show ?thesis unfolding length_append by linarith
qed

lemma plain_ber_nonempty:
  assumes "plain p" "sized p"
  shows "2 \<le> length (ber p)"
proof -
  obtain cl c i n xs where b: "ber p = id_enc cl c i @ len_octets n @ xs" "i < 2 ^ 14"
    using assms by (cases p) (auto simp: id_ok_def)
  from header_length [OF b(2), of cl c n] show ?thesis by (simp add: b(1))
qed

section \<open>Reading back\<close>

context ps_source
begin

definition ate :: "PS \<Rightarrow> byte list \<Rightarrow> PS \<Rightarrow> bool" where
  "ate ps us ps' \<longleftrightarrow> live ps' \<and> content ps = us @ content ps'
     \<and> ps_byteno ps' = ps_byteno ps + int (length us) \<and> ps_inline ps' = ps_inline ps"

definition reads :: "PS \<Rightarrow> byte list \<Rightarrow> 'a \<Rightarrow> 'a outcome \<times> PS \<Rightarrow> bool" where
  "reads ps us x r \<longleftrightarrow> (\<exists>ps'. r = (Done x, ps') \<and> ate ps us ps')"

lemma reads_bind:
  assumes "reads ps us x r" "\<And>ps'. ate ps us ps' \<Longrightarrow> reads ps' vs y (f x ps')"
  shows "reads ps (us @ vs) y (obind r f)"
  using assms by (fastforce simp: reads_def ate_def)

lemma reads_Done: "live ps \<Longrightarrow> reads ps [] x (Done x, ps)"
  by (simp add: reads_def ate_def)

lemma reads_bind_Done:
  assumes "reads ps us x r" "\<And>ps'. f x ps' = (Done y, ps')"
  shows "reads ps us y (obind r f)"
  using assms by (auto simp: reads_def)

lemma ateD: "ate ps us ps' \<Longrightarrow> content ps = us @ vs \<Longrightarrow> live ps' \<and> content ps' = vs"
  by (simp add: ate_def)

lemma octet_ok:
  assumes "live ps" "content ps = c # vs"
  shows "reads ps [c] c (ps_octet rd adj ps)"
  using read_exact [of ps 1 "[c]" vs] assms by (auto simp: ps_octet_def ate_def reads_def)

lemma octet_bind:
  assumes "live ps" "content ps = c # us @ vs"
    and "\<And>ps'. ate ps [c] ps' \<Longrightarrow> live ps' \<Longrightarrow> content ps' = us @ vs \<Longrightarrow> reads ps' us y (f c ps')"
  shows "reads ps (c # us) y (obind (ps_octet rd adj ps) f)"
proof -
  have "reads ps ([c] @ us) y (obind (ps_octet rd adj ps) f)"
    by (rule reads_bind [OF octet_ok [OF assms(1,2)]]) (use assms in \<open>auto simp: ate_def\<close>)
  then show ?thesis by simp
qed

lemma xid_last:
  assumes "live ps" "content ps = d # vs" "unat d < 128"
  shows "reads ps [d] (j OR ucast d) (ps_read_xid rd (Suc k) ps j)"
  unfolding ps_read_xid.simps
  by (rule octet_bind [OF assms(1), of d "[]", simplified, OF assms(2)])
    (simp add: octet_and_seven [OF assms(3)] reads_Done)

lemma xid_more:
  assumes "live ps" "content ps = (d OR 0x80) # us @ vs" "unat d < 128"
    "(j OR ucast d) AND PE_ID_OVERSHIFT = 0"
    and "\<And>ps'. live ps' \<Longrightarrow> content ps' = us @ vs \<Longrightarrow> reads ps' us i (ps_read_xid rd k ps' (push_bit 7 (j OR ucast d)))"
  shows "reads ps ((d OR 0x80) # us) i (ps_read_xid rd (Suc k) ps j)"
  unfolding ps_read_xid.simps
  by (rule octet_bind [OF assms(1,2)]) (use assms(4,5) octet_and_seven [OF assms(3)] in \<open>simp add: Let_def\<close>)

lemma read_id_ext:
  assumes "cl < 4" "live ps" "content ps = (id_first cl constr OR 0x1f) # us @ vs"
    and "\<And>ps'. live ps' \<Longrightarrow> content ps' = us @ vs \<Longrightarrow> reads ps' us i (ps_read_xid rd k ps' 0)"
  shows "reads ps ((id_first cl constr OR 0x1f) # us) (cl, constr, i) (ps_read_id rd k t ps)"
  unfolding ps_read_id_def
  by (rule octet_bind [OF assms(2,3)])
    (use assms(4) first_octet [OF assms(1), of "0x1f"] in
      \<open>auto simp: Let_def PE_ID_XTND_def intro!: reads_bind_Done\<close>)

lemma read_id_ok:
  assumes "cl < 4" "i < 2 ^ 14" "live ps" "content ps = id_enc cl constr i @ rest" "2 \<le> k"
  shows "reads ps (id_enc cl constr i) (cl, constr, i) (ps_read_id rd k t ps)"
proof -
  obtain k' where k: "k = Suc (Suc k')" using assms(5) by (metis Suc_le_D numeral_2_eq_2 Suc_le_mono)
  show ?thesis using assms(2)
  proof (cases rule: id_octets_cases [of i cl constr])
    case short
    let ?u = "ucast i :: byte"
    have u: "unat ?u = unat i" "unat i < 31" using short(1) by (auto simp: ucast_small_unat word_less_nat_alt)
    then have "ucast ?u = i" "i \<noteq> 31" by (auto simp: ucast_back)
    moreover have "content ps = (id_first cl constr OR ?u) # [] @ rest"
      using assms(4) short by (simp add: id_enc_def)
    ultimately show ?thesis using short first_octet [OF assms(1), of ?u constr] u
      unfolding ps_read_id_def id_enc_def option.sel short(2)
      by (intro octet_bind [OF assms(3)]) (auto simp: Let_def PE_ID_XTND_def reads_Done)
  next
    case one
    have "content ps = (id_first cl constr OR 0x1f) # [ucast i] @ rest" using assms(4) one by (simp add: id_enc_def)
    from read_id_ext [OF assms(1,3) this, of i k t] show ?thesis
      using xid_last [of _ "ucast i" rest 0 "Suc k'"] one k
      by (simp add: id_enc_def ucast_small_unat ucast_back)
  next
    case two
    let ?d = "ucast (drop_bit 7 i) :: byte" and ?e = "ucast (i AND 127) :: byte"
    have d: "unat (drop_bit 7 i) < 128" using two(2) by (simp add: drop7_unat)
    have e: "unat ?e < 128" "ucast ?e = i AND 127"
      using and127_unat [of i] by (simp_all add: ucast_small_unat ucast_back)
    have "reads ps' [?d OR 0x80, ?e] i (ps_read_xid rd k ps' 0)"
      if "live ps'" "content ps' = [?d OR 0x80, ?e] @ rest" for ps'
      unfolding k
      by (rule xid_more [of ps' ?d "[?e]" rest])
        (use that d e xid_last [of _ ?e rest "push_bit 7 (drop_bit 7 i)" k'] in
          \<open>simp_all add: ucast_small_unat ucast_back overshift_small id_join\<close>)
    moreover have "content ps = (id_first cl constr OR 0x1f) # [?d OR 0x80, ?e] @ rest"
      using assms(4) two by (simp add: id_enc_def)
    ultimately show ?thesis using read_id_ext [OF assms(1,3), of constr "[?d OR 0x80, ?e]" rest i k t] two
      by (simp add: id_enc_def)
  qed
qed

lemma read_lens_ok:
  "live ps \<Longrightarrow> content ps = bs @ rest \<Longrightarrow>
     reads ps bs (len_word j bs) (ps_read_lens rd (length bs) ps j)"
proof (induction bs arbitrary: ps j)
  case Nil
  then show ?case by (simp add: len_word_def reads_Done)
next
  case (Cons c bs)
  then have "reads ps (c # bs) (len_word (push_bit 8 j OR ucast c) bs)
      (obind (ps_octet rd (if_eof PS_ERR_EOFLEN) ps) (\<lambda>c ps. ps_read_lens rd (length bs) ps (push_bit 8 j OR ucast c)))"
    by (intro octet_bind) auto
  then show ?case by (simp add: len_word_def)
qed

lemma read_len_ok:
  assumes "n = PE_LEN_INDF \<or> 0 \<le> n" "n \<le> INT_MAX" "live ps" "content ps = len_octets n @ rest"
  shows "reads ps (len_octets n) n (ps_read_len rd ps)"
proof -
  consider "n = PE_LEN_INDF" | "n \<noteq> PE_LEN_INDF" "0 \<le> n" "n \<le> 127" | "127 < n" using assms(1) by linarith
  then show ?thesis
  proof cases
    case 1
    then have "len_octets n = [0x80]" by (simp add: len_octets_def)
    with assms 1 show ?thesis unfolding ps_read_len_def
      by (auto intro!: octet_bind [where us = "[]"] reads_Done)
  next
    case 2
    let ?c = "word_of_int n :: byte"
    have l: "len_octets n = [?c]" using 2 by (simp add: len_octets_def PE_LEN_SMAX_def)
    have u: "uint ?c = n" using 2 by (simp add: unsigned_of_int take_bit_eq_mod)
    then have "unat ?c < 128" using 2 by (simp add: unat_eq_nat_uint)
    with assms l u octet_and_seven [OF this] show ?thesis unfolding ps_read_len_def
      by (auto intro!: octet_bind [where us = "[]"] reads_Done)
  next
    case 3
    let ?bs = "len_fill 4 n" and ?m = "of_nat (length (len_fill 4 n)) :: byte"
    have l: "len_octets n = (0x80 OR ?m) # ?bs" using 3 by (simp add: len_octets_def PE_LEN_SMAX_def PE_LEN_INDF_def Let_def)
    have "length ?bs \<le> 4" by (rule len_fill_length)
    moreover have "length ?bs \<noteq> 0" using 3 by (simp add: numeral_eq_Suc)
    ultimately have m: "unat ?m = length ?bs" by (simp add: unat_of_nat)
    with \<open>length ?bs \<le> 4\<close> have "unat ?m < 128" by simp
    note m7 = octet_and_seven [OF this]
    have w: "sint (len_word 0 ?bs) = n" using 3 assms(2) by (simp add: len_word_fill sint_len INT_MAX_def)
    have "reads ps (len_octets n) n (obind (ps_octet rd id ps) (\<lambda>c ps.
       if c AND 0x80 \<noteq> 0
       then (let i = unat (c AND 0x7f) in
         if i > 4 then (Notok, ps_seterr ps PS_ERR_OVERLEN)
         else if i \<noteq> 0 then obind (ps_read_lens rd i ps 0) (\<lambda>j ps. (Done (sint j), ps))
         else (Done PE_LEN_INDF, ps))
       else (Done (uint c), ps)))"
      unfolding l
    proof (rule octet_bind [OF assms(3)])
      show "content ps = (0x80 OR ?m) # ?bs @ rest" using assms(4) l by simp
    next
      fix ps' assume "live ps'" "content ps' = ?bs @ rest"
      from read_lens_ok [OF this, of 0] w have "reads ps' ?bs n (obind (ps_read_lens rd (length ?bs) ps' 0) (\<lambda>j ps. (Done (sint j), ps)))"
        by (auto intro!: reads_bind_Done)
      then show "reads ps' ?bs n (if (0x80 OR ?m) AND 0x80 \<noteq> 0
       then (let i = unat ((0x80 OR ?m) AND 0x7f) in
         if i > 4 then (Notok, ps_seterr ps' PS_ERR_OVERLEN)
         else if i \<noteq> 0 then obind (ps_read_lens rd i ps' 0) (\<lambda>j ps. (Done (sint j), ps))
         else (Done PE_LEN_INDF, ps'))
       else (Done (uint (0x80 OR ?m)), ps'))"
        using m m7 \<open>length ?bs \<le> 4\<close> \<open>length ?bs \<noteq> 0\<close> by (simp add: Let_def or.commute)
    qed
    then show ?thesis by (simp add: ps_read_len_def)
  qed
qed

lemma read_prim_ok:
  assumes "pe_len h = int (length bs)" "live ps" "content ps = bs @ rest"
  shows "reads ps bs (PRIM (h\<lparr>pe_inline := ps_inline ps \<and> bs \<noteq> [] \<or> pe_inline h\<rparr>) (if bs = [] then None else Some bs))
    (ps2pe_prim (\<lambda>_. True) rd h ps)"
proof (cases "bs = []")
  case True
  then show ?thesis using assms by (simp add: ps2pe_prim_def PE_LEN_INDF_def reads_Done)
next
  case ne: False
  show ?thesis
  proof (cases "ps_inline ps")
    case False
    have "reads ps bs bs (ps_read rd ps (int (length bs)))"
      using read_exact [OF assms(2) _ assms(3) refl] assms(3) by (auto simp: reads_def ate_def)
    from reads_bind_Done [OF this, of "\<lambda>bs ps. (Done (PRIM h (Some bs)), ps)"] show ?thesis
      using False ne assms(1) by (simp add: ps2pe_prim_def PE_LEN_INDF_def malloc_int_iff)
  next
    case True
    from inline_law [OF assms(2) True] obtain b where b: "ps_base ps = Some b" "ps_cnt ps = int (length (content ps))"
      "0 \<le> ps_ptr ps" "content ps = take (nat (ps_cnt ps)) (drop (nat (ps_ptr ps)) b)" by blast
    let ?q = "ps\<lparr>ps_ptr := ps_ptr ps + int (length bs), ps_cnt := ps_cnt ps - int (length bs)\<rparr>"
    have "live ?q" "content ?q = rest"
      using inline_adv [OF assms(2) True, of "int (length bs)"] b(2) assms(3) by auto
    moreover have "take (length bs) (drop (nat (ps_ptr ps)) b) = bs"
    proof -
      have "take (length bs) (content ps) = bs" "nat (ps_cnt ps) \<ge> length bs" using assms(3) b(2) by simp_all
      then show ?thesis unfolding b(4) by (simp add: min_def)
    qed
    moreover have "ps\<lparr>ps_ptr := ps_ptr ps + int (length bs), ps_cnt := ps_cnt ps - int (length bs),
        ps_byteno := ps_byteno ps + int (length bs)\<rparr> = ?q\<lparr>ps_byteno := ps_byteno ps + int (length bs)\<rparr>" by simp
    ultimately show ?thesis using True ne assms b(1,2)
      by (auto simp: ps2pe_prim_def Let_def PE_LEN_INDF_def reads_def ate_def live_frame content_frame)
  qed
qed

lemma cons_indefinite_eq: "ps_read_cons mem rd k ps PE_LEN_INDF = cons_indefinite mem rd k ps"
  by (cases k) simp_all

lemma cons_definite_eq:
  "len \<noteq> PE_LEN_INDF \<Longrightarrow> c_int (ps_byteno ps + len) > ps_byteno ps \<Longrightarrow>
     ps_read_cons mem rd k ps len = cons_definite mem rd k ps (c_int (ps_byteno ps + len))"
  by (cases k) simp_all

definition decodes :: "PE \<Rightarrow> bool" where
  "decodes p \<longleftrightarrow> (\<forall>ps k t rest. live ps \<longrightarrow> content ps = ber p @ rest \<longrightarrow>
     ps_byteno ps + int (length (ber p)) \<le> INT_MAX \<longrightarrow> 0 \<le> ps_byteno ps \<longrightarrow> 2 * length (ber p) + 1 \<le> k \<longrightarrow>
     reads ps (ber p) (norm (ps_inline ps) p) (ps2pe_aux (\<lambda>_. True) rd k t True ps))"

lemma indefinite_ok:
  assumes "list_all decodes cs" "list_all (\<lambda>c. plain c \<and> \<not> is_eoc c) cs" "list_all sized cs" "decodes (PRIM pe_eoc None)"
  shows "live ps \<Longrightarrow> content ps = (concat (map ber cs) @ [0, 0]) @ rest \<Longrightarrow>
    ps_byteno ps + int (length (concat (map ber cs) @ [0, 0::byte])) \<le> INT_MAX \<Longrightarrow> 0 \<le> ps_byteno ps \<Longrightarrow>
    2 * length (concat (map ber cs) @ [0, 0::byte]) + 2 \<le> k \<Longrightarrow>
    reads ps (concat (map ber cs) @ [0, 0]) (map (norm (ps_inline ps)) cs) (cons_indefinite (\<lambda>_. True) rd k ps)"
  using assms(1-3)
proof (induction cs arbitrary: ps k)
  case Nil
  then obtain k' where k: "k = Suc k'" by (cases k) auto
  have "reads ps [0, 0] (norm (ps_inline ps) (PRIM pe_eoc None)) (ps2pe_aux (\<lambda>_. True) rd k' False True ps)"
    using assms(4) Nil k unfolding decodes_def eoc_ber by simp
  moreover have "is_eoc (norm il (PRIM pe_eoc None))" for il by (simp add: is_eoc_def pe_eoc_def)
  ultimately show ?case unfolding k by (auto intro!: reads_bind_Done)
next
  case (Cons p cs)
  then obtain k' where k: "k = Suc k'" by (cases k) auto
  have l: "2 \<le> length (ber p)" and "decodes p" using Cons.prems by (simp_all add: plain_ber_nonempty)
  have p: "reads ps (ber p) (norm (ps_inline ps) p) (ps2pe_aux (\<lambda>_. True) rd k' False True ps)"
    using \<open>decodes p\<close> Cons.prems k unfolding decodes_def by simp
  have "reads ps (ber p @ (concat (map ber cs) @ [0, 0])) (norm (ps_inline ps) p # map (norm (ps_inline ps)) cs)
    (obind (ps2pe_aux (\<lambda>_. True) rd k' False True ps) (\<lambda>p ps.
       if is_eoc p then (Done [], ps)
       else obind (cons_indefinite (\<lambda>_. True) rd k' ps) (\<lambda>qs ps. (Done (p # qs), ps))))"
  proof (rule reads_bind [OF p])
    fix ps' assume a: "ate ps (ber p) ps'"
    have "reads ps' (concat (map ber cs) @ [0, 0]) (map (norm (ps_inline ps')) cs) (cons_indefinite (\<lambda>_. True) rd k' ps')"
      by (rule Cons.IH) (use a Cons.prems k l in \<open>auto simp: ate_def\<close>)
    then show "reads ps' (concat (map ber cs) @ [0, 0]) (norm (ps_inline ps) p # map (norm (ps_inline ps)) cs)
      (if is_eoc (norm (ps_inline ps) p) then (Done [], ps')
       else obind (cons_indefinite (\<lambda>_. True) rd k' ps') (\<lambda>qs ps'. (Done (norm (ps_inline ps) p # qs), ps')))"
      using a Cons.prems by (auto simp: norm_eoc ate_def intro!: reads_bind_Done)
  qed
  then show ?case unfolding k by simp
qed

lemma definite_ok:
  assumes "list_all decodes cs" "list_all plain cs" "list_all sized cs"
  shows "live ps \<Longrightarrow> content ps = concat (map ber cs) @ rest \<Longrightarrow>
    ps_byteno ps + int (length (concat (map ber cs))) \<le> INT_MAX \<Longrightarrow> 0 \<le> ps_byteno ps \<Longrightarrow>
    2 * length (concat (map ber cs)) + 2 \<le> k \<Longrightarrow>
    reads ps (concat (map ber cs)) (map (norm (ps_inline ps)) cs)
      (cons_definite (\<lambda>_. True) rd k ps (ps_byteno ps + int (length (concat (map ber cs)))))"
  using assms
proof (induction cs arbitrary: ps k)
  case Nil
  then show ?case by (cases k) (simp_all add: reads_Done)
next
  case (Cons p cs)
  then obtain k' where k: "k = Suc k'" by (cases k) auto
  let ?cc = "ps_byteno ps + int (length (concat (map ber (p # cs))))"
  have l: "2 \<le> length (ber p)" and "decodes p" using Cons.prems by (simp_all add: plain_ber_nonempty)
  have p: "reads ps (ber p) (norm (ps_inline ps) p) (ps2pe_aux (\<lambda>_. True) rd k' False True ps)"
    using \<open>decodes p\<close> Cons.prems k unfolding decodes_def by simp
  have "reads ps (ber p @ concat (map ber cs)) (norm (ps_inline ps) p # map (norm (ps_inline ps)) cs)
    (obind (ps2pe_aux (\<lambda>_. True) rd k' False True ps) (\<lambda>p ps.
       obind (cons_definite (\<lambda>_. True) rd k' ps ?cc) (\<lambda>qs ps. (Done (p # qs), ps))))"
  proof (rule reads_bind [OF p])
    fix ps' assume a: "ate ps (ber p) ps'"
    have "reads ps' (concat (map ber cs)) (map (norm (ps_inline ps')) cs)
        (cons_definite (\<lambda>_. True) rd k' ps' (ps_byteno ps' + int (length (concat (map ber cs)))))"
      by (rule Cons.IH) (use a Cons.prems k l in \<open>auto simp: ate_def\<close>)
    moreover have "ps_byteno ps' + int (length (concat (map ber cs))) = ?cc" using a by (simp add: ate_def)
    ultimately show "reads ps' (concat (map ber cs)) (norm (ps_inline ps) p # map (norm (ps_inline ps)) cs)
      (obind (cons_definite (\<lambda>_. True) rd k' ps' ?cc) (\<lambda>qs ps'. (Done (norm (ps_inline ps) p # qs), ps')))"
      using a by (auto simp: ate_def intro!: reads_bind_Done)
  qed
  then show ?case using l unfolding k by simp
qed

lemma header_ok:
  assumes "pe_class h < 4" "pe_id h < 2 ^ 14" "pe_len h = PE_LEN_INDF \<or> 0 \<le> pe_len h" "pe_len h \<le> INT_MAX"
    "live ps" "content ps = (id_enc (pe_class h) constr (pe_id h) @ len_octets (pe_len h) @ body) @ rest" "2 \<le> k"
    and "\<And>ps'. ate ps (id_enc (pe_class h) constr (pe_id h) @ len_octets (pe_len h)) ps' \<Longrightarrow>
      reads ps' body y (g (pe_class h) constr (pe_id h) (pe_len h) ps')"
  shows "reads ps (id_enc (pe_class h) constr (pe_id h) @ len_octets (pe_len h) @ body) y
    (obind (ps_read_id rd k t ps) (\<lambda>(cl, c, i) ps. obind (ps_read_len rd ps) (\<lambda>len ps. g cl c i len ps)))"
proof (rule reads_bind [OF read_id_ok [OF assms(1,2,5)]])
  show "content ps = id_enc (pe_class h) constr (pe_id h) @ (len_octets (pe_len h) @ body @ rest)" using assms(6) by simp
  fix ps' assume a: "ate ps (id_enc (pe_class h) constr (pe_id h)) ps'"
  have l: "live ps'" "content ps' = len_octets (pe_len h) @ (body @ rest)" using a assms(6) by (auto simp: ate_def)
  have "reads ps' (len_octets (pe_len h) @ body) y (obind (ps_read_len rd ps') (g (pe_class h) constr (pe_id h)))"
    by (rule reads_bind [OF read_len_ok [OF assms(3,4) l]])
      (rule assms(8), use a in \<open>auto simp: ate_def\<close>)
  then show "reads ps' (len_octets (pe_len h) @ body) y ((case (pe_class h, constr, pe_id h) of (cl, c, i) \<Rightarrow>
      \<lambda>ps. obind (ps_read_len rd ps) (\<lambda>len ps. g cl c i len ps)) ps')" by simp
qed (rule assms(7))

lemma decodes_prim:
  assumes "plain (PRIM h b)" "sized (PRIM h b)"
  shows "decodes (PRIM h b)"
  unfolding decodes_def
proof (intro allI impI)
  fix ps k t rest
  assume ps: "live ps" "content ps = ber (PRIM h b) @ rest"
    and m: "ps_byteno ps + int (length (ber (PRIM h b))) \<le> INT_MAX" "0 \<le> ps_byteno ps"
    and k: "2 * length (ber (PRIM h b)) + 1 \<le> k"
  have "2 \<le> length (ber (PRIM h b))" using assms by (rule plain_ber_nonempty)
  with k obtain k' where k': "k = Suc k'" "2 \<le> k" by (cases k) auto
  have "reads ps (ber (PRIM h b)) (norm (ps_inline ps) (PRIM h b)) (ps2pe_aux (\<lambda>_. True) rd (Suc k') t True ps)"
    unfolding ber.simps ps2pe_aux.simps
  proof (rule header_ok)
    fix ps' assume a: "ate ps (id_enc (pe_class h) False (pe_id h) @ len_octets (pe_len h)) ps'"
    let ?h = "(hdr0 (pe_class h) (pe_id h))\<lparr>pe_len := pe_len h\<rparr>"
    have "reads ps' (octs b) (PRIM (?h\<lparr>pe_inline := ps_inline ps' \<and> octs b \<noteq> [] \<or> pe_inline ?h\<rparr>) (if octs b = [] then None else Some (octs b)))
        (ps2pe_prim (\<lambda>_. True) rd ?h ps')"
      by (rule read_prim_ok [where rest = rest]) (use a assms ps in \<open>auto simp: ate_def\<close>)
    with a show "reads ps' (octs b) (norm (ps_inline ps) (PRIM h b))
      (let ha = (hdr0 (pe_class h) (pe_id h))\<lparr>pe_len := pe_len h\<rparr> in
       if \<not> True then (Done (if False then CONS ha [] else PRIM ha None), ps')
       else if \<not> False then ps2pe_prim (\<lambda>_. True) rd ha ps'
       else if pe_len h = 0 then (Done (CONS ha []), ps')
       else obind (ps_read_cons (\<lambda>_. True) rd k' ps' (pe_len h)) (\<lambda>cs ps. (Done (CONS ha cs), ps)))"
      by (auto simp: ate_def Let_def)
  qed (use assms ps m k' in \<open>auto simp: id_ok_def\<close>)
  with k' show "reads ps (ber (PRIM h b)) (norm (ps_inline ps) (PRIM h b)) (ps2pe_aux (\<lambda>_. True) rd k t True ps)"
    by simp
qed

lemma decodes_cons:
  assumes "plain (CONS h cs)" "sized (CONS h cs)" "list_all decodes cs"
  shows "decodes (CONS h cs)"
  unfolding decodes_def
proof (intro allI impI)
  fix ps k t rest
  let ?p = "CONS h cs" and ?cs = "concat (map ber cs)"
  let ?body = "if pe_len h = 0 then [] else ?cs @ (if pe_len h = PE_LEN_INDF then [0, 0] else [])"
  assume ps: "live ps" "content ps = ber ?p @ rest"
    and m: "ps_byteno ps + int (length (ber ?p)) \<le> INT_MAX" "0 \<le> ps_byteno ps"
    and k: "2 * length (ber ?p) + 1 \<le> k"
  have eoc: "decodes (PRIM pe_eoc None)"
    by (rule decodes_prim) (simp_all add: eoc_sized del: sized.simps, simp add: pe_eoc_def PE_CLASS_UNIV_def)
  have l2: "2 \<le> length (id_enc (pe_class h) True (pe_id h) @ len_octets (pe_len h))"
    using header_length assms(2) by (simp add: id_ok_def)
  then have lb: "length ?body + 2 \<le> length (ber ?p)" by simp
  with k obtain k' where k': "k = Suc k'" "2 \<le> k" "2 * length ?body + 2 \<le> k'" by (cases k) auto
  have "cs = []" if "pe_len h = 0"
  proof (cases cs)
    case (Cons a as)
    with assms have "2 \<le> length (ber a)" by (intro plain_ber_nonempty) auto
    with that assms(2) Cons show ?thesis by (auto simp: PE_LEN_INDF_def)
  qed
  note empty = this
  have cases: "pe_len h = PE_LEN_INDF \<or> pe_len h = int (length ?cs)" using assms by simp
  have "pe_len h \<le> int (length ?body)"
  proof (cases "pe_len h = 0 \<or> pe_len h = PE_LEN_INDF")
    case False
    with cases show ?thesis by (auto simp del: length_concat)
  qed (auto simp: PE_LEN_INDF_def)
  then have "pe_len h \<le> INT_MAX" using m lb by linarith
  have "reads ps (ber ?p) (norm (ps_inline ps) ?p) (ps2pe_aux (\<lambda>_. True) rd (Suc k') t True ps)"
    unfolding ber.simps ps2pe_aux.simps
  proof (rule header_ok)
    fix ps' assume a: "ate ps (id_enc (pe_class h) True (pe_id h) @ len_octets (pe_len h)) ps'"
    let ?h = "(hdr0 (pe_class h) (pe_id h))\<lparr>pe_len := pe_len h\<rparr>"
    have l: "live ps'" "content ps' = ?body @ rest" "ps_byteno ps' + int (length ?body) \<le> INT_MAX" "0 \<le> ps_byteno ps'"
      "ps_inline ps' = ps_inline ps"
      using a ps m by (auto simp: ate_def)
    have "reads ps' ?body (norm (ps_inline ps') ?p)
       (if pe_len h = 0 then (Done (CONS ?h []), ps')
        else obind (ps_read_cons (\<lambda>_. True) rd k' ps' (pe_len h)) (\<lambda>cs ps. (Done (CONS ?h cs), ps)))"
    proof (cases "pe_len h = 0")
      case True
      then show ?thesis using empty l by (simp add: reads_Done)
    next
      case ne: False
      have "reads ps' ?body (map (norm (ps_inline ps')) cs) (ps_read_cons (\<lambda>_. True) rd k' ps' (pe_len h))"
      proof (cases "pe_len h = PE_LEN_INDF")
        case True
        with ne indefinite_ok [of cs ps' rest k'] assms eoc l k'(3) show ?thesis
          by (auto simp: cons_indefinite_eq)
      next
        case False
        with cases have len: "pe_len h = int (length ?cs)" by simp
        have lc: "content ps' = ?cs @ rest" "ps_byteno ps' + int (length ?cs) \<le> INT_MAX" "2 * length ?cs + 2 \<le> k'"
          using l k'(3) ne False by (simp_all del: length_concat)
        then have "c_int (ps_byteno ps' + pe_len h) = ps_byteno ps' + pe_len h"
          using l(4) len by (intro c_int_id) (auto simp: INT_MAX_def)
        moreover have "list_all plain cs" using assms(1) by (simp add: list_all_iff)
        ultimately show ?thesis using definite_ok [of cs ps' rest k'] assms l(1,4) lc len False ne
          by (auto simp: cons_definite_eq simp del: length_concat)
      qed
      then show ?thesis using ne by (auto intro!: reads_bind_Done)
    qed
    then show "reads ps' ?body (norm (ps_inline ps) ?p)
      (let ha = (hdr0 (pe_class h) (pe_id h))\<lparr>pe_len := pe_len h\<rparr> in
       if \<not> True then (Done (if True then CONS ha [] else PRIM ha None), ps')
       else if \<not> True then ps2pe_prim (\<lambda>_. True) rd ha ps'
       else if pe_len h = 0 then (Done (CONS ha []), ps')
       else obind (ps_read_cons (\<lambda>_. True) rd k' ps' (pe_len h)) (\<lambda>cs ps. (Done (CONS ha cs), ps)))"
      using l(5) by (simp add: Let_def)
  qed (use assms ps m k' cases \<open>pe_len h \<le> INT_MAX\<close> in \<open>auto simp: id_ok_def\<close>)
  with k' show "reads ps (ber ?p) (norm (ps_inline ps) ?p) (ps2pe_aux (\<lambda>_. True) rd k t True ps)"
    by simp
qed

lemma decodes_all: "plain p \<Longrightarrow> sized p \<Longrightarrow> decodes p"
proof (induction p)
  case (CONS h cs)
  then have "list_all decodes cs" by (auto simp: list_all_iff)
  with CONS show ?case by (intro decodes_cons)
qed (auto intro: decodes_prim)

text \<open>
  Totality: with two units of fuel per octet of the stream, plus one, the decoder returns.
\<close>

definition returns :: "nat \<Rightarrow> PS \<Rightarrow> 'a outcome \<times> PS \<Rightarrow> bool" where
  "returns n ps r \<longleftrightarrow> fst r \<noteq> Spent \<and>
     (\<forall>x. fst r = Done x \<longrightarrow> live (snd r) \<and> length (content (snd r)) + n \<le> length (content ps))"

lemma returns_bind:
  assumes "returns m ps r" "\<And>x ps'. fst r = Done x \<Longrightarrow> snd r = ps' \<Longrightarrow> live ps' \<Longrightarrow>
      length (content ps') + m \<le> length (content ps) \<Longrightarrow> returns n ps' (f x ps')"
  shows "returns (m + n) ps (obind r f)"
  using assms by (cases "(r, f)" rule: obind.cases) (fastforce simp: returns_def)+

lemma returns_stop: "live ps \<Longrightarrow> returns 0 ps (Done x, ps)" "returns n ps (Notok, ps')" "returns n ps (Fault, ps')"
  by (simp_all add: returns_def)

lemma returns_weaken: "returns m ps r \<Longrightarrow> n \<le> m \<Longrightarrow> returns n ps r"
  by (auto simp: returns_def)

lemma returns_map: "returns n ps r \<Longrightarrow> returns n ps (obind r (\<lambda>x ps. (Done (g x), ps)))"
  using returns_bind [of n ps r 0 "\<lambda>x ps. (Done (g x), ps)"] by (simp add: returns_stop)

lemma returns_octet: "live ps \<Longrightarrow> returns 1 ps (ps_octet rd adj ps)"
  by (rule read_total [of ps 1]) (auto simp: ps_octet_def returns_def)

lemma returns_xid: "live ps \<Longrightarrow> length (content ps) < k \<Longrightarrow> returns 0 ps (ps_read_xid rd k ps j)"
proof (induction k arbitrary: ps j)
  case (Suc k)
  have "returns (1 + 0) ps (ps_read_xid rd (Suc k) ps j)"
    unfolding ps_read_xid.simps
    by (rule returns_bind [OF returns_octet]) (use Suc in \<open>auto simp: Let_def returns_stop\<close>)
  then show ?case by (rule returns_weaken) simp
qed simp

lemma returns_id: "live ps \<Longrightarrow> length (content ps) \<le> k \<Longrightarrow> returns 1 ps (ps_read_id rd k t ps)"
proof -
  assume a: "live ps" "length (content ps) \<le> k"
  have x: "returns (0 + 0) ps' (obind (ps_read_xid rd k ps' 0) (\<lambda>j ps. (Done (cl, c, j), ps)))"
    if "live ps'" "length (content ps') + 1 \<le> length (content ps)" for ps' and cl :: "8 word" and c :: bool
    by (rule returns_bind [OF returns_xid]) (use that a in \<open>auto simp: returns_stop\<close>)
  have "returns (1 + 0) ps (ps_read_id rd k t ps)"
    unfolding ps_read_id_def
    by (rule returns_bind [OF returns_octet [OF a(1)]]) (use x in \<open>auto simp: Let_def returns_stop\<close>)
  then show ?thesis by simp
qed

lemma returns_lens: "live ps \<Longrightarrow> returns 0 ps (ps_read_lens rd i ps j)"
proof (induction i arbitrary: ps j)
  case (Suc i)
  have "returns (1 + 0) ps (ps_read_lens rd (Suc i) ps j)"
    unfolding ps_read_lens.simps by (rule returns_bind [OF returns_octet]) (use Suc in auto)
  then show ?case by (rule returns_weaken) simp
qed (simp add: returns_stop)

lemma returns_len: "live ps \<Longrightarrow> returns 1 ps (ps_read_len rd ps)"
proof -
  assume a: "live ps"
  have x: "returns (0 + 0) ps' (obind (ps_read_lens rd i ps' 0) (\<lambda>j ps. (Done (sint j), ps)))" if "live ps'" for ps' i
    by (rule returns_bind [OF returns_lens [OF that]]) (simp add: returns_stop)
  have "returns (1 + 0) ps (ps_read_len rd ps)"
    unfolding ps_read_len_def
    by (rule returns_bind [OF returns_octet [OF a]]) (use x in \<open>auto simp: Let_def returns_stop\<close>)
  then show ?thesis by simp
qed

lemma returns_prim: "live ps \<Longrightarrow> returns 0 ps (ps2pe_prim mem rd h ps)"
proof -
  assume a: "live ps"
  have r: "returns 0 ps (ps_read rd ps n)" if "0 \<le> n" for n
    by (rule read_total [OF a that]) (auto simp: returns_def)
  have "returns (0 + 0) ps (obind (ps_read rd ps (pe_len h)) (\<lambda>bs ps. (Done (PRIM h (Some bs)), ps)))" if "0 < pe_len h"
    by (rule returns_bind [OF r]) (use that in \<open>auto simp: returns_stop\<close>)
  moreover have "live (ps\<lparr>ps_ptr := ps_ptr ps + pe_len h, ps_cnt := ps_cnt ps - pe_len h, ps_byteno := i\<rparr>)
    \<and> length (content (ps\<lparr>ps_ptr := ps_ptr ps + pe_len h, ps_cnt := ps_cnt ps - pe_len h, ps_byteno := i\<rparr>)) \<le> length (content ps)"
    if "ps_inline ps" "0 < pe_len h" "pe_len h \<le> ps_cnt ps" for i
    using inline_adv [OF a that(1), of "pe_len h"] that live_frame(1) [of i "ps\<lparr>ps_ptr := ps_ptr ps + pe_len h, ps_cnt := ps_cnt ps - pe_len h\<rparr>"]
      content_frame(1) [of i "ps\<lparr>ps_ptr := ps_ptr ps + pe_len h, ps_cnt := ps_cnt ps - pe_len h\<rparr>"] by simp
  ultimately show ?thesis using a by (auto simp: ps2pe_prim_def Let_def returns_def)
qed

lemma decoder_returns:
  "(\<forall>ps t al. live ps \<longrightarrow> 2 * length (content ps) + 1 \<le> k \<longrightarrow> returns 2 ps (ps2pe_aux mem rd k t al ps)) \<and>
   (\<forall>ps len. live ps \<longrightarrow> 2 * length (content ps) + 2 \<le> k \<longrightarrow> returns 0 ps (ps_read_cons mem rd k ps len)) \<and>
   (\<forall>ps. live ps \<longrightarrow> 2 * length (content ps) + 2 \<le> k \<longrightarrow> returns 0 ps (cons_indefinite mem rd k ps)) \<and>
   (\<forall>ps cc. live ps \<longrightarrow> 2 * length (content ps) + 2 \<le> k \<longrightarrow> returns 0 ps (cons_definite mem rd k ps cc))"
proof (induction k)
  case 0
  then show ?case by simp
next
  case (Suc k)
  have aux: "returns 2 ps (ps2pe_aux mem rd (Suc k) t al ps)" if l: "live ps" "2 * length (content ps) + 1 \<le> Suc k" for ps t al
  proof -
    have "returns (1 + (1 + 0)) ps (ps2pe_aux mem rd (Suc k) t al ps)"
      unfolding ps2pe_aux.simps
    proof (rule returns_bind [OF returns_id])
      fix x :: "8 word \<times> bool \<times> 16 word" and ps' assume p: "live ps'" "length (content ps') + 1 \<le> length (content ps)"
      obtain cl c i where x: "x = (cl, c, i)" by (cases x) auto
      show "returns (1 + 0) ps' ((case x of (cl, constr, i) \<Rightarrow> \<lambda>ps. obind (ps_read_len rd ps) (\<lambda>len ps.
        let h = (hdr0 cl i)\<lparr>pe_len := len\<rparr> in
        if \<not> al then (Done (if constr then CONS h [] else PRIM h None), ps)
        else if \<not> constr then ps2pe_prim mem rd h ps
        else if len = 0 then (Done (CONS h []), ps)
        else obind (ps_read_cons mem rd k ps len) (\<lambda>cs ps. (Done (CONS h cs), ps)))) ps')"
        unfolding x prod.case
      proof (rule returns_bind [OF returns_len [OF p(1)]])
        fix len ps'' assume q: "live ps''" "length (content ps'') + 1 \<le> length (content ps')"
        have "returns 0 ps'' (ps_read_cons mem rd k ps'' len)" using Suc q p l by auto
        from returns_map [OF this, of "CONS ((hdr0 cl i)\<lparr>pe_len := len\<rparr>)"] q
        show "returns 0 ps'' (let h = (hdr0 cl i)\<lparr>pe_len := len\<rparr> in
          if \<not> al then (Done (if c then CONS h [] else PRIM h None), ps'')
          else if \<not> c then ps2pe_prim mem rd h ps''
          else if len = 0 then (Done (CONS h []), ps'')
          else obind (ps_read_cons mem rd k ps'' len) (\<lambda>cs ps. (Done (CONS h cs), ps)))"
          by (simp add: Let_def returns_stop returns_prim)
      qed
    qed (use l in auto)
    then show ?thesis by (simp add: numeral_2_eq_2)
  qed
  have loop: "returns 0 ps (obind (ps2pe_aux mem rd k False True ps) f)"
    if "live ps" "2 * length (content ps) + 2 \<le> Suc k"
      "\<And>p ps'. live ps' \<Longrightarrow> 2 * length (content ps') + 2 \<le> k \<Longrightarrow> returns 0 ps' (f p ps')" for ps and f :: "PE \<Rightarrow> PS \<Rightarrow> PE list outcome \<times> PS"
  proof -
    have "returns (2 + 0) ps (obind (ps2pe_aux mem rd k False True ps) f)"
      by (rule returns_bind) (use Suc that in auto)
    then show ?thesis by (rule returns_weaken) simp
  qed
  have indf: "returns 0 ps (cons_indefinite mem rd (Suc k) ps)" if "live ps" "2 * length (content ps) + 2 \<le> Suc k" for ps
    unfolding cons_indefinite.simps
    by (rule loop [OF that]) (use Suc in \<open>auto simp: returns_stop intro!: returns_map\<close>)
  have defi: "returns 0 ps (cons_definite mem rd (Suc k) ps cc)" if "live ps" "2 * length (content ps) + 2 \<le> Suc k" for ps cc
  proof -
    have "returns 0 ps (obind (ps2pe_aux mem rd k False True ps) (\<lambda>p ps.
        obind (cons_definite mem rd k ps cc) (\<lambda>qs ps. (Done (p # qs), ps))))"
      by (rule loop [OF that]) (use Suc in \<open>auto intro!: returns_map\<close>)
    then show ?thesis using that by (simp add: returns_stop)
  qed
  have cons: "returns 0 ps (ps_read_cons mem rd (Suc k) ps len)" if "live ps" "2 * length (content ps) + 2 \<le> Suc k" for ps len
  proof -
    have "returns 0 ps (obind (ps2pe_aux mem rd k False True ps) (\<lambda>p ps.
        if len = PE_LEN_INDF
        then (if is_eoc p then (Done [], ps)
              else obind (cons_indefinite mem rd k ps) (\<lambda>qs ps. (Done (p # qs), ps)))
        else obind (cons_definite mem rd k ps cc) (\<lambda>qs ps. (Done (p # qs), ps))))" for cc
      by (rule loop [OF that]) (use Suc in \<open>auto simp: returns_stop intro!: returns_map\<close>)
    then show ?thesis by (simp add: Let_def)
  qed
  from aux indf defi cons show ?case by blast
qed

lemma ps2pe_returns:
  "live ps \<Longrightarrow> 2 * length (content ps) + 1 \<le> k \<Longrightarrow> fst (ps2pe_aux mem rd k t al ps) \<noteq> Spent"
  using decoder_returns [of k mem] by (auto simp: returns_def)

end

section \<open>Identifiers of decoded elements\<close>

lemma id14_bits: "j < 2 ^ 14 \<longleftrightarrow> take_bit 14 j = j" for j :: "16 word"
  by (simp add: word_less_nat_alt word_unat_eq_iff take_bit_eq_mod unat_mod mod_eq_self_iff_div_eq_0 div_eq_0_iff)

lemma id14_or: "j < 2 ^ 14 \<Longrightarrow> i < 2 ^ 14 \<Longrightarrow> j OR i < 2 ^ 14" for j :: "16 word"
  unfolding id14_bits by (simp add: take_bit_or)

lemma id14_octet: "ucast (c :: byte) < (2 ^ 14 :: 16 word)"
  unfolding id14_bits by (rule bit_word_eqI) (auto simp: bit_simps dest: bit_imp_le_length)

lemma id14_shift:
  assumes "j < 2 ^ 14" "j AND PE_ID_OVERSHIFT = 0"
  shows "push_bit 7 j < 2 ^ 14"
proof -
  have m: "PE_ID_OVERSHIFT = push_bit 7 (mask 7)" by (simp add: PE_ID_OVERSHIFT_def mask_eq_exp_minus_1)
  have hi: "\<not> bit j n" if "7 \<le> n" "n < 14" for n
  proof -
    have "bit (j AND PE_ID_OVERSHIFT) n = bit j n" using that by (auto simp: m bit_simps)
    then show ?thesis by (simp add: assms(2))
  qed
  show ?thesis unfolding id14_bits
  proof (rule bit_word_eqI)
    fix n assume "n < LENGTH(16)"
    then have "\<not> bit j (n - 7)" if "14 \<le> n" using hi [of "n - 7"] that by simp
    then show "bit (take_bit 14 (push_bit 7 j)) n = bit (push_bit 7 j) n"
      by (cases "n < 14") (auto simp: bit_simps)
  qed
qed

lemma xid_id14:
  "j < 2 ^ 14 \<Longrightarrow> ps_read_xid rd k ps j = (Done i, ps') \<Longrightarrow> i < 2 ^ 14"
proof (induction k arbitrary: ps j)
  case (Suc k)
  from Suc.prems(2) obtain d ps1 where d: "ps_octet rd (if_eof PS_ERR_EOFID) ps = (Done d, ps1)"
    by (auto elim: obind_DoneE)
  let ?j = "j OR ucast (d AND 0x7f)"
  have j: "?j < 2 ^ 14" using Suc.prems(1) id14_octet by (rule id14_or)
  with Suc.prems(2) d Suc.IH [of "push_bit 7 ?j"] id14_shift [OF j] show ?case
    by (auto simp: Let_def split: if_splits)
qed simp

lemma read_id_id14: "ps_read_id rd k t ps = (Done (cl, c, i), ps') \<Longrightarrow> i < 2 ^ 14 \<and> cl < 4"
proof -
  assume a: "ps_read_id rd k t ps = (Done (cl, c, i), ps')"
  have "drop_bit 6 (b AND 0xc0) < 4" for b :: byte
  proof -
    have "unat (b AND 0xc0) < 256" using unsigned_less [of "b AND 0xc0"] by simp
    then show ?thesis by (simp add: word_less_nat_alt drop_bit_eq_div unat_div)
  qed
  moreover from a obtain b ps1 where "ps_octet rd (if t then if_eof PS_ERR_NONE else id) ps = (Done b, ps1)"
    unfolding ps_read_id_def by (rule obind_DoneE)
  moreover have "i < 2 ^ 14" if "ps_read_xid rd k ps1 0 = (Done i, ps2)" for ps2
    using xid_id14 [OF _ that] by simp
  ultimately show ?thesis using a id14_octet
    by (auto simp: ps_read_id_def Let_def split: if_splits elim!: obind_DoneE)
qed

text \<open>Every element the decoder builds has identifiers of at most fourteen bits and classes of two.\<close>

fun decoded :: "PE \<Rightarrow> bool" where
  "decoded (PRIM h b) \<longleftrightarrow> pe_id h < 2 ^ 14 \<and> pe_class h < 4"
| "decoded (CONS h cs) \<longleftrightarrow> pe_id h < 2 ^ 14 \<and> pe_class h < 4 \<and> list_all decoded cs"
| "decoded (ICONS h b) \<longleftrightarrow> False"

lemma prim_decoded:
  "pe_id h < 2 ^ 14 \<Longrightarrow> pe_class h < 4 \<Longrightarrow> ps2pe_prim mem rd h ps = (Done p, ps') \<Longrightarrow> decoded p"
  by (auto simp: ps2pe_prim_def Let_def split: if_splits elim!: obind_DoneE)

lemma decoder_decoded:
  "(\<forall>ps t al p ps'. ps2pe_aux mem rd k t al ps = (Done p, ps') \<longrightarrow> decoded p) \<and>
   (\<forall>ps len cs ps'. ps_read_cons mem rd k ps len = (Done cs, ps') \<longrightarrow> list_all decoded cs) \<and>
   (\<forall>ps cs ps'. cons_indefinite mem rd k ps = (Done cs, ps') \<longrightarrow> list_all decoded cs) \<and>
   (\<forall>ps cc cs ps'. cons_definite mem rd k ps cc = (Done cs, ps') \<longrightarrow> list_all decoded cs)"
proof (induction k)
  case (Suc k)
  have IH: "ps2pe_aux mem rd k t al ps = (Done p, ps') \<Longrightarrow> decoded p"
    "cons_indefinite mem rd k ps = (Done cs, ps') \<Longrightarrow> list_all decoded cs"
    "cons_definite mem rd k ps cc = (Done cs, ps') \<Longrightarrow> list_all decoded cs" for ps t al p ps' cs cc
    using Suc by blast+
  have aux: "decoded p" if r: "ps2pe_aux mem rd (Suc k) t al ps = (Done p, ps')" for ps t al p ps'
  proof -
    from r obtain cl c i ps1 len ps2 where i: "ps_read_id rd (Suc k) t ps = (Done (cl, c, i), ps1)"
      and l: "ps_read_len rd ps1 = (Done len, ps2)"
      by (auto elim!: obind_DoneE)
    from read_id_id14 [OF i] have "i < 2 ^ 14" "cl < 4" by auto
    moreover have "list_all decoded cs" if "ps_read_cons mem rd k ps2 len = (Done cs, ps3)" for cs ps3
      using Suc that by blast
    ultimately show ?thesis using r i l prim_decoded [of "(hdr0 cl i)\<lparr>pe_len := len\<rparr>" mem rd ps2 p ps']
      by (auto simp: Let_def split: if_splits elim!: obind_DoneE)
  qed
  have "list_all decoded cs" if "cons_indefinite mem rd (Suc k) ps = (Done cs, ps')" for ps cs ps'
    using that by (auto elim!: obind_DoneE split: if_splits) (use IH in blast)+
  moreover have "list_all decoded cs" if "cons_definite mem rd (Suc k) ps cc = (Done cs, ps')" for ps cc cs ps'
    using that by (auto elim!: obind_DoneE split: if_splits) (use IH in blast)+
  moreover have "list_all decoded cs" if "ps_read_cons mem rd (Suc k) ps len = (Done cs, ps')" for ps len cs ps'
    using that by (auto simp: Let_def elim!: obind_DoneE split: if_splits) (use IH in blast)+
  ultimately show ?case using aux by blast
qed simp

section \<open>The callers\<close>

fun aplain :: "asn \<Rightarrow> bool" where
  "aplain (APrim c i bs) \<longleftrightarrow> c < 4"
| "aplain (ACons c i as) \<longleftrightarrow> c < 4 \<and> list_all (\<lambda>a. aplain a \<and>
     (case a of APrim c i _ \<Rightarrow> c \<noteq> 0 \<or> i \<noteq> 0 | ACons c i _ \<Rightarrow> c \<noteq> 0 \<or> i \<noteq> 0 | _ \<Rightarrow> True)) as"
| "aplain (AInline c i n bs) \<longleftrightarrow> False"

lemma plain_value: "plain p = aplain (pe_value p)"
proof (induction p)
  case (CONS h cs)
  have "(plain c \<and> \<not> is_eoc c) = (aplain (pe_value c) \<and> (case pe_value c of APrim c i _ \<Rightarrow> c \<noteq> 0 \<or> i \<noteq> 0
      | ACons c i _ \<Rightarrow> c \<noteq> 0 \<or> i \<noteq> 0 | _ \<Rightarrow> True))" if "c \<in> set cs" for c
    using CONS [OF that] by (cases c) (auto simp: is_eoc_def PE_CLASS_UNIV_def PE_UNIV_EOC_def)
  then show ?case by (auto simp: list_all_iff)
qed simp_all

lemma str_octet:
  assumes "ps_base ps = Some b" "0 < ps_cnt ps" "0 \<le> ps_ptr ps" "nat (ps_ptr ps) < length b"
  shows "ps_octet str_read adj ps =
    (Done (b ! nat (ps_ptr ps)), ps\<lparr>ps_ptr := ps_ptr ps + 1, ps_cnt := ps_cnt ps - 1, ps_byteno := ps_byteno ps + 1\<rparr>)"
proof -
  have "str_read ps 1 = (Some [b ! nat (ps_ptr ps)], ps\<lparr>ps_ptr := ps_ptr ps + 1, ps_cnt := ps_cnt ps - 1\<rparr>)"
  proof (cases "ps_cnt ps = 1")
    case False
    with assms show ?thesis by (simp add: str_read_def Let_def take_Suc hd_drop_conv_nth numeral_eq_Suc)
  qed (use assms in \<open>simp add: str_read_def Let_def take_Suc hd_drop_conv_nth\<close>)
  then show ?thesis by (simp add: ps_octet_def ps_read_def ps_io_read.simps [of _ ps] ps_io_read.simps [of _ _ 0])
qed

lemma ps_read_lens_4: "ps_read_lens rd 4 ps j = ps_read_lens rd (Suc (Suc (Suc (Suc 0)))) ps j"
  by (simp add: numeral_eq_Suc)

lemma ssdu2pe_unfold:
  "ssdu2pe mem k (Some bs) n rb =
     (case ps2pe mem str_read k (snd (str_setup mem ps_alloc (Some bs) n True)\<lparr>ps_inline := rb\<rparr>) of
        (Done pe, ps') \<Rightarrow> (Done pe, PS_ERR_NONE) | (r, ps') \<Rightarrow> (r, no_error_is_eof ps'))"
  by (simp add: ssdu2pe_def str_setup_def ps_alloc_def)

lemma ssdu2pe_ok:
  assumes "plain q" "sized q" "int (length (ber q)) \<le> INT_MAX" "2 * length (ber q) + 1 \<le> k"
  shows "ssdu2pe (\<lambda>_. True) k (Some (ber q)) (int (length (ber q))) rb = (Done (norm rb q), PS_ERR_NONE)"
proof -
  let ?ps = "snd (str_setup (\<lambda>_. True) ps_alloc (Some (ber q)) (int (length (ber q))) True)\<lparr>ps_inline := rb\<rparr>"
  have "str_live ?ps" "str_content ?ps = ber q @ []" "ps_byteno ?ps = 0" "ps_inline ?ps = rb"
    by (simp_all add: str_setup_def ps_alloc_def str_live_def str_content_def)
  with strs.decodes_all [OF assms(1,2)] assms(3,4)
  have "strs.reads ?ps (ber q) (norm rb q) (ps2pe_aux (\<lambda>_. True) str_read k True True ?ps)"
    unfolding strs.decodes_def by fastforce
  then show ?thesis unfolding ssdu2pe_unfold ps2pe_def strs.reads_def by auto
qed

lemma qbuf2pe_ok:
  assumes "plain q" "sized q" "int (length (ber q)) \<le> INT_MAX" "2 * length (ber q) + 1 \<le> k" "concat qb = ber q @ rest"
  shows "qbuf2pe (\<lambda>_. True) k qb = (Done (norm False q), PS_ERR_NONE)"
proof -
  let ?ps = "qbuf_setup ps_alloc qb"
  have "qbuf_live ?ps" "qbuf_content ?ps = ber q @ rest" "ps_byteno ?ps = 0" "\<not> ps_inline ?ps"
    using assms(5) by (auto simp: qbuf_setup_def qbuf_live_def qbuf_content_def ps_alloc_def)
  with qbufs.decodes_all [OF assms(1,2)] assms(3,4)
  have "qbufs.reads ?ps (ber q) (norm False q) (ps2pe_aux (\<lambda>_. True) qbuf_read k True True ?ps)"
    unfolding qbufs.decodes_def by fastforce
  then show ?thesis unfolding qbuf2pe_def ps2pe_def qbufs.reads_def by auto
qed

lemma abs_ready:
  assumes "ids_ok p" "pe_wf p" "plain p" "weight p \<le> INT_MAX"
  shows "plain (snd (ps_get_abs s p))" "sized (snd (ps_get_abs s p))"
    "int (length (ber (snd (ps_get_abs s p)))) \<le> INT_MAX"
    "pe_cmp (Some p) (Some (norm il (snd (ps_get_abs s p)))) = 0"
proof -
  let ?q = "snd (ps_get_abs s p)"
  from ps_get_abs_spec(1) [OF assms(1,2,4), of s "fst (ps_get_abs s p)" ?q]
  have v: "pe_value ?q = pe_value p" and a: "sized ?q" "int (length (ber ?q)) \<le> INT_MAX"
    using assms(4) by auto
  then show "sized ?q" "int (length (ber ?q)) \<le> INT_MAX" by blast+
  show pl: "plain ?q" using assms(3) v by (simp add: plain_value)
  then have "pe_value (norm il ?q) = pe_value p" "pe_wf (norm il ?q)" using a v by (simp_all add: norm_value norm_wf)
  then show "pe_cmp (Some p) (Some (norm il ?q)) = 0" using assms(2) by (simp add: pe_cmp_value del: pe_cmp.simps)
qed

section \<open>Properties\<close>

text \<open>
  C1: encode and decode. Whatever length strategy the sender uses, \<^verbatim>\<open>pe2ssdu\<close> produces octets from
  which \<^verbatim>\<open>ssdu2pe\<close> rebuilds an element that \<^verbatim>\<open>pe_cmp\<close> finds equal to the original, with primitives
  copied or pointing into the block; two units of fuel per octet are enough.
\<close>

theorem ssdu_roundtrip:
  assumes "ids_ok p" "pe_wf p" "plain p" "weight p \<le> INT_MAX"
  shows "\<exists>bs. fst (pe2ssdu (\<lambda>_. True) s p) = Done bs \<and>
    (\<forall>k \<ge> 2 * length bs + 1. \<exists>r. ssdu2pe (\<lambda>_. True) k (Some bs) (int (length bs)) realbase = (Done r, PS_ERR_NONE)
      \<and> pe_cmp (Some p) (Some r) = 0)"
  using pe2ssdu_ok [OF assms(1,2,4), of s] ssdu2pe_ok [OF abs_ready(1-3) [OF assms, of s]] abs_ready(4) [OF assms]
  by auto

theorem ssdu_roundtrip_witness:
  "\<exists>bs. fst (pe2ssdu (\<lambda>_. True) PS_LEN_INDF (CONS (hdr0 0 16) [PRIM ((hdr0 2 300)\<lparr>pe_len := 1\<rparr>) (Some [7])])) = Done bs \<and>
    (\<exists>r. ssdu2pe (\<lambda>_. True) (2 * length bs + 1) (Some bs) (int (length bs)) False = (Done r, PS_ERR_NONE)
      \<and> pe_cmp (Some (CONS (hdr0 0 16) [PRIM ((hdr0 2 300)\<lparr>pe_len := 1\<rparr>) (Some [7])])) (Some r) = 0)"
proof -
  let ?p = "CONS (hdr0 0 16) [PRIM ((hdr0 2 300)\<lparr>pe_len := 1\<rparr>) (Some [7])]"
  have "ids_ok ?p" "pe_wf ?p" "plain ?p" "weight ?p \<le> INT_MAX"
    by (simp_all add: id_ok_def INT_MAX_def is_eoc_def PE_CLASS_UNIV_def)
  from ssdu_roundtrip [OF this, of PS_LEN_INDF False] show ?thesis by blast
qed



text \<open>
  C11: the decoder always returns. On any octets whatever, with two units of fuel per octet,
  \<^verbatim>\<open>ssdu2pe\<close> and \<^verbatim>\<open>qbuf2pe\<close> do not run out; nested, indefinite and unterminated encodings included.
\<close>

theorem decoder_terminates:
  "(\<forall>k \<ge> 2 * length bs + 1. fst (ssdu2pe mem k (Some bs) (int (length bs)) realbase) \<noteq> Spent) \<and>
   (\<forall>k \<ge> 2 * length (concat qb) + 1. fst (qbuf2pe mem k qb) \<noteq> Spent)"
proof (intro conjI allI impI)
  fix k assume k: "2 * length bs + 1 \<le> k"
  let ?ps = "snd (str_setup mem ps_alloc (Some bs) (int (length bs)) True)\<lparr>ps_inline := realbase\<rparr>"
  have "str_live ?ps" "str_content ?ps = bs"
    by (simp_all add: str_setup_def ps_alloc_def str_live_def str_content_def)
  with strs.ps2pe_returns [of ?ps k mem True True] k show "fst (ssdu2pe mem k (Some bs) (int (length bs)) realbase) \<noteq> Spent"
    unfolding ssdu2pe_unfold ps2pe_def by (auto split: prod.splits outcome.splits)
next
  fix k assume k: "2 * length (concat qb) + 1 \<le> k"
  have "qbuf_live (qbuf_setup ps_alloc qb)" "qbuf_content (qbuf_setup ps_alloc qb) = concat qb"
    by (simp_all add: qbuf_setup_def qbuf_live_def qbuf_content_def ps_alloc_def)
  with qbufs.ps2pe_returns [of "qbuf_setup ps_alloc qb" k mem True True] k show "fst (qbuf2pe mem k qb) \<noteq> Spent"
    unfolding qbuf2pe_def ps2pe_def by (auto split: prod.splits outcome.splits)
qed

theorem decoder_terminates_witness:
  "fst (ssdu2pe (\<lambda>_. True) 7 (Some [0x30, 0x80, 0x30]) 3 False) \<noteq> Spent"
proof -
  from decoder_terminates [of "[0x30, 0x80, 0x30]" "\<lambda>_. True" False] show ?thesis by simp
qed

text \<open>
  C15: whatever the octets and the stream, every element the decoder returns has identifiers of at most
  fourteen bits and classes of two bits at every level, so that writing it again never overruns the
  identifier buffer of the encoder.
\<close>

theorem ps2pe_identifiers_bounded:
  assumes "ps2pe_aux mem rd k t al ps = (Done p, ps')"
  shows "decoded p \<and> id_octets (pe_class (pe_hdr p)) constr (pe_id (pe_hdr p)) \<noteq> None"
proof -
  have "decoded p" using decoder_decoded [of mem rd k] assms by blast
  moreover from this have "pe_id (pe_hdr p) < 2 ^ 14" by (cases p) auto
  ultimately show ?thesis by (simp add: id_octets_enc)
qed

theorem ps2pe_identifiers_bounded_witness:
  "\<exists>p ps'. ps2pe_aux (\<lambda>_. True) qbuf_read 1 True True (qbuf_setup ps_alloc [[0x05, 0x00]]) = (Done p, ps') \<and> decoded p"
proof -
  have "ps2pe_aux (\<lambda>_. True) qbuf_read (Suc 0) True True (qbuf_setup ps_alloc [[0x05, 0x00]]) =
      (Done (PRIM (hdr0 0 5) None), (qbuf_setup ps_alloc [])\<lparr>ps_byteno := 2\<rparr>)"
    by (simp add: ps_read_id_def ps_octet_def ps_read_def ps_io_read.simps qbuf_read_def qbuf_setup_def ps_alloc_def
        ps_read_len_def ps2pe_prim_def PE_LEN_INDF_def PE_ID_XTND_def Let_def hdr0_def)
  from ps2pe_identifiers_bounded [OF this, of True] this show ?thesis by auto
qed

text \<open>
  a length of four octets is stored in a signed \<^verbatim>\<open>int\<close>. A primitive that announces 2147483648
  octets is accepted as an element of negative length without contents, and a constructor that
  announces 4294967295 octets is read as one of indefinite length.
\<close>

theorem ps_read_len_sign_wraps:
  "ssdu2pe mem (Suc k) (Some [0x04, 0x84, 0x80, 0, 0, 0]) 6 False =
     (Done (PRIM ((hdr0 0 4)\<lparr>pe_len := - 2147483648\<rparr>) None), PS_ERR_NONE) \<and>
   ssdu2pe mem (Suc (Suc (Suc k))) (Some [0x30, 0x84, 0xff, 0xff, 0xff, 0xff, 0, 0]) 8 False =
     (Done (CONS ((hdr0 0 16)\<lparr>pe_len := PE_LEN_INDF\<rparr>) []), PS_ERR_NONE)"
  by (simp add: ssdu2pe_def str_setup_def ps_alloc_def ps2pe_def ps_read_id_def str_octet ps_read_len_def Let_def
      ps_read_lens_4 ps2pe_prim_def PE_LEN_INDF_def PE_ID_XTND_def is_eoc_def PE_CLASS_UNIV_def PE_UNIV_EOC_def)



end
