(* ===== verification/Avl.thy ===== *)
theory Avl
  imports Isode_Prelude
begin

text \<open>
  The balanced trees of the directory (\<^verbatim>\<open>dsap/common/turbo_avl.c\<close>, \<^verbatim>\<open>h/quipu/turbo.h\<close>): insertion with a
  duplicate handler, deletion that swaps with the successor, search, the three traversals with a
  stop flag, prefix search, and the static list behind \<^verbatim>\<open>avl_getfirst\<close> and \<^verbatim>\<open>avl_getnext\<close>. The comparison
  function is an argument; what the code relies on is the locale \<open>avl_order\<close>.

  An operation yields \<open>None\<close> where the C code would follow a null pointer, call \<^verbatim>\<open>exit\<close> from a rotation,
  or return without setting its height flag.
\<close>

section \<open>Trees and rotations\<close>

datatype bal = LH | EH | RH

datatype 'a avlnode =
    NULLAVL
  | Avlnode (avl_data: 'a) (avl_bf: bal) (avl_left: "'a avlnode") (avl_right: "'a avlnode")

definition AVL_OK :: int where "AVL_OK = 0"
definition AVL_NOTOK :: int where "AVL_NOTOK = -1"
definition AVL_NOMORE :: int where "AVL_NOMORE = -6"

fun ROTATERIGHT :: "'a avlnode \<Rightarrow> 'a avlnode option" where
  "ROTATERIGHT (Avlnode d b (Avlnode d1 b1 l1 r1) r) = Some (Avlnode d1 b1 l1 (Avlnode d b r1 r))"
| "ROTATERIGHT t = None"

fun ROTATELEFT :: "'a avlnode \<Rightarrow> 'a avlnode option" where
  "ROTATELEFT (Avlnode d b l (Avlnode d1 b1 l1 r1)) = Some (Avlnode d1 b1 (Avlnode d b l l1) r1)"
| "ROTATELEFT t = None"

text \<open>
  The double rotations, with the same settings of the balance factors in insertion and deletion:
  left when the right child \<open>r\<close> is left high, right when the left child \<open>l\<close> is right high.
\<close>

fun double_left :: "'a \<Rightarrow> 'a avlnode \<Rightarrow> 'a avlnode \<Rightarrow> 'a avlnode option" where
  "double_left d l (Avlnode rd rb (Avlnode ld lb ll lr) rr) =
     (let (b, b') = (case lb of LH \<Rightarrow> (EH, RH) | EH \<Rightarrow> (EH, EH) | RH \<Rightarrow> (LH, EH)) in
      case ROTATERIGHT (Avlnode rd b' (Avlnode ld EH ll lr) rr) of
        None \<Rightarrow> None
      | Some r \<Rightarrow> ROTATELEFT (Avlnode d b l r))"
| "double_left d l r = None"

fun double_right :: "'a \<Rightarrow> 'a avlnode \<Rightarrow> 'a avlnode \<Rightarrow> 'a avlnode option" where
  "double_right d (Avlnode ld lb ll (Avlnode rd rb rl rr)) r =
     (let (b, b') = (case rb of LH \<Rightarrow> (RH, EH) | EH \<Rightarrow> (EH, EH) | RH \<Rightarrow> (EH, LH)) in
      case ROTATELEFT (Avlnode ld b' ll (Avlnode rd EH rl rr)) of
        None \<Rightarrow> None
      | Some l \<Rightarrow> ROTATERIGHT (Avlnode d b l r))"
| "double_right d l r = None"

section \<open>Insertion\<close>

text \<open>The switch after the right, or the left, subtree has grown: the new tree and \<^verbatim>\<open>*taller\<close>.\<close>

definition grown_right :: "'a \<Rightarrow> bal \<Rightarrow> 'a avlnode \<Rightarrow> 'a avlnode \<Rightarrow> ('a avlnode \<times> bool) option" where
  "grown_right d b l r =
     (case b of
        LH \<Rightarrow> Some (Avlnode d EH l r, False)
      | EH \<Rightarrow> Some (Avlnode d RH l r, True)
      | RH \<Rightarrow>
          (case r of
             NULLAVL \<Rightarrow> None
           | Avlnode rd rb rl rr \<Rightarrow>
               (case rb of
                  LH \<Rightarrow> map_option (\<lambda>t. (t, False)) (double_left d l r)
                | EH \<Rightarrow> None
                | RH \<Rightarrow> map_option (\<lambda>t. (t, False)) (ROTATELEFT (Avlnode d EH l (Avlnode rd EH rl rr))))))"

definition grown_left :: "'a \<Rightarrow> bal \<Rightarrow> 'a avlnode \<Rightarrow> 'a avlnode \<Rightarrow> ('a avlnode \<times> bool) option" where
  "grown_left d b l r =
     (case b of
        LH \<Rightarrow>
          (case l of
             NULLAVL \<Rightarrow> None
           | Avlnode ld lb ll lr \<Rightarrow>
               (case lb of
                  LH \<Rightarrow> map_option (\<lambda>t. (t, False)) (ROTATERIGHT (Avlnode d EH (Avlnode ld EH ll lr) r))
                | EH \<Rightarrow> None
                | RH \<Rightarrow> map_option (\<lambda>t. (t, False)) (double_right d l r)))
      | EH \<Rightarrow> Some (Avlnode d LH l r, True)
      | RH \<Rightarrow> Some (Avlnode d EH l r, False))"

text \<open>
  The duplicate handler gets the data in the tree and the new data; it may change what the former
  points to, and its return code is the result.
\<close>

type_synonym 'a fdup = "'a \<Rightarrow> 'a \<Rightarrow> 'a \<times> int"

fun ravl_insert :: "('a \<Rightarrow> 'a \<Rightarrow> int) \<Rightarrow> 'a fdup \<Rightarrow> 'a \<Rightarrow> 'a avlnode \<Rightarrow> (int \<times> 'a avlnode \<times> bool) option" where
  "ravl_insert fcmp fdup x NULLAVL = Some (AVL_OK, Avlnode x EH NULLAVL NULLAVL, True)"
| "ravl_insert fcmp fdup x (Avlnode d b l r) =
     (let cmp = fcmp x d in
      if cmp = 0 then (let (d', rc) = fdup d x in Some (rc, Avlnode d' b l r, False))
      else if cmp > 0
      then (case ravl_insert fcmp fdup x r of
              None \<Rightarrow> None
            | Some (rc, r', tallersub) \<Rightarrow>
                if tallersub
                then map_option (\<lambda>(t, taller). (rc, t, taller)) (grown_right d b l r')
                else Some (rc, Avlnode d b l r', False))
      else (case ravl_insert fcmp fdup x l of
              None \<Rightarrow> None
            | Some (rc, l', tallersub) \<Rightarrow>
                if tallersub
                then map_option (\<lambda>(t, taller). (rc, t, taller)) (grown_left d b l' r)
                else Some (rc, Avlnode d b l' r, False)))"

definition avl_insert :: "('a \<Rightarrow> 'a \<Rightarrow> int) \<Rightarrow> 'a fdup \<Rightarrow> 'a \<Rightarrow> 'a avlnode \<Rightarrow> (int \<times> 'a avlnode) option" where
  "avl_insert fcmp fdup x t = map_option (\<lambda>(rc, t', taller). (rc, t')) (ravl_insert fcmp fdup x t)"

definition avl_dup_error :: "'a fdup" where
  "avl_dup_error d x = (d, AVL_NOTOK)"

section \<open>Deletion\<close>

definition right_balance :: "'a \<Rightarrow> bal \<Rightarrow> 'a avlnode \<Rightarrow> 'a avlnode \<Rightarrow> ('a avlnode \<times> bool) option" where
  "right_balance d b l r =
     (case b of
        RH \<Rightarrow> Some (Avlnode d EH l r, True)
      | EH \<Rightarrow> Some (Avlnode d LH l r, False)
      | LH \<Rightarrow>
          (case l of
             NULLAVL \<Rightarrow> None
           | Avlnode ld lb ll lr \<Rightarrow>
               (case lb of
                  RH \<Rightarrow> map_option (\<lambda>t. (t, True)) (double_right d l r)
                | EH \<Rightarrow> map_option (\<lambda>t. (t, False)) (ROTATERIGHT (Avlnode d LH (Avlnode ld RH ll lr) r))
                | LH \<Rightarrow> map_option (\<lambda>t. (t, True)) (ROTATERIGHT (Avlnode d EH (Avlnode ld EH ll lr) r)))))"

definition left_balance :: "'a \<Rightarrow> bal \<Rightarrow> 'a avlnode \<Rightarrow> 'a avlnode \<Rightarrow> ('a avlnode \<times> bool) option" where
  "left_balance d b l r =
     (case b of
        LH \<Rightarrow> Some (Avlnode d EH l r, True)
      | EH \<Rightarrow> Some (Avlnode d RH l r, False)
      | RH \<Rightarrow>
          (case r of
             NULLAVL \<Rightarrow> None
           | Avlnode rd rb rl rr \<Rightarrow>
               (case rb of
                  LH \<Rightarrow> map_option (\<lambda>t. (t, True)) (double_left d l r)
                | EH \<Rightarrow> map_option (\<lambda>t. (t, False)) (ROTATELEFT (Avlnode d RH l (Avlnode rd LH rl rr)))
                | RH \<Rightarrow> map_option (\<lambda>t. (t, True)) (ROTATELEFT (Avlnode d EH l (Avlnode rd EH rl rr))))))"

text \<open>
  The exchange of data with the leftmost node of the right subtree: what that node held, and the
  subtree with \<open>s\<close> in its place.
\<close>

fun swap_min :: "'a \<Rightarrow> 'a avlnode \<Rightarrow> 'a \<times> 'a avlnode" where
  "swap_min s NULLAVL = (s, NULLAVL)"
| "swap_min s (Avlnode d b l r) =
     (if l = NULLAVL then (d, Avlnode s b NULLAVL r)
      else let (m, l') = swap_min s l in (m, Avlnode d b l' r))"

fun nodes :: "'a avlnode \<Rightarrow> nat" where
  "nodes NULLAVL = 0"
| "nodes (Avlnode d b l r) = nodes l + nodes r + 1"

lemma nodes_swap_min [simp]: "nodes (snd (swap_min s t)) = nodes t"
  by (induction s t rule: swap_min.induct) (auto split: prod.splits)

lemma nodes_swap_min' [simp]: "swap_min s t = (m, t') \<Longrightarrow> nodes t' = nodes t"
  using nodes_swap_min [of s t] by simp

function ravl_delete :: "('k \<Rightarrow> 'a \<Rightarrow> int) \<Rightarrow> 'k \<Rightarrow> 'a avlnode \<Rightarrow> ('a option \<times> 'a avlnode \<times> bool) option" where
  "ravl_delete fcmp x NULLAVL = Some (None, NULLAVL, False)"
| "ravl_delete fcmp x (Avlnode d b l r) =
     (let cmp = fcmp x d in
      if cmp = 0
      then (if l = NULLAVL then Some (Some d, r, True)
            else if r = NULLAVL then Some (Some d, l, True)
            else (let (m, r1) = swap_min d r in
              case ravl_delete fcmp x r1 of
                None \<Rightarrow> None
              | Some (saved, r', shortersub) \<Rightarrow>
                  if shortersub
                  then map_option (\<lambda>(t, shorter). (saved, t, shorter)) (right_balance m b l r')
                  else Some (saved, Avlnode m b l r', False)))
      else if cmp < 0
      then (case ravl_delete fcmp x l of
              None \<Rightarrow> None
            | Some (None, l', shortersub) \<Rightarrow> Some (None, Avlnode d b l' r, False)
            | Some (Some saved, l', shortersub) \<Rightarrow>
                if shortersub
                then map_option (\<lambda>(t, shorter). (Some saved, t, shorter)) (left_balance d b l' r)
                else Some (Some saved, Avlnode d b l' r, False))
      else (case ravl_delete fcmp x r of
              None \<Rightarrow> None
            | Some (None, r', shortersub) \<Rightarrow> Some (None, Avlnode d b l r', False)
            | Some (Some saved, r', shortersub) \<Rightarrow>
                if shortersub
                then map_option (\<lambda>(t, shorter). (Some saved, t, shorter)) (right_balance d b l r')
                else Some (Some saved, Avlnode d b l r', False)))"
  by pat_completeness auto
termination
proof (relation "measure (\<lambda>(fcmp, x, t). nodes t)", goal_cases)
  case (2 fcmp x d b l r cmp u m r1)
  then have "swap_min d r = (m, r1)" by simp
  then have "nodes r1 = nodes r" by (rule nodes_swap_min')
  then show ?case by simp
qed auto

declare ravl_delete.simps(2) [simp del]

definition avl_delete :: "('k \<Rightarrow> 'a \<Rightarrow> int) \<Rightarrow> 'k \<Rightarrow> 'a avlnode \<Rightarrow> ('a option \<times> 'a avlnode) option" where
  "avl_delete fcmp x t = map_option (\<lambda>(saved, t', shorter). (saved, t')) (ravl_delete fcmp x t)"

section \<open>Search and traversal\<close>

fun avl_find :: "('k \<Rightarrow> 'a \<Rightarrow> int) \<Rightarrow> 'k \<Rightarrow> 'a avlnode \<Rightarrow> 'a option" where
  "avl_find fcmp x NULLAVL = None"
| "avl_find fcmp x (Avlnode d b l r) =
     (let cmp = fcmp x d in
      if cmp = 0 then Some d else if cmp < 0 then avl_find fcmp x l else avl_find fcmp x r)"

text \<open>
  The function applied to the nodes works on its argument \<open>arg\<close> and returns an \<^verbatim>\<open>int\<close>; a return equal to
  the stop flag ends the traversal.
\<close>

type_synonym ('a, 's) visitor = "'a \<Rightarrow> 's \<Rightarrow> int \<times> 's"

fun avl_inapply :: "'a avlnode \<Rightarrow> ('a, 's) visitor \<Rightarrow> 's \<Rightarrow> int \<Rightarrow> int \<times> 's" where
  "avl_inapply NULLAVL fn s stop = (AVL_NOMORE, s)"
| "avl_inapply (Avlnode d b l r) fn s stop =
     (let (rl, s1) = (if l \<noteq> NULLAVL then avl_inapply l fn s stop else (stop + 1, s)) in
      if rl = stop then (stop, s1)
      else let (rf, s2) = fn d s1 in
        if rf = stop then (stop, s2)
        else if r = NULLAVL then (AVL_NOMORE, s2) else avl_inapply r fn s2 stop)"

fun avl_postapply :: "'a avlnode \<Rightarrow> ('a, 's) visitor \<Rightarrow> 's \<Rightarrow> int \<Rightarrow> int \<times> 's" where
  "avl_postapply NULLAVL fn s stop = (AVL_NOMORE, s)"
| "avl_postapply (Avlnode d b l r) fn s stop =
     (let (rl, s1) = (if l \<noteq> NULLAVL then avl_postapply l fn s stop else (stop + 1, s)) in
      if rl = stop then (stop, s1)
      else let (rr, s2) = (if r \<noteq> NULLAVL then avl_postapply r fn s1 stop else (stop + 1, s1)) in
        if rr = stop then (stop, s2) else fn d s2)"

fun avl_preapply :: "'a avlnode \<Rightarrow> ('a, 's) visitor \<Rightarrow> 's \<Rightarrow> int \<Rightarrow> int \<times> 's" where
  "avl_preapply NULLAVL fn s stop = (AVL_NOMORE, s)"
| "avl_preapply (Avlnode d b l r) fn s stop =
     (let (rf, s1) = fn d s in
      if rf = stop then (stop, s1)
      else let (rl, s2) = (if l \<noteq> NULLAVL then avl_preapply l fn s1 stop else (stop + 1, s1)) in
        if rl = stop then (stop, s2)
        else if r = NULLAVL then (AVL_NOMORE, s2) else avl_preapply r fn s2 stop)"

datatype avl_type = AVL_PREORDER | AVL_INORDER | AVL_POSTORDER | AVL_OTHER

definition avl_apply :: "'a avlnode \<Rightarrow> ('a, 's) visitor \<Rightarrow> 's \<Rightarrow> int \<Rightarrow> avl_type \<Rightarrow> int \<times> 's" where
  "avl_apply t fn s stop ty =
     (case ty of
        AVL_INORDER \<Rightarrow> avl_inapply t fn s stop
      | AVL_PREORDER \<Rightarrow> avl_preapply t fn s stop
      | AVL_POSTORDER \<Rightarrow> avl_postapply t fn s stop
      | AVL_OTHER \<Rightarrow> (AVL_NOTOK, s))"

fun avl_prefixapply :: "'a avlnode \<Rightarrow> ('a \<Rightarrow> int) \<Rightarrow> ('a, 's) visitor \<Rightarrow> 's \<Rightarrow> int \<Rightarrow> int \<times> 's" where
  "avl_prefixapply NULLAVL cmp fmatch s stop = (AVL_NOMORE, s)"
| "avl_prefixapply (Avlnode d b l r) cmp fmatch s stop =
     (if cmp d = 0
      then (let (rf, s1) = fmatch d s in
        if rf = stop then (stop, s1)
        else let (rl, s2) = (if l \<noteq> NULLAVL then avl_prefixapply l cmp fmatch s1 stop else (stop + 1, s1)) in
          if rl = stop then (stop, s2)
          else if r \<noteq> NULLAVL then avl_prefixapply r cmp fmatch s2 stop else (AVL_NOMORE, s2))
      else if cmp d < 0
      then (if l \<noteq> NULLAVL then avl_prefixapply l cmp fmatch s stop else (AVL_NOMORE, s))
      else (if r \<noteq> NULLAVL then avl_prefixapply r cmp fmatch s stop else (AVL_NOMORE, s)))"

text \<open>\<^verbatim>\<open>avl_free\<close> hands the data to \<open>dfree\<close> in postorder and counts the nodes.\<close>

fun avl_free :: "'a avlnode \<Rightarrow> ('a \<Rightarrow> 's \<Rightarrow> 's) option \<Rightarrow> 's \<Rightarrow> int \<times> 's" where
  "avl_free NULLAVL dfree s = (0, s)"
| "avl_free (Avlnode d b l r) dfree s =
     (let (nleft, s1) = (if l \<noteq> NULLAVL then avl_free l dfree s else (0, s));
          (nright, s2) = (if r \<noteq> NULLAVL then avl_free r dfree s1 else (0, s1)) in
      (nleft + nright + 1, (case dfree of None \<Rightarrow> s2 | Some f \<Rightarrow> f d s2)))"

text \<open>
  The static list of \<^verbatim>\<open>avl_buildlist\<close>: \<open>None\<close> when \<^verbatim>\<open>avl_list\<close> is null, the slots in use otherwise, with
  the static counters. Growing the block is not part of the model.
\<close>

record 'a avl_iter =
  avl_list :: "'a list option"
  avl_maxlist :: nat
  avl_nextlist :: nat

definition avl_buildlist :: "('a, 'a avl_iter) visitor" where
  "avl_buildlist d st =
     (let st1 = (if avl_list st = None then st\<lparr>avl_list := Some [], avl_maxlist := 0\<rparr> else st) in
      (0, st1\<lparr>avl_list := map_option (\<lambda>xs. take (avl_maxlist st1) xs @ [d]) (avl_list st1),
             avl_maxlist := avl_maxlist st1 + 1\<rparr>))"

text \<open>Reading a slot: \<open>None\<close> when the list is null or the index is outside of it.\<close>

definition avl_slot :: "'a avl_iter \<Rightarrow> 'a option" where
  "avl_slot st = (case avl_list st of None \<Rightarrow> None
     | Some xs \<Rightarrow> if avl_nextlist st < length xs then Some (xs ! avl_nextlist st) else None)"

definition avl_getfirst :: "'a avlnode \<Rightarrow> 'a avl_iter \<Rightarrow> 'a option \<times> 'a avl_iter" where
  "avl_getfirst t st =
     (let st0 = st\<lparr>avl_list := None, avl_maxlist := 0, avl_nextlist := 0\<rparr> in
      if t = NULLAVL then (None, st0)
      else let st1 = snd (avl_apply t avl_buildlist st0 (- 1) AVL_INORDER) in
        (avl_slot st1, st1\<lparr>avl_nextlist := avl_nextlist st1 + 1\<rparr>))"

definition avl_getnext :: "'a avl_iter \<Rightarrow> 'a option \<times> 'a avl_iter" where
  "avl_getnext st =
     (if avl_list st = None then (None, st)
      else if avl_nextlist st = avl_maxlist st then (None, st\<lparr>avl_list := None\<rparr>)
      else (avl_slot st, st\<lparr>avl_nextlist := avl_nextlist st + 1\<rparr>))"

section \<open>Balance\<close>

fun height :: "'a avlnode \<Rightarrow> nat" where
  "height NULLAVL = 0"
| "height (Avlnode d b l r) = max (height l) (height r) + 1"

definition balanced :: "bal \<Rightarrow> nat \<Rightarrow> nat \<Rightarrow> bool" where
  "balanced b hl hr = (case b of LH \<Rightarrow> hl = hr + 1 | EH \<Rightarrow> hl = hr | RH \<Rightarrow> hr = hl + 1)"

lemma balanced_simps [simp]:
  "balanced LH hl hr = (hl = hr + 1)" "balanced EH hl hr = (hl = hr)" "balanced RH hl hr = (hr = hl + 1)"
  by (simp_all add: balanced_def)

text \<open>The structural invariant: every balance factor tells the truth.\<close>

fun avl :: "'a avlnode \<Rightarrow> bool" where
  "avl NULLAVL \<longleftrightarrow> True"
| "avl (Avlnode d b l r) \<longleftrightarrow> avl l \<and> avl r \<and> balanced b (height l) (height r)"

fun inorder :: "'a avlnode \<Rightarrow> 'a list" where
  "inorder NULLAVL = []"
| "inorder (Avlnode d b l r) = inorder l @ d # inorder r"

lemma nodes_inorder: "nodes t = length (inorder t)"
  by (induction t) auto

lemma height_node:
  "avl (Avlnode d b l r) \<Longrightarrow> height (Avlnode d b l r) = (case b of LH \<Rightarrow> height l + 1 | _ \<Rightarrow> height r + 1)"
  by (cases b) auto

text \<open>
  The two rotations, seen as tree transformations: a single one turns \<open>(l, d, (rl, rd, rr))\<close> into
  \<open>((l, d, rl), rd, rr)\<close>, a double one lifts the inner grandchild to the root.
\<close>

lemma double_left_eq:
  "double_left d l (Avlnode rd rb (Avlnode ld lb ll lr) rr) =
     Some (Avlnode ld EH (Avlnode d (if lb = RH then LH else EH) l ll) (Avlnode rd (if lb = LH then RH else EH) lr rr))"
  by (cases lb) simp_all

lemma double_right_eq:
  "double_right d (Avlnode ld lb ll (Avlnode rd rb rl rr)) r =
     Some (Avlnode rd EH (Avlnode ld (if rb = RH then LH else EH) ll rl) (Avlnode d (if rb = LH then RH else EH) rr r))"
  by (cases rb) simp_all

definition fixed :: "'a avlnode option \<Rightarrow> nat \<Rightarrow> 'a list \<Rightarrow> bool" where
  "fixed t h xs \<longleftrightarrow> (\<exists>u. t = Some u \<and> avl u \<and> height u = h \<and> inorder u = xs)"

lemma double_left_fixed:
  assumes "avl l" "avl r" "r = Avlnode rd LH rl rr" "height r = height l + 2"
  shows "fixed (double_left d l r) (height r) (inorder l @ d # inorder r)"
proof -
  have rl: "height rl = height l + 1" "height rr = height l" "avl rl" "avl rr"
    using assms height_node [of rd LH rl rr] by auto
  then obtain ld lb ll lr where g: "rl = Avlnode ld lb ll lr" by (cases rl) auto
  have h: "(case lb of LH \<Rightarrow> height ll | _ \<Rightarrow> height lr) = height l" "balanced lb (height ll) (height lr)" "avl ll" "avl lr"
    using rl g height_node [of ld lb ll lr] by (cases lb; simp)+
  show ?thesis using h rl(2,4) assms(1) unfolding assms(3) g double_left_eq fixed_def
    by (cases lb) simp_all
qed

lemma double_right_fixed:
  assumes "avl l" "avl r" "l = Avlnode ld RH ll lr" "height l = height r + 2"
  shows "fixed (double_right d l r) (height l) (inorder l @ d # inorder r)"
proof -
  have lr: "height lr = height r + 1" "height ll = height r" "avl ll" "avl lr"
    using assms height_node [of ld RH ll lr] by auto
  then obtain rd rb rl rr where g: "lr = Avlnode rd rb rl rr" by (cases lr) auto
  have h: "(case rb of LH \<Rightarrow> height rl | _ \<Rightarrow> height rr) = height r" "balanced rb (height rl) (height rr)" "avl rl" "avl rr"
    using lr g height_node [of rd rb rl rr] by (cases rb; simp)+
  show ?thesis using h lr(2,3) assms(2) unfolding assms(3) g double_right_eq fixed_def
    by (cases rb) simp_all
qed

lemma rotate_left_fixed:
  assumes "avl l" "avl rl" "avl rr" "balanced b (height l) (height rl)" "balanced b' (max (height l) (height rl) + 1) (height rr)"
  shows "fixed (ROTATELEFT (Avlnode d b l (Avlnode rd b' rl rr))) (max (max (height l) (height rl) + 1) (height rr) + 1)
    (inorder l @ d # inorder rl @ rd # inorder rr)"
  using assms by (simp add: fixed_def)

lemma rotate_right_fixed:
  assumes "avl r" "avl ll" "avl lr" "balanced b (height lr) (height r)" "balanced b' (height ll) (max (height lr) (height r) + 1)"
  shows "fixed (ROTATERIGHT (Avlnode d b (Avlnode ld b' ll lr) r)) (max (height ll) (max (height lr) (height r) + 1) + 1)
    ((inorder ll @ ld # inorder lr) @ d # inorder r)"
  using assms by (simp add: fixed_def)

text \<open>The switches of insertion and deletion restore the invariant and report the height.\<close>

definition mended :: "('a avlnode \<times> bool) option \<Rightarrow> nat \<Rightarrow> 'a list \<Rightarrow> bool \<Rightarrow> bool" where
  "mended r h xs grow \<longleftrightarrow> (\<exists>t c. r = Some (t, c) \<and> avl t \<and> inorder t = xs
     \<and> (if grow then height t = h + (if c then 1 else 0) \<and> (c \<longrightarrow> avl_bf t \<noteq> EH)
        else height t + (if c then 1 else 0) = h))"

lemma mended_fixed:
  "fixed t h' xs \<Longrightarrow> (if grow then h' = h \<and> \<not> c else h' + (if c then 1 else 0) = h) \<Longrightarrow>
     mended (map_option (\<lambda>u. (u, c)) t) h xs grow"
  by (auto simp: fixed_def mended_def split: if_splits)

lemma grown_right_ok:
  assumes "avl l" "avl r" "balanced b (height l) h" "height r = h + 1" "b = RH \<Longrightarrow> avl_bf r \<noteq> EH"
  shows "mended (grown_right d b l r) (max (height l) h + 1) (inorder l @ d # inorder r) True"
proof (cases b)
  case RH
  with assms obtain rd rb rl rr where r: "r = Avlnode rd rb rl rr" by (cases r) auto
  have h: "height r = height l + 2" "max (height l) h + 1 = height r" using RH assms(3,4) by simp_all
  show ?thesis
  proof (cases rb)
    case LH
    show ?thesis using mended_fixed [OF double_left_fixed [OF assms(1,2) _ h(1)], of rd rl rr True _ False d] r LH RH h(2)
      by (simp add: grown_right_def)
  next
    case EH with r RH assms(5) show ?thesis by simp
  next
    case RH': RH
    have "height rr = height l + 1" "height rl = height l" "avl rl" "avl rr"
      using h(1) assms(2) height_node [of rd RH rl rr] r RH' by auto
    with mended_fixed [OF rotate_left_fixed [of l rl rr EH EH d rd], of True "height r" False] assms(1) h(2) show ?thesis
      using h(1) by (simp add: grown_right_def r RH RH')
  qed
qed (use assms in \<open>auto simp: grown_right_def mended_def\<close>)

lemma grown_left_ok:
  assumes "avl l" "avl r" "balanced b h (height r)" "height l = h + 1" "b = LH \<Longrightarrow> avl_bf l \<noteq> EH"
  shows "mended (grown_left d b l r) (max h (height r) + 1) (inorder l @ d # inorder r) True"
proof (cases b)
  case LH
  with assms obtain ld lb ll lr where l: "l = Avlnode ld lb ll lr" by (cases l) auto
  have h: "height l = height r + 2" "max h (height r) + 1 = height l" using LH assms(3,4) by simp_all
  show ?thesis
  proof (cases lb)
    case RH
    show ?thesis using mended_fixed [OF double_right_fixed [OF assms(1,2) _ h(1)], of ld ll lr True _ False d] l LH RH h(2)
      by (simp add: grown_left_def)
  next
    case EH with l LH assms(5) show ?thesis by simp
  next
    case LH': LH
    have "height ll = height r + 1" "height lr = height r" "avl ll" "avl lr"
      using h(1) assms(1) height_node [of ld LH ll lr] l LH' by auto
    with mended_fixed [OF rotate_right_fixed [of r ll lr EH EH d ld], of True "height l" False] assms(2) h(2) show ?thesis
      using h(1) by (simp add: grown_left_def l LH LH')
  qed
qed (use assms in \<open>auto simp: grown_left_def mended_def\<close>)

lemma right_balance_ok:
  assumes "avl l" "avl r" "balanced b (height l) (height r + 1)"
  shows "mended (right_balance d b l r) (max (height l) (height r + 1) + 1) (inorder l @ d # inorder r) False"
proof (cases b)
  case LH
  with assms obtain ld lb ll lr where l: "l = Avlnode ld lb ll lr" by (cases l) auto
  have h: "height l = height r + 2" "max (height l) (height r + 1) + 1 = height r + 3" using LH assms(3) by simp_all
  show ?thesis
  proof (cases lb)
    case RH
    show ?thesis using mended_fixed [OF double_right_fixed [OF assms(1,2) _ h(1)], of ld ll lr False _ True d] l LH RH h
      by (simp add: right_balance_def)
  next
    case EH
    have "height ll = height r + 1" "height lr = height r + 1" "avl ll" "avl lr"
      using h(1) assms(1) height_node [of ld EH ll lr] l EH by auto
    with mended_fixed [OF rotate_right_fixed [of r ll lr LH RH d ld], of False "height r + 3" False] assms(2) h show ?thesis
      by (simp add: right_balance_def l LH EH numeral_3_eq_3)
  next
    case LH': LH
    have "height ll = height r + 1" "height lr = height r" "avl ll" "avl lr"
      using h(1) assms(1) height_node [of ld LH ll lr] l LH' by auto
    with mended_fixed [OF rotate_right_fixed [of r ll lr EH EH d ld], of False "height r + 3" True] assms(2) h show ?thesis
      by (simp add: right_balance_def l LH LH' numeral_3_eq_3)
  qed
qed (use assms in \<open>auto simp: right_balance_def mended_def\<close>)

lemma left_balance_ok:
  assumes "avl l" "avl r" "balanced b (height l + 1) (height r)"
  shows "mended (left_balance d b l r) (max (height l + 1) (height r) + 1) (inorder l @ d # inorder r) False"
proof (cases b)
  case RH
  with assms obtain rd rb rl rr where r: "r = Avlnode rd rb rl rr" by (cases r) auto
  have h: "height r = height l + 2" "max (height l + 1) (height r) + 1 = height l + 3" using RH assms(3) by simp_all
  show ?thesis
  proof (cases rb)
    case LH
    show ?thesis using mended_fixed [OF double_left_fixed [OF assms(1,2) _ h(1)], of rd rl rr False _ True d] r LH RH h
      by (simp add: left_balance_def)
  next
    case EH
    have "height rr = height l + 1" "height rl = height l + 1" "avl rl" "avl rr"
      using h(1) assms(2) height_node [of rd EH rl rr] r EH by auto
    with mended_fixed [OF rotate_left_fixed [of l rl rr RH LH d rd], of False "height l + 3" False] assms(1) h show ?thesis
      by (simp add: left_balance_def r RH EH numeral_3_eq_3)
  next
    case RH': RH
    have "height rr = height l + 1" "height rl = height l" "avl rl" "avl rr"
      using h(1) assms(2) height_node [of rd RH rl rr] r RH' by auto
    with mended_fixed [OF rotate_left_fixed [of l rl rr EH EH d rd], of False "height l + 3" True] assms(1) h show ?thesis
      by (simp add: left_balance_def r RH RH' numeral_3_eq_3)
  qed
qed (use assms in \<open>auto simp: left_balance_def mended_def\<close>)

lemma swap_min_shape:
  "swap_min s t = (m, t') \<Longrightarrow> height t' = height t \<and> avl t' = avl t \<and> (t' = NULLAVL) = (t = NULLAVL)
     \<and> (t \<noteq> NULLAVL \<longrightarrow> (\<exists>xs. inorder t = m # xs \<and> inorder t' = s # xs))"
proof (induction s t arbitrary: m t' rule: swap_min.induct)
  case (2 s d b l r)
  show ?case
  proof (cases "l = NULLAVL")
    case False
    obtain m1 l1 where l: "swap_min s l = (m1, l1)" by fastforce
    with 2 False show ?thesis by fastforce
  qed (use 2 in auto)
qed simp

lemma ravl_insert_avl:
  "avl t \<Longrightarrow> \<exists>rc t' tl. ravl_insert fcmp fdup x t = Some (rc, t', tl) \<and> avl t'
     \<and> height t' = height t + (if tl then 1 else 0) \<and> (tl \<longrightarrow> t = NULLAVL \<or> avl_bf t' \<noteq> EH)"
proof (induction t)
  case (Avlnode d b l r)
  from Avlnode obtain rc r' tl where r: "ravl_insert fcmp fdup x r = Some (rc, r', tl)" "avl r'"
    "height r' = height r + (if tl then 1 else 0)" "tl \<longrightarrow> r = NULLAVL \<or> avl_bf r' \<noteq> EH" by auto
  from Avlnode obtain lrc l' ll where l: "ravl_insert fcmp fdup x l = Some (lrc, l', ll)" "avl l'"
    "height l' = height l + (if ll then 1 else 0)" "ll \<longrightarrow> l = NULLAVL \<or> avl_bf l' \<noteq> EH" by auto
  have gr: "mended (grown_right d b l r') (max (height l) (height r) + 1) (inorder l @ d # inorder r') True" if "tl"
  proof (rule grown_right_ok)
    show "avl_bf r' \<noteq> EH" if "b = RH" using that r(4) \<open>tl\<close> Avlnode.prems by (cases r) auto
  qed (use that r Avlnode.prems in auto)
  have gl: "mended (grown_left d b l' r) (max (height l) (height r) + 1) (inorder l' @ d # inorder r) True" if "ll"
  proof (rule grown_left_ok)
    show "avl_bf l' \<noteq> EH" if "b = LH" using that l(4) \<open>ll\<close> Avlnode.prems by (cases l) auto
  qed (use that l Avlnode.prems in auto)
  consider "fcmp x d = 0" | "fcmp x d > 0" tl | "fcmp x d > 0" "\<not> tl" | "fcmp x d < 0" ll | "fcmp x d < 0" "\<not> ll" by linarith
  then show ?case
  proof cases
    case 1 then show ?thesis using Avlnode.prems by (cases "fdup d x") auto
  next
    case 2 then show ?thesis using r gr by (fastforce simp: mended_def)
  next
    case 3 then show ?thesis using r Avlnode.prems by auto
  next
    case 4 then show ?thesis using l gl by (fastforce simp: mended_def)
  next
    case 5 then show ?thesis using l Avlnode.prems by auto
  qed
qed auto

text \<open>Deletion and search see the key only through the comparison with the nodes.\<close>

lemma key_cong:
  assumes "f k = g x"
  shows "avl_find f k t = avl_find g x t" "ravl_delete f k t = ravl_delete g x t"
    "avl_delete f k t = avl_delete g x t"
proof -
  show "avl_find f k t = avl_find g x t" by (induction t) (simp_all add: assms Let_def)
  show r: "ravl_delete f k t = ravl_delete g x t"
  proof (induction "nodes t" arbitrary: t rule: less_induct)
    case less
    show ?case
    proof (cases t)
      case (Avlnode d b l r)
      obtain m r1 where m: "swap_min d r = (m, r1)" by fastforce
      have "ravl_delete f k l = ravl_delete g x l" "ravl_delete f k r = ravl_delete g x r"
        "ravl_delete f k r1 = ravl_delete g x r1"
        using m Avlnode by (auto intro!: less.hyps)
      then show ?thesis unfolding Avlnode ravl_delete.simps by (simp add: assms m Let_def cong: if_cong)
    qed simp
  qed
  then show "avl_delete f k t = avl_delete g x t" by (simp add: avl_delete_def)
qed

lemma mended_result:
  assumes "res = (if c then map_option (\<lambda>(t, c). (sv, t, c)) M else Some (sv, N, False))"
    "c \<Longrightarrow> mended M h xs False" "\<not> c \<Longrightarrow> avl N \<and> height N = h" "sv = None \<longrightarrow> \<not> c"
  shows "\<exists>saved t' sh. res = Some (saved, t', sh) \<and> avl t' \<and> height t' + (if sh then 1 else 0) = h
    \<and> (saved = None \<longrightarrow> \<not> sh)"
proof (cases c)
  case True
  with assms(2) obtain t c' where "M = Some (t, c')" "avl t" "height t + (if c' then 1 else 0) = h"
    by (auto simp: mended_def)
  with True assms(1,4) show ?thesis by auto
qed (use assms in auto)

lemma ravl_delete_avl:
  "avl t \<Longrightarrow> \<exists>saved t' sh. ravl_delete fcmp x t = Some (saved, t', sh) \<and> avl t'
     \<and> height t' + (if sh then 1 else 0) = height t \<and> (saved = None \<longrightarrow> \<not> sh)"
proof (induction "nodes t" arbitrary: t rule: less_induct)
  case less
  show ?case
  proof (cases t)
    case NULLAVL
    then show ?thesis by auto
  next
    case (Avlnode d b l r)
    have t: "avl l" "avl r" "balanced b (height l) (height r)" using less.prems Avlnode by auto
    obtain m r1 where m: "swap_min d r = (m, r1)" by fastforce
    note sm = swap_min_shape [OF m]
    have "nodes r1 = nodes r" using m by simp
    then have "nodes l < nodes t" "nodes r < nodes t" "nodes r1 < nodes t" using Avlnode by simp_all
    note lt = this
    obtain ls l' lh where L: "ravl_delete fcmp x l = Some (ls, l', lh)" "avl l'"
      "height l' + (if lh then 1 else 0) = height l" "ls = None \<longrightarrow> \<not> lh" using less.hyps [OF lt(1) t(1)] by blast
    obtain rs r' rh where R: "ravl_delete fcmp x r = Some (rs, r', rh)" "avl r'"
      "height r' + (if rh then 1 else 0) = height r" "rs = None \<longrightarrow> \<not> rh" using less.hyps [OF lt(2) t(2)] by blast
    obtain ss s' sh where S: "ravl_delete fcmp x r1 = Some (ss, s', sh)" "avl s'"
      "height s' + (if sh then 1 else 0) = height r" "ss = None \<longrightarrow> \<not> sh" using less.hyps [OF lt(3)] sm t(2) by metis
    have ml: "mended (left_balance d b l' r) (max (height l) (height r) + 1) (inorder l' @ d # inorder r) False" if lh
      using left_balance_ok [of l' r b d] L that t by simp
    have mr: "mended (right_balance d b l r') (max (height l) (height r) + 1) (inorder l @ d # inorder r') False" if rh
      using right_balance_ok [of l r' b d] R that t by simp
    have ms: "mended (right_balance m b l s') (max (height l) (height r) + 1) (inorder l @ m # inorder s') False" if sh
      using right_balance_ok [of l s' b m] S that t by simp
    have ht: "height t = max (height l) (height r) + 1" using Avlnode by simp
    consider "fcmp x d = 0" "l = NULLAVL" | "fcmp x d = 0" "l \<noteq> NULLAVL" "r = NULLAVL"
      | "fcmp x d = 0" "l \<noteq> NULLAVL" "r \<noteq> NULLAVL" | "fcmp x d < 0" | "fcmp x d > 0" by linarith
    then show ?thesis
    proof cases
      case 1 then show ?thesis using t Avlnode by (auto simp: ravl_delete.simps)
    next
      case 2 then show ?thesis using t Avlnode by (auto simp: ravl_delete.simps)
    next
      case 3
      then have "ravl_delete fcmp x t = (if sh then map_option (\<lambda>(t, c). (ss, t, c)) (right_balance m b l s')
          else Some (ss, Avlnode m b l s', False))"
        using S(1) m by (simp add: Avlnode ravl_delete.simps)
      then show ?thesis unfolding ht by (rule mended_result) (use S ms t in auto)
    next
      case 4
      then have "ravl_delete fcmp x t = (if lh then map_option (\<lambda>(t, c). (ls, t, c)) (left_balance d b l' r)
          else Some (ls, Avlnode d b l' r, False))"
        using L(1,4) by (cases ls) (simp_all add: Avlnode ravl_delete.simps)
      then show ?thesis unfolding ht by (rule mended_result) (use L ml t in auto)
    next
      case 5
      then have "ravl_delete fcmp x t = (if rh then map_option (\<lambda>(t, c). (rs, t, c)) (right_balance d b l r')
          else Some (rs, Avlnode d b l r', False))"
        using R(1,4) by (cases rs) (simp_all add: Avlnode ravl_delete.simps)
      then show ?thesis unfolding ht by (rule mended_result) (use R mr t in auto)
    qed
  qed
qed

lemma rotate_inorder:
  "ROTATELEFT t = Some u \<Longrightarrow> inorder u = inorder t" "ROTATERIGHT t = Some u \<Longrightarrow> inorder u = inorder t"
  by (cases t rule: ROTATELEFT.cases; auto) (cases t rule: ROTATERIGHT.cases; auto)

lemma double_inorder:
  "double_left d l r = Some u \<Longrightarrow> inorder u = inorder l @ d # inorder r"
  "double_right d l r = Some u \<Longrightarrow> inorder u = inorder l @ d # inorder r"
  by (cases "(d, l, r)" rule: double_left.cases; auto simp: double_left_eq simp del: double_left.simps(1))
    (cases "(d, l, r)" rule: double_right.cases; auto simp: double_right_eq simp del: double_right.simps(1))

lemma switch_inorder:
  "grown_right d b l r = Some (t, c) \<Longrightarrow> inorder t = inorder l @ d # inorder r"
  "grown_left d b l r = Some (t, c) \<Longrightarrow> inorder t = inorder l @ d # inorder r"
  "right_balance d b l r = Some (t, c) \<Longrightarrow> inorder t = inorder l @ d # inorder r"
  "left_balance d b l r = Some (t, c) \<Longrightarrow> inorder t = inorder l @ d # inorder r"
  by (auto simp: grown_right_def grown_left_def right_balance_def left_balance_def
      split: bal.splits avlnode.splits dest!: rotate_inorder double_inorder)

lemma insert_cases:
  assumes "ravl_insert fcmp fdup x (Avlnode d b l r) = Some (rc, t', tk)"
  shows "fcmp x d > 0 \<Longrightarrow> \<exists>r' c. ravl_insert fcmp fdup x r = Some (rc, r', c) \<and> inorder t' = inorder l @ d # inorder r'"
    and "fcmp x d < 0 \<Longrightarrow> \<exists>l' c. ravl_insert fcmp fdup x l = Some (rc, l', c) \<and> inorder t' = inorder l' @ d # inorder r"
  using assms switch_inorder(1,2)
  by (cases "ravl_insert fcmp fdup x r"; cases "ravl_insert fcmp fdup x l"; fastforce split: if_splits)+

lemma delete_cases:
  assumes "ravl_delete fcmp x (Avlnode d b l r) = Some (saved, t', sh)"
  shows "fcmp x d > 0 \<Longrightarrow> \<exists>r' c. ravl_delete fcmp x r = Some (saved, r', c) \<and> inorder t' = inorder l @ d # inorder r'"
    and "fcmp x d < 0 \<Longrightarrow> \<exists>l' c. ravl_delete fcmp x l = Some (saved, l', c) \<and> inorder t' = inorder l' @ d # inorder r"
    and "fcmp x d = 0 \<Longrightarrow> l \<noteq> NULLAVL \<Longrightarrow> r \<noteq> NULLAVL \<Longrightarrow> swap_min d r = (m, r1) \<Longrightarrow>
      \<exists>r' c. ravl_delete fcmp x r1 = Some (saved, r', c) \<and> inorder t' = inorder l @ m # inorder r'"
proof -
  note d = assms [unfolded ravl_delete.simps Let_def]
  show "\<exists>r' c. ravl_delete fcmp x r = Some (saved, r', c) \<and> inorder t' = inorder l @ d # inorder r'" if "fcmp x d > 0"
    using d that switch_inorder(3)
    by (cases "ravl_delete fcmp x r") (fastforce split: option.splits if_splits)+
  show "\<exists>l' c. ravl_delete fcmp x l = Some (saved, l', c) \<and> inorder t' = inorder l' @ d # inorder r" if "fcmp x d < 0"
    using d that switch_inorder(4)
    by (cases "ravl_delete fcmp x l") (fastforce split: option.splits if_splits)+
  show "\<exists>r' c. ravl_delete fcmp x r1 = Some (saved, r', c) \<and> inorder t' = inorder l @ m # inorder r'"
    if "fcmp x d = 0" "l \<noteq> NULLAVL" "r \<noteq> NULLAVL" "swap_min d r = (m, r1)"
    using d that switch_inorder(3)
    by (cases "ravl_delete fcmp x r1") (fastforce split: if_splits)+
qed

section \<open>Order\<close>

text \<open>The list view: what insertion, deletion and search do to the data in order.\<close>

definition ordered :: "('a \<Rightarrow> 'a \<Rightarrow> int) \<Rightarrow> 'a list \<Rightarrow> bool" where
  "ordered fcmp xs = sorted_wrt (\<lambda>a b. fcmp a b < 0) xs"

fun ins_list :: "('a \<Rightarrow> 'a \<Rightarrow> int) \<Rightarrow> 'a fdup \<Rightarrow> 'a \<Rightarrow> 'a list \<Rightarrow> 'a list" where
  "ins_list fcmp fdup x [] = [x]"
| "ins_list fcmp fdup x (y # ys) =
     (if fcmp x y = 0 then fst (fdup y x) # ys
      else if fcmp x y < 0 then x # y # ys else y # ins_list fcmp fdup x ys)"

definition look :: "('k \<Rightarrow> 'a \<Rightarrow> int) \<Rightarrow> 'k \<Rightarrow> 'a list \<Rightarrow> 'a option" where
  "look fcmp x xs = List.find (\<lambda>y. fcmp x y = 0) xs"

definition ins_rc :: "('a \<Rightarrow> 'a \<Rightarrow> int) \<Rightarrow> 'a fdup \<Rightarrow> 'a \<Rightarrow> 'a list \<Rightarrow> int" where
  "ins_rc fcmp fdup x xs = (case look fcmp x xs of None \<Rightarrow> AVL_OK | Some y \<Rightarrow> snd (fdup y x))"

definition del_list :: "('k \<Rightarrow> 'a \<Rightarrow> int) \<Rightarrow> 'k \<Rightarrow> 'a list \<Rightarrow> 'a list" where
  "del_list fcmp x xs = filter (\<lambda>y. fcmp x y \<noteq> 0) xs"

lemma look_append: "look fcmp x (xs @ ys) = (case look fcmp x xs of None \<Rightarrow> look fcmp x ys | Some y \<Rightarrow> Some y)"
  by (induction xs) (auto simp: look_def)

lemma look_None_iff: "look fcmp x xs = None \<longleftrightarrow> (\<forall>y \<in> set xs. fcmp x y \<noteq> 0)"
  by (auto simp: look_def find_None_iff)

text \<open>The duplicate handler may change what the node points to, but not its place in the order.\<close>

definition keeps_key :: "('a \<Rightarrow> 'a \<Rightarrow> int) \<Rightarrow> 'a fdup \<Rightarrow> 'a \<Rightarrow> bool" where
  "keeps_key fcmp fdup x \<longleftrightarrow> (\<forall>y z. fcmp x y = 0 \<longrightarrow> fcmp (fst (fdup y x)) z = fcmp y z)"

lemma keeps_keyD: "keeps_key fcmp fdup x \<Longrightarrow> fcmp x y = 0 \<Longrightarrow> fcmp (fst (fdup y x)) z = fcmp y z"
  by (simp add: keeps_key_def)

lemma keeps_key_dup_error: "keeps_key fcmp avl_dup_error x"
  by (simp add: keeps_key_def avl_dup_error_def)

locale avl_order =
  fixes fcmp :: "'a \<Rightarrow> 'a \<Rightarrow> int"
  assumes swap: "fcmp x y < 0 \<longleftrightarrow> fcmp y x > 0"
    and trans: "fcmp x y \<le> 0 \<Longrightarrow> fcmp y z \<le> 0 \<Longrightarrow> fcmp x z \<le> 0"
begin

lemma le_swap: "fcmp x y \<le> 0 \<longleftrightarrow> fcmp y x \<ge> 0"
  using swap [of y x] by linarith

lemma self: "fcmp x x = 0"
  using swap [of x x] by linarith

lemma zero_swap: "fcmp x y = 0 \<Longrightarrow> fcmp y x = 0"
  using swap [of x y] swap [of y x] by linarith

lemma less_le_trans: "fcmp x y < 0 \<Longrightarrow> fcmp y z \<le> 0 \<Longrightarrow> fcmp x z < 0"
  using trans [of x y z] trans [of y z x] swap [of x y] le_swap [of z x] by force

lemma le_less_trans: "fcmp x y \<le> 0 \<Longrightarrow> fcmp y z < 0 \<Longrightarrow> fcmp x z < 0"
  using trans [of x y z] trans [of z x y] swap [of y z] le_swap [of z x] by force

lemma before_greater: "fcmp a d < 0 \<Longrightarrow> fcmp x d \<ge> 0 \<Longrightarrow> fcmp x a > 0"
  using less_le_trans [of a d x] le_swap [of d x] swap [of a x] by simp

lemma after_less: "fcmp d a < 0 \<Longrightarrow> fcmp x d \<le> 0 \<Longrightarrow> fcmp x a < 0"
  by (rule le_less_trans)

lemma ordered_mid:
  "ordered fcmp (xs @ d # ys) \<longleftrightarrow> ordered fcmp xs \<and> ordered fcmp ys \<and> (\<forall>a \<in> set xs. fcmp a d < 0) \<and> (\<forall>b \<in> set ys. fcmp d b < 0)"
  using less_le_trans by (fastforce simp: ordered_def sorted_wrt_append)

lemma ins_right:
  "\<forall>a \<in> set xs. fcmp a d < 0 \<Longrightarrow> fcmp x d > 0 \<Longrightarrow> ins_list fcmp fdup x (xs @ d # ys) = xs @ d # ins_list fcmp fdup x ys"
proof (induction xs)
  case (Cons a xs)
  then have "fcmp x a > 0" using before_greater [of a d x] by simp
  with Cons show ?case by simp
qed simp

lemma ins_here:
  "\<forall>a \<in> set xs. fcmp a d < 0 \<Longrightarrow> fcmp x d = 0 \<Longrightarrow> ins_list fcmp fdup x (xs @ d # ys) = xs @ fst (fdup d x) # ys"
proof (induction xs)
  case (Cons a xs)
  then have "fcmp x a > 0" using before_greater [of a d x] by simp
  with Cons show ?case by simp
qed simp

lemma ins_left: "fcmp x d < 0 \<Longrightarrow> ins_list fcmp fdup x (xs @ d # ys) = ins_list fcmp fdup x xs @ d # ys"
  by (induction xs) auto

lemma look_before: "\<forall>a \<in> set xs. fcmp a d < 0 \<Longrightarrow> fcmp x d \<ge> 0 \<Longrightarrow> look fcmp x xs = None"
  unfolding look_None_iff using before_greater by (metis less_irrefl)

lemma look_after: "\<forall>b \<in> set ys. fcmp d b < 0 \<Longrightarrow> fcmp x d < 0 \<Longrightarrow> look fcmp x (d # ys) = None"
  unfolding look_None_iff using after_less by (metis less_irrefl less_imp_le set_ConsD)

lemma look_right: "\<forall>a \<in> set xs. fcmp a d < 0 \<Longrightarrow> fcmp x d > 0 \<Longrightarrow> look fcmp x (xs @ d # ys) = look fcmp x ys"
proof -
  assume a: "\<forall>a \<in> set xs. fcmp a d < 0" "fcmp x d > 0"
  then have "look fcmp x xs = None" by (intro look_before) auto
  with a show ?thesis by (simp add: look_append) (simp add: look_def)
qed

lemma look_here: "\<forall>a \<in> set xs. fcmp a d < 0 \<Longrightarrow> fcmp x d = 0 \<Longrightarrow> look fcmp x (xs @ d # ys) = Some d"
proof -
  assume a: "\<forall>a \<in> set xs. fcmp a d < 0" "fcmp x d = 0"
  then have "look fcmp x xs = None" by (intro look_before) auto
  with a show ?thesis by (simp add: look_append) (simp add: look_def)
qed

lemma look_left: "\<forall>b \<in> set ys. fcmp d b < 0 \<Longrightarrow> fcmp x d < 0 \<Longrightarrow> look fcmp x (xs @ d # ys) = look fcmp x xs"
proof -
  assume a: "\<forall>b \<in> set ys. fcmp d b < 0" "fcmp x d < 0"
  then have "look fcmp x (d # ys) = None" by (rule look_after)
  then show ?thesis by (simp add: look_append split: option.splits)
qed

lemmas look_mid = look_right look_here look_left

lemma del_outside:
  "\<forall>a \<in> set xs. fcmp a d < 0 \<Longrightarrow> fcmp x d \<ge> 0 \<Longrightarrow> del_list fcmp x xs = xs"
  "\<forall>b \<in> set ys. fcmp d b < 0 \<Longrightarrow> fcmp x d \<le> 0 \<Longrightarrow> del_list fcmp x ys = ys"
  using before_greater after_less by (fastforce simp: del_list_def filter_id_conv)+

lemma find_list: "ordered fcmp (inorder t) \<Longrightarrow> avl_find fcmp x t = look fcmp x (inorder t)"
proof (induction t)
  case (Avlnode d b l r)
  then have o: "ordered fcmp (inorder l)" "ordered fcmp (inorder r)" "\<forall>a \<in> set (inorder l). fcmp a d < 0"
    "\<forall>b \<in> set (inorder r). fcmp d b < 0" by (auto simp: ordered_mid)
  consider "fcmp x d = 0" | "fcmp x d < 0" | "fcmp x d > 0" by linarith
  then show ?case using Avlnode.IH o by cases (simp_all add: look_mid)
qed (simp add: look_def)

lemma insert_list:
  "ordered fcmp (inorder t) \<Longrightarrow> ravl_insert fcmp fdup x t = Some (rc, t', tk) \<Longrightarrow>
     inorder t' = ins_list fcmp fdup x (inorder t) \<and> rc = ins_rc fcmp fdup x (inorder t)"
proof (induction t arbitrary: rc t' tk)
  case NULLAVL
  then show ?case by (auto simp: ins_rc_def look_def)
next
  case (Avlnode d b l r)
  from Avlnode.prems(1) have o: "ordered fcmp (inorder l)" "ordered fcmp (inorder r)" "\<forall>a \<in> set (inorder l). fcmp a d < 0"
    "\<forall>b \<in> set (inorder r). fcmp d b < 0" by (auto simp: ordered_mid)
  consider "fcmp x d = 0" | "fcmp x d < 0" | "fcmp x d > 0" by linarith
  then show ?case
  proof cases
    case 1
    obtain d' rc' where "fdup d x = (d', rc')" by fastforce
    with 1 Avlnode.prems(2) have "rc = rc'" "t' = Avlnode d' b l r" by simp_all
    with 1 o \<open>fdup d x = (d', rc')\<close> show ?thesis by (simp add: ins_here ins_rc_def look_here)
  next
    case 2
    with insert_cases(2) [OF Avlnode.prems(2)] obtain l' c where
      "ravl_insert fcmp fdup x l = Some (rc, l', c)" "inorder t' = inorder l' @ d # inorder r" by blast
    with Avlnode.IH(1) [OF o(1)] 2 o show ?thesis by (simp add: ins_left ins_rc_def look_left)
  next
    case 3
    with insert_cases(1) [OF Avlnode.prems(2)] obtain r' c where
      "ravl_insert fcmp fdup x r = Some (rc, r', c)" "inorder t' = inorder l @ d # inorder r'" by blast
    with Avlnode.IH(2) [OF o(2)] 3 o show ?thesis by (simp add: ins_right ins_rc_def look_right)
  qed
qed

lemma delete_list:
  "ordered fcmp (inorder t) \<Longrightarrow> ravl_delete fcmp x t = Some (saved, t', sh) \<Longrightarrow>
     inorder t' = del_list fcmp x (inorder t) \<and> saved = look fcmp x (inorder t)"
proof (induction "nodes t" arbitrary: t saved t' sh rule: less_induct)
  case less
  show ?case
  proof (cases t)
    case NULLAVL
    then show ?thesis using less.prems by (simp add: del_list_def look_def)
  next
    case (Avlnode d b l r)
    have o: "ordered fcmp (inorder l)" "ordered fcmp (inorder r)" "\<forall>a \<in> set (inorder l). fcmp a d < 0"
      "\<forall>b \<in> set (inorder r). fcmp d b < 0" using less.prems Avlnode by (auto simp: ordered_mid)
    have dl: "del_list fcmp x (inorder t) = del_list fcmp x (inorder l) @ (if fcmp x d = 0 then [] else [d]) @ del_list fcmp x (inorder r)"
      by (simp add: Avlnode del_list_def)
    have lt: "nodes l < nodes t" "nodes r < nodes t" using Avlnode by simp_all
    note prem = less.prems(2) [unfolded Avlnode ravl_delete.simps]
    consider "fcmp x d = 0" "l = NULLAVL \<or> r = NULLAVL" | "fcmp x d = 0" "l \<noteq> NULLAVL" "r \<noteq> NULLAVL"
      | "fcmp x d < 0" | "fcmp x d > 0" by linarith
    then show ?thesis
    proof cases
      case 1
      then have "saved = Some d" "inorder t' = inorder l @ inorder r" using prem by (auto split: if_splits)
      then show ?thesis using 1 o dl del_outside [of _ d x] by (simp add: Avlnode look_here)
    next
      case 2
      obtain m r1 where m: "swap_min d r = (m, r1)" by fastforce
      from swap_min_shape [OF m] 2 obtain xs where xs: "inorder r = m # xs" "inorder r1 = d # xs" by auto
      have o1: "ordered fcmp (inorder r1)" using o xs by (simp add: ordered_def)
      have "nodes r1 < nodes t" using m lt by simp
      moreover obtain r' c where r': "ravl_delete fcmp x r1 = Some (saved, r', c)" "inorder t' = inorder l @ m # inorder r'"
        using delete_cases(3) [OF less.prems(2) [unfolded Avlnode]] 2 m by blast
      ultimately have "inorder r' = del_list fcmp x (inorder r1)" "saved = look fcmp x (inorder r1)"
        using less.hyps o1 by blast+
      moreover have "del_list fcmp x xs = xs" "del_list fcmp x (inorder r) = inorder r" "del_list fcmp x (inorder l) = inorder l"
        using o xs 2 del_outside [of _ d x] by simp_all
      ultimately show ?thesis using r'(2) xs 2 o dl by (simp add: Avlnode look_here) (simp add: look_def del_list_def)
    next
      case 3
      with delete_cases(2) [OF less.prems(2) [unfolded Avlnode]] obtain l' c where
        "ravl_delete fcmp x l = Some (saved, l', c)" "inorder t' = inorder l' @ d # inorder r" by blast
      with less.hyps [OF lt(1) o(1)] 3 o dl del_outside(2) [of "inorder r" d x] show ?thesis
        by (simp add: Avlnode look_left)
    next
      case 4
      with delete_cases(1) [OF less.prems(2) [unfolded Avlnode]] obtain r' c where
        "ravl_delete fcmp x r = Some (saved, r', c)" "inorder t' = inorder l @ d # inorder r'" by blast
      with less.hyps [OF lt(2) o(2)] 4 o dl del_outside(1) [of "inorder l" d x] show ?thesis
        by (simp add: Avlnode look_right)
    qed
  qed
qed

lemma ins_bound:
  assumes "keeps_key fcmp fdup x"
    and "\<forall>y \<in> set xs. fcmp a y < 0" "fcmp a x < 0"
  shows "\<forall>y \<in> set (ins_list fcmp fdup x xs). fcmp a y < 0"
  using assms(2)
proof (induction xs)
  case (Cons y ys)
  have "fcmp a (fst (fdup y x)) < 0" if "fcmp x y = 0"
    using keeps_keyD [OF assms(1) that, of a] Cons.prems swap [of a "fst (fdup y x)"] swap [of a y] by simp
  with Cons assms(3) show ?case by auto
qed (use assms in simp)

lemma ins_ordered:
  assumes "keeps_key fcmp fdup x"
  shows "ordered fcmp xs \<Longrightarrow> ordered fcmp (ins_list fcmp fdup x xs)"
proof (induction xs)
  case (Cons y ys)
  then have o: "ordered fcmp ys" "\<forall>b \<in> set ys. fcmp y b < 0" by (auto simp: ordered_def)
  consider "fcmp x y = 0" | "fcmp x y < 0" | "fcmp x y > 0" by linarith
  then show ?case
  proof cases
    case 1
    then show ?thesis using keeps_keyD [OF assms] o by (auto simp: ordered_def)
  next
    case 2
    then have "\<forall>b \<in> set ys. fcmp x b < 0" using o less_le_trans [of x y] by fastforce
    with 2 o show ?thesis by (simp add: ordered_def)
  next
    case 3
    then have "fcmp y x < 0" using swap [of y x] by simp
    from ins_bound [OF assms o(2) this] Cons.IH [OF o(1)] 3 show ?thesis by (simp add: ordered_def)
  qed
qed (simp add: ordered_def)

lemma del_ordered: "ordered fcmp xs \<Longrightarrow> ordered fcmp (del_list fcmp x xs)"
  by (auto simp: ordered_def del_list_def intro: sorted_wrt_filter)

lemma insert_ok:
  assumes "avl t" "ordered fcmp (inorder t)"
    and "keeps_key fcmp fdup x"
  shows "\<exists>t'. avl_insert fcmp fdup x t = Some (ins_rc fcmp fdup x (inorder t), t') \<and> avl t'
    \<and> inorder t' = ins_list fcmp fdup x (inorder t) \<and> ordered fcmp (inorder t')"
proof -
  from ravl_insert_avl [OF assms(1), of fcmp fdup x] obtain rc t' tk where
    r: "ravl_insert fcmp fdup x t = Some (rc, t', tk)" "avl t'" by blast
  from insert_list [OF assms(2) r(1)] r ins_ordered [OF assms(3) assms(2)] show ?thesis
    by (auto simp: avl_insert_def)
qed

lemma delete_ok:
  assumes "avl t" "ordered fcmp (inorder t)"
  shows "\<exists>t'. avl_delete fcmp x t = Some (avl_find fcmp x t, t') \<and> avl t'
    \<and> inorder t' = del_list fcmp x (inorder t) \<and> ordered fcmp (inorder t')"
proof -
  from ravl_delete_avl [OF assms(1), of fcmp x] obtain sv t' sh where
    r: "ravl_delete fcmp x t = Some (sv, t', sh)" "avl t'" by blast
  from delete_list [OF assms(2) r(1)] r del_ordered [OF assms(2), of x] find_list [OF assms(2), of x] show ?thesis
    by (auto simp: avl_delete_def)
qed

text \<open>Search in the list after insertion and deletion.\<close>

lemma zero_trans: "fcmp x y = 0 \<Longrightarrow> fcmp x z = 0 \<longleftrightarrow> fcmp y z = 0"
proof -
  have imp: "fcmp b c = 0" if "fcmp a b = 0" "fcmp a c = 0" for a b c
    using trans [of b a c] trans [of c a b] that zero_swap [OF that(1)] zero_swap [OF that(2)] le_swap [of c b] by simp
  assume a: "fcmp x y = 0"
  show ?thesis using imp [OF a, of z] imp [OF zero_swap [OF a], of z] by blast
qed

lemma look_ins:
  assumes "keeps_key fcmp fdup x"
  shows "ordered fcmp xs \<Longrightarrow> look fcmp k (ins_list fcmp fdup x xs) =
    (if fcmp k x = 0 then Some (case look fcmp x xs of None \<Rightarrow> x | Some y \<Rightarrow> fst (fdup y x)) else look fcmp k xs)"
proof (induction xs)
  case Nil
  then show ?case by (simp add: look_def)
next
  case (Cons y ys)
  then have o: "ordered fcmp ys" "\<forall>b \<in> set ys. fcmp y b < 0" by (auto simp: ordered_def)
  consider "fcmp x y = 0" | "fcmp x y < 0" | "fcmp x y > 0" by linarith
  then show ?case
  proof cases
    case 1
    have "fcmp k (fst (fdup y x)) = 0 \<longleftrightarrow> fcmp k y = 0" "fcmp k y = 0 \<longleftrightarrow> fcmp k x = 0"
      using keeps_keyD [OF assms 1, of k] zero_swap zero_trans [OF 1, of k] by metis+
    with 1 show ?thesis by (simp add: look_def)
  next
    case 2
    then have "look fcmp x (y # ys) = None" using o by (intro look_after) auto
    with 2 show ?thesis by (simp add: look_def)
  next
    case 3
    have "fcmp k y \<noteq> 0 \<or> fcmp k x \<noteq> 0" using 3 zero_trans [of k x y] by auto
    with 3 Cons.IH [OF o(1)] show ?thesis by (auto simp: look_def)
  qed
qed

lemma length_ins:
  "ordered fcmp xs \<Longrightarrow> length (ins_list fcmp fdup x xs) = length xs + (if look fcmp x xs = None then 1 else 0)"
proof (induction xs)
  case (Cons y ys)
  then have o: "ordered fcmp ys" "\<forall>b \<in> set ys. fcmp y b < 0" by (auto simp: ordered_def)
  have "look fcmp x (y # ys) = None" if "fcmp x y < 0" using o that by (intro look_after) auto
  with Cons.IH [OF o(1)] show ?case by (auto simp: look_def)
qed (simp add: look_def)

lemma length_del:
  "ordered fcmp xs \<Longrightarrow> length (del_list fcmp x xs) = length xs - (if look fcmp x xs = None then 0 else 1)"
proof (induction xs)
  case (Cons y ys)
  then have o: "ordered fcmp ys" "\<forall>b \<in> set ys. fcmp y b < 0" by (auto simp: ordered_def)
  have "del_list fcmp x ys = ys" if "fcmp x y = 0" using del_outside(2) [OF o(2)] that by simp
  moreover have "ys \<noteq> []" if "look fcmp x ys \<noteq> None" using that by (auto simp: look_def)
  ultimately show ?case using Cons.IH [OF o(1)] by (cases ys) (auto simp: look_def del_list_def split: if_splits)
qed (simp add: look_def del_list_def)

lemma look_del: "look fcmp k (del_list fcmp x xs) = (if fcmp k x = 0 then None else look fcmp k xs)"
proof (induction xs)
  case (Cons y ys)
  have "fcmp x y \<noteq> 0 \<or> fcmp k y \<noteq> 0 \<or> fcmp k x = 0" "fcmp k x = 0 \<Longrightarrow> fcmp x y = 0 \<longleftrightarrow> fcmp k y = 0"
    using zero_trans [of x y k] zero_trans [of k x y] zero_swap by metis+
  with Cons show ?case by (auto simp: look_def del_list_def)
qed (simp add: look_def del_list_def)

end

section \<open>Traversals\<close>

text \<open>The reference for a traversal: visit a list in order until the visitor returns the stop flag.\<close>

fun walk :: "'a list \<Rightarrow> ('a, 's) visitor \<Rightarrow> 's \<Rightarrow> int \<Rightarrow> bool \<times> 's" where
  "walk [] fn s stop = (False, s)"
| "walk (x # xs) fn s stop = (let (r, s1) = fn x s in if r = stop then (True, s1) else walk xs fn s1 stop)"

lemma walk_append:
  "walk (xs @ ys) fn s stop = (let (b, s1) = walk xs fn s stop in if b then (True, s1) else walk ys fn s1 stop)"
  by (induction xs arbitrary: s) (auto split: prod.splits)

fun preorder :: "'a avlnode \<Rightarrow> 'a list" where
  "preorder NULLAVL = []"
| "preorder (Avlnode d b l r) = d # preorder l @ preorder r"

fun postorder :: "'a avlnode \<Rightarrow> 'a list" where
  "postorder NULLAVL = []"
| "postorder (Avlnode d b l r) = postorder l @ postorder r @ [d]"

definition walked :: "int \<Rightarrow> bool \<times> 's \<Rightarrow> int \<times> 's" where
  "walked stop w = (if fst w then stop else AVL_NOMORE, snd w)"

lemma inapply_walk:
  "stop \<noteq> AVL_NOMORE \<Longrightarrow> avl_inapply t fn s stop = walked stop (walk (inorder t) fn s stop)"
proof (induction t arbitrary: s)
  case (Avlnode d b l r)
  have "l = NULLAVL \<Longrightarrow> walk (inorder l) fn s stop = (False, s)" by simp
  with Avlnode show ?case
    by (auto simp: walk_append walked_def Let_def split: prod.splits if_splits)
qed (simp add: walked_def)

lemma preapply_walk:
  "stop \<noteq> AVL_NOMORE \<Longrightarrow> avl_preapply t fn s stop = walked stop (walk (preorder t) fn s stop)"
proof (induction t arbitrary: s)
  case (Avlnode d b l r)
  then show ?case by (auto simp: walk_append walked_def Let_def split: prod.splits if_splits)
qed (simp add: walked_def)

lemma postapply_walk:
  "stop \<noteq> AVL_NOMORE \<Longrightarrow> snd (avl_postapply t fn s stop) = snd (walk (postorder t) fn s stop)
     \<and> (fst (avl_postapply t fn s stop) = stop \<longleftrightarrow> fst (walk (postorder t) fn s stop))"
proof (induction t arbitrary: s)
  case (Avlnode d b l r)
  obtain rl s1 where l: "avl_postapply l fn s stop = (rl, s1)" by fastforce
  obtain rr s2 where r: "avl_postapply r fn s1 stop = (rr, s2)" by fastforce
  obtain rf s3 where f: "fn d s2 = (rf, s3)" by fastforce
  have "walk (postorder l) fn s stop = (rl = stop, s1)" "walk (postorder r) fn s1 stop = (rr = stop, s2)"
    using Avlnode.IH(1) [OF Avlnode.prems, of s] Avlnode.IH(2) [OF Avlnode.prems, of s1] l r by (simp_all add: prod_eq_iff)
  with l r f Avlnode.prems show ?case
    by (cases "l = NULLAVL"; cases "r = NULLAVL") (auto simp: walk_append)
qed auto

lemma prefixapply_walk:
  "stop \<noteq> AVL_NOMORE \<Longrightarrow>
   sorted_wrt (\<lambda>a b. (cmp a \<le> 0 \<longrightarrow> cmp b \<le> 0) \<and> (cmp a < 0 \<longrightarrow> cmp b < 0)) (inorder t) \<Longrightarrow>
   avl_prefixapply t cmp fm s stop = walked stop (walk (filter (\<lambda>x. cmp x = 0) (preorder t)) fm s stop)"
proof (induction t arbitrary: s)
  case (Avlnode d b l r)
  have set: "set (preorder t) = set (inorder t)" for t :: "'a avlnode" by (induction t) auto
  have s: "sorted_wrt (\<lambda>a b. (cmp a \<le> 0 \<longrightarrow> cmp b \<le> 0) \<and> (cmp a < 0 \<longrightarrow> cmp b < 0)) (inorder l)"
    "sorted_wrt (\<lambda>a b. (cmp a \<le> 0 \<longrightarrow> cmp b \<le> 0) \<and> (cmp a < 0 \<longrightarrow> cmp b < 0)) (inorder r)"
    "\<forall>a \<in> set (inorder l). (cmp a \<le> 0 \<longrightarrow> cmp d \<le> 0) \<and> (cmp a < 0 \<longrightarrow> cmp d < 0)"
    "\<forall>b \<in> set (inorder r). (cmp d \<le> 0 \<longrightarrow> cmp b \<le> 0) \<and> (cmp d < 0 \<longrightarrow> cmp b < 0)"
    using Avlnode.prems(2) by (auto simp: sorted_wrt_append)
  note IH = Avlnode.IH(1) [OF Avlnode.prems(1) s(1)] Avlnode.IH(2) [OF Avlnode.prems(1) s(2)]
  consider "cmp d = 0" | "cmp d < 0" | "cmp d > 0" by linarith
  then show ?case
  proof cases
    case 1
    then show ?thesis using IH Avlnode.prems(1) by (auto simp: walk_append walked_def Let_def split: prod.splits if_splits)
  next
    case 2
    then have "filter (\<lambda>x. cmp x = 0) (preorder r) = []" using s(4) set by (fastforce simp: filter_empty_conv)
    with 2 IH show ?thesis by (auto simp: walked_def)
  next
    case 3
    then have "filter (\<lambda>x. cmp x = 0) (preorder l) = []" using s(3) set by (fastforce simp: filter_empty_conv)
    with 3 IH show ?thesis by (auto simp: walked_def)
  qed
qed (simp add: walked_def)

lemma avl_free_walk:
  "avl_free t (Some f) s = (int (nodes t), fold f (postorder t) s)"
  by (induction t arbitrary: s) auto

text \<open>The iterator.\<close>

lemma buildlist_walk:
  "avl_list st = Some ys \<Longrightarrow> avl_maxlist st = length ys \<Longrightarrow>
     walk xs avl_buildlist st (- 1) = (False, st\<lparr>avl_list := Some (ys @ xs), avl_maxlist := length ys + length xs\<rparr>)"
proof (induction xs arbitrary: st ys)
  case (Cons x xs)
  from Cons.IH [of "st\<lparr>avl_list := Some (ys @ [x]), avl_maxlist := Suc (length ys)\<rparr>" "ys @ [x]"] Cons.prems
  show ?case by (simp add: avl_buildlist_def Let_def)
qed simp

lemma getfirst_list:
  assumes "t \<noteq> NULLAVL"
  shows "avl_getfirst t st = (Some (hd (inorder t)),
    st\<lparr>avl_list := Some (inorder t), avl_maxlist := nodes t, avl_nextlist := 1\<rparr>)"
proof -
  have len: "length (inorder t) = nodes t" for t :: "'a avlnode" by (induction t) auto
  obtain x xs where i: "inorder t = x # xs" using assms by (cases t; cases "inorder t") auto
  let ?s = "st\<lparr>avl_list := None, avl_maxlist := 0, avl_nextlist := 0\<rparr>"
  have "walk (x # xs) avl_buildlist ?s (- 1) =
      walk xs avl_buildlist (?s\<lparr>avl_list := Some [x], avl_maxlist := 1\<rparr>) (- 1)"
    by (simp add: avl_buildlist_def Let_def)
  also have "\<dots> = (False, ?s\<lparr>avl_list := Some (x # xs), avl_maxlist := nodes t\<rparr>)"
    using buildlist_walk [of "?s\<lparr>avl_list := Some [x], avl_maxlist := 1\<rparr>" "[x]" xs] len [of t] i by simp
  finally have "avl_inapply t avl_buildlist ?s (- 1) = (AVL_NOMORE, ?s\<lparr>avl_list := Some (x # xs), avl_maxlist := nodes t\<rparr>)"
    using inapply_walk [of "- 1" t avl_buildlist ?s] i by (simp add: AVL_NOMORE_def walked_def)
  then show ?thesis using assms i by (simp add: avl_getfirst_def avl_apply_def avl_slot_def Let_def)
qed

fun drain :: "nat \<Rightarrow> 'a avl_iter \<Rightarrow> 'a option list" where
  "drain 0 st = []"
| "drain (Suc n) st = (let (x, st') = avl_getnext st in x # drain n st')"

lemma drain_list:
  "avl_list st = Some xs \<Longrightarrow> avl_maxlist st = length xs \<Longrightarrow> avl_nextlist st \<le> length xs \<Longrightarrow>
     n = length xs - avl_nextlist st + 1 \<Longrightarrow> drain n st = map Some (drop (avl_nextlist st) xs) @ [None]"
proof (induction n arbitrary: st)
  case (Suc n)
  show ?case
  proof (cases "avl_nextlist st = length xs")
    case True
    with Suc.prems show ?thesis by (simp add: avl_getnext_def)
  next
    case False
    then have lt: "avl_nextlist st < length xs" using Suc.prems by simp
    let ?s = "st\<lparr>avl_nextlist := avl_nextlist st + 1\<rparr>"
    have "avl_getnext st = (Some (xs ! avl_nextlist st), ?s)"
      using Suc.prems lt by (simp add: avl_getnext_def avl_slot_def)
    moreover have "drain n ?s = map Some (drop (avl_nextlist ?s) xs) @ [None]"
      by (rule Suc.IH) (use Suc.prems lt in auto)
    ultimately show ?thesis using lt by (simp add: Cons_nth_drop_Suc [symmetric])
  qed
qed simp

section \<open>Height\<close>

lemma square_step:
  assumes "p \<le> a * a" "p \<le> 2 * (b * b)"
  shows "2 * p \<le> (a + b) * (a + b :: nat)"
proof -
  have "p \<le> 2 * (a * b)"
  proof (cases "b \<le> a")
    case True
    then have "b * b \<le> a * b" by (rule mult_le_mono1)
    with assms(2) show ?thesis by linarith
  next
    case False
    then have "a * a \<le> a * b" by (intro mult_le_mono2) simp
    with assms(1) show ?thesis by linarith
  qed
  with assms(1) have "2 * p \<le> a * a + 2 * (a * b)" by simp
  then show ?thesis by (simp add: algebra_simps)
qed

lemma avl_size_bound: "avl t \<Longrightarrow> 2 ^ height t \<le> (nodes t + 1) * (nodes t + 1)"
proof (induction t)
  case (Avlnode d b l r)
  then have IH: "2 ^ height l \<le> (nodes l + 1) * (nodes l + 1)" "2 ^ height r \<le> (nodes r + 1) * (nodes r + 1)" by auto
  have "2 * 2 ^ max (height l) (height r) \<le> ((nodes l + 1) + (nodes r + 1)) * ((nodes l + 1) + (nodes r + 1))"
  proof (cases "height r \<le> height l")
    case True
    with Avlnode.prems have "height l = height r \<or> height l = height r + 1" by (cases b) auto
    then have "2 ^ height l \<le> 2 * ((nodes r + 1) * (nodes r + 1))" using IH(2) by auto
    from square_step [OF IH(1) this] True show ?thesis by (simp add: max_def)
  next
    case False
    with Avlnode.prems have "height r = height l + 1" by (cases b) auto
    then have "2 ^ height r \<le> 2 * ((nodes l + 1) * (nodes l + 1))" using IH(1) by auto
    from square_step [OF IH(2) this] False show ?thesis by (simp add: max_def add.commute)
  qed
  then show ?case by simp
qed simp

section \<open>The interface of the trees\<close>

lemma minus_order: "avl_order (\<lambda>a b. a - b :: int)"
  by unfold_locales auto

text \<open>
  C30: On a balanced tree in order, \<^verbatim>\<open>avl_insert\<close> never dereferences a null child and never meets a bad
  balance factor: it returns, with \<^verbatim>\<open>OK\<close> for a new key and what the duplicate handler returns for an old
  one, and leaves a balanced tree in order. A search afterwards finds the new datum, or the old one as
  the handler left it, under its key, and what it found before under every other key.
\<close>

theorem avl_insert_correct:
  assumes "avl_order fcmp" "avl t" "ordered fcmp (inorder t)" "keeps_key fcmp fdup x"
  shows "\<exists>t'. avl_insert fcmp fdup x t =
        Some (case avl_find fcmp x t of None \<Rightarrow> AVL_OK | Some y \<Rightarrow> snd (fdup y x), t')
      \<and> avl t' \<and> ordered fcmp (inorder t')
      \<and> (\<forall>k. avl_find fcmp k t' =
            (if fcmp k x = 0 then Some (case avl_find fcmp x t of None \<Rightarrow> x | Some y \<Rightarrow> fst (fdup y x))
             else avl_find fcmp k t))"
proof -
  note fl = avl_order.find_list [OF assms(1)]
  from avl_order.insert_ok [OF assms(1-4)] obtain t' where
    t': "avl_insert fcmp fdup x t = Some (ins_rc fcmp fdup x (inorder t), t')" "avl t'"
      "inorder t' = ins_list fcmp fdup x (inorder t)" "ordered fcmp (inorder t')" by blast
  then show ?thesis using avl_order.look_ins [OF assms(1,4,3)] fl [OF assms(3)] fl [OF t'(4)]
    by (auto simp: ins_rc_def)
qed

theorem avl_insert_correct_witness:
  "\<exists>t'. avl_insert (\<lambda>a b. a - b) avl_dup_error 5 (Avlnode (3 :: int) EH NULLAVL NULLAVL) = Some (AVL_OK, t')
     \<and> avl t' \<and> avl_find (\<lambda>a b. a - b) 5 t' = Some 5 \<and> avl_find (\<lambda>a b. a - b) 3 t' = Some 3"
  using avl_insert_correct [OF minus_order, of "Avlnode 3 EH NULLAVL NULLAVL" avl_dup_error 5]
  by (auto simp: ordered_def keeps_key_dup_error)

text \<open>
  C31: On a balanced tree in order, \<^verbatim>\<open>avl_delete\<close> returns the datum that a search with the same key finds,
  or null, and leaves a balanced tree in order that has lost exactly that datum.
\<close>

theorem avl_delete_correct:
  assumes "avl_order fcmp" "avl t" "ordered fcmp (inorder t)"
  shows "\<exists>t'. avl_delete fcmp x t = Some (avl_find fcmp x t, t') \<and> avl t' \<and> ordered fcmp (inorder t')
      \<and> (\<forall>k. avl_find fcmp k t' = (if fcmp k x = 0 then None else avl_find fcmp k t))
      \<and> nodes t' = nodes t - (if avl_find fcmp x t = None then 0 else 1)"
proof -
  note fl = avl_order.find_list [OF assms(1)]
  from avl_order.delete_ok [OF assms(1-3)] obtain t' where
    t': "avl_delete fcmp x t = Some (avl_find fcmp x t, t')" "avl t'"
      "inorder t' = del_list fcmp x (inorder t)" "ordered fcmp (inorder t')" by blast
  then show ?thesis using avl_order.look_del [OF assms(1)] avl_order.length_del [OF assms(1,3), of x] fl [OF assms(3)] fl [OF t'(4)]
    by (auto simp: nodes_inorder)
qed

theorem avl_delete_correct_witness:
  "\<exists>t'. avl_delete (\<lambda>a b. a - b) 3 (Avlnode (3 :: int) RH NULLAVL (Avlnode 5 EH NULLAVL NULLAVL)) = Some (Some 3, t')
     \<and> avl t' \<and> avl_find (\<lambda>a b. a - b) 3 t' = None \<and> avl_find (\<lambda>a b. a - b) 5 t' = Some 5 \<and> nodes t' = 1"
  using avl_delete_correct [OF minus_order, of "Avlnode 3 RH NULLAVL (Avlnode 5 EH NULLAVL NULLAVL)" 3]
  by (auto simp: ordered_def)

datatype ('k, 'a) avl_op = Ins 'a | Del 'k

fun avl_ops :: "('a \<Rightarrow> 'a \<Rightarrow> int) \<Rightarrow> 'a fdup \<Rightarrow> ('a, 'a) avl_op list \<Rightarrow> 'a avlnode \<Rightarrow> 'a avlnode option" where
  "avl_ops fcmp fdup [] t = Some t"
| "avl_ops fcmp fdup (Ins x # ops) t = (case avl_insert fcmp fdup x t of None \<Rightarrow> None | Some (_, t') \<Rightarrow> avl_ops fcmp fdup ops t')"
| "avl_ops fcmp fdup (Del x # ops) t = (case avl_delete fcmp x t of None \<Rightarrow> None | Some (_, t') \<Rightarrow> avl_ops fcmp fdup ops t')"

lemma avl_ops_ok:
  assumes "avl_order fcmp" "\<forall>x. keeps_key fcmp fdup x"
  shows "avl t \<Longrightarrow> ordered fcmp (inorder t) \<Longrightarrow>
    \<exists>t'. avl_ops fcmp fdup ops t = Some t' \<and> avl t' \<and> ordered fcmp (inorder t')"
proof (induction ops arbitrary: t)
  case (Cons op ops)
  show ?case
  proof (cases op)
    case (Ins x)
    from avl_order.insert_ok [OF assms(1) Cons.prems spec [OF assms(2)], of x] Cons.IH Ins show ?thesis by auto
  next
    case (Del x)
    from avl_order.delete_ok [OF assms(1) Cons.prems, of x] Cons.IH Del show ?thesis by auto
  qed
qed simp

text \<open>
  C32: Any sequence of insertions and deletions, started on the null tree, returns at every step and
  leaves a balanced tree in order whose height is at most twice the logarithm of its size: a search
  makes no more comparisons than that.
\<close>

theorem avl_ops_balanced:
  assumes "avl_order fcmp" "\<forall>x. keeps_key fcmp fdup x"
  shows "\<exists>t. avl_ops fcmp fdup ops NULLAVL = Some t \<and> avl t \<and> ordered fcmp (inorder t)
    \<and> 2 ^ height t \<le> (nodes t + 1) ^ 2"
  using avl_ops_ok [OF assms, of NULLAVL ops] avl_size_bound
  by (fastforce simp: ordered_def power2_eq_square)

theorem avl_ops_balanced_witness:
  "\<exists>t. avl_ops (\<lambda>a b. a - b) avl_dup_error [Ins (1 :: int), Ins 2, Ins 3, Del 2, Ins 4] NULLAVL = Some t \<and> avl t
    \<and> 2 ^ height t \<le> (nodes t + 1) ^ 2"
  using avl_ops_balanced [OF minus_order, of avl_dup_error "[Ins 1, Ins 2, Ins 3, Del 2, Ins 4]", OF allI [OF keeps_key_dup_error]]
  by blast

text \<open>
  The traversals visit the nodes in order, in preorder and in postorder until the visitor returns
  the stop flag, and hand its state from node to node; an unknown order is refused. In order and in
  preorder they return the stop flag when they were stopped and \<^verbatim>\<open>AVL_NOMORE\<close> when they were not.
\<close>

theorem avl_apply_walks:
  assumes "stop \<noteq> AVL_NOMORE"
  shows "avl_apply t fn s stop AVL_INORDER = walked stop (walk (inorder t) fn s stop)
    \<and> avl_apply t fn s stop AVL_PREORDER = walked stop (walk (preorder t) fn s stop)
    \<and> snd (avl_apply t fn s stop AVL_POSTORDER) = snd (walk (postorder t) fn s stop)
    \<and> (fst (avl_apply t fn s stop AVL_POSTORDER) = stop \<longleftrightarrow> fst (walk (postorder t) fn s stop))
    \<and> avl_apply t fn s stop AVL_OTHER = (AVL_NOTOK, s)"
  using postapply_walk [OF assms, of t fn s] by (simp add: avl_apply_def inapply_walk [OF assms] preapply_walk [OF assms])

theorem avl_apply_walks_witness:
  "avl_apply (Avlnode (2 :: int) EH (Avlnode 1 EH NULLAVL NULLAVL) (Avlnode 3 EH NULLAVL NULLAVL))
     (\<lambda>x s. (0, s @ [x])) [] 1 AVL_INORDER = (AVL_NOMORE, [1, 2, 3])"
  using conjunct1 [OF avl_apply_walks [of 1 "Avlnode (2 :: int) EH (Avlnode 1 EH NULLAVL NULLAVL) (Avlnode 3 EH NULLAVL NULLAVL)"
    "\<lambda>x s. (0, s @ [x])" "[]"]]
  by (simp add: AVL_NOMORE_def walked_def)

text \<open>
  A postorder traversal that nobody stopped returns what the visitor returned for the root and
  not \<^verbatim>\<open>AVL_NOMORE\<close>.
\<close>

theorem avl_postapply_not_nomore:
  "fst (avl_apply (Avlnode d b NULLAVL NULLAVL) (\<lambda>x s. (7, s)) () 1 AVL_POSTORDER) = 7
    \<and> fst (avl_apply (Avlnode d b NULLAVL NULLAVL) (\<lambda>x s. (7, s)) () 1 AVL_INORDER) = AVL_NOMORE"
  by (simp add: avl_apply_def)



text \<open>
  When the prefix comparison splits the data of the tree into those before, within and after the
  prefix, \<^verbatim>\<open>avl_prefixapply\<close> calls the match function on exactly the data within, in preorder.
\<close>

theorem avl_prefixapply_exact:
  assumes "stop \<noteq> AVL_NOMORE"
    "sorted_wrt (\<lambda>a b. (cmp a \<le> 0 \<longrightarrow> cmp b \<le> 0) \<and> (cmp a < 0 \<longrightarrow> cmp b < 0)) (inorder t)"
  shows "avl_prefixapply t cmp fmatch s stop = walked stop (walk (filter (\<lambda>x. cmp x = 0) (preorder t)) fmatch s stop)"
  by (rule prefixapply_walk [OF assms])

theorem avl_prefixapply_exact_witness:
  "avl_prefixapply (Avlnode (20 :: int) EH (Avlnode 10 EH NULLAVL NULLAVL) (Avlnode 25 EH NULLAVL NULLAVL))
     (\<lambda>x. 2 - x div 10) (\<lambda>x s. (0, s @ [x])) [] 1 = (AVL_NOMORE, [20, 25])"
  using avl_prefixapply_exact [of 1 "\<lambda>x. 2 - x div 10" "Avlnode (20 :: int) EH (Avlnode 10 EH NULLAVL NULLAVL) (Avlnode 25 EH NULLAVL NULLAVL)"
    "\<lambda>x s. (0, s @ [x])" "[]"] by (simp add: AVL_NOMORE_def walked_def)

end
