(* ===== verification/Turbo_Index.thy ===== *)
theory Turbo_Index
  imports Avl
begin

text \<open>
  The attribute indexes of the directory (\<^verbatim>\<open>dsap/common/turbo_index.c\<close>): trees of values, of reversed
  values and of soundex codes, whose nodes hold the sorted array of the entries that have the value.
  The comparison of attribute values (\<^verbatim>\<open>AttrV_cmp\<close> dispatches on the attribute's syntax) and the
  soundex codes of a value are arguments; codes are compared with \<^verbatim>\<open>strcmp\<close>. Entries are compared by
  address and stand for their addresses.
\<close>

section \<open>Index nodes\<close>

text \<open>
  \<^verbatim>\<open>in_entries\<close> is an allocated block of which \<^verbatim>\<open>in_num\<close> slots are in use and \<^verbatim>\<open>in_max\<close> are thought to be
  there; \<open>None\<close> is a block after a store past its end.
\<close>

record 'v Index_node =
  in_value :: 'v
  in_entries :: "nat list option"
  in_num :: int
  in_max :: int

definition new_node :: "'v \<Rightarrow> nat \<Rightarrow> 'v Index_node" where
  "new_node v e = \<lparr>in_value = v, in_entries = Some [e], in_num = 1, in_max = 1\<rparr>"

text \<open>\<^verbatim>\<open>strcmp\<close> on strings without their terminators, with the sign the standard asks for.\<close>

fun strcmp :: "byte list \<Rightarrow> byte list \<Rightarrow> int" where
  "strcmp [] [] = 0"
| "strcmp [] (b # bs) = -1"
| "strcmp (a # as) [] = 1"
| "strcmp (a # as) (b # bs) = (if a = b then strcmp as bs else if a < b then -1 else 1)"

definition index_cmp :: "('v \<Rightarrow> 'v \<Rightarrow> int) \<Rightarrow> 'v Index_node \<Rightarrow> 'v Index_node \<Rightarrow> int" where
  "index_cmp vcmp a b = vcmp (in_value a) (in_value b)"

definition indexav_cmp :: "('v \<Rightarrow> 'v \<Rightarrow> int) \<Rightarrow> 'v \<Rightarrow> 'v Index_node \<Rightarrow> int" where
  "indexav_cmp vcmp v node = vcmp v (in_value node)"

definition sindex_cmp :: "byte list Index_node \<Rightarrow> byte list Index_node \<Rightarrow> int" where
  "sindex_cmp a b = strcmp (in_value a) (in_value b)"

definition index_soundex_cmp :: "byte list \<Rightarrow> byte list Index_node \<Rightarrow> int" where
  "index_soundex_cmp code node = strcmp code (in_value node)"

definition strrev :: "byte list \<Rightarrow> byte list" where
  "strrev s = rev s"

section \<open>Adding an entry to a node\<close>

text \<open>C division by two truncates towards zero.\<close>

definition half :: "int \<Rightarrow> int" where
  "half n = (if n < 0 then - (- n div 2) else n div 2)"

function bin_search :: "nat list \<Rightarrow> nat \<Rightarrow> int \<Rightarrow> int \<Rightarrow> int" where
  "bin_search es x low high =
     (let mid = half (low + high) in
      if low < high
      then (if es ! nat mid < x then bin_search es x (mid + 1) high
            else if es ! nat mid > x then bin_search es x low (mid - 1)
            else mid)
      else mid)"
  by pat_completeness auto
termination
  by (relation "measure (\<lambda>(es, x, low, high). nat (high - low))") (auto simp: half_def)

declare bin_search.simps [simp del]

function lin_search :: "nat list \<Rightarrow> int \<Rightarrow> nat \<Rightarrow> int \<Rightarrow> int option" where
  "lin_search es num x mid =
     (if mid < num
      then (if es ! nat mid = x then None
            else if es ! nat mid > x then Some mid
            else lin_search es num x (mid + 1))
      else Some mid)"
  by pat_completeness auto
termination
  by (relation "measure (\<lambda>(es, num, x, mid). nat (num - mid))") auto

declare lin_search.simps [simp del]

text \<open>Where the new entry goes, or \<open>None\<close> when it is there already.\<close>

definition entry_slot :: "nat list \<Rightarrow> int \<Rightarrow> nat \<Rightarrow> int option" where
  "entry_slot es num x =
     (if num > 20
      then (let mid = bin_search es x 0 (num - 1) in
        if es ! nat mid = x then None
        else if es ! nat mid < x then Some (mid + 1) else Some mid)
      else lin_search es num x 0)"

text \<open>The block grows to twice \<^verbatim>\<open>in_max\<close> slots when that is reached; new slots have no defined contents.\<close>

definition grow_block :: "nat list \<Rightarrow> int \<Rightarrow> int \<Rightarrow> nat list \<times> int" where
  "grow_block es num mx =
     (if num \<ge> mx
      then (let mx' = (if mx = 0 then 1 else 2 * mx) in
        (take (nat mx') es @ replicate (nat mx' - length es) 0, mx'))
      else (es, mx))"

text \<open>The loop that stores the entry at \<open>mid\<close> and moves the rest up by one.\<close>

definition shift_in :: "nat list \<Rightarrow> int \<Rightarrow> int \<Rightarrow> nat \<Rightarrow> nat list option" where
  "shift_in es num mid x =
     (if num < int (length es)
      then Some (take (nat mid) es @ x # drop (nat mid) (take (nat num) es) @ drop (nat num + 1) es)
      else None)"

definition index_dup :: "'v Index_node \<Rightarrow> 'v Index_node \<Rightarrow> 'v Index_node \<times> int" where
  "index_dup node dup =
     (case (in_entries node, in_entries dup) of
        (Some es, Some (x # _)) \<Rightarrow>
          (case entry_slot es (in_num node) x of
             None \<Rightarrow> (node, AVL_NOTOK)
           | Some mid \<Rightarrow>
               (let (es', mx) = grow_block es (in_num node) (in_max node) in
                (node\<lparr>in_entries := shift_in es' (in_num node) mid x,
                      in_num := in_num node + 1, in_max := mx\<rparr>, AVL_NOTOK)))
      | _ \<Rightarrow> (node\<lparr>in_entries := None\<rparr>, AVL_NOTOK))"

text \<open>
  Taking an entry out again: \<^verbatim>\<open>turbo_attr_delete\<close> moves the rest down and shrinks the block to the slots
  in use; it leaves \<^verbatim>\<open>in_max\<close> as it was.
\<close>

definition take_out :: "'v Index_node \<Rightarrow> nat \<Rightarrow> 'v Index_node" where
  "take_out node j = node\<lparr>in_num := in_num node - 1,
     in_entries := map_option (\<lambda>es. take (nat (in_num node - 1)) (take j es @ drop (j + 1) es)) (in_entries node)\<rparr>"

section \<open>The indexes of an attribute\<close>

record ('t, 'v) Index =
  i_attr :: 't
  i_count :: int
  i_rcount :: int
  i_scount :: int
  i_root :: "'v Index_node avlnode"
  i_rroot :: "'v Index_node avlnode"
  i_sroot :: "byte list Index_node avlnode"
  i_nonleafkids :: "nat list option"
  i_nonlocalaliases :: "nat list option"

definition new_index :: "'t list \<Rightarrow> ('t, 'v) Index list" where
  "new_index turbo_index_types = map (\<lambda>t. \<lparr>i_attr = t, i_count = 0, i_rcount = 0, i_scount = 0,
     i_root = NULLAVL, i_rroot = NULLAVL, i_sroot = NULLAVL, i_nonleafkids = None, i_nonlocalaliases = None\<rparr>)
     turbo_index_types"

text \<open>
  The terminated arrays of entries kept with an index: \<open>None\<close> is the null pointer. The count of the
  slots is an \<^verbatim>\<open>int\<close>; when it has no room for the new entry and the terminator nothing is added.
\<close>

definition add_entry :: "nat \<Rightarrow> nat list option \<Rightarrow> nat list option" where
  "add_entry e tmp =
     (let es = (case tmp of None \<Rightarrow> [] | Some es \<Rightarrow> es) in
      if e \<in> set es \<or> int (length es) + 2 > 2147483647 then Some es else Some (es @ [e]))"

fun delete_first :: "nat \<Rightarrow> nat list \<Rightarrow> nat list" where
  "delete_first e [] = []"
| "delete_first e (x # xs) = (if x = e then xs else x # delete_first e xs)"

definition add_nonlocalalias :: "nat \<Rightarrow> ('t, 'v) Index \<Rightarrow> ('t, 'v) Index" where
  "add_nonlocalalias e ix = ix\<lparr>i_nonlocalaliases := add_entry e (i_nonlocalaliases ix)\<rparr>"

definition add_nonleafkid :: "nat \<Rightarrow> ('t, 'v) Index \<Rightarrow> ('t, 'v) Index" where
  "add_nonleafkid e ix = ix\<lparr>i_nonleafkids := add_entry e (i_nonleafkids ix)\<rparr>"

definition delete_nonleafkid :: "nat \<Rightarrow> ('t, 'v) Index \<Rightarrow> ('t, 'v) Index" where
  "delete_nonleafkid e ix = ix\<lparr>i_nonleafkids := map_option (delete_first e) (i_nonleafkids ix)\<rparr>"

definition delete_nonlocalalias :: "nat \<Rightarrow> ('t, 'v) Index \<Rightarrow> ('t, 'v) Index" where
  "delete_nonlocalalias e ix = ix\<lparr>i_nonlocalaliases := map_option (delete_first e) (i_nonlocalaliases ix)\<rparr>"

text \<open>How two names, lists of components from the root down, lie to each other.\<close>

fun th_prefix :: "('c \<Rightarrow> 'c \<Rightarrow> bool) \<Rightarrow> 'c list \<Rightarrow> 'c list \<Rightarrow> int" where
  "th_prefix same (a # as) (b # bs) = (if same a b then th_prefix same as bs else 2)"
| "th_prefix same [] [] = 0"
| "th_prefix same [] (b # bs) = (if bs = [] then -2 else -1)"
| "th_prefix same (a # as) [] = 1"

text \<open>One insertion: a return of OK means that the value was new.\<close>

definition root_insert :: "('v \<Rightarrow> 'v \<Rightarrow> int) \<Rightarrow> 'v \<Rightarrow> nat \<Rightarrow> ('t, 'v) Index \<Rightarrow> ('t, 'v) Index option" where
  "root_insert vcmp v e ix =
     (case avl_insert (index_cmp vcmp) index_dup (new_node v e) (i_root ix) of
        None \<Rightarrow> None
      | Some (rc, t) \<Rightarrow> Some (ix\<lparr>i_root := t, i_count := i_count ix + (if rc = AVL_OK then 1 else 0)\<rparr>))"

definition rroot_insert :: "('v \<Rightarrow> 'v \<Rightarrow> int) \<Rightarrow> 'v \<Rightarrow> nat \<Rightarrow> ('t, 'v) Index \<Rightarrow> ('t, 'v) Index option" where
  "rroot_insert vcmp v e ix =
     (case avl_insert (index_cmp vcmp) index_dup (new_node v e) (i_rroot ix) of
        None \<Rightarrow> None
      | Some (rc, t) \<Rightarrow> Some (ix\<lparr>i_rroot := t, i_rcount := i_rcount ix + (if rc = AVL_OK then 1 else 0)\<rparr>))"

definition sroot_insert :: "byte list \<Rightarrow> nat \<Rightarrow> ('t, 'v) Index \<Rightarrow> ('t, 'v) Index option" where
  "sroot_insert code e ix =
     (case avl_insert sindex_cmp index_dup (new_node code e) (i_sroot ix) of
        None \<Rightarrow> None
      | Some (rc, t) \<Rightarrow> Some (ix\<lparr>i_sroot := t, i_scount := i_scount ix + (if rc = AVL_OK then 1 else 0)\<rparr>))"

fun sroot_inserts :: "byte list list \<Rightarrow> nat \<Rightarrow> ('t, 'v) Index \<Rightarrow> ('t, 'v) Index option" where
  "sroot_inserts [] e ix = Some ix"
| "sroot_inserts (c # cs) e ix = (case sroot_insert c e ix of None \<Rightarrow> None | Some ix' \<Rightarrow> sroot_inserts cs e ix')"

text \<open>
  \<^verbatim>\<open>turbo_attr_insert\<close> once it has found the index: every value goes to the tree of values, its
  reverse to the tree of reversed values when the syntax allows substrings, and the codes of its
  words to the soundex tree when the syntax matches by soundex.
\<close>

record 'v attr_syntax =
  vcmp :: "'v \<Rightarrow> 'v \<Rightarrow> int"
  substr :: bool
  vrev :: "'v \<Rightarrow> 'v"
  approx_soundex :: bool
  word_codes :: "'v \<Rightarrow> byte list list"

fun insert_values :: "'v attr_syntax \<Rightarrow> ('t, 'v) Index \<Rightarrow> nat \<Rightarrow> 'v list \<Rightarrow> ('t, 'v) Index option" where
  "insert_values syn ix e [] = Some ix"
| "insert_values syn ix e (v # vs) =
     (case root_insert (vcmp syn) v e ix of
        None \<Rightarrow> None
      | Some ix1 \<Rightarrow>
          (case (if substr syn then rroot_insert (vcmp syn) (vrev syn v) e ix1 else Some ix1) of
             None \<Rightarrow> None
           | Some ix2 \<Rightarrow>
               (case (if approx_soundex syn then sroot_inserts (word_codes syn v) e ix2 else Some ix2) of
                  None \<Rightarrow> None
                | Some ix3 \<Rightarrow> insert_values syn ix3 e vs)))"

text \<open>
  Replacing the data of the node that a search found: the pointers of the code reach into the tree.
\<close>

fun avl_update :: "('k \<Rightarrow> 'a \<Rightarrow> int) \<Rightarrow> 'k \<Rightarrow> ('a \<Rightarrow> 'a) \<Rightarrow> 'a avlnode \<Rightarrow> 'a avlnode" where
  "avl_update fcmp x f NULLAVL = NULLAVL"
| "avl_update fcmp x f (Avlnode d b l r) =
     (let cmp = fcmp x d in
      if cmp = 0 then Avlnode (f d) b l r
      else if cmp < 0 then Avlnode d b (avl_update fcmp x f l) r
      else Avlnode d b l (avl_update fcmp x f r))"

fun find_index :: "nat \<Rightarrow> nat list \<Rightarrow> nat option" where
  "find_index e [] = None"
| "find_index e (y # ys) = (if y = e then Some 0 else map_option Suc (find_index e ys))"

definition entry_index :: "'v Index_node \<Rightarrow> nat \<Rightarrow> nat option" where
  "entry_index node e =
     (case in_entries node of None \<Rightarrow> None | Some es \<Rightarrow> find_index e (take (nat (in_num node)) es))"

text \<open>
  \<^verbatim>\<open>turbo_attr_delete\<close> for one value, and for one code. \<open>Some (ix, False)\<close> is the \<^verbatim>\<open>continue\<close> of a value that
  is not indexed; the codes of its words are then not looked at.
\<close>

definition root_delete :: "('v \<Rightarrow> 'v \<Rightarrow> int) \<Rightarrow> 'v \<Rightarrow> nat \<Rightarrow> ('t, 'v) Index \<Rightarrow> (('t, 'v) Index \<times> bool) option" where
  "root_delete acmp v e ix =
     (case avl_find (indexav_cmp acmp) v (i_root ix) of
        None \<Rightarrow> Some (ix, False)
      | Some node \<Rightarrow>
          (case entry_index node e of
             None \<Rightarrow> Some (ix, False)
           | Some j \<Rightarrow>
               if in_num node - 1 = 0
               then (case avl_delete (indexav_cmp acmp) v (i_root ix) of
                       None \<Rightarrow> None
                     | Some (_, t) \<Rightarrow> Some (ix\<lparr>i_root := t, i_count := i_count ix - 1\<rparr>, True))
               else Some (ix\<lparr>i_root := avl_update (indexav_cmp acmp) v (\<lambda>n. take_out n j) (i_root ix)\<rparr>, True)))"

definition sroot_delete :: "byte list \<Rightarrow> nat \<Rightarrow> ('t, 'v) Index \<Rightarrow> ('t, 'v) Index option" where
  "sroot_delete code e ix =
     (case avl_find index_soundex_cmp code (i_sroot ix) of
        None \<Rightarrow> Some ix
      | Some node \<Rightarrow>
          (case entry_index node e of
             None \<Rightarrow> Some ix
           | Some j \<Rightarrow>
               if in_num node - 1 = 0
               then (case avl_delete index_soundex_cmp code (i_sroot ix) of
                       None \<Rightarrow> None
                     | Some (_, t) \<Rightarrow> Some (ix\<lparr>i_sroot := t\<rparr>))
               else Some (ix\<lparr>i_sroot := avl_update index_soundex_cmp code (\<lambda>n. take_out n j) (i_sroot ix)\<rparr>)))"

fun sroot_deletes :: "byte list list \<Rightarrow> nat \<Rightarrow> ('t, 'v) Index \<Rightarrow> ('t, 'v) Index option" where
  "sroot_deletes [] e ix = Some ix"
| "sroot_deletes (c # cs) e ix = (case sroot_delete c e ix of None \<Rightarrow> None | Some ix' \<Rightarrow> sroot_deletes cs e ix')"

fun delete_values :: "'v attr_syntax \<Rightarrow> ('t, 'v) Index \<Rightarrow> nat \<Rightarrow> 'v list \<Rightarrow> ('t, 'v) Index option" where
  "delete_values syn ix e [] = Some ix"
| "delete_values syn ix e (v # vs) =
     (case root_delete (vcmp syn) v e ix of
        None \<Rightarrow> None
      | Some (ix1, found) \<Rightarrow>
          (case (if found \<and> i_sroot ix1 \<noteq> NULLAVL then sroot_deletes (word_codes syn v) e ix1 else Some ix1) of
             None \<Rightarrow> None
           | Some ix2 \<Rightarrow> delete_values syn ix2 e vs))"

text \<open>
  The loops that look for the index of the attribute in the array of them; an attribute without one is
  logged and nothing is done.
\<close>

fun find_attr :: "('t \<Rightarrow> 't \<Rightarrow> int) \<Rightarrow> ('t, 'v) Index list \<Rightarrow> 't \<Rightarrow> nat option" where
  "find_attr AttrT_cmp [] attr = None"
| "find_attr AttrT_cmp (ix # ixs) attr =
     (if AttrT_cmp (i_attr ix) attr = 0 then Some 0 else map_option Suc (find_attr AttrT_cmp ixs attr))"

definition turbo_attr_insert ::
  "('t \<Rightarrow> 't \<Rightarrow> int) \<Rightarrow> ('t \<Rightarrow> 'v attr_syntax) \<Rightarrow> ('t, 'v) Index list \<Rightarrow> nat \<Rightarrow> 't \<Rightarrow> 'v list \<Rightarrow> ('t, 'v) Index list option" where
  "turbo_attr_insert AttrT_cmp oa_syntax pindex e attr values =
     (case find_attr AttrT_cmp pindex attr of
        None \<Rightarrow> Some pindex
      | Some i \<Rightarrow> map_option (\<lambda>ix. pindex[i := ix]) (insert_values (oa_syntax attr) (pindex ! i) e values))"

definition turbo_attr_delete ::
  "('t \<Rightarrow> 't \<Rightarrow> int) \<Rightarrow> ('t \<Rightarrow> 'v attr_syntax) \<Rightarrow> ('t, 'v) Index list \<Rightarrow> nat \<Rightarrow> 't \<Rightarrow> 'v list \<Rightarrow> ('t, 'v) Index list option" where
  "turbo_attr_delete AttrT_cmp oa_syntax pindex e attr values =
     (case find_attr AttrT_cmp pindex attr of
        None \<Rightarrow> Some pindex
      | Some i \<Rightarrow> map_option (\<lambda>ix. pindex[i := ix]) (delete_values (oa_syntax attr) (pindex ! i) e values))"

section \<open>The order of the codes\<close>

lemma strcmp_swap: "strcmp a b < 0 \<longleftrightarrow> strcmp b a > 0"
  by (induction a b rule: strcmp.induct) auto

lemma strcmp_trans: "strcmp a b \<le> 0 \<Longrightarrow> strcmp b c \<le> 0 \<Longrightarrow> strcmp a c \<le> 0"
proof (induction a b arbitrary: c rule: strcmp.induct)
  case (2 b bs) then show ?case by (cases c) auto
next
  case (4 a as b bs) then show ?case by (cases c) (auto split: if_splits)
qed (auto elim: strcmp.elims)

lemma strcmp_eq: "strcmp a b = 0 \<longleftrightarrow> a = b"
  by (induction a b rule: strcmp.induct) auto

lemma strcmp_order: "avl_order strcmp"
  by unfold_locales (fact strcmp_swap strcmp_trans)+

lemma index_cmp_order: "avl_order acmp \<Longrightarrow> avl_order (index_cmp acmp)"
  unfolding avl_order_def index_cmp_def by blast

interpretation codes: avl_order strcmp
  by (rule strcmp_order)

interpretation sindex: avl_order sindex_cmp
  unfolding avl_order_def sindex_cmp_def using strcmp_swap strcmp_trans by blast

section \<open>The entries of a node\<close>

definition entries :: "'v Index_node \<Rightarrow> nat list" where
  "entries node = take (nat (in_num node)) (case in_entries node of None \<Rightarrow> [] | Some es \<Rightarrow> es)"

text \<open>
  A node as insertion keeps it: the block is there and has \<^verbatim>\<open>in_max\<close> slots, of which the first \<^verbatim>\<open>in_num\<close>
  hold the entries in increasing order without repetition.
\<close>

definition node_ok :: "'v Index_node \<Rightarrow> bool" where
  "node_ok node \<longleftrightarrow> (\<exists>es. in_entries node = Some es \<and> 0 \<le> in_num node \<and> in_num node \<le> int (length es)
     \<and> sorted_wrt (<) (entries node))"

definition block_ok :: "'v Index_node \<Rightarrow> bool" where
  "block_ok node \<longleftrightarrow> node_ok node \<and> (\<exists>es. in_entries node = Some es \<and> in_max node = int (length es))"

lemma new_node_ok: "block_ok (new_node v e)" "entries (new_node v e) = [e]" "in_value (new_node v e) = v"
  "in_entries (new_node v e) = Some [e]"
  by (simp_all add: block_ok_def node_ok_def new_node_def entries_def)

lemma half_mid:
  assumes "low < high" "0 \<le> low"
  shows "low \<le> half (low + high)" "half (low + high) < high"
  using assms by (simp_all add: half_def)

text \<open>Position \<open>m\<close> splits the used slots: smaller entries before it, larger ones after it.\<close>

definition splits_at :: "nat list \<Rightarrow> int \<Rightarrow> nat \<Rightarrow> int \<Rightarrow> int \<Rightarrow> bool" where
  "splits_at es num x m m' \<longleftrightarrow> (\<forall>i. int i < m \<longrightarrow> es ! i < x) \<and> (\<forall>i. m' < int i \<and> int i < num \<longrightarrow> x < es ! i)"

lemma slots_less:
  assumes "sorted_wrt (<) (take (nat num) es)" "num \<le> int (length es)" "i < j" "int j < num"
  shows "es ! i < es ! j"
proof -
  have "take (nat num) es ! i < take (nat num) es ! j"
    using assms by (intro sorted_wrt_nth_less [OF assms(1)]) auto
  then show ?thesis using assms(3,4) by simp
qed

lemma bin_search_spec:
  assumes "sorted_wrt (<) (take (nat num) es)" "num \<le> int (length es)" "0 < num"
  shows "0 \<le> low \<Longrightarrow> low \<le> high + 1 \<Longrightarrow> high < num \<Longrightarrow> splits_at es num x low high \<Longrightarrow>
    0 \<le> bin_search es x low high \<and> bin_search es x low high < num
    \<and> splits_at es num x (bin_search es x low high) (bin_search es x low high)"
  using assms
proof (induction es x low high rule: bin_search.induct)
  case (1 es x low high)
  let ?mid = "half (low + high)"
  note less = slots_less [OF "1.prems"(5,6)]
  show ?case
  proof (cases "low < high")
    case True
    note mid = half_mid [OF True "1.prems"(1)]
    have mn: "0 \<le> ?mid" "?mid < num" using mid "1.prems" by linarith+
    consider "es ! nat ?mid < x" | "es ! nat ?mid > x" | "es ! nat ?mid = x" by linarith
    then show ?thesis
    proof cases
      case 1
      have "es ! i < x" if "int i < ?mid + 1" for i
      proof (cases "i = nat ?mid")
        case False
        then have "i < nat ?mid" using that mn by linarith
        with less [of i "nat ?mid"] 1 mn show ?thesis by simp
      qed (use 1 in simp)
      then have "splits_at es num x (?mid + 1) high" using "1.prems"(4) by (auto simp: splits_at_def)
      with 1 "1.IH"(1) [OF refl True 1] "1.prems" mid True show ?thesis
        by (subst (1 2 3 4) bin_search.simps) (simp add: Let_def)
    next
      case 2
      have "x < es ! i" if "?mid - 1 < int i" "int i < num" for i
      proof (cases "i = nat ?mid")
        case False
        then have "nat ?mid < i" using that mn by linarith
        with less [of "nat ?mid" i] 2 that show ?thesis by simp
      qed (use 2 in simp)
      then have "splits_at es num x low (?mid - 1)" using "1.prems"(4) by (auto simp: splits_at_def)
      with 2 "1.IH"(2) [OF refl True _ 2] "1.prems" mid True show ?thesis
        by (subst (1 2 3 4) bin_search.simps) (simp add: Let_def)
    next
      case 3
      then have "bin_search es x low high = ?mid" using True by (subst bin_search.simps) (simp add: Let_def)
      moreover have "splits_at es num x ?mid ?mid"
        using less [of _ "nat ?mid"] less [of "nat ?mid"] 3 mn by (auto simp: splits_at_def)
      ultimately show ?thesis using mn by simp
    qed
  next
    case False
    then have m: "bin_search es x low high = ?mid" by (subst bin_search.simps) (simp add: Let_def)
    consider "low = high" | "low = high + 1" "0 \<le> high" | "low = 0" "high = - 1" using False "1.prems"(1,2) by linarith
    then show ?thesis
    proof cases
      case 1
      then have "?mid = low" using "1.prems"(1) by (simp add: half_def)
      with m 1 "1.prems" show ?thesis by simp
    next
      case 2
      then have "?mid = high" by (simp add: half_def)
      with m 2 "1.prems" show ?thesis by (auto simp: splits_at_def)
    next
      case 3
      then have "?mid = 0" by (simp add: half_def)
      with m 3 "1.prems" show ?thesis by (auto simp: splits_at_def)
    qed
  qed
qed

lemma lin_search_spec:
  assumes "sorted_wrt (<) (take (nat num) es)" "num \<le> int (length es)"
  shows "0 \<le> mid \<Longrightarrow> mid \<le> num \<Longrightarrow> (\<forall>i. int i < mid \<longrightarrow> es ! i < x) \<Longrightarrow>
    (case lin_search es num x mid of
       None \<Rightarrow> \<exists>i. int i < num \<and> es ! i = x
     | Some m \<Rightarrow> 0 \<le> m \<and> m \<le> num \<and> splits_at es num x m (m - 1))"
  using assms
proof (induction es num x mid rule: lin_search.induct)
  case (1 es num x mid)
  note less = slots_less [OF "1.prems"(4,5)]
  show ?case
  proof (cases "mid < num")
    case True
    consider "es ! nat mid = x" | "es ! nat mid > x" | "es ! nat mid < x" by linarith
    then show ?thesis
    proof cases
      case 1
      then have "int (nat mid) < num \<and> es ! nat mid = x" using True "1.prems"(1) by simp
      then have "\<exists>i. int i < num \<and> es ! i = x" by blast
      moreover have "lin_search es num x mid = None" using 1 True by (subst lin_search.simps) simp
      ultimately show ?thesis by simp
    next
      case 2
      have "x < es ! i" if "mid - 1 < int i" "int i < num" for i
      proof (cases "i = nat mid")
        case False
        then have "nat mid < i" using that "1.prems"(1) by linarith
        with less [of "nat mid" i] 2 that show ?thesis by simp
      qed (use 2 in simp)
      then have "splits_at es num x mid (mid - 1)" using "1.prems"(3) by (simp add: splits_at_def)
      moreover have "lin_search es num x mid = Some mid" using 2 True by (subst lin_search.simps) simp
      ultimately show ?thesis using "1.prems" by simp
    next
      case 3
      have "es ! i < x" if "int i < mid + 1" for i
      proof (cases "i = nat mid")
        case False
        then have "i < nat mid" using that "1.prems"(1) by linarith
        with less [of i "nat mid"] 3 True "1.prems"(1) show ?thesis by simp
      qed (use 3 in simp)
      moreover have "lin_search es num x mid = lin_search es num x (mid + 1)"
        using 3 True by (subst lin_search.simps) simp
      moreover have "es ! nat mid \<noteq> x" "\<not> es ! nat mid > x" using 3 by simp_all
      ultimately show ?thesis using True "1.IH" "1.prems" by simp
    qed
  next
    case False
    then show ?thesis using "1.prems" by (subst lin_search.simps) (auto simp: splits_at_def)
  qed
qed

lemma entry_slot_spec:
  assumes "sorted_wrt (<) (take (nat num) es)" "num \<le> int (length es)" "0 \<le> num"
  shows "case entry_slot es num x of
     None \<Rightarrow> x \<in> set (take (nat num) es)
   | Some m \<Rightarrow> 0 \<le> m \<and> m \<le> num \<and> splits_at es num x m (m - 1)"
proof (cases "num > 20")
  case False
  have "x \<in> set (take (nat num) es)" if "int i < num" "es ! i = x" for i
  proof -
    have "take (nat num) es ! i = x" "i < length (take (nat num) es)" using that assms(2) by auto
    then show ?thesis by (metis nth_mem)
  qed
  then show ?thesis using lin_search_spec [OF assms(1,2), of 0 x] False assms(3)
    by (auto simp: entry_slot_def split: option.splits)
next
  case True
  let ?m = "bin_search es x 0 (num - 1)"
  have m: "0 \<le> ?m" "?m < num" "splits_at es num x ?m ?m"
    using bin_search_spec [OF assms(1,2), of 0 "num - 1" x] True by (simp_all add: splits_at_def)
  consider "es ! nat ?m = x" | "es ! nat ?m < x" | "es ! nat ?m > x" by linarith
  then show ?thesis
  proof cases
    case 1
    have "take (nat num) es ! nat ?m = x" "nat ?m < length (take (nat num) es)" using 1 m assms(2) by auto
    then have "x \<in> set (take (nat num) es)" by (metis nth_mem)
    with 1 True show ?thesis by (simp add: entry_slot_def Let_def)
  next
    case 2
    have "es ! i < x" if "int i < ?m + 1" for i
      using that 2 m by (cases "i = nat ?m") (auto simp: splits_at_def)
    moreover have "entry_slot es num x = Some (?m + 1)" using 2 True by (simp add: entry_slot_def Let_def)
    ultimately show ?thesis using m by (simp add: splits_at_def)
  next
    case 3
    have "x < es ! i" if "?m - 1 < int i" "int i < num" for i
      using that 3 m by (cases "i = nat ?m") (auto simp: splits_at_def)
    moreover have "entry_slot es num x = Some ?m" using 3 True by (simp add: entry_slot_def Let_def)
    ultimately show ?thesis using m by (simp add: splits_at_def)
  qed
qed

lemma shift_in_sorted:
  assumes "sorted_wrt (<) (take (nat num) es)" "0 \<le> m" "m \<le> num" "splits_at es num x m (m - 1)" "num < int (length es)"
    "shift_in es num m x = Some es'"
  shows "take (nat (num + 1)) es' = take (nat m) es @ x # drop (nat m) (take (nat num) es)"
    and "sorted_wrt (<) (take (nat (num + 1)) es')" "length es' = length es"
    and "set (take (nat (num + 1)) es') = insert x (set (take (nat num) es))"
proof -
  let ?xs = "take (nat num) es"
  have e: "es' = (take (nat m) es @ x # drop (nat m) ?xs) @ drop (nat num + 1) es" using assms(5,6) by (simp add: shift_in_def)
  have n: "nat (num + 1) = nat num + 1" "nat m \<le> nat num" "nat num < length es" using assms by auto
  have l: "length (take (nat m) es @ x # drop (nat m) ?xs) = nat num + 1" using n by simp
  show t: "take (nat (num + 1)) es' = take (nat m) es @ x # drop (nat m) ?xs"
  proof -
    have "take (length us) (us @ vs) = us" for us vs :: "nat list" by simp
    from this [of "take (nat m) es @ x # drop (nat m) ?xs"] show ?thesis unfolding e n(1) l .
  qed
  show "length es' = length es" unfolding e using n by simp
  have split: "?xs = take (nat m) es @ drop (nat m) ?xs"
    using n(2) append_take_drop_id [of "nat m" ?xs] by (simp add: min_def)
  have lo: "\<forall>y \<in> set (take (nat m) es). y < x"
    using assms(2,4) by (auto simp: splits_at_def in_set_conv_nth)
  have hi: "\<forall>y \<in> set (drop (nat m) ?xs). x < y"
  proof
    fix y assume "y \<in> set (drop (nat m) ?xs)"
    then obtain i where i: "i < nat num - nat m" "y = ?xs ! (nat m + i)"
      using n by (auto simp: in_set_conv_nth)
    then have "nat m + i < nat num" by linarith
    with i n have "y = es ! (nat m + i)" "m - 1 < int (nat m + i)" "int (nat m + i) < num" using assms(2) by auto
    with assms(4) show "x < y" by (auto simp: splits_at_def)
  qed
  have "sorted_wrt (<) (take (nat m) es @ drop (nat m) ?xs)" using assms(1) split by simp
  then show "sorted_wrt (<) (take (nat (num + 1)) es')" using lo hi by (auto simp: t sorted_wrt_append)
  have "set ?xs = set (take (nat m) es) \<union> set (drop (nat m) ?xs)" by (subst split) simp
  then show "set (take (nat (num + 1)) es') = insert x (set ?xs)" by (auto simp: t)
qed

lemma grow_block_ok:
  assumes "0 \<le> num" "num \<le> int (length es)" "mx = int (length es)" "grow_block es num mx = (es', mx')"
  shows "num < int (length es') \<and> mx' = int (length es') \<and> take (nat num) es' = take (nat num) es"
  using assms by (auto simp: grow_block_def Let_def split: if_splits)

lemma index_dup_ok:
  assumes "block_ok node" "in_entries dup = Some [x]"
  shows "block_ok (fst (index_dup node dup))" "set (entries (fst (index_dup node dup))) = insert x (set (entries node))"
    "in_value (fst (index_dup node dup)) = in_value node"
proof -
  obtain es where es: "in_entries node = Some es" "0 \<le> in_num node" "in_num node \<le> int (length es)"
    "in_max node = int (length es)" "sorted_wrt (<) (take (nat (in_num node)) es)"
    using assms(1) by (auto simp: block_ok_def node_ok_def entries_def)
  note slot = entry_slot_spec [OF es(5,3,2), of x]
  have "block_ok (fst (index_dup node dup)) \<and> set (entries (fst (index_dup node dup))) = insert x (set (entries node))
    \<and> in_value (fst (index_dup node dup)) = in_value node"
  proof (cases "entry_slot es (in_num node) x")
    case None
    then show ?thesis using slot assms es by (auto simp: index_dup_def entries_def)
  next
    case (Some m)
    obtain es1 mx where g: "grow_block es (in_num node) (in_max node) = (es1, mx)" by fastforce
    note gb = grow_block_ok [OF es(2,3,4) g]
    have m: "0 \<le> m" "m \<le> in_num node" "splits_at es1 (in_num node) x m (m - 1)"
    proof -
      have "es1 ! i = es ! i" if "int i < in_num node" for i
        using gb that by (metis nth_take zless_nat_eq_int_zless)
      then show "splits_at es1 (in_num node) x m (m - 1)" using slot Some by (auto simp: splits_at_def)
    qed (use slot Some in auto)
    have s1: "sorted_wrt (<) (take (nat (in_num node)) es1)" using es(5) gb by simp
    obtain es2 where e2: "shift_in es1 (in_num node) m x = Some es2" using gb by (auto simp: shift_in_def)
    note si = shift_in_sorted [OF s1 m conjunct1 [OF gb] e2]
    have d: "fst (index_dup node dup) = node\<lparr>in_entries := Some es2, in_num := in_num node + 1, in_max := mx\<rparr>"
      using es(1) assms(2) Some g e2 by (simp add: index_dup_def)
    show ?thesis unfolding d using si gb es by (auto simp: block_ok_def node_ok_def entries_def)
  qed
  then show "block_ok (fst (index_dup node dup))" "set (entries (fst (index_dup node dup))) = insert x (set (entries node))"
    "in_value (fst (index_dup node dup)) = in_value node" by blast+
qed

section \<open>The trees\<close>

text \<open>
  An index tree: balanced, in order, every node well formed. \<open>hits\<close> is what it records: the entries
  found under a value.
\<close>

definition index_ok :: "('v \<Rightarrow> 'v \<Rightarrow> int) \<Rightarrow> 'v Index_node avlnode \<Rightarrow> bool" where
  "index_ok acmp t \<longleftrightarrow> avl t \<and> ordered (index_cmp acmp) (inorder t) \<and> list_all block_ok (inorder t)"

definition hits :: "('v \<Rightarrow> 'v \<Rightarrow> int) \<Rightarrow> 'v \<Rightarrow> 'v Index_node avlnode \<Rightarrow> nat set" where
  "hits acmp v t = (case avl_find (indexav_cmp acmp) v t of None \<Rightarrow> {} | Some node \<Rightarrow> set (entries node))"

lemma dup_keeps_key:
  "keeps_key (index_cmp acmp) index_dup x"
  by (auto simp: keeps_key_def index_cmp_def index_dup_def split: option.splits list.splits prod.splits)

lemma index_dup_rc: "snd (index_dup node dup) = AVL_NOTOK"
  by (simp add: index_dup_def split: option.splits list.splits prod.splits)

lemma ins_blocks:
  assumes "list_all block_ok xs" "in_entries x = Some [e]" "block_ok x"
  shows "list_all block_ok (ins_list f index_dup x xs)"
  using assms(1) by (induction xs) (auto simp: assms index_dup_ok)

lemma find_map: "find P (map h xs) = map_option h (find (P \<circ> h) xs)"
  by (induction xs) auto

lemma find_index_Some: "find_index e xs = Some j \<Longrightarrow> j < length xs \<and> xs ! j = e"
  by (induction xs arbitrary: j) (auto split: if_splits)

lemma find_index_None: "find_index e xs = None \<longleftrightarrow> e \<notin> set xs"
  by (induction xs) auto

lemma set_take_drop:
  assumes "distinct xs" "j < length xs"
  shows "set (take j xs @ drop (j + 1) xs) = set xs - {xs ! j}"
proof -
  have "xs = take j xs @ xs ! j # drop (j + 1) xs" using assms(2) id_take_nth_drop by fastforce
  then show ?thesis using assms(1) by (metis (no_types, lifting) Diff_insert_absorb Un_insert_right distinct.simps(2)
    distinct_append insert_iff list.simps(15) set_append not_distinct_conv_prefix disjoint_iff list.set_intros(1) Un_iff)
qed

lemma sorted_take_drop:
  assumes "sorted_wrt (<) (xs :: nat list)" "j < length xs"
  shows "sorted_wrt (<) (take j xs @ drop (j + 1) xs)"
proof -
  have "sorted_wrt (<) (take j xs @ xs ! j # drop (j + 1) xs)"
    using assms id_take_nth_drop by fastforce
  then show ?thesis by (auto simp: sorted_wrt_append)
qed

lemma take_out_ok:
  assumes "node_ok n" "entry_index n e = Some j"
  shows "node_ok (take_out n j)" "entries (take_out n j) = take j (entries n) @ drop (j + 1) (entries n)"
    "set (entries (take_out n j)) = set (entries n) - {e}"
    "in_num n = 1 \<Longrightarrow> set (entries n) = {e}"
proof -
  obtain es where es: "in_entries n = Some es" "0 \<le> in_num n" "in_num n \<le> int (length es)"
    "sorted_wrt (<) (take (nat (in_num n)) es)"
    using assms(1) by (auto simp: node_ok_def entries_def)
  let ?xs = "take (nat (in_num n)) es"
  have j: "j < length ?xs" "?xs ! j = e" using assms(2) es(1) find_index_Some [of e ?xs j] by (auto simp: entry_index_def)
  have len: "length (take j ?xs @ drop (j + 1) ?xs) = nat (in_num n - 1)" using j es by simp
  have pre: "take j es @ drop (j + 1) es = (take j ?xs @ drop (j + 1) ?xs) @ drop (nat (in_num n)) es"
  proof -
    have "es = ?xs @ drop (nat (in_num n)) es" by simp
    then have "drop (j + 1) es = drop (j + 1) ?xs @ drop (nat (in_num n)) es"
      using j(1) by (metis (no_types, lifting) Suc_eq_plus1 Suc_leI diff_is_0_eq drop0 drop_append)
    moreover have "j \<le> nat (in_num n)" using j(1) by simp
    ultimately show ?thesis by (simp add: min_def)
  qed
  have "take (length us) (us @ vs) = us" for us vs :: "nat list" by simp
  from this [of "take j ?xs @ drop (j + 1) ?xs" "drop (nat (in_num n)) es"]
  have cut: "take (nat (in_num n - 1)) (take j es @ drop (j + 1) es) = take j ?xs @ drop (j + 1) ?xs"
    unfolding pre len .
  have new: "in_entries (take_out n j) = Some (take j ?xs @ drop (j + 1) ?xs)"
    unfolding take_out_def cut [symmetric] by (simp add: es(1))
  show e: "entries (take_out n j) = take j (entries n) @ drop (j + 1) (entries n)"
  proof -
    have "in_num (take_out n j) = in_num n - 1" by (simp add: take_out_def)
    then have "entries (take_out n j) = take j ?xs @ drop (j + 1) ?xs"
      unfolding entries_def new using len by (simp only: option.case) (rule take_all, simp)
    then show ?thesis using es(1) by (simp add: entries_def)
  qed
  have xs: "entries n = ?xs" using es(1) by (simp add: entries_def)
  have "in_num (take_out n j) = int (length (take j ?xs @ drop (j + 1) ?xs))"
    unfolding len using j(1) es(2) by (auto simp: take_out_def)
  then have "0 \<le> in_num (take_out n j)" "in_num (take_out n j) \<le> int (length (take j ?xs @ drop (j + 1) ?xs))"
    by (simp_all only: of_nat_0_le_iff order_refl)
  moreover have "sorted_wrt (<) (entries (take_out n j))" unfolding e xs by (rule sorted_take_drop [OF es(4) j(1)])
  ultimately show "node_ok (take_out n j)" unfolding node_ok_def new by (intro exI conjI) (rule refl)
  show "set (entries (take_out n j)) = set (entries n) - {e}"
    using set_take_drop [OF conjunct2 [OF es(4) [unfolded strict_sorted_iff]] j(1)] j(2) e xs by simp
  show "set (entries n) = {e}" if "in_num n = 1"
  proof -
    have "length ?xs = 1" using that es by simp
    with j show ?thesis unfolding xs by (cases ?xs) auto
  qed
qed

text \<open>What deletion needs and keeps of a tree: not that \<^verbatim>\<open>in_max\<close> is right.\<close>

definition kept :: "('v \<Rightarrow> 'v \<Rightarrow> int) \<Rightarrow> 'v Index_node avlnode \<Rightarrow> bool" where
  "kept acmp t \<longleftrightarrow> avl t \<and> ordered (index_cmp acmp) (inorder t) \<and> list_all node_ok (inorder t)"

lemma index_ok_kept: "index_ok acmp t \<Longrightarrow> kept acmp t"
  by (auto simp: index_ok_def kept_def block_ok_def list_all_iff)

definition only :: "bool \<Rightarrow> nat \<Rightarrow> nat set" where
  "only b e = (if b then {e} else {})"

lemma only_simps [simp]: "only True e = {e}" "only False e = {}" "A \<union> only P e \<union> only Q e = A \<union> only (P \<or> Q) e"
  "A - only P e - only Q e = A - only (P \<or> Q) e"
  by (auto simp: only_def)

text \<open>
  The interface of the indexes to the comparison of values: any order on the values gives an order on
  the nodes.
\<close>

locale value_index = avl_order acmp for acmp :: "'v \<Rightarrow> 'v \<Rightarrow> int"

sublocale value_index \<subseteq> node: avl_order "index_cmp acmp"
  using swap trans by unfold_locales (simp_all add: index_cmp_def)

context value_index
begin

lemma find_node: "avl_find (indexav_cmp acmp) v t = avl_find (index_cmp acmp) (new_node v e) t"
  by (rule key_cong) (simp add: fun_eq_iff indexav_cmp_def index_cmp_def new_node_def)

lemma delete_node: "avl_delete (indexav_cmp acmp) v t = avl_delete (index_cmp acmp) (new_node v e) t"
  by (rule key_cong) (simp add: fun_eq_iff indexav_cmp_def index_cmp_def new_node_def)

lemma hits_look:
  assumes "ordered (index_cmp acmp) (inorder t)"
  shows "hits acmp v t = (case look (index_cmp acmp) (new_node v e) (inorder t) of None \<Rightarrow> {} | Some node \<Rightarrow> set (entries node))"
  using node.find_list [OF assms] find_node [of v t e] by (simp add: hits_def)

lemma index_insert_ok:
  assumes "index_ok acmp t"
  shows "\<exists>t'. avl_insert (index_cmp acmp) index_dup (new_node v e) t =
      Some (if avl_find (indexav_cmp acmp) v t = None then AVL_OK else AVL_NOTOK, t') \<and> index_ok acmp t'
    \<and> (\<forall>w. hits acmp w t' = hits acmp w t \<union> (if acmp w v = 0 then {e} else {}))
    \<and> nodes t' = nodes t + (if avl_find (indexav_cmp acmp) v t = None then 1 else 0)"
proof -
  let ?f = "index_cmp acmp" and ?x = "new_node v e"
  have t: "avl t" "ordered ?f (inorder t)" "list_all block_ok (inorder t)" using assms by (auto simp: index_ok_def)
  have fl: "avl_find (indexav_cmp acmp) v t = look ?f ?x (inorder t)"
    using find_node node.find_list [OF t(2)] by metis
  from node.insert_ok [OF t(1,2) dup_keeps_key, of ?x] obtain t' where
    i: "avl_insert ?f index_dup ?x t = Some (ins_rc ?f index_dup ?x (inorder t), t')" "avl t'"
      "inorder t' = ins_list ?f index_dup ?x (inorder t)" "ordered ?f (inorder t')" by blast
  have rc: "ins_rc ?f index_dup ?x (inorder t) = (if avl_find (indexav_cmp acmp) v t = None then AVL_OK else AVL_NOTOK)"
    unfolding ins_rc_def fl by (auto split: option.splits simp: index_dup_rc)
  have ok: "index_ok acmp t'" using i ins_blocks [OF t(3) new_node_ok(4,1), of ?f]
    by (simp add: index_ok_def)
  have h: "hits acmp w t' = hits acmp w t \<union> (if acmp w v = 0 then {e} else {})" for w
  proof -
    have k: "?f (new_node w e) ?x = acmp w v" by (simp add: index_cmp_def new_node_def)
    have "hits acmp w t' = (case look ?f (new_node w e) (ins_list ?f index_dup ?x (inorder t)) of None \<Rightarrow> {} | Some n \<Rightarrow> set (entries n))"
      using hits_look [OF i(4), of w e] i(3) by simp
    also have "\<dots> = hits acmp w t \<union> (if acmp w v = 0 then {e} else {})"
    proof (cases "acmp w v = 0")
      case False
      then show ?thesis using node.look_ins [OF dup_keeps_key t(2)] hits_look [OF t(2), of w e] k by simp
    next
      case True
      have lw: "look ?f (new_node w e) (inorder t) = look ?f ?x (inorder t)"
        unfolding look_def using node.zero_trans [of "new_node w e" ?x] True k by simp
      show ?thesis
      proof (cases "look ?f ?x (inorder t)")
        case None
        then show ?thesis using node.look_ins [OF dup_keeps_key t(2)] hits_look [OF t(2), of w e] k True lw new_node_ok(2) [of v e] by simp
      next
        case (Some y)
        then have "y \<in> set (inorder t)" by (auto simp: look_def find_Some_iff)
        then have "block_ok y" using t(3) by (simp add: list_all_iff)
        from index_dup_ok(2) [OF this, of ?x e] Some show ?thesis
          using node.look_ins [OF dup_keeps_key t(2)] hits_look [OF t(2), of w e] k True lw by (simp add: new_node_def)
      qed
    qed
    finally show ?thesis .
  qed
  have "nodes t' = nodes t + (if avl_find (indexav_cmp acmp) v t = None then 1 else 0)"
    using node.length_ins [OF t(2), of index_dup ?x] i(3) by (simp add: fl nodes_inorder)
  with i(1) rc ok h show ?thesis by auto
qed

text \<open>Deletion needs less of the nodes than insertion does: it never looks at \<^verbatim>\<open>in_max\<close>.\<close>

lemma index_delete_found:
  assumes "avl t" "ordered (index_cmp acmp) (inorder t)" "avl_find (indexav_cmp acmp) v t = Some n" "set (entries n) = {e}"
  shows "\<exists>t'. avl_delete (indexav_cmp acmp) v t = Some (Some n, t') \<and> avl t' \<and> ordered (index_cmp acmp) (inorder t')
    \<and> set (inorder t') \<subseteq> set (inorder t) \<and> nodes t' = nodes t - 1
    \<and> (\<forall>w. hits acmp w t' = hits acmp w t - (if acmp w v = 0 then {e} else {}))"
proof -
  let ?f = "index_cmp acmp" and ?x = "new_node v e"
  have fn: "avl_find ?f ?x t = Some n" using assms(3) find_node by metis
  from node.delete_ok [OF assms(1,2), of ?x] obtain t' where
    d: "avl_delete ?f ?x t = Some (avl_find ?f ?x t, t')" "avl t'" "inorder t' = del_list ?f ?x (inorder t)"
      "ordered ?f (inorder t')" by blast
  have lk: "look ?f ?x (inorder t) = Some n" using fn node.find_list [OF assms(2)] by simp
  have "hits acmp w t' = hits acmp w t - (if acmp w v = 0 then {e} else {})" for w
  proof -
    have k: "?f (new_node w e) ?x = acmp w v" by (simp add: index_cmp_def new_node_def)
    have l: "look ?f (new_node w e) (inorder t) = look ?f ?x (inorder t)" if "acmp w v = 0"
      unfolding look_def using node.zero_trans [of "new_node w e" ?x] that k by simp
    show ?thesis
      using hits_look [OF d(4), of w e] hits_look [OF assms(2), of w e] node.look_del [of "new_node w e" ?x "inorder t"] d(3) k l lk assms(4)
      by (cases "acmp w v = 0") simp_all
  qed
  moreover have "nodes t' = nodes t - 1" using node.length_del [OF assms(2), of ?x] d(3) lk by (simp add: nodes_inorder)
  moreover have "set (inorder t') \<subseteq> set (inorder t)" using d(3) by (auto simp: del_list_def)
  moreover have "avl_delete (indexav_cmp acmp) v t = Some (Some n, t')" using d(1) fn delete_node by metis
  ultimately show ?thesis using d by blast
qed

lemma update_inorder:
  "ordered (index_cmp acmp) (inorder t) \<Longrightarrow>
     inorder (avl_update (indexav_cmp acmp) v g t) = map (\<lambda>n. if indexav_cmp acmp v n = 0 then g n else n) (inorder t)"
proof (induction t)
  case (Avlnode d b l r)
  let ?x = "new_node v 0"
  have k: "indexav_cmp acmp v n = index_cmp acmp ?x n" for n by (simp add: indexav_cmp_def index_cmp_def new_node_def)
  from Avlnode.prems have o: "ordered (index_cmp acmp) (inorder l)" "ordered (index_cmp acmp) (inorder r)"
    "\<forall>a \<in> set (inorder l). index_cmp acmp a d < 0" "\<forall>b \<in> set (inorder r). index_cmp acmp d b < 0"
    by (auto simp: node.ordered_mid)
  have L: "map (\<lambda>n. if indexav_cmp acmp v n = 0 then g n else n) (inorder l) = inorder l" if "indexav_cmp acmp v d \<ge> 0"
    using o(3) that node.before_greater [of _ d ?x] unfolding k by (intro map_idI) fastforce
  have R: "map (\<lambda>n. if indexav_cmp acmp v n = 0 then g n else n) (inorder r) = inorder r" if "indexav_cmp acmp v d \<le> 0"
    using o(4) that node.after_less [of d _ ?x] unfolding k by (intro map_idI) fastforce
  consider "indexav_cmp acmp v d = 0" | "indexav_cmp acmp v d < 0" | "indexav_cmp acmp v d > 0" by linarith
  then show ?case using Avlnode.IH o L R by cases simp_all
qed simp

lemma update_avl: "avl (avl_update f v g t) = avl t \<and> height (avl_update f v g t) = height t"
  by (induction t) (auto simp: Let_def)

lemma update_hits:
  assumes "ordered (index_cmp acmp) (inorder t)" "avl_find (indexav_cmp acmp) v t = Some n"
    "\<forall>m. in_value (g m) = in_value m" "set (entries (g n)) = set (entries n) - {e}"
  shows "ordered (index_cmp acmp) (inorder (avl_update (indexav_cmp acmp) v g t))"
    "hits acmp w (avl_update (indexav_cmp acmp) v g t) = hits acmp w t - (if acmp w v = 0 then {e} else {})"
proof -
  let ?f = "index_cmp acmp" and ?h = "\<lambda>n. if indexav_cmp acmp v n = 0 then g n else n"
  note in_t' = update_inorder [OF assms(1), of v g]
  have k: "?f (?h a) (?h b) = ?f a b" for a b using assms(3) by (simp add: index_cmp_def)
  show o: "ordered ?f (inorder (avl_update (indexav_cmp acmp) v g t))"
    using assms(1) k unfolding in_t' ordered_def by (simp add: sorted_wrt_map)
  have lh: "look ?f x (map ?h xs) = map_option ?h (look ?f x xs)" for x xs
  proof -
    have "(\<lambda>a. ?f x (?h a) = 0) = (\<lambda>a. ?f x a = 0)" using assms(3) by (auto simp: index_cmp_def)
    then show ?thesis unfolding look_def find_map comp_def by simp
  qed
  have ln: "look ?f (new_node v e) (inorder t) = Some n"
    using assms(2) find_node node.find_list [OF assms(1)] by metis
  show "hits acmp w (avl_update (indexav_cmp acmp) v g t) = hits acmp w t - (if acmp w v = 0 then {e} else {})"
  proof (cases "look ?f (new_node w e) (inorder t)")
    case None
    then show ?thesis using hits_look [OF o, of w e] hits_look [OF assms(1), of w e] lh in_t' by simp
  next
    case (Some m)
    have vm: "indexav_cmp acmp v m = 0 \<longleftrightarrow> acmp w v = 0"
    proof -
      have "acmp w (in_value m) = 0" using Some by (auto simp: look_def find_Some_iff index_cmp_def new_node_def)
      then show ?thesis
        unfolding indexav_cmp_def using zero_trans [of w v "in_value m"] zero_trans [of w "in_value m" v] zero_swap by metis
    qed
    moreover have "m = n" if "acmp w v = 0"
    proof -
      have "look ?f (new_node w e) (inorder t) = look ?f (new_node v e) (inorder t)"
        unfolding look_def using node.zero_trans [of "new_node w e" "new_node v e"] that
        by (simp add: index_cmp_def new_node_def)
      with Some ln show ?thesis by simp
    qed
    ultimately show ?thesis using hits_look [OF o, of w e] hits_look [OF assms(1), of w e] lh in_t' Some assms(4)
      by (cases "acmp w v = 0") auto
  qed
qed

lemma hits_cong: "acmp w v = 0 \<Longrightarrow> hits acmp w t = hits acmp v t"
proof -
  assume "acmp w v = 0"
  then have "\<forall>n. acmp w n < 0 \<longleftrightarrow> acmp v n < 0" "\<forall>n. acmp w n = 0 \<longleftrightarrow> acmp v n = 0"
    using zero_trans [of w v] le_less_trans [of v w] le_less_trans [of w v] zero_swap [of w v] by auto
  then have "avl_find (indexav_cmp acmp) w t = avl_find (indexav_cmp acmp) v t"
    by (induction t) (simp_all add: indexav_cmp_def Let_def)
  then show ?thesis by (simp add: hits_def)
qed

lemma look_unique:
  assumes "ordered (index_cmp acmp) xs" "n \<in> set xs" "index_cmp acmp x n = 0"
  shows "look (index_cmp acmp) x xs = Some n"
proof -
  obtain ys zs where xs: "xs = ys @ n # zs" using assms(2) by (auto simp: in_set_conv_decomp)
  with assms(1) have "\<forall>a \<in> set ys. index_cmp acmp a n < 0" by (auto simp: node.ordered_mid)
  from node.look_here [OF this assms(3)] show ?thesis unfolding xs .
qed

lemma found_unique:
  assumes "ordered (index_cmp acmp) (inorder t)" "avl_find (indexav_cmp acmp) v t = Some n"
    "m \<in> set (inorder t)" "indexav_cmp acmp v m = 0"
  shows "m = n"
proof -
  have "look (index_cmp acmp) (new_node v 0) (inorder t) = Some m"
    using look_unique [OF assms(1,3), of "new_node v 0"] assms(4) by (simp add: index_cmp_def indexav_cmp_def new_node_def)
  then show ?thesis using assms(2) node.find_list [OF assms(1)] find_node by (metis option.inject)
qed

lemma found_in: "avl_find fcmp x t = Some n \<Longrightarrow> n \<in> set (inorder t)"
  by (induction t) (auto simp: Let_def split: if_splits)

text \<open>The branch of deletion that has found the entry, with one entry left and with more.\<close>

lemma index_take_out:
  assumes "kept acmp t" "avl_find (indexav_cmp acmp) v t = Some n" "entry_index n e = Some j"
  shows "in_num n = 1 \<Longrightarrow> \<exists>t'. avl_delete (indexav_cmp acmp) v t = Some (Some n, t') \<and> kept acmp t' \<and> nodes t = nodes t' + 1
      \<and> (\<forall>w. hits acmp w t' = hits acmp w t - only (acmp w v = 0) e)"
    and "kept acmp (avl_update (indexav_cmp acmp) v (\<lambda>n. take_out n j) t)"
    and "hits acmp w (avl_update (indexav_cmp acmp) v (\<lambda>n. take_out n j) t) = hits acmp w t - only (acmp w v = 0) e"
    and "nodes (avl_update (indexav_cmp acmp) v (\<lambda>n. take_out n j) t) = nodes t"
proof -
  let ?u = "avl_update (indexav_cmp acmp) v (\<lambda>n. take_out n j) t"
  have t: "avl t" "ordered (index_cmp acmp) (inorder t)" "list_all node_ok (inorder t)" using assms(1) by (auto simp: kept_def)
  have n: "n \<in> set (inorder t)" "node_ok n" using found_in [OF assms(2)] t(3) by (auto simp: list_all_iff)
  note out = take_out_ok [OF n(2) assms(3)]
  show "\<exists>t'. avl_delete (indexav_cmp acmp) v t = Some (Some n, t') \<and> kept acmp t' \<and> nodes t = nodes t' + 1
      \<and> (\<forall>w. hits acmp w t' = hits acmp w t - only (acmp w v = 0) e)" if "in_num n = 1"
  proof -
    have "nodes t > 0" using n(1) by (cases t) auto
    then show ?thesis using index_delete_found [OF t(1,2) assms(2) out(4) [OF that]] t(3)
      by (fastforce simp: kept_def only_def list_all_iff)
  qed
  have v: "\<forall>m. in_value (take_out m j) = in_value m" by (simp add: take_out_def)
  show "hits acmp w ?u = hits acmp w t - only (acmp w v = 0) e"
    using update_hits(2) [OF t(2) assms(2) v out(3), of w] by (simp add: only_def)
  show "nodes ?u = nodes t" by (simp add: nodes_inorder update_inorder [OF t(2)])
  have "list_all node_ok (inorder ?u)"
    unfolding update_inorder [OF t(2)] using t(3) found_unique [OF t(2) assms(2)] out(1) by (auto simp: list_all_iff)
  then show "kept acmp ?u" using update_hits(1) [OF t(2) assms(2) v out(3)] t(1) by (simp add: kept_def update_avl)
qed

lemma not_recorded:
  assumes "e \<notin> hits acmp v t"
  shows "hits acmp w t = hits acmp w t - only (acmp w v = 0) e"
  using assms hits_cong [of w v t] by (auto simp: only_def)

end

interpretation soundex_index: value_index strcmp
  unfolding value_index_def by (rule strcmp_order)

section \<open>Inserting and deleting an attribute\<close>

lemma sindex_cmp_eq: "sindex_cmp = index_cmp strcmp"
  by (simp add: fun_eq_iff sindex_cmp_def index_cmp_def)

lemma index_soundex_cmp_eq: "index_soundex_cmp = indexav_cmp strcmp"
  by (simp add: fun_eq_iff index_soundex_cmp_def indexav_cmp_def)

definition index_inv :: "'v attr_syntax \<Rightarrow> ('t, 'v) Index \<Rightarrow> bool" where
  "index_inv syn ix \<longleftrightarrow> index_ok (vcmp syn) (i_root ix) \<and> index_ok (vcmp syn) (i_rroot ix) \<and> index_ok strcmp (i_sroot ix)
     \<and> i_count ix = int (nodes (i_root ix)) \<and> i_rcount ix = int (nodes (i_rroot ix)) \<and> i_scount ix = int (nodes (i_sroot ix))"

text \<open>What an index records: the entries under a value, under a reversed value, under a code.\<close>

definition recorded :: "'v attr_syntax \<Rightarrow> ('t, 'v) Index \<Rightarrow> 'v \<Rightarrow> 'v \<Rightarrow> byte list \<Rightarrow> nat set \<times> nat set \<times> nat set" where
  "recorded syn ix v r c = (hits (vcmp syn) v (i_root ix), hits (vcmp syn) r (i_rroot ix), hits strcmp c (i_sroot ix))"

lemma insert_hits:
  assumes "avl_order acmp" "index_ok acmp t"
  shows "\<exists>rc t'. avl_insert (index_cmp acmp) index_dup (new_node v e) t = Some (rc, t') \<and> index_ok acmp t'
    \<and> (\<forall>w. hits acmp w t' = hits acmp w t \<union> only (acmp w v = 0) e)
    \<and> int (nodes t') = int (nodes t) + (if rc = AVL_OK then 1 else 0)"
proof -
  have "value_index acmp" using assms(1) by (simp add: value_index_def)
  from value_index.index_insert_ok [OF this assms(2), of v e] obtain t' where
    "avl_insert (index_cmp acmp) index_dup (new_node v e) t =
       Some (if avl_find (indexav_cmp acmp) v t = None then AVL_OK else AVL_NOTOK, t')" "index_ok acmp t'"
    "\<forall>w. hits acmp w t' = hits acmp w t \<union> (if acmp w v = 0 then {e} else {})"
    "nodes t' = nodes t + (if avl_find (indexav_cmp acmp) v t = None then 1 else 0)" by blast
  then show ?thesis unfolding only_def
    by (intro exI conjI) (assumption | simp add: AVL_OK_def AVL_NOTOK_def)+
qed

lemma root_insert_ok:
  assumes "avl_order (vcmp syn)" "index_inv syn ix"
  shows "\<exists>ix'. root_insert (vcmp syn) v e ix = Some ix' \<and> index_inv syn ix' \<and> i_attr ix' = i_attr ix
    \<and> (\<forall>w r c. recorded syn ix' w r c = (case recorded syn ix w r c of (A, B, C) \<Rightarrow> (A \<union> only (vcmp syn w v = 0) e, B, C)))"
proof -
  have "index_ok (vcmp syn) (i_root ix)" using assms(2) by (simp add: index_inv_def)
  from insert_hits [OF assms(1) this, of v e] show ?thesis using assms(2)
    by (auto simp: root_insert_def index_inv_def recorded_def)
qed

lemma rroot_insert_ok:
  assumes "avl_order (vcmp syn)" "index_inv syn ix"
  shows "\<exists>ix'. rroot_insert (vcmp syn) v e ix = Some ix' \<and> index_inv syn ix' \<and> i_attr ix' = i_attr ix
    \<and> (\<forall>w r c. recorded syn ix' w r c = (case recorded syn ix w r c of (A, B, C) \<Rightarrow> (A, B \<union> only (vcmp syn r v = 0) e, C)))"
proof -
  have "index_ok (vcmp syn) (i_rroot ix)" using assms(2) by (simp add: index_inv_def)
  from insert_hits [OF assms(1) this, of v e] show ?thesis using assms(2)
    by (auto simp: rroot_insert_def index_inv_def recorded_def)
qed

lemma sroot_insert_ok:
  assumes "index_inv syn ix"
  shows "\<exists>ix'. sroot_insert k e ix = Some ix' \<and> index_inv syn ix' \<and> i_attr ix' = i_attr ix
    \<and> (\<forall>w r c. recorded syn ix' w r c = (case recorded syn ix w r c of (A, B, C) \<Rightarrow> (A, B, C \<union> only (c = k) e)))"
proof -
  have "index_ok strcmp (i_sroot ix)" using assms by (simp add: index_inv_def)
  from insert_hits [OF strcmp_order this, of k e] show ?thesis using assms
    by (auto simp: sroot_insert_def index_inv_def recorded_def sindex_cmp_eq strcmp_eq)
qed

lemma sroot_inserts_ok:
  "index_inv syn ix \<Longrightarrow> \<exists>ix'. sroot_inserts ks e ix = Some ix' \<and> index_inv syn ix' \<and> i_attr ix' = i_attr ix
    \<and> (\<forall>w r c. recorded syn ix' w r c = (case recorded syn ix w r c of (A, B, C) \<Rightarrow> (A, B, C \<union> only (c \<in> set ks) e)))"
proof (induction ks arbitrary: ix)
  case Nil
  then show ?case by (auto split: prod.splits)
next
  case (Cons k ks)
  from sroot_insert_ok [OF Cons.prems, of k e] obtain ix1 where
    1: "sroot_insert k e ix = Some ix1" "index_inv syn ix1" "i_attr ix1 = i_attr ix"
      "\<forall>w r c. recorded syn ix1 w r c = (case recorded syn ix w r c of (A, B, C) \<Rightarrow> (A, B, C \<union> only (c = k) e))" by blast
  from Cons.IH [OF 1(2)] show ?case using 1 by (auto split: prod.splits)
qed

text \<open>All the values of an attribute go in, and nothing else does.\<close>

lemma insert_values_ok:
  assumes "avl_order (vcmp syn)"
  shows "index_inv syn ix \<Longrightarrow> \<exists>ix'. insert_values syn ix e vs = Some ix' \<and> index_inv syn ix' \<and> i_attr ix' = i_attr ix
    \<and> (\<forall>w r c. recorded syn ix' w r c = (case recorded syn ix w r c of (A, B, C) \<Rightarrow>
         (A \<union> only (\<exists>v \<in> set vs. vcmp syn w v = 0) e,
          B \<union> only (substr syn \<and> (\<exists>v \<in> set vs. vcmp syn r (vrev syn v) = 0)) e,
          C \<union> only (approx_soundex syn \<and> (\<exists>v \<in> set vs. c \<in> set (word_codes syn v))) e)))"
proof (induction vs arbitrary: ix)
  case Nil
  then show ?case by (auto split: prod.splits)
next
  case (Cons v vs)
  from root_insert_ok [OF assms Cons.prems, of v e] obtain ix1 where
    1: "root_insert (vcmp syn) v e ix = Some ix1" "index_inv syn ix1" "i_attr ix1 = i_attr ix"
      "\<forall>w r c. recorded syn ix1 w r c = (case recorded syn ix w r c of (A, B, C) \<Rightarrow> (A \<union> only (vcmp syn w v = 0) e, B, C))"
    by blast
  obtain ix2 where
    2: "(if substr syn then rroot_insert (vcmp syn) (vrev syn v) e ix1 else Some ix1) = Some ix2" "index_inv syn ix2" "i_attr ix2 = i_attr ix1"
      "\<forall>w r c. recorded syn ix2 w r c = (case recorded syn ix1 w r c of (A, B, C) \<Rightarrow>
         (A, B \<union> only (substr syn \<and> vcmp syn r (vrev syn v) = 0) e, C))"
    using rroot_insert_ok [OF assms 1(2), of "vrev syn v" e] 1(2) by (cases "substr syn") (auto split: prod.splits)
  obtain ix3 where
    3: "(if approx_soundex syn then sroot_inserts (word_codes syn v) e ix2 else Some ix2) = Some ix3" "index_inv syn ix3" "i_attr ix3 = i_attr ix2"
      "\<forall>w r c. recorded syn ix3 w r c = (case recorded syn ix2 w r c of (A, B, C) \<Rightarrow>
         (A, B, C \<union> only (approx_soundex syn \<and> c \<in> set (word_codes syn v)) e))"
    using sroot_inserts_ok [OF 2(2), of "word_codes syn v" e] 2(2) by (cases "approx_soundex syn") (auto split: prod.splits)
  from Cons.IH [OF 3(2)] obtain ix4 where
    4: "insert_values syn ix3 e vs = Some ix4" "index_inv syn ix4" "i_attr ix4 = i_attr ix3"
      "\<forall>w r c. recorded syn ix4 w r c = (case recorded syn ix3 w r c of (A, B, C) \<Rightarrow>
         (A \<union> only (\<exists>v \<in> set vs. vcmp syn w v = 0) e,
          B \<union> only (substr syn \<and> (\<exists>v \<in> set vs. vcmp syn r (vrev syn v) = 0)) e,
          C \<union> only (approx_soundex syn \<and> (\<exists>v \<in> set vs. c \<in> set (word_codes syn v))) e))" by blast
  have "insert_values syn ix e (v # vs) = Some ix4" using 1(1) 2(1) 3(1) 4(1) by simp
  then show ?case using 1(3,4) 2(3,4) 3(3,4) 4(2,3,4) by (auto split: prod.splits simp: conj_disj_distribL)
qed

text \<open>Deletion of one value: whether the entry was recorded decides what happens.\<close>

lemma entry_index_iff: "node_ok n \<Longrightarrow> entry_index n e = None \<longleftrightarrow> e \<notin> set (entries n)"
  by (auto simp: node_ok_def entry_index_def entries_def find_index_None)

lemma root_delete_ok:
  assumes "avl_order acmp" "kept acmp (i_root ix)"
  shows "\<exists>t. root_delete acmp v e ix = Some (ix\<lparr>i_root := t, i_count := i_count ix - int (nodes (i_root ix)) + int (nodes t)\<rparr>,
      e \<in> hits acmp v (i_root ix)) \<and> kept acmp t \<and> (\<forall>w. hits acmp w t = hits acmp w (i_root ix) - only (acmp w v = 0) e)"
proof -
  have vi: "value_index acmp" using assms(1) by (simp add: value_index_def)
  let ?t = "i_root ix"
  show ?thesis
  proof (cases "avl_find (indexav_cmp acmp) v ?t")
    case None
    then have "e \<notin> hits acmp v ?t" by (simp add: hits_def)
    with None value_index.not_recorded [OF vi] assms(2) show ?thesis
      by (intro exI [of _ ?t]) (auto simp: root_delete_def)
  next
    case (Some n)
    then have n: "node_ok n" using value_index.found_in [OF vi] assms(2) by (fastforce simp: kept_def list_all_iff)
    have h: "e \<in> hits acmp v ?t \<longleftrightarrow> e \<in> set (entries n)" using Some by (simp add: hits_def)
    show ?thesis
    proof (cases "entry_index n e")
      case None
      with entry_index_iff [OF n] h have "e \<notin> hits acmp v ?t" by simp
      with Some None value_index.not_recorded [OF vi] assms(2) show ?thesis
        by (intro exI [of _ ?t]) (auto simp: root_delete_def)
    next
      case j: (Some j)
      then have "e \<in> set (entries n)" using entry_index_iff [OF n] by (metis option.distinct(1))
      note out = value_index.index_take_out [OF vi assms(2) Some j]
      show ?thesis
      proof (cases "in_num n = 1")
        case True
        from out(1) [OF this] obtain t' where
          "avl_delete (indexav_cmp acmp) v ?t = Some (Some n, t')" "kept acmp t'" "nodes ?t = nodes t' + 1"
          "\<forall>w. hits acmp w t' = hits acmp w ?t - only (acmp w v = 0) e" by blast
        with True Some j h \<open>e \<in> set (entries n)\<close> show ?thesis
          by (intro exI [of _ t']) (simp add: root_delete_def)
      next
        case False
        with Some j h \<open>e \<in> set (entries n)\<close> out show ?thesis
          by (intro exI [of _ "avl_update (indexav_cmp acmp) v (\<lambda>n. take_out n j) ?t"]) (simp add: root_delete_def)
      qed
    qed
  qed
qed

text \<open>The deletion of a code is the deletion of a value on the soundex tree, without the count.\<close>

lemma sroot_delete_ok:
  assumes "kept strcmp (i_sroot ix)"
  shows "\<exists>t. sroot_delete k e ix = Some (ix\<lparr>i_sroot := t\<rparr>) \<and> kept strcmp t
    \<and> (\<forall>c. hits strcmp c t = hits strcmp c (i_sroot ix) - only (c = k) e)"
proof -
  let ?ix = "\<lparr>i_attr = (), i_count = 0, i_rcount = 0, i_scount = 0, i_root = i_sroot ix, i_rroot = NULLAVL, i_sroot = NULLAVL,
    i_nonleafkids = None, i_nonlocalaliases = None\<rparr>"
  have same: "sroot_delete k e ix = map_option (\<lambda>(ix', _). ix\<lparr>i_sroot := i_root ix'\<rparr>) (root_delete strcmp k e ?ix)"
    by (auto simp: root_delete_def sroot_delete_def index_soundex_cmp_eq split: option.splits)
  from root_delete_ok [OF strcmp_order, of ?ix k e] assms show ?thesis by (auto simp: same strcmp_eq)
qed

lemma sroot_deletes_ok:
  "kept strcmp (i_sroot ix) \<Longrightarrow> \<exists>t. sroot_deletes ks e ix = Some (ix\<lparr>i_sroot := t\<rparr>) \<and> kept strcmp t
    \<and> (\<forall>c. hits strcmp c t = hits strcmp c (i_sroot ix) - only (c \<in> set ks) e)"
proof (induction ks arbitrary: ix)
  case Nil
  then show ?case by (intro exI [of _ "i_sroot ix"]) simp
next
  case (Cons k ks)
  from sroot_delete_ok [OF Cons.prems, of k e] obtain t1 where
    1: "sroot_delete k e ix = Some (ix\<lparr>i_sroot := t1\<rparr>)" "kept strcmp t1"
      "\<forall>c. hits strcmp c t1 = hits strcmp c (i_sroot ix) - only (c = k) e" by blast
  from Cons.IH [of "ix\<lparr>i_sroot := t1\<rparr>"] 1 show ?case by auto
qed

lemma hits_empty: "hits acmp w NULLAVL = {}"
  by (simp add: hits_def)

text \<open>
  All the values of an attribute go out of the tree of values, and the codes of the recorded ones out of
  the soundex tree. The values are pairwise different, as those of an attribute are.
\<close>

lemma delete_values_ok:
  assumes "avl_order (vcmp syn)"
  shows "kept (vcmp syn) (i_root ix) \<Longrightarrow> kept strcmp (i_sroot ix) \<Longrightarrow> sorted_wrt (\<lambda>u v. vcmp syn u v \<noteq> 0) vs \<Longrightarrow>
    \<exists>t s. delete_values syn ix e vs =
        Some (ix\<lparr>i_root := t, i_count := i_count ix - int (nodes (i_root ix)) + int (nodes t), i_sroot := s\<rparr>)
      \<and> kept (vcmp syn) t \<and> kept strcmp s
      \<and> (\<forall>w. hits (vcmp syn) w t = hits (vcmp syn) w (i_root ix) - only (\<exists>v \<in> set vs. vcmp syn w v = 0) e)
      \<and> (\<forall>c. hits strcmp c s = hits strcmp c (i_sroot ix) -
           only (\<exists>v \<in> set vs. e \<in> hits (vcmp syn) v (i_root ix) \<and> c \<in> set (word_codes syn v)) e)"
proof (induction vs arbitrary: ix)
  case Nil
  then show ?case by (intro exI [of _ "i_root ix"] exI [of _ "i_sroot ix"]) simp
next
  case (Cons v vs)
  let ?R = "hits (vcmp syn)" and ?S = "hits strcmp" and ?b = "e \<in> hits (vcmp syn) v (i_root ix)"
  from root_delete_ok [OF assms Cons.prems(1), of v e] obtain t1 where
    1: "root_delete (vcmp syn) v e ix =
         Some (ix\<lparr>i_root := t1, i_count := i_count ix - int (nodes (i_root ix)) + int (nodes t1)\<rparr>, ?b)"
      "kept (vcmp syn) t1" "\<forall>w. ?R w t1 = ?R w (i_root ix) - only (vcmp syn w v = 0) e" by blast
  let ?ix1 = "ix\<lparr>i_root := t1, i_count := i_count ix - int (nodes (i_root ix)) + int (nodes t1)\<rparr>"
  obtain s1 where
    2: "(if ?b \<and> i_sroot ?ix1 \<noteq> NULLAVL then sroot_deletes (word_codes syn v) e ?ix1 else Some ?ix1) = Some (?ix1\<lparr>i_sroot := s1\<rparr>)"
      "kept strcmp s1" "\<forall>c. ?S c s1 = ?S c (i_sroot ix) - only (?b \<and> c \<in> set (word_codes syn v)) e"
  proof (cases "?b \<and> i_sroot ?ix1 \<noteq> NULLAVL")
    case True
    then show ?thesis using that sroot_deletes_ok [of ?ix1 "word_codes syn v" e] Cons.prems(2) by auto
  next
    case False
    then show ?thesis using that [of "i_sroot ix"] Cons.prems(2) by (auto simp: hits_empty)
  qed
  have v: "\<forall>u \<in> set vs. ?R u t1 = ?R u (i_root ix)"
  proof
    fix u assume "u \<in> set vs"
    then have "vcmp syn v u \<noteq> 0" using Cons.prems(3) by simp
    then have "vcmp syn u v \<noteq> 0" using avl_order.zero_swap [OF assms] by blast
    with 1(3) show "?R u t1 = ?R u (i_root ix)" by simp
  qed
  from Cons.IH [of "?ix1\<lparr>i_sroot := s1\<rparr>"] 1(2) 2(2) Cons.prems(3) obtain t s where
    3: "delete_values syn (?ix1\<lparr>i_sroot := s1\<rparr>) e vs =
        Some (?ix1\<lparr>i_sroot := s1, i_root := t, i_count := i_count ?ix1 - int (nodes t1) + int (nodes t), i_sroot := s\<rparr>)"
      "kept (vcmp syn) t" "kept strcmp s"
      "\<forall>w. ?R w t = ?R w t1 - only (\<exists>v \<in> set vs. vcmp syn w v = 0) e"
      "\<forall>c. ?S c s = ?S c s1 - only (\<exists>v \<in> set vs. e \<in> ?R v t1 \<and> c \<in> set (word_codes syn v)) e"
    by auto
  have "delete_values syn ix e (v # vs) =
      Some (ix\<lparr>i_root := t, i_count := i_count ix - int (nodes (i_root ix)) + int (nodes t), i_sroot := s\<rparr>)"
    using 1(1) 2(1) 3(1) by (simp del: if_split_asm split del: if_split)
  moreover have "?R w t = ?R w (i_root ix) - only (\<exists>u \<in> set (v # vs). vcmp syn w u = 0) e" for w
    using 1(3) 3(4) by simp
  moreover have "?S c s = ?S c (i_sroot ix) - only (\<exists>u \<in> set (v # vs). e \<in> ?R u (i_root ix) \<and> c \<in> set (word_codes syn u)) e" for c
    using 2(3) 3(5) v by simp
  ultimately show ?case using 3(2,3) by blast
qed

section \<open>The array of indexes\<close>

lemma find_attr_less: "find_attr tcmp ixs attr = Some i \<Longrightarrow> i < length ixs"
  by (induction ixs arbitrary: i) (auto split: if_splits)

lemma new_index_inv: "ix \<in> set (new_index ts) \<Longrightarrow> index_inv syn ix"
  by (auto simp: new_index_def index_inv_def index_ok_def ordered_def)

definition words_syntax :: "byte list attr_syntax" where
  "words_syntax = \<lparr>vcmp = strcmp, substr = True, vrev = strrev, approx_soundex = True, word_codes = (\<lambda>v. [take 1 v])\<rparr>"

lemma words_syntax_simps [simp]: "vcmp words_syntax = strcmp" "substr words_syntax" "vrev words_syntax = strrev"
  "approx_soundex words_syntax" "word_codes words_syntax = (\<lambda>v. [take 1 v])"
  by (simp_all add: words_syntax_def)

text \<open>
  C34: \<^verbatim>\<open>turbo_attr_insert\<close> on an array of well-formed indexes returns; it changes the index of the attribute
  only and keeps it well formed, its counts included. Afterwards the entry is recorded under exactly
  the given values in the tree of values, under their reverses in the reverse tree when the syntax
  allows substrings, and under the codes of their words when it matches by soundex; all other records
  are as before. An attribute without an index changes nothing.
\<close>

theorem turbo_attr_insert_records:
  assumes "avl_order (vcmp (oa attr))" "\<forall>ix \<in> set pindex. index_inv (oa attr) ix"
  shows "\<exists>pindex'. turbo_attr_insert tcmp oa pindex e attr vs = Some pindex'
    \<and> length pindex' = length pindex \<and> (\<forall>ix \<in> set pindex'. index_inv (oa attr) ix)
    \<and> (\<forall>i < length pindex. \<forall>w r c.
         recorded (oa attr) (pindex' ! i) w r c =
           (if find_attr tcmp pindex attr = Some i
            then (case recorded (oa attr) (pindex ! i) w r c of (A, B, C) \<Rightarrow>
              (A \<union> only (\<exists>v \<in> set vs. vcmp (oa attr) w v = 0) e,
               B \<union> only (substr (oa attr) \<and> (\<exists>v \<in> set vs. vcmp (oa attr) r (vrev (oa attr) v) = 0)) e,
               C \<union> only (approx_soundex (oa attr) \<and> (\<exists>v \<in> set vs. c \<in> set (word_codes (oa attr) v))) e))
            else recorded (oa attr) (pindex ! i) w r c))"
proof (cases "find_attr tcmp pindex attr")
  case None
  then show ?thesis using assms by (simp add: turbo_attr_insert_def)
next
  case (Some i)
  note i = find_attr_less [OF Some]
  then have "index_inv (oa attr) (pindex ! i)" using assms(2) by simp
  from insert_values_ok [OF assms(1) this, of e vs] obtain ix' where
    ix': "insert_values (oa attr) (pindex ! i) e vs = Some ix'" "index_inv (oa attr) ix'"
      "\<forall>w r c. recorded (oa attr) ix' w r c = (case recorded (oa attr) (pindex ! i) w r c of (A, B, C) \<Rightarrow>
         (A \<union> only (\<exists>v \<in> set vs. vcmp (oa attr) w v = 0) e,
          B \<union> only (substr (oa attr) \<and> (\<exists>v \<in> set vs. vcmp (oa attr) r (vrev (oa attr) v) = 0)) e,
          C \<union> only (approx_soundex (oa attr) \<and> (\<exists>v \<in> set vs. c \<in> set (word_codes (oa attr) v))) e))" by blast
  have "\<forall>ix \<in> set (pindex[i := ix']). index_inv (oa attr) ix"
    using assms(2) ix'(2) set_update_subset_insert [of pindex i ix'] by auto
  with Some i ix' show ?thesis by (auto simp: turbo_attr_insert_def nth_list_update)
qed

theorem turbo_attr_insert_records_witness:
  "\<exists>p. turbo_attr_insert (\<lambda>a b. a - b) (\<lambda>_. words_syntax) (new_index [1 :: int, 2]) 7 2 [[97, 98], [99]] = Some p
     \<and> recorded words_syntax (p ! 1) [99] [98, 97] [97] = ({7}, {7}, {7})
     \<and> recorded words_syntax (p ! 0) [99] [98, 97] [97] = ({}, {}, {})"
proof -
  have f: "find_attr (\<lambda>a b. a - b) (new_index [1 :: int, 2] :: (int, byte list) Index list) 2 = Some 1"
    by (simp add: new_index_def)
  have z: "recorded words_syntax ((new_index [1 :: int, 2] :: (int, byte list) Index list) ! i) w r c = ({}, {}, {})" if "i < 2" for i w r c
    using that by (auto simp: new_index_def recorded_def hits_empty less_Suc_eq numeral_2_eq_2)
  have l: "length (new_index [1 :: int, 2] :: (int, byte list) Index list) = 2" by (simp add: new_index_def)
  from turbo_attr_insert_records [of "\<lambda>_. words_syntax" 2 "new_index [1, 2]" "\<lambda>a b. a - b" 7 "[[97, 98], [99]]"]
  obtain p where p: "turbo_attr_insert (\<lambda>a b. a - b) (\<lambda>_. words_syntax) (new_index [1 :: int, 2]) 7 2 [[97, 98], [99]] = Some p"
    "\<forall>i < 2. \<forall>w r c. recorded words_syntax (p ! i) w r c =
       (if Some 1 = Some i then
          (only (\<exists>v \<in> set [[97, 98], [99]]. strcmp w v = 0) 7,
           only (\<exists>v \<in> set [[97, 98], [99]]. strcmp r (strrev v) = 0) 7,
           only (\<exists>v \<in> set [[97, 98], [99]]. c \<in> set [take 1 v]) 7)
        else ({}, {}, {}))"
    using strcmp_order new_index_inv [of _ "[1 :: int, 2]" words_syntax] unfolding f l by (auto simp: z cong: conj_cong)
  show ?thesis using p(1) p(2) [rule_format, of 1] p(2) [rule_format, of 0] by (simp add: strrev_def)
qed


definition after_insert :: "(int, byte list) Index" where
  "after_insert = \<lparr>i_attr = 2, i_count = 1, i_rcount = 1, i_scount = 1,
     i_root = Avlnode (new_node [97, 98] 7) EH NULLAVL NULLAVL, i_rroot = Avlnode (new_node [98, 97] 7) EH NULLAVL NULLAVL,
     i_sroot = Avlnode (new_node [97] 7) EH NULLAVL NULLAVL, i_nonleafkids = None, i_nonlocalaliases = None\<rparr>"

lemma after_insert_is:
  "turbo_attr_insert (\<lambda>a b. a - b) (\<lambda>_. words_syntax) (new_index [2]) 7 2 [[97, 98]] = Some [after_insert]"
  by (simp add: turbo_attr_insert_def new_index_def words_syntax_def after_insert_def root_insert_def rroot_insert_def
    sroot_insert_def avl_insert_def strrev_def AVL_OK_def)


text \<open>
  Deleting what was inserted does not undo the insertion: the reverse tree of the index is as it
  was, so a substring search still reaches the deleted entry, and the count of codes is one too high.
\<close>

theorem turbo_attr_delete_leaves_reverse:
  "\<exists>ix'. turbo_attr_delete (\<lambda>a b. a - b) (\<lambda>_. words_syntax) [after_insert] 7 2 [[97, 98]] = Some [ix']
     \<and> hits strcmp [97, 98] (i_root ix') = {} \<and> hits strcmp [98, 97] (i_rroot ix') = {7}
     \<and> i_sroot ix' = NULLAVL \<and> i_scount ix' = 1"
  by (simp add: turbo_attr_delete_def after_insert_def words_syntax_def root_delete_def sroot_delete_def indexav_cmp_def
    index_soundex_cmp_def new_node_def entry_index_def avl_delete_def ravl_delete.simps hits_def entries_def)

text \<open>
  C36: Adding an entry to a node, searched for by bisection when there are more than twenty and from the
  front otherwise, keeps the entries sorted and free of repetitions and adds exactly the new one; the
  block is never overrun while \<^verbatim>\<open>in_max\<close> is its size.
\<close>

theorem index_dup_inserts:
  assumes "block_ok node" "in_entries dup = Some [x]"
  shows "block_ok (fst (index_dup node dup)) \<and> sorted_wrt (<) (entries (fst (index_dup node dup)))
    \<and> set (entries (fst (index_dup node dup))) = insert x (set (entries node))
    \<and> in_value (fst (index_dup node dup)) = in_value node \<and> snd (index_dup node dup) = AVL_NOTOK"
  using index_dup_ok [OF assms] index_dup_rc [of node dup] by (auto simp: block_ok_def node_ok_def)

theorem index_dup_inserts_witness:
  "set (entries (fst (index_dup \<lparr>in_value = (), in_entries = Some [2, 5, 0, 0], in_num = 2, in_max = 4\<rparr> (new_node () 3)))) = {2, 3, 5}"
  using index_dup_inserts [of "\<lparr>in_value = (), in_entries = Some [2, 5, 0, 0], in_num = 2, in_max = 4\<rparr>" "new_node () 3" 3]
  by (auto simp: block_ok_def node_ok_def entries_def new_node_def)

text \<open>
  C37: A deletion shrinks the block of a node to its entries and leaves \<^verbatim>\<open>in_max\<close> at the old size: the
  next insertion of a new entry under the value stores past the end of the block.
\<close>

theorem index_dup_after_take_out_overruns:
  assumes "block_ok node" "entry_index node e = Some j" "1 < in_num node"
    "x \<notin> set (entries node)"
  shows "in_entries (fst (index_dup (take_out node j) (new_node v x))) = None"
proof -
  have n: "node_ok node" using assms(1) by (simp add: block_ok_def)
  note out = take_out_ok [OF n assms(2)]
  let ?m = "take_out node j"
  have m: "in_num ?m = in_num node - 1" "in_max ?m = in_max node" by (simp_all add: take_out_def)
  obtain es where es: "in_entries ?m = Some es" "0 \<le> in_num ?m" "in_num ?m \<le> int (length es)"
    "sorted_wrt (<) (take (nat (in_num ?m)) es)"
    using out(1) by (auto simp: node_ok_def entries_def)
  have len: "int (length es) \<le> in_num ?m"
  proof -
    have "length es \<le> nat (in_num node - 1)" using es(1) by (cases "in_entries node") (auto simp: take_out_def simp del: take_append)
    then show ?thesis using m assms(3) by simp
  qed
  have "x \<notin> set (take (nat (in_num ?m)) es)" using out(3) assms(4) es(1) by (auto simp: entries_def)
  then obtain mid where "entry_slot es (in_num ?m) x = Some mid"
    using entry_slot_spec [OF es(4,3,2), of x] by (cases "entry_slot es (in_num ?m) x") auto
  moreover have "grow_block es (in_num ?m) (in_max ?m) = (es, in_max ?m)"
    using m assms(1) by (auto simp: grow_block_def block_ok_def node_ok_def)
  moreover have "shift_in es (in_num ?m) mid x = None" using len by (simp add: shift_in_def)
  ultimately show ?thesis using es(1) by (simp add: index_dup_def new_node_def)
qed

theorem index_dup_after_take_out_overruns_witness:
  "in_entries (fst (index_dup (take_out \<lparr>in_value = (), in_entries = Some [2, 5], in_num = 2, in_max = 2\<rparr> 0) (new_node () 3))) = None"
  by (rule index_dup_after_take_out_overruns [of _ 2])
     (auto simp: block_ok_def node_ok_def entries_def entry_index_def)

text \<open>
  \<^verbatim>\<open>th_prefix\<close> decides how two names lie to each other as its comment promises, when components are
  compared exactly.
\<close>

theorem th_prefix_decides:
  "(th_prefix (=) a b = 0 \<longleftrightarrow> a = b)
   \<and> (th_prefix (=) a b = -2 \<longleftrightarrow> (\<exists>c. b = a @ [c]))
   \<and> (th_prefix (=) a b = -1 \<longleftrightarrow> (\<exists>cs. length cs > 1 \<and> b = a @ cs))
   \<and> (th_prefix (=) a b = 1 \<longleftrightarrow> (\<exists>cs. cs \<noteq> [] \<and> a = b @ cs))
   \<and> th_prefix (=) a b \<in> {-2, -1, 0, 1, 2}"
proof (induction "(=) :: 'a \<Rightarrow> 'a \<Rightarrow> bool" a b rule: th_prefix.induct)
  case (3 b bs)
  then show ?case by (cases bs) auto
qed auto

text \<open>The arrays of non-leaf children and of foreign aliases are sets: adding is idempotent and deleting undoes it.\<close>

theorem nonleafkid_add_delete:
  assumes "i_nonleafkids ix = Some es" "e \<notin> set es" "int (length es) + 2 \<le> 2147483647"
  shows "add_nonleafkid e (add_nonleafkid e ix) = add_nonleafkid e ix
    \<and> i_nonleafkids (add_nonleafkid e ix) = Some (es @ [e])
    \<and> delete_nonleafkid e (add_nonleafkid e ix) = ix"
proof -
  have "delete_first e (es @ [e]) = es" using assms(2) by (induction es) auto
  then show ?thesis using assms by (simp add: add_nonleafkid_def delete_nonleafkid_def add_entry_def)
qed

theorem nonleafkid_add_delete_witness:
  "delete_nonleafkid 4 (add_nonleafkid 4 (after_insert\<lparr>i_nonleafkids := Some [3]\<rparr>)) = after_insert\<lparr>i_nonleafkids := Some [3]\<rparr>"
  using nonleafkid_add_delete [of "after_insert\<lparr>i_nonleafkids := Some [3]\<rparr>" "[3]" 4] by simp

end
