(* ===== verification/Spdu.thy ===== *)
theory Spdu
  imports Isode_Prelude
begin

text \<open>
  The session protocol data units and their writer (\<^verbatim>\<open>h/spkt.h\<close> and the first half of
  \<^verbatim>\<open>ssap/tsdu2spkt.c\<close>): the packet structure, the tables of the parameters, the growing buffer
  \<^verbatim>\<open>local_buf\<close> with its memory, and \<^verbatim>\<open>spkt2tsdu\<close>.

  Arms of the union \<^verbatim>\<open>s_un\<close> that hold the same parameter share a field of the record: an SPDU has one
  code, and only the arm of that code is looked at. An array with its length is a list. The mask
  \<^verbatim>\<open>s_mask\<close> is the set of its bits. Blocks whose size depends on the data are there when \<open>mem\<close> says so; the
  fixed-size ones are always there.
\<close>

section \<open>Packets\<close>

abbreviation (input) SPDU_CN :: byte where "SPDU_CN \<equiv> 0x0d"
abbreviation (input) SPDU_AC :: byte where "SPDU_AC \<equiv> 0x0e"
abbreviation (input) SPDU_RF :: byte where "SPDU_RF \<equiv> 0x0c"
abbreviation (input) SPDU_FN :: byte where "SPDU_FN \<equiv> 0x09"
abbreviation (input) SPDU_DN :: byte where "SPDU_DN \<equiv> 0x0a"
abbreviation (input) SPDU_NF :: byte where "SPDU_NF \<equiv> 0x08"
abbreviation (input) SPDU_AB :: byte where "SPDU_AB \<equiv> 0x19"
abbreviation (input) SPDU_AA :: byte where "SPDU_AA \<equiv> 0x1a"
abbreviation (input) SPDU_EX :: byte where "SPDU_EX \<equiv> 0x05"
abbreviation (input) SPDU_TD :: byte where "SPDU_TD \<equiv> 0x21"
abbreviation (input) SPDU_CD :: byte where "SPDU_CD \<equiv> 0x3d"
abbreviation (input) SPDU_CDA :: byte where "SPDU_CDA \<equiv> 0x3e"
abbreviation (input) SPDU_GT :: byte where "SPDU_GT \<equiv> 0x01"
abbreviation (input) SPDU_PT :: byte where "SPDU_PT \<equiv> 0x02"
abbreviation (input) SPDU_GTC :: byte where "SPDU_GTC \<equiv> 0x15"
abbreviation (input) SPDU_GTA :: byte where "SPDU_GTA \<equiv> 0x16"
abbreviation (input) SPDU_MIP :: byte where "SPDU_MIP \<equiv> 0x31"
abbreviation (input) SPDU_MIA :: byte where "SPDU_MIA \<equiv> 0x32"
abbreviation (input) SPDU_MAP :: byte where "SPDU_MAP \<equiv> 0x29"
abbreviation (input) SPDU_MAA :: byte where "SPDU_MAA \<equiv> 0x2a"
abbreviation (input) SPDU_RS :: byte where "SPDU_RS \<equiv> 0x35"
abbreviation (input) SPDU_RA :: byte where "SPDU_RA \<equiv> 0x22"
abbreviation (input) SPDU_PR :: byte where "SPDU_PR \<equiv> 0x07"
abbreviation (input) SPDU_ER :: byte where "SPDU_ER \<equiv> 0x00"
abbreviation (input) SPDU_ED :: byte where "SPDU_ED \<equiv> 0x30"
abbreviation (input) SPDU_AS :: byte where "SPDU_AS \<equiv> 0x2d"
abbreviation (input) SPDU_AR :: byte where "SPDU_AR \<equiv> 0x1d"
abbreviation (input) SPDU_AD :: byte where "SPDU_AD \<equiv> 0x39"
abbreviation (input) SPDU_ADA :: byte where "SPDU_ADA \<equiv> 0x3a"

text \<open>The bits of \<^verbatim>\<open>s_mask\<close>, which the codes share.\<close>

abbreviation (input) SMASK_CN_REF :: nat where "SMASK_CN_REF \<equiv> 0"
abbreviation (input) SMASK_CN_OPT :: nat where "SMASK_CN_OPT \<equiv> 1"
abbreviation (input) SMASK_CN_TSDU :: nat where "SMASK_CN_TSDU \<equiv> 2"
abbreviation (input) SMASK_CN_VRSN :: nat where "SMASK_CN_VRSN \<equiv> 3"
abbreviation (input) SMASK_CN_ISN :: nat where "SMASK_CN_ISN \<equiv> 4"
abbreviation (input) SMASK_CN_SET :: nat where "SMASK_CN_SET \<equiv> 5"
abbreviation (input) SMASK_AC_TOKEN :: nat where "SMASK_AC_TOKEN \<equiv> 6"
abbreviation (input) SMASK_CN_REQ :: nat where "SMASK_CN_REQ \<equiv> 7"
abbreviation (input) SMASK_CN_CALLING :: nat where "SMASK_CN_CALLING \<equiv> 8"
abbreviation (input) SMASK_CN_CALLED :: nat where "SMASK_CN_CALLED \<equiv> 9"
abbreviation (input) SMASK_RF_REF :: nat where "SMASK_RF_REF \<equiv> 0"
abbreviation (input) SMASK_RF_DISC :: nat where "SMASK_RF_DISC \<equiv> 1"
abbreviation (input) SMASK_RF_REQ :: nat where "SMASK_RF_REQ \<equiv> 2"
abbreviation (input) SMASK_RF_VRSN :: nat where "SMASK_RF_VRSN \<equiv> 3"
abbreviation (input) SMASK_FN_DISC :: nat where "SMASK_FN_DISC \<equiv> 0"
abbreviation (input) SMASK_AB_DISC :: nat where "SMASK_AB_DISC \<equiv> 0"
abbreviation (input) SMASK_AB_REFL :: nat where "SMASK_AB_REFL \<equiv> 1"
abbreviation (input) SMASK_SPDU_AB :: nat where "SMASK_SPDU_AB \<equiv> 2"
abbreviation (input) SMASK_SPDU_AA :: nat where "SMASK_SPDU_AA \<equiv> 0"
abbreviation (input) SMASK_GT_TOKEN :: nat where "SMASK_GT_TOKEN \<equiv> 0"
abbreviation (input) SMASK_SPDU_GT :: nat where "SMASK_SPDU_GT \<equiv> 1"
abbreviation (input) SMASK_PT_TOKEN :: nat where "SMASK_PT_TOKEN \<equiv> 0"
abbreviation (input) SMASK_MIP_SYNC :: nat where "SMASK_MIP_SYNC \<equiv> 0"
abbreviation (input) SMASK_MIP_SERIAL :: nat where "SMASK_MIP_SERIAL \<equiv> 1"
abbreviation (input) SMASK_MIA_SERIAL :: nat where "SMASK_MIA_SERIAL \<equiv> 0"
abbreviation (input) SMASK_MAP_SYNC :: nat where "SMASK_MAP_SYNC \<equiv> 0"
abbreviation (input) SMASK_MAP_SERIAL :: nat where "SMASK_MAP_SERIAL \<equiv> 1"
abbreviation (input) SMASK_MAA_SERIAL :: nat where "SMASK_MAA_SERIAL \<equiv> 0"
abbreviation (input) SMASK_RS_SET :: nat where "SMASK_RS_SET \<equiv> 0"
abbreviation (input) SMASK_RS_TYPE :: nat where "SMASK_RS_TYPE \<equiv> 1"
abbreviation (input) SMASK_RS_SSN :: nat where "SMASK_RS_SSN \<equiv> 2"
abbreviation (input) SMASK_RA_SET :: nat where "SMASK_RA_SET \<equiv> 0"
abbreviation (input) SMASK_RA_SSN :: nat where "SMASK_RA_SSN \<equiv> 1"
abbreviation (input) SMASK_PR_TYPE :: nat where "SMASK_PR_TYPE \<equiv> 0"
abbreviation (input) SMASK_ED_REASON :: nat where "SMASK_ED_REASON \<equiv> 0"
abbreviation (input) SMASK_AS_ID :: nat where "SMASK_AS_ID \<equiv> 0"
abbreviation (input) SMASK_AR_REF :: nat where "SMASK_AR_REF \<equiv> 0"
abbreviation (input) SMASK_AR_OID :: nat where "SMASK_AR_OID \<equiv> 1"
abbreviation (input) SMASK_AR_SSN :: nat where "SMASK_AR_SSN \<equiv> 2"
abbreviation (input) SMASK_AR_ID :: nat where "SMASK_AR_ID \<equiv> 3"
abbreviation (input) SMASK_AI_REASON :: nat where "SMASK_AI_REASON \<equiv> 0"
abbreviation (input) SMASK_AD_REASON :: nat where "SMASK_AD_REASON \<equiv> 0"
abbreviation (input) SMASK_ENCLOSE :: nat where "SMASK_ENCLOSE \<equiv> 13"
abbreviation (input) SMASK_UDATA_PGI :: nat where "SMASK_UDATA_PGI \<equiv> 14"

datatype spkt_errno = SC_ACCEPT | SC_CONGEST | SC_PROTOCOL | SC_NONE

text \<open>\<^verbatim>\<open>SC_NONE\<close> is the zero that \<^verbatim>\<open>calloc\<close> leaves in \<^verbatim>\<open>s_errno\<close>.\<close>

record SSAPref =
  sr_udata :: "byte list"
  sr_cdata :: "byte list"
  sr_adata :: "byte list"
  sr_vdata :: "byte list"

record ssapkt =
  s_errno :: spkt_errno
  s_mask :: "nat set"
  s_code :: byte
  s_li :: int
  s_reference :: SSAPref
  s_options :: byte
  s_tsdu_init :: "16 word"
  s_tsdu_resp :: "16 word"
  s_version :: byte
  s_isn :: nat
  s_settings :: byte
  s_token :: byte
  s_require :: "16 word"
  s_calling :: "byte list"
  s_called :: "byte list"
  s_disconnect :: byte
  s_rdata :: "byte list option"
  s_reflect :: "byte list"
  s_sync :: byte
  s_serial :: nat
  s_rs_type :: byte
  s_pr_type :: byte
  s_reason :: byte
  s_id :: "byte list"
  s_ar_oid :: "byte list"
  s_enclose :: byte
  s_udata :: "byte list option"

definition null_ref :: SSAPref where
  "null_ref = \<lparr>sr_udata = [], sr_cdata = [], sr_adata = [], sr_vdata = []\<rparr>"

definition newspkt :: "byte \<Rightarrow> ssapkt" where
  "newspkt code = \<lparr>s_errno = SC_NONE, s_mask = {}, s_code = code, s_li = 0, s_reference = null_ref, s_options = 0,
     s_tsdu_init = 0, s_tsdu_resp = 0, s_version = 0, s_isn = 0, s_settings = 0, s_token = 0, s_require = 0,
     s_calling = [], s_called = [], s_disconnect = 0, s_rdata = None, s_reflect = replicate 9 0, s_sync = 0,
     s_serial = 0, s_rs_type = 0, s_pr_type = 0, s_reason = 0, s_id = [], s_ar_oid = [], s_enclose = 0, s_udata = None\<rparr>"

section \<open>The buffer\<close>

text \<open>
  \<^verbatim>\<open>c_top\<close> is the memory of the block; \<^verbatim>\<open>c_ptr\<close> is an index into it. A result is a buffer to go on with, the
  early exit of a bad serial number, the exit of a missing parameter, or a fault: an access outside of
  the block.
\<close>

record local_buf =
  c_top :: "byte list"
  c_ptr :: nat
  c_pgi :: int
  c_left :: int
  c_li :: int
  c_allocli :: int
  c_len :: int

datatype enc = Enc local_buf | EncBreak local_buf | EncLose | EncFault

definition poke :: "byte list \<Rightarrow> nat \<Rightarrow> byte list \<Rightarrow> byte list option" where
  "poke blk i bs = (if i + length bs \<le> length blk then Some (take i blk @ bs @ drop (i + length bs) blk) else None)"

text \<open>The loop \<^verbatim>\<open>*p2-- = *p1--\<close> that makes room for a longer header, on indexes that may leave the block.\<close>

fun move_up :: "nat \<Rightarrow> int \<Rightarrow> byte list \<Rightarrow> byte list option" where
  "move_up 0 p1 blk = Some blk"
| "move_up (Suc n) p1 blk =
     (if 0 \<le> p1 \<and> p1 + 2 < int (length blk) then move_up n (p1 - 1) (blk[nat (p1 + 2) := blk ! nat p1]) else None)"

text \<open>
  \<^verbatim>\<open>put2spdu\<close> up to the point where it writes: room is taken from what is left, or the block grows.
  \<^verbatim>\<open>realloc\<close> keeps the contents; new octets have none that the code may rely on.
\<close>

definition grow :: "(int \<Rightarrow> bool) \<Rightarrow> int \<Rightarrow> local_buf \<Rightarrow> enc" where
  "grow mem cl0 c =
     (let cl = (if c_allocli c < 255 then cl0 + 2 else cl0);
          len = c_len c + cl in
      if \<not> mem len then Enc (c\<lparr>c_len := 0\<rparr>)
      else let blk = c_top c @ replicate (nat len - length (c_top c)) 0;
               ptr = len - c_left c;
               c1 = c\<lparr>c_len := len, c_top := blk, c_ptr := nat ptr\<rparr> in
        if c_allocli c < 255
        then (case move_up (nat (len - c_left c + 2)) ptr blk of
                None \<Rightarrow> EncFault
              | Some blk' \<Rightarrow> Enc (c1\<lparr>c_top := blk', c_allocli := c_allocli c + cl, c_pgi := c_pgi c + 2, c_left := c_left c - 2\<rparr>))
        else Enc c1)"

definition li_octets :: "nat \<Rightarrow> byte list" where
  "li_octets n = (if n < 255 then [word_of_nat n]
     else [255, word_of_int (drop_bit 8 (int n) AND 0xff), word_of_int (int n AND 0xff)])"

definition put2spdu :: "(int \<Rightarrow> bool) \<Rightarrow> byte \<Rightarrow> byte list \<Rightarrow> local_buf \<Rightarrow> enc" where
  "put2spdu mem code value c =
     (if c_len c = 0 then Enc c
      else let li = length value;
               cl = int li + (if li < 255 then 2 else 4) in
        case (if c_left c \<ge> cl then Enc (c\<lparr>c_left := c_left c - cl\<rparr>) else grow mem cl c) of
          Enc c1 \<Rightarrow>
            if c_len c1 = 0 then Enc c1
            else (case poke (c_top c1) (c_ptr c1) (code # li_octets li @ value) of
                    None \<Rightarrow> EncFault
                  | Some blk \<Rightarrow> Enc (c1\<lparr>c_top := blk, c_ptr := c_ptr c1 + nat cl, c_li := c_li c1 + cl\<rparr>))
        | r \<Rightarrow> r)"

definition start_pgi :: "(int \<Rightarrow> bool) \<Rightarrow> byte \<Rightarrow> local_buf \<Rightarrow> enc" where
  "start_pgi mem code c =
     (case put2spdu mem code [] c of
        Enc c1 \<Rightarrow> Enc (if c_len c1 \<noteq> 0 then c1\<lparr>c_pgi := int (c_ptr c1) - 1\<rparr> else c1)
      | r \<Rightarrow> r)"

definition end_pgi :: "local_buf \<Rightarrow> enc" where
  "end_pgi c =
     (if c_len c = 0 then Enc c
      else case int2u8 ((c_len c - c_left c) - (c_pgi c + 1)) of
        None \<Rightarrow> Enc (c\<lparr>c_len := 0\<rparr>)
      | Some v \<Rightarrow> (case poke (c_top c) (nat (c_pgi c)) [v] of None \<Rightarrow> EncFault | Some blk \<Rightarrow> Enc (c\<lparr>c_top := blk\<rparr>)))"

section \<open>The parameters of each SPDU\<close>

text \<open>
  The calls that \<^verbatim>\<open>spkt2tsdu\<close> makes for a packet, in their order: a parameter, a group of parameters, the
  exits of the macros.
\<close>

datatype param = PI byte "byte list" | PGI byte "param list" | Break | Lose

definition be16 :: "16 word \<Rightarrow> byte list" where
  "be16 w = [ucast (drop_bit 8 w), ucast w]"

definition be32 :: "32 word \<Rightarrow> byte list" where
  "be32 w = [ucast (drop_bit 24 w), ucast (drop_bit 16 w), ucast (drop_bit 8 w), ucast w]"

text \<open>\<^verbatim>\<open>sprintf (isn, "%lu", ssn)\<close>.\<close>

fun decimal :: "nat \<Rightarrow> byte list" where
  "decimal n = (if n < 10 then [word_of_nat (48 + n)] else decimal (n div 10) @ [word_of_nat (48 + n mod 10)])"

declare decimal.simps [simp del]

definition SERIAL_MAX :: nat where "SERIAL_MAX = 999998"

definition Put_SSN :: "byte \<Rightarrow> nat \<Rightarrow> param list" where
  "Put_SSN code ssn = (if ssn > SERIAL_MAX + 1 then [Lose] else [PI code (decimal ssn)])"

definition If_Set :: "bool \<Rightarrow> param list \<Rightarrow> param list" where
  "If_Set b ps = (if b then ps else [])"

definition Put_Ref :: "SSAPref \<Rightarrow> byte \<Rightarrow> param list" where
  "Put_Ref r code = [PGI 1
     (If_Set (sr_udata r \<noteq> []) [PI code (sr_udata r)]
      @ If_Set (sr_cdata r \<noteq> []) [PI 11 (sr_cdata r)]
      @ If_Set (sr_adata r \<noteq> []) [PI 12 (sr_adata r)])]"

definition Put_UData :: "ssapkt \<Rightarrow> param list" where
  "Put_UData s = (case s_udata s of None \<Rightarrow> [] | Some d \<Rightarrow> [PI 193 d])"

definition Put_XData :: "ssapkt \<Rightarrow> param list" where
  "Put_XData s = (case s_udata s of None \<Rightarrow> [] | Some d \<Rightarrow> [PI (if length d > 512 then 194 else 193) d])"

definition Put_MData :: "ssapkt \<Rightarrow> param list" where
  "Put_MData s = (case s_udata s of None \<Rightarrow> [] | Some d \<Rightarrow> [PI 46 d])"

definition Put_Enclose :: "ssapkt \<Rightarrow> param list" where
  "Put_Enclose s = If_Set (SMASK_ENCLOSE \<in> s_mask s) [PI 25 [s_enclose s]]"

definition cn_items :: "ssapkt \<Rightarrow> param list" where
  "cn_items s =
     If_Set ({SMASK_CN_OPT, SMASK_CN_TSDU, SMASK_CN_VRSN, SMASK_CN_ISN, SMASK_CN_SET} \<inter> s_mask s \<noteq> {})
       [PGI 5
         (If_Set (SMASK_CN_OPT \<in> s_mask s) [PI 19 [s_options s]]
          @ If_Set (SMASK_CN_TSDU \<in> s_mask s)
              [PI 21 (be32 (push_bit 16 (ucast (s_tsdu_init s)) OR ucast (s_tsdu_resp s)))]
          @ If_Set (SMASK_CN_VRSN \<in> s_mask s) [PI 22 [s_version s]]
          @ If_Set (SMASK_CN_ISN \<in> s_mask s) (Put_SSN 23 (s_isn s))
          @ If_Set (SMASK_CN_SET \<in> s_mask s) [PI 26 [s_settings s]])]"

definition cn_addresses :: "ssapkt \<Rightarrow> param list" where
  "cn_addresses s =
     If_Set (SMASK_CN_CALLING \<in> s_mask s) [PI 51 (s_calling s)]
     @ If_Set (SMASK_CN_CALLED \<in> s_mask s) [PI 52 (s_called s)]"

definition params_CN :: "ssapkt \<Rightarrow> param list" where
  "params_CN s =
     If_Set (SMASK_CN_REF \<in> s_mask s) (Put_Ref (s_reference s) 10)
     @ cn_items s
     @ If_Set (SMASK_CN_REQ \<in> s_mask s) [PI 20 (be16 (s_require s))]
     @ cn_addresses s
     @ Put_XData s"

definition params_AC :: "ssapkt \<Rightarrow> param list" where
  "params_AC s =
     If_Set (SMASK_CN_REF \<in> s_mask s) (Put_Ref (s_reference s) 9)
     @ cn_items s
     @ If_Set (SMASK_AC_TOKEN \<in> s_mask s) [PI 16 [s_token s]]
     @ If_Set (SMASK_CN_REQ \<in> s_mask s) [PI 20 (be16 (s_require s))]
     @ cn_addresses s
     @ Put_Enclose s
     @ Put_UData s"

definition params_RF :: "ssapkt \<Rightarrow> param list" where
  "params_RF s =
     If_Set (SMASK_RF_REF \<in> s_mask s) (Put_Ref (s_reference s) 9)
     @ If_Set (SMASK_RF_DISC \<in> s_mask s) [PI 17 [s_disconnect s]]
     @ If_Set (SMASK_RF_REQ \<in> s_mask s) [PI 20 (be16 (s_require s))]
     @ If_Set (SMASK_RF_VRSN \<in> s_mask s) [PI 22 [s_version s]]
     @ (if length (octs (s_rdata s)) > 513 then [Lose]
        else Put_Enclose s @ If_Set (octs (s_rdata s) \<noteq> []) [PI 50 (octs (s_rdata s))])"

definition params_FN :: "ssapkt \<Rightarrow> param list" where
  "params_FN s = If_Set (SMASK_FN_DISC \<in> s_mask s) [PI 17 [s_disconnect s]] @ Put_Enclose s @ Put_UData s"

definition params_AB :: "ssapkt \<Rightarrow> param list" where
  "params_AB s =
     (if SMASK_SPDU_AB \<in> s_mask s
      then (if SMASK_AB_DISC \<notin> s_mask s then [Break]
        else [PI 17 [s_disconnect s]]
          @ If_Set (SMASK_AB_REFL \<in> s_mask s) [PI 49 (s_reflect s)]
          @ Put_Enclose s @ Put_UData s)
      else If_Set (SMASK_AI_REASON \<in> s_mask s) [PI 50 [s_reason s]])"

definition params_GT :: "ssapkt \<Rightarrow> param list" where
  "params_GT s =
     (if SMASK_SPDU_GT \<in> s_mask s then If_Set (SMASK_GT_TOKEN \<in> s_mask s) [PI 16 [s_token s]]
      else Put_Enclose s)"

definition params_PT :: "ssapkt \<Rightarrow> param list" where
  "params_PT s = If_Set (SMASK_PT_TOKEN \<in> s_mask s) [PI 16 [s_token s]] @ Put_Enclose s @ Put_UData s"

definition params_MIP :: "ssapkt \<Rightarrow> param list" where
  "params_MIP s =
     If_Set (SMASK_MIP_SYNC \<in> s_mask s) [PI 15 [s_sync s]]
     @ (if SMASK_MIP_SERIAL \<notin> s_mask s then [Break]
        else Put_SSN 42 (s_serial s) @ Put_Enclose s @ Put_UData s)"

definition params_MAP :: "ssapkt \<Rightarrow> param list" where
  "params_MAP s =
     If_Set (SMASK_MAP_SYNC \<in> s_mask s) [PI 15 [s_sync s]]
     @ (if SMASK_MAP_SERIAL \<notin> s_mask s then [Break]
        else Put_SSN 42 (s_serial s) @ Put_Enclose s @ Put_UData s)"

definition params_MIA :: "ssapkt \<Rightarrow> param list" where
  "params_MIA s =
     (if SMASK_MIA_SERIAL \<notin> s_mask s then [Break]
      else Put_SSN 42 (s_serial s) @ Put_Enclose s @ Put_MData s)"

definition params_MAA :: "ssapkt \<Rightarrow> param list" where
  "params_MAA s =
     (if SMASK_MAA_SERIAL \<notin> s_mask s then [Break]
      else Put_SSN 42 (s_serial s) @ Put_Enclose s @ Put_UData s)"

definition params_RS :: "ssapkt \<Rightarrow> param list" where
  "params_RS s =
     If_Set (SMASK_RS_SET \<in> s_mask s) [PI 26 [s_settings s]]
     @ (if SMASK_RS_TYPE \<notin> s_mask s then [Break]
        else PI 27 [s_rs_type s]
          # (if SMASK_RS_SSN \<notin> s_mask s then [Break]
             else Put_SSN 42 (s_serial s) @ Put_Enclose s @ Put_UData s))"

definition params_RA :: "ssapkt \<Rightarrow> param list" where
  "params_RA s =
     If_Set (SMASK_RA_SET \<in> s_mask s) [PI 26 [s_settings s]]
     @ (if SMASK_RA_SSN \<notin> s_mask s then [Break]
        else Put_SSN 42 (s_serial s) @ Put_Enclose s @ Put_UData s)"

definition params_PR :: "ssapkt \<Rightarrow> param list" where
  "params_PR s = (if SMASK_PR_TYPE \<notin> s_mask s then [Break] else [PI 24 [s_pr_type s]])"

definition params_ED :: "ssapkt \<Rightarrow> param list" where
  "params_ED s = (if SMASK_ED_REASON \<notin> s_mask s then [Break] else PI 50 [s_reason s] # Put_Enclose s @ Put_UData s)"

definition params_AS :: "ssapkt \<Rightarrow> param list" where
  "params_AS s = (if SMASK_AS_ID \<notin> s_mask s then [Break] else PI 41 (s_id s) # Put_Enclose s @ Put_UData s)"

definition ar_link :: "ssapkt \<Rightarrow> param list" where
  "ar_link s =
     If_Set (SMASK_AR_REF \<in> s_mask s)
       (If_Set (sr_vdata (s_reference s) \<noteq> []) [PI 9 (sr_vdata (s_reference s))]
        @ If_Set (sr_udata (s_reference s) \<noteq> []) [PI 10 (sr_udata (s_reference s))]
        @ If_Set (sr_cdata (s_reference s) \<noteq> []) [PI 11 (sr_cdata (s_reference s))]
        @ If_Set (sr_adata (s_reference s) \<noteq> []) [PI 12 (sr_adata (s_reference s))])
     @ (if SMASK_AR_OID \<notin> s_mask s then [Break]
        else PI 41 (s_ar_oid s) # (if SMASK_AR_SSN \<notin> s_mask s then [Break] else Put_SSN 42 (s_serial s)))"

definition params_AR :: "ssapkt \<Rightarrow> param list" where
  "params_AR s =
     [PGI 33 (ar_link s)]
     @ (if SMASK_AR_ID \<notin> s_mask s then [Break] else PI 41 (s_id s) # Put_Enclose s @ Put_UData s)"

definition params_AD :: "ssapkt \<Rightarrow> param list" where
  "params_AD s = If_Set (SMASK_AD_REASON \<in> s_mask s) [PI 50 [s_reason s]]"

definition params_data :: "ssapkt \<Rightarrow> param list" where
  "params_data s = Put_Enclose s @ Put_UData s"

text \<open>
  The switch of \<^verbatim>\<open>spkt2tsdu\<close>: the base size given to \<^verbatim>\<open>start_spdu\<close> and the calls that follow; \<open>None\<close> for the
  codes that it does not write.
\<close>

definition spdu_case :: "ssapkt \<Rightarrow> (int \<times> param list) option" where
  "spdu_case s =
     (if s_code s = SPDU_CN then Some (56, params_CN s)
      else if s_code s = SPDU_AC then Some (62, params_AC s)
      else if s_code s = SPDU_RF then Some (13, params_RF s)
      else if s_code s = SPDU_FN then Some (6, params_FN s)
      else if s_code s = SPDU_DN then Some (3, params_data s)
      else if s_code s = SPDU_NF then Some (3, params_data s)
      else if s_code s = SPDU_AB then Some (if SMASK_SPDU_AB \<in> s_mask s then 17 else 3, params_AB s)
      else if s_code s = SPDU_AA then Some (0, [])
      else if s_code s = SPDU_GT then Some (3, params_GT s)
      else if s_code s = SPDU_TD then Some (3, Put_Enclose s)
      else if s_code s = SPDU_EX then Some (0, [])
      else if s_code s = SPDU_CD then Some (3, params_data s)
      else if s_code s = SPDU_CDA then Some (3, params_data s)
      else if s_code s = SPDU_PT then Some (6, params_PT s)
      else if s_code s = SPDU_GTC then Some (0, [])
      else if s_code s = SPDU_GTA then Some (0, [])
      else if s_code s = SPDU_MIP then Some (14, params_MIP s)
      else if s_code s = SPDU_MAP then Some (if SMASK_MAP_SYNC \<in> s_mask s then 14 else 8, params_MAP s)
      else if s_code s = SPDU_MIA then Some (11, params_MIA s)
      else if s_code s = SPDU_MAA then Some (11, params_MAA s)
      else if s_code s = SPDU_RS then Some (17, params_RS s)
      else if s_code s = SPDU_RA then Some (14, params_RA s)
      else if s_code s = SPDU_PR then Some (3, params_PR s)
      else if s_code s = SPDU_ED then Some (6, params_ED s)
      else if s_code s = SPDU_AS then Some (11, params_AS s)
      else if s_code s = SPDU_AR then Some (29, params_AR s)
      else if s_code s = SPDU_AD then Some (3, params_AD s)
      else if s_code s = SPDU_ADA then Some (0, [])
      else None)"

section \<open>Writing\<close>

definition ref_size :: "byte list \<Rightarrow> int" where
  "ref_size d = (if d \<noteq> [] then 2 + int (length d) else 0)"

definition udata_size :: "byte list \<Rightarrow> int" where
  "udata_size d = int (length d) + (if length d > 254 then 4 else 2)"

text \<open>The size that \<^verbatim>\<open>start_spdu\<close> estimates for the parameters.\<close>

definition spdu_size :: "ssapkt \<Rightarrow> int \<Rightarrow> int" where
  "spdu_size s basesize =
     (let r = s_reference s;
          b1 = basesize + (case s_udata s of None \<Rightarrow> 0 | Some d \<Rightarrow>
                 if s_code s = SPDU_GT \<or> s_code s = SPDU_EX \<or> s_code s = SPDU_TD then 0
                 else if d \<noteq> [] then udata_size d else 0);
          b2 = b1 +
            (if s_code s = SPDU_CN \<or> s_code s = SPDU_AC
             then (if SMASK_CN_REF \<in> s_mask s
                   then 2 + ref_size (sr_udata r) + ref_size (sr_cdata r) + ref_size (sr_adata r) else 0)
               + (if SMASK_CN_CALLING \<in> s_mask s then int (length (s_calling s)) + 2 else 0)
               + (if SMASK_CN_CALLED \<in> s_mask s then int (length (s_called s)) + 2 else 0)
             else if s_code s = SPDU_RF
             then (if SMASK_RF_REF \<in> s_mask s
                   then 2 + ref_size (sr_udata r) + ref_size (sr_cdata r) + ref_size (sr_adata r) else 0)
               + (if octs (s_rdata s) \<noteq> [] then udata_size (octs (s_rdata s)) else 0)
             else if s_code s = SPDU_AR
             then 2 + (if SMASK_AR_REF \<in> s_mask s
                   then ref_size (sr_udata r) + ref_size (sr_cdata r) + ref_size (sr_adata r) + ref_size (sr_vdata r) else 0)
             else 0) in
      if b2 < 254 then 254 else b2)"

definition start_spdu :: "(int \<Rightarrow> bool) \<Rightarrow> ssapkt \<Rightarrow> int \<Rightarrow> local_buf \<times> ssapkt" where
  "start_spdu mem s basesize =
     (let size = spdu_size s basesize;
          hdr = (if size > 254 then 4 else 2);
          len = size + hdr;
          ok = mem len in
      (\<lparr>c_top = (if ok then replicate (nat len) 0 else []), c_ptr = nat hdr, c_pgi = 0, c_left = size, c_li = 0,
        c_allocli = size, c_len = (if ok then len else 0)\<rparr>,
       s\<lparr>s_errno := (if ok then SC_ACCEPT else SC_CONGEST)\<rparr>))"

text \<open>
  \<^verbatim>\<open>end_spdu\<close> fills in the header. A block laid out for the long header that turns out to hold a short
  SPDU is moved down by two through a buffer of 256 octets on the stack. The result is the octets of
  the SPDU.
\<close>

definition end_spdu :: "byte \<Rightarrow> local_buf \<Rightarrow> byte list outcome" where
  "end_spdu code c =
     (if c_len c = 0 then Notok
      else if c_allocli c > 254
      then (if c_li c < 255
        then (let nbytes = c_len c - c_left c in
          if nbytes < 0 then Notok
          else if 2 + nbytes > int (length (c_top c)) \<or> nbytes > 256 then Fault
          else let buf = take (nat nbytes) (drop 2 (c_top c));
                   blk = buf @ drop (nat nbytes) (c_top c) in
            case int2u8 (c_li c) of
              None \<Rightarrow> Notok
            | Some l \<Rightarrow> Done (take (nat (c_li c + 2)) (code # l # drop 2 blk)))
        else Done (take (nat (c_li c + 4))
          (code # 255 # word_of_int (drop_bit 8 (c_li c) AND 0xff) # word_of_int (c_li c AND 0xff) # drop 4 (c_top c))))
      else (case int2u8 (c_li c) of
              None \<Rightarrow> Notok
            | Some l \<Rightarrow> Done (take (c_ptr c) (code # l # drop 2 (c_top c)))))"

fun put_params :: "(int \<Rightarrow> bool) \<Rightarrow> param list \<Rightarrow> local_buf \<Rightarrow> enc" where
  "put_params mem [] c = Enc c"
| "put_params mem (PI code v # ps) c =
     (case put2spdu mem code v c of Enc c1 \<Rightarrow> put_params mem ps c1 | r \<Rightarrow> r)"
| "put_params mem (PGI code qs # ps) c =
     (case start_pgi mem code c of
        Enc c1 \<Rightarrow>
          (case put_params mem qs c1 of
             Enc c2 \<Rightarrow> (case end_pgi c2 of Enc c3 \<Rightarrow> put_params mem ps c3 | r \<Rightarrow> r)
           | r \<Rightarrow> r)
      | r \<Rightarrow> r)"
| "put_params mem (Break # ps) c = EncBreak c"
| "put_params mem (Lose # ps) c = EncLose"

definition spkt2tsdu :: "(int \<Rightarrow> bool) \<Rightarrow> ssapkt \<Rightarrow> byte list outcome \<times> ssapkt" where
  "spkt2tsdu mem s =
     (case spdu_case s of
        None \<Rightarrow> (Notok, s\<lparr>s_errno := SC_PROTOCOL\<rparr>)
      | Some (basesize, ps) \<Rightarrow>
          (let (c, s1) = start_spdu mem s basesize in
           case put_params mem ps c of
             EncFault \<Rightarrow> (Fault, s1)
           | EncLose \<Rightarrow> (Notok, s1\<lparr>s_errno := SC_PROTOCOL\<rparr>)
           | EncBreak c1 \<Rightarrow>
               (if end_spdu (s_code s) c1 = Fault then Fault else Notok, s1\<lparr>s_errno := SC_PROTOCOL\<rparr>)
           | Enc c1 \<Rightarrow>
               (case end_spdu (s_code s) c1 of
                  Done bs \<Rightarrow>
                    if s_errno s1 \<noteq> SC_ACCEPT then (Notok, s1)
                    else if c_li c1 < 0 then (Notok, s1\<lparr>s_errno := SC_CONGEST\<rparr>)
                    else (Done bs, s1\<lparr>s_li := c_li c1\<rparr>)
                | Fault \<Rightarrow> (Fault, s1)
                | _ \<Rightarrow> (Notok, if s_errno s1 = SC_ACCEPT then s1\<lparr>s_errno := SC_CONGEST\<rparr> else s1))))"

end
