(* ===== verification/Spdu_Read.thy ===== *)
theory Spdu_Read
  imports Spdu
begin

text \<open>
  The reader of session protocol data units (the second half of \<^verbatim>\<open>ssap/tsdu2spkt.c\<close>): the tables that
  say which parameters an SPDU may have and how long they are, \<^verbatim>\<open>pullqb\<close> on a queue of buffers, the
  loop of \<^verbatim>\<open>tsdu2spkt\<close> with one definition per parameter, and the final checks.

  The octets between \<^verbatim>\<open>base\<close> and \<^verbatim>\<open>xbase\<close> are a list; a read past them yields \<open>None\<close>.
\<close>

section \<open>Tables\<close>

abbreviation (input) PMASK_NODATA :: int where "PMASK_NODATA \<equiv> 0x000000"
abbreviation (input) PMASK_CN_ID :: int where "PMASK_CN_ID \<equiv> 0x000001"
abbreviation (input) PMASK_CN_ITEMS :: int where "PMASK_CN_ITEMS \<equiv> 0x000002"
abbreviation (input) PMASK_SYNC :: int where "PMASK_SYNC \<equiv> 0x000004"
abbreviation (input) PMASK_TOKEN :: int where "PMASK_TOKEN \<equiv> 0x000008"
abbreviation (input) PMASK_TDISC :: int where "PMASK_TDISC \<equiv> 0x000010"
abbreviation (input) PMASK_USER_REQ :: int where "PMASK_USER_REQ \<equiv> 0x000020"
abbreviation (input) PMASK_VERSION :: int where "PMASK_VERSION \<equiv> 0x000040"
abbreviation (input) PMASK_PREPARE :: int where "PMASK_PREPARE \<equiv> 0x000080"
abbreviation (input) PMASK_ENCLOSE :: int where "PMASK_ENCLOSE \<equiv> 0x000100"
abbreviation (input) PMASK_TOKEN_SET :: int where "PMASK_TOKEN_SET \<equiv> 0x000200"
abbreviation (input) PMASK_RESYNC :: int where "PMASK_RESYNC \<equiv> 0x000400"
abbreviation (input) PMASK_LINK :: int where "PMASK_LINK \<equiv> 0x000800"
abbreviation (input) PMASK_ACT_ID :: int where "PMASK_ACT_ID \<equiv> 0x001000"
abbreviation (input) PMASK_SERIAL :: int where "PMASK_SERIAL \<equiv> 0x002000"
abbreviation (input) PMASK_MIA_DATA :: int where "PMASK_MIA_DATA \<equiv> 0x004000"
abbreviation (input) PMASK_REFLECT :: int where "PMASK_REFLECT \<equiv> 0x008000"
abbreviation (input) PMASK_REASON :: int where "PMASK_REASON \<equiv> 0x010000"
abbreviation (input) PMASK_SSAP_CALLING :: int where "PMASK_SSAP_CALLING \<equiv> 0x020000"
abbreviation (input) PMASK_SSAP_CALLED :: int where "PMASK_SSAP_CALLED \<equiv> 0x040000"
abbreviation (input) PMASK_UDATA :: int where "PMASK_UDATA \<equiv> 0x080000"
abbreviation (input) PMASK_XDATA :: int where "PMASK_XDATA \<equiv> 0x100000"
abbreviation (input) PMASK_PGI :: int where "PMASK_PGI \<equiv> 0x400000"
abbreviation (input) PMASK_VARLEN :: int where "PMASK_VARLEN \<equiv> 0x800000"
abbreviation (input) PMASK_NOTSUPPORTED :: int where "PMASK_NOTSUPPORTED \<equiv> -1"

definition si_table :: "int list" where
  "si_table = [
    PMASK_REFLECT, PMASK_ENCLOSE OR PMASK_TOKEN OR PMASK_UDATA, PMASK_TOKEN OR PMASK_ENCLOSE OR PMASK_UDATA,
    PMASK_NOTSUPPORTED, PMASK_NOTSUPPORTED, PMASK_NODATA, PMASK_NOTSUPPORTED, PMASK_PREPARE,
    PMASK_ENCLOSE OR PMASK_UDATA, PMASK_TDISC OR PMASK_ENCLOSE OR PMASK_UDATA, PMASK_ENCLOSE OR PMASK_UDATA,
    PMASK_NOTSUPPORTED,
    PMASK_CN_ID OR PMASK_TDISC OR PMASK_USER_REQ OR PMASK_VERSION OR PMASK_ENCLOSE OR PMASK_REASON,
    PMASK_CN_ID OR PMASK_CN_ITEMS OR PMASK_USER_REQ OR PMASK_VERSION OR PMASK_SSAP_CALLING OR PMASK_SSAP_CALLED OR PMASK_UDATA OR PMASK_XDATA,
    PMASK_CN_ID OR PMASK_CN_ITEMS OR PMASK_USER_REQ OR PMASK_VERSION OR PMASK_SSAP_CALLING OR PMASK_TOKEN OR PMASK_ENCLOSE OR PMASK_SSAP_CALLED OR PMASK_UDATA,
    PMASK_NOTSUPPORTED, PMASK_NOTSUPPORTED, PMASK_NOTSUPPORTED, PMASK_NOTSUPPORTED, PMASK_NOTSUPPORTED,
    PMASK_NOTSUPPORTED, PMASK_NODATA, PMASK_NODATA, PMASK_NOTSUPPORTED, PMASK_NOTSUPPORTED,
    PMASK_TDISC OR PMASK_REFLECT OR PMASK_REASON OR PMASK_ENCLOSE OR PMASK_UDATA, PMASK_NODATA,
    PMASK_NOTSUPPORTED, PMASK_NOTSUPPORTED,
    PMASK_LINK OR PMASK_ACT_ID OR PMASK_ENCLOSE OR PMASK_SERIAL OR PMASK_UDATA, PMASK_NOTSUPPORTED,
    PMASK_NOTSUPPORTED, PMASK_NOTSUPPORTED, PMASK_ENCLOSE,
    PMASK_TOKEN_SET OR PMASK_ENCLOSE OR PMASK_SERIAL OR PMASK_UDATA, PMASK_NOTSUPPORTED, PMASK_NOTSUPPORTED,
    PMASK_NOTSUPPORTED, PMASK_NOTSUPPORTED, PMASK_NOTSUPPORTED, PMASK_NOTSUPPORTED,
    PMASK_SYNC OR PMASK_ENCLOSE OR PMASK_SERIAL OR PMASK_UDATA, PMASK_ENCLOSE OR PMASK_SERIAL OR PMASK_UDATA,
    PMASK_NOTSUPPORTED, PMASK_NOTSUPPORTED, PMASK_ENCLOSE OR PMASK_ACT_ID OR PMASK_UDATA, PMASK_NOTSUPPORTED,
    PMASK_NOTSUPPORTED, PMASK_ENCLOSE OR PMASK_REASON OR PMASK_UDATA,
    PMASK_SYNC OR PMASK_ENCLOSE OR PMASK_SERIAL OR PMASK_UDATA, PMASK_ENCLOSE OR PMASK_SERIAL OR PMASK_MIA_DATA,
    PMASK_NOTSUPPORTED, PMASK_NOTSUPPORTED,
    PMASK_TOKEN_SET OR PMASK_ENCLOSE OR PMASK_RESYNC OR PMASK_SERIAL OR PMASK_UDATA, PMASK_NOTSUPPORTED,
    PMASK_NOTSUPPORTED, PMASK_NOTSUPPORTED, PMASK_REASON, PMASK_NODATA, PMASK_NOTSUPPORTED, PMASK_NOTSUPPORTED,
    PMASK_ENCLOSE OR PMASK_UDATA, PMASK_ENCLOSE OR PMASK_UDATA]"

definition pi_table :: "int list" where
  "pi_table = [
    0, PMASK_VARLEN OR PMASK_CN_ID OR PMASK_PGI, 0, 0, 0, PMASK_VARLEN OR PMASK_CN_ITEMS OR PMASK_PGI, 0, 0, 0,
    PMASK_VARLEN OR PMASK_CN_ID OR PMASK_LINK, PMASK_VARLEN OR PMASK_CN_ID OR PMASK_LINK,
    PMASK_VARLEN OR PMASK_CN_ID OR PMASK_LINK, PMASK_VARLEN OR PMASK_CN_ID OR PMASK_LINK, 0, 0, PMASK_SYNC,
    PMASK_TOKEN, PMASK_TDISC, 0, PMASK_CN_ITEMS, PMASK_USER_REQ, PMASK_VARLEN OR PMASK_CN_ITEMS, PMASK_VERSION,
    PMASK_VARLEN OR PMASK_CN_ITEMS, PMASK_PREPARE, PMASK_ENCLOSE, PMASK_CN_ITEMS OR PMASK_TOKEN_SET,
    PMASK_RESYNC, 0, 0, 0, 0, 0, PMASK_VARLEN OR PMASK_LINK OR PMASK_PGI, 0, 0, 0, 0, 0, 0, 0,
    PMASK_VARLEN OR PMASK_ACT_ID, PMASK_VARLEN OR PMASK_SERIAL, 0, 0, 0, PMASK_VARLEN OR PMASK_MIA_DATA, 0, 0,
    PMASK_VARLEN OR PMASK_REFLECT, PMASK_VARLEN OR PMASK_REASON, PMASK_VARLEN OR PMASK_SSAP_CALLING,
    PMASK_VARLEN OR PMASK_SSAP_CALLED, 0, 0, PMASK_VARLEN OR PMASK_CN_ITEMS]"

definition pi_length :: "int list" where
  "pi_length = [
    0, 64 + 64 + 4 + 6, 0, 0, 0, 1 + 4 + 1 + 6 + 1 + 10, 0, 0, 0, 64, 64, 64, 4, 0, 0, 1, 1, 1, 0, 1, 2, 4, 1, 6,
    1, 1, 1, 1, 0, 0, 0, 0, 0, 2 * 64 + 64 + 4 + 6 + 6 + 6 * 2, 0, 0, 0, 0, 0, 0, 0, 6, 6, 0, 0, 0, 65528, 0, 0,
    65528, 513, 64, 64, 0, 0, 6]"

section \<open>The queue of buffers\<close>

text \<open>
  \<^verbatim>\<open>pullqb\<close>, which is never called for nothing: a first buffer with enough octets is read in place, and
  stays in the queue even when it is empty then; otherwise the octets are gathered from several
  buffers, and those that are used up leave the queue. Without enough octets what was gathered is lost.
\<close>

abbreviation (input) SEGMENT_MAX :: nat where "SEGMENT_MAX \<equiv> 65528"

fun gather :: "nat \<Rightarrow> byte list list \<Rightarrow> byte list option \<times> byte list list" where
  "gather n [] = (if n > 0 then None else Some [], [])"
| "gather n (b # q) =
     (if n = 0 then (Some [], b # q)
      else let i = min (length b) n;
               (r, q') = gather (n - i) (if drop i b = [] then q else drop i b # q) in
        (map_option (\<lambda>bs. take i b @ bs) r, q'))"

definition pullqb :: "nat \<Rightarrow> byte list list \<Rightarrow> byte list option \<times> byte list list" where
  "pullqb n q =
     (if n > SEGMENT_MAX then (None, q)
      else case q of
        b # bs \<Rightarrow> if n \<le> length b then (Some (take n b), drop n b # bs) else gather n q
      | [] \<Rightarrow> gather n q)"

section \<open>One definition per parameter\<close>

definition protocol_error :: "ssapkt \<Rightarrow> ssapkt" where
  "protocol_error s = s\<lparr>s_errno := SC_PROTOCOL\<rparr>"

definition Set :: "nat \<Rightarrow> ssapkt \<Rightarrow> ssapkt" where
  "Set b s = s\<lparr>s_mask := insert b (s_mask s)\<rparr>"

definition str2ssn_step :: "nat \<Rightarrow> byte \<Rightarrow> nat" where
  "str2ssn_step u c = u * 10 + (unat c - 48)"

fun str2ssn :: "nat \<Rightarrow> byte list \<Rightarrow> nat" where
  "str2ssn u [] = u"
| "str2ssn u (c # cs) =
     (if c < 48 \<or> c > 57 then 0
      else if u > (4294967295 - (unat c - 48)) div 10 then 4294967295
      else str2ssn (str2ssn_step u c) cs)"

text \<open>A single octet, and \<^verbatim>\<open>li\<close> octets.\<close>

definition octet :: "(byte \<Rightarrow> ssapkt) \<Rightarrow> byte list \<Rightarrow> (ssapkt \<times> byte list) option" where
  "octet f base = (case base of [] \<Rightarrow> None | b # bs \<Rightarrow> Some (f b, bs))"

definition octets :: "nat \<Rightarrow> (byte list \<Rightarrow> ssapkt) \<Rightarrow> byte list \<Rightarrow> (ssapkt \<times> byte list) option" where
  "octets li f base = (if li \<le> length base then Some (f (take li base), drop li base) else None)"

definition read_user_ref :: "byte \<Rightarrow> byte \<Rightarrow> nat \<Rightarrow> ssapkt \<Rightarrow> byte list \<Rightarrow> (ssapkt \<times> byte list) option" where
  "read_user_ref si code li s base =
     (if si = SPDU_CN \<or> si = SPDU_AC \<or> si = SPDU_RF \<or> si = SPDU_AR
      then (if li > 255 then Some (protocol_error s, base)
        else octets li (\<lambda>d. Set 0 (s\<lparr>s_reference :=
          (if si = SPDU_AR \<and> code = 9 then (s_reference s)\<lparr>sr_vdata := d\<rparr> else (s_reference s)\<lparr>sr_udata := d\<rparr>)\<rparr>)) base)
      else Some (protocol_error s, base))"

definition read_common_ref :: "byte \<Rightarrow> nat \<Rightarrow> ssapkt \<Rightarrow> byte list \<Rightarrow> (ssapkt \<times> byte list) option" where
  "read_common_ref si li s base =
     (if si = SPDU_CN \<or> si = SPDU_AC \<or> si = SPDU_RF \<or> si = SPDU_AR
      then (if li > 255 then Some (protocol_error s, base)
        else octets li (\<lambda>d. Set 0 (s\<lparr>s_reference := (s_reference s)\<lparr>sr_cdata := d\<rparr>\<rparr>)) base)
      else Some (protocol_error s, base))"

definition read_add_info :: "byte \<Rightarrow> nat \<Rightarrow> ssapkt \<Rightarrow> byte list \<Rightarrow> (ssapkt \<times> byte list) option" where
  "read_add_info si li s base =
     (if si = SPDU_CN \<or> si = SPDU_AC \<or> si = SPDU_RF \<or> si = SPDU_AR
      then (if li > 255 then Some (protocol_error s, base)
        else octets li (\<lambda>d. Set 0 (s\<lparr>s_reference := (s_reference s)\<lparr>sr_adata := d\<rparr>\<rparr>)) base)
      else Some (protocol_error s, base))"

definition read_protocol_opt :: "ssapkt \<Rightarrow> byte list \<Rightarrow> (ssapkt \<times> byte list) option" where
  "read_protocol_opt s base = octet (\<lambda>b. Set SMASK_CN_OPT (s\<lparr>s_options := b AND 1\<rparr>)) base"

definition from_be32 :: "byte list \<Rightarrow> 32 word" where
  "from_be32 bs = push_bit 24 (ucast (bs ! 0)) OR push_bit 16 (ucast (bs ! 1)) OR push_bit 8 (ucast (bs ! 2)) OR ucast (bs ! 3)"

definition from_be16 :: "byte list \<Rightarrow> 16 word" where
  "from_be16 bs = push_bit 8 (ucast (bs ! 0)) OR ucast (bs ! 1)"

definition read_tsdu_maxsiz :: "ssapkt \<Rightarrow> byte list \<Rightarrow> (ssapkt \<times> byte list) option" where
  "read_tsdu_maxsiz s base =
     octets 4 (\<lambda>d. Set SMASK_CN_TSDU (s\<lparr>s_tsdu_init := ucast (drop_bit 16 (from_be32 d) AND 0xffff),
       s_tsdu_resp := ucast (from_be32 d AND 0xffff)\<rparr>)) base"

definition read_version :: "byte \<Rightarrow> ssapkt \<Rightarrow> byte list \<Rightarrow> (ssapkt \<times> byte list) option" where
  "read_version si s base =
     (if si = SPDU_CN \<or> si = SPDU_AC then octet (\<lambda>b. Set SMASK_CN_VRSN (s\<lparr>s_version := b\<rparr>)) base
      else if si = SPDU_RF then octet (\<lambda>b. Set SMASK_RF_VRSN (s\<lparr>s_version := b\<rparr>)) base
      else Some (protocol_error s, base))"

definition read_sync :: "byte \<Rightarrow> ssapkt \<Rightarrow> byte list \<Rightarrow> (ssapkt \<times> byte list) option" where
  "read_sync si s base =
     (if si = SPDU_MIP then octet (\<lambda>b. Set SMASK_MIP_SYNC (s\<lparr>s_sync := b AND 1\<rparr>)) base
      else if si = SPDU_MAP then octet (\<lambda>b. Set SMASK_MAP_SYNC (s\<lparr>s_sync := b AND 1\<rparr>)) base
      else Some (s, base))"

definition read_token_set :: "byte \<Rightarrow> ssapkt \<Rightarrow> byte list \<Rightarrow> (ssapkt \<times> byte list) option" where
  "read_token_set si s base =
     (if si = SPDU_CN \<or> si = SPDU_AC then octet (\<lambda>b. Set SMASK_CN_SET (s\<lparr>s_settings := b\<rparr>)) base
      else if si = SPDU_RS then octet (\<lambda>b. Set SMASK_RS_SET (s\<lparr>s_settings := b\<rparr>)) base
      else if si = SPDU_RA then octet (\<lambda>b. Set SMASK_RA_SET (s\<lparr>s_settings := b\<rparr>)) base
      else Some (protocol_error s, base))"

definition read_token :: "byte \<Rightarrow> ssapkt \<Rightarrow> byte list \<Rightarrow> (ssapkt \<times> byte list) option" where
  "read_token si s base =
     (if si = SPDU_AC then octet (\<lambda>b. Set SMASK_AC_TOKEN (s\<lparr>s_token := b\<rparr>)) base
      else if si = SPDU_GT
      then (if SMASK_SPDU_GT \<notin> s_mask s then Some (protocol_error s, base)
            else octet (\<lambda>b. Set SMASK_GT_TOKEN (s\<lparr>s_token := b\<rparr>)) base)
      else if si = SPDU_PT then octet (\<lambda>b. Set SMASK_PT_TOKEN (s\<lparr>s_token := b\<rparr>)) base
      else Some (protocol_error s, base))"

definition read_tdisc :: "byte \<Rightarrow> ssapkt \<Rightarrow> byte list \<Rightarrow> (ssapkt \<times> byte list) option" where
  "read_tdisc si s base =
     (if si = SPDU_RF then octet (\<lambda>b. Set SMASK_RF_DISC (s\<lparr>s_disconnect := b AND 1\<rparr>)) base
      else if si = SPDU_FN then octet (\<lambda>b. Set SMASK_FN_DISC (s\<lparr>s_disconnect := b AND 1\<rparr>)) base
      else if si = SPDU_AB
      then (if SMASK_SPDU_AB \<notin> s_mask s then Some (protocol_error s, base)
            else octet (\<lambda>b. Set SMASK_AB_DISC (s\<lparr>s_disconnect := b AND 15\<rparr>)) base)
      else Some (protocol_error s, base))"

definition read_user_req :: "byte \<Rightarrow> ssapkt \<Rightarrow> byte list \<Rightarrow> (ssapkt \<times> byte list) option" where
  "read_user_req si s base =
     octets 2 (\<lambda>d. Set (if si \<noteq> SPDU_RF then SMASK_CN_REQ else SMASK_RF_REQ) (s\<lparr>s_require := from_be16 d\<rparr>)) base"

definition read_isn :: "byte \<Rightarrow> nat \<Rightarrow> ssapkt \<Rightarrow> byte list \<Rightarrow> (ssapkt \<times> byte list) option" where
  "read_isn si li s base =
     (if si = SPDU_CN \<or> si = SPDU_AC
      then octets li (\<lambda>d. Set SMASK_CN_ISN (s\<lparr>s_isn := str2ssn 0 d\<rparr>)) base
      else Some (protocol_error s, base))"

definition read_enclose :: "byte \<Rightarrow> ssapkt \<Rightarrow> byte list \<Rightarrow> (ssapkt \<times> byte list) option" where
  "read_enclose si s base =
     (if (si = SPDU_GT \<and> SMASK_SPDU_GT \<in> s_mask s) \<or> (si = SPDU_AB \<and> SMASK_SPDU_AB \<notin> s_mask s)
      then Some (protocol_error s, base)
      else octet (\<lambda>b. Set SMASK_ENCLOSE (s\<lparr>s_enclose := b AND 3\<rparr>)) base)"

definition read_resync :: "ssapkt \<Rightarrow> byte list \<Rightarrow> (ssapkt \<times> byte list) option" where
  "read_resync s base =
     octet (\<lambda>b. if b \<le> 2 then Set SMASK_RS_TYPE (s\<lparr>s_rs_type := b\<rparr>) else protocol_error (s\<lparr>s_rs_type := b\<rparr>)) base"

definition read_act_id :: "byte \<Rightarrow> nat \<Rightarrow> ssapkt \<Rightarrow> byte list \<Rightarrow> (ssapkt \<times> byte list) option" where
  "read_act_id si li s base =
     (if si \<noteq> SPDU_AS \<and> si \<noteq> SPDU_AR then Some (protocol_error s, base)
      else if li > 255 then Some (protocol_error s, base)
      else if si = SPDU_AS then octets li (\<lambda>d. Set SMASK_AS_ID (s\<lparr>s_id := d\<rparr>)) base
      else if SMASK_AR_OID \<in> s_mask s \<and> s_ar_oid s = [] then octets li (\<lambda>d. s\<lparr>s_ar_oid := d\<rparr>) base
      else octets li (\<lambda>d. Set SMASK_AR_ID (s\<lparr>s_id := d\<rparr>)) base)"

definition read_serial :: "byte \<Rightarrow> nat \<Rightarrow> ssapkt \<Rightarrow> byte list \<Rightarrow> (ssapkt \<times> byte list) option" where
  "read_serial si li s base =
     (let store = (\<lambda>b. octets li (\<lambda>d. Set b (s\<lparr>s_serial := str2ssn 0 d\<rparr>)) base) in
      if si = SPDU_MIP then store SMASK_MIP_SERIAL
      else if si = SPDU_MAP then store SMASK_MAP_SERIAL
      else if si = SPDU_MIA then store SMASK_MIA_SERIAL
      else if si = SPDU_MAA then store SMASK_MAA_SERIAL
      else if si = SPDU_RS then store SMASK_RS_SSN
      else if si = SPDU_RA then store SMASK_RA_SSN
      else if si = SPDU_AR then store SMASK_AR_SSN
      else Some (protocol_error s, base))"

definition read_udata :: "(int \<Rightarrow> bool) \<Rightarrow> byte \<Rightarrow> byte \<Rightarrow> nat \<Rightarrow> ssapkt \<Rightarrow> byte list \<Rightarrow> (ssapkt \<times> byte list) option" where
  "read_udata mem si code li s base =
     (let s1 = Set SMASK_UDATA_PGI s in
      if li = 0 then Some (s1, base)
      else if si = SPDU_AB \<and> SMASK_SPDU_AB \<notin> s_mask s1 then Some (protocol_error s1, base)
      else if li > (if code \<noteq> 194 then SEGMENT_MAX else 10240) then Some (protocol_error s1, base)
      else if \<not> mem (int li) then Some (s1\<lparr>s_errno := SC_CONGEST\<rparr>, base)
      else octets li (\<lambda>d. s1\<lparr>s_udata := Some d\<rparr>) base)"

definition SP_OK :: "byte \<Rightarrow> bool" where
  "SP_OK r \<longleftrightarrow> r < 6 \<and> r \<noteq> 2 \<and> r \<noteq> 4 \<or> r = 128"

definition read_reason :: "(int \<Rightarrow> bool) \<Rightarrow> byte \<Rightarrow> nat \<Rightarrow> ssapkt \<Rightarrow> byte list \<Rightarrow> (ssapkt \<times> byte list) option" where
  "read_reason mem si li s base =
     (let store = (\<lambda>m. octet (\<lambda>b. if li = 1 \<and> SP_OK b then Set m (s\<lparr>s_reason := b\<rparr>) else protocol_error (s\<lparr>s_reason := b\<rparr>)) base) in
      if si = SPDU_RF
      then (if \<not> mem (int li) then Some (s\<lparr>s_errno := SC_CONGEST\<rparr>, base) else octets li (\<lambda>d. s\<lparr>s_rdata := Some d\<rparr>) base)
      else if si = SPDU_ED then store SMASK_ED_REASON
      else if si = SPDU_AB
      then (if SMASK_SPDU_AB \<in> s_mask s then Some (protocol_error s, base) else store SMASK_AI_REASON)
      else if si = SPDU_AD then store SMASK_AD_REASON
      else Some (protocol_error s, base))"

definition read_reflect :: "(int \<Rightarrow> bool) \<Rightarrow> byte \<Rightarrow> nat \<Rightarrow> ssapkt \<Rightarrow> byte list \<Rightarrow> (ssapkt \<times> byte list) option" where
  "read_reflect mem si li s base =
     (if si = SPDU_AB
      then (if SMASK_SPDU_AB \<notin> s_mask s \<or> li > 9 then Some (protocol_error s, base)
        else octets li (\<lambda>d. Set SMASK_AB_REFL (s\<lparr>s_reflect := d @ drop li (s_reflect s)\<rparr>)) base)
      else if si = SPDU_ER
      then (if \<not> mem (int li) then Some (s\<lparr>s_errno := SC_CONGEST\<rparr>, base) else octets li (\<lambda>d. s\<lparr>s_udata := Some d\<rparr>) base)
      else Some (protocol_error s, base))"

definition read_address :: "byte \<Rightarrow> nat \<Rightarrow> ssapkt \<Rightarrow> byte list \<Rightarrow> (ssapkt \<times> byte list) option" where
  "read_address code li s base =
     (if code = 51 then octets li (\<lambda>d. Set SMASK_CN_CALLING (s\<lparr>s_calling := d\<rparr>)) base
      else octets li (\<lambda>d. Set SMASK_CN_CALLED (s\<lparr>s_called := d\<rparr>)) base)"

definition read_prepare :: "ssapkt \<Rightarrow> byte list \<Rightarrow> (ssapkt \<times> byte list) option" where
  "read_prepare s base =
     octet (\<lambda>b. if b > 4 then protocol_error (s\<lparr>s_pr_type := b\<rparr>) else Set SMASK_PR_TYPE (s\<lparr>s_pr_type := b\<rparr>)) base"

text \<open>The second switch on the code of a parameter, for the codes that are not groups.\<close>

definition read_param :: "(int \<Rightarrow> bool) \<Rightarrow> byte \<Rightarrow> byte \<Rightarrow> nat \<Rightarrow> ssapkt \<Rightarrow> byte list \<Rightarrow> (ssapkt \<times> byte list) option" where
  "read_param mem si code li s base =
     (if code = 9 \<or> code = 10 then read_user_ref si code li s base
      else if code = 11 then read_common_ref si li s base
      else if code = 12 then read_add_info si li s base
      else if code = 19 then read_protocol_opt s base
      else if code = 21 then read_tsdu_maxsiz s base
      else if code = 22 then read_version si s base
      else if code = 15 then read_sync si s base
      else if code = 26 then read_token_set si s base
      else if code = 16 then read_token si s base
      else if code = 17 then read_tdisc si s base
      else if code = 20 then read_user_req si s base
      else if code = 23 then read_isn si li s base
      else if code = 25 then read_enclose si s base
      else if code = 27 then read_resync s base
      else if code = 41 then read_act_id si li s base
      else if code = 42 then read_serial si li s base
      else if code = 46 \<or> code = 193 \<or> code = 194 then read_udata mem si code li s base
      else if code = 50 then read_reason mem si li s base
      else if code = 49 then read_reflect mem si li s base
      else if code = 51 \<or> code = 52 then read_address code li s base
      else if code = 24 then read_prepare s base
      else Some (s, drop li base))"

section \<open>The loop\<close>

record reading =
  r_s :: ssapkt
  r_base :: "byte list"
  r_queue :: "byte list list"
  r_pktlen :: int
  r_pgilen :: int
  r_nread :: int

definition lose :: "reading \<Rightarrow> reading" where
  "lose r = r\<lparr>r_s := protocol_error (r_s r)\<rparr>"

text \<open>\<^verbatim>\<open>advance (n)\<close>: pull when nothing is left; \<open>False\<close> is the \<^verbatim>\<open>break\<close> of a queue without enough octets.\<close>

definition advance :: "nat \<Rightarrow> reading \<Rightarrow> reading \<times> bool" where
  "advance n r =
     (if r_base r = []
      then (case pullqb n (r_queue r) of
              (None, q) \<Rightarrow> (lose (r\<lparr>r_queue := q\<rparr>), False)
            | (Some bs, q) \<Rightarrow> (r\<lparr>r_base := bs, r_queue := q, r_nread := r_nread r + int n\<rparr>, True))
      else (r, True))"

text \<open>
  The head of a parameter: its code, its length, and how many octets these take. The outcome is a
  head, the \<^verbatim>\<open>break\<close> out of the loop, or a read past the octets at hand.
\<close>

datatype 'a head = Head 'a reading | Stop reading | Past

definition read_head :: "reading \<Rightarrow> (byte \<times> nat \<times> int) head" where
  "read_head r0 =
     (let (r, ok) = advance 2 r0 in
      if \<not> ok then Stop r
      else case r_base r of
        code # l # base \<Rightarrow>
          if l = 255
          then (let (r', ok') = advance 2 (r\<lparr>r_base := base\<rparr>) in
            if \<not> ok' then Stop r'
            else case r_base r' of
              h # l' # base' \<Rightarrow>
                (let li = unat h * 256 + unat l' in
                 if li < 255 then Stop (lose (r'\<lparr>r_base := h # l' # base'\<rparr>))
                 else Head (code, li, 4) (r'\<lparr>r_base := base'\<rparr>))
            | _ \<Rightarrow> Past)
          else Head (code, unat l, 2) (r\<lparr>r_base := base\<rparr>)
      | _ \<Rightarrow> Past)"

definition code_ok :: "int \<Rightarrow> byte \<Rightarrow> nat \<Rightarrow> bool" where
  "code_ok pmask code li =
     (if code = 193 then pmask AND PMASK_UDATA \<noteq> 0 \<and> li \<le> 512
      else if code = 194 then pmask AND PMASK_XDATA \<noteq> 0 \<and> li > 512
      else \<not> (unat code < length pi_table \<and> pi_table ! unat code \<noteq> 0 \<and> pmask AND pi_table ! unat code = 0))"

definition length_ok :: "byte \<Rightarrow> nat \<Rightarrow> bool" where
  "length_ok code li =
     (if unat code < length pi_table \<and> pi_table ! unat code \<noteq> 0 \<and> pi_table ! unat code AND PMASK_PGI = 0
      then (if li = 0 then True
        else if pi_table ! unat code AND PMASK_VARLEN \<noteq> 0 then int li \<le> pi_length ! unat code
        else int li = pi_length ! unat code)
      else True)"

text \<open>One turn of the loop; \<open>None\<close> is a read past the octets at hand.\<close>

definition read_step :: "(int \<Rightarrow> bool) \<Rightarrow> byte \<Rightarrow> int \<Rightarrow> reading \<Rightarrow> reading option \<times> bool" where
  "read_step mem si pmask r0 =
     (case read_head r0 of
        Past \<Rightarrow> (None, False)
      | Stop r \<Rightarrow> (Some r, False)
      | Head (code, li, xlen) r1 \<Rightarrow>
          if \<not> code_ok pmask code li then (Some (lose r1), False)
          else let pgi0 = (if r_pgilen r1 = 0 then r_pktlen r1 else r_pgilen r1);
                   pktlen = r_pktlen r1 - (xlen + int li);
                   pgi1 = pgi0 - xlen in
            if int li > pgi1 then (Some (lose (r1\<lparr>r_pktlen := pktlen, r_pgilen := pgi1\<rparr>)), False)
            else let r2 = r1\<lparr>r_pktlen := pktlen, r_pgilen := pgi1 - int li\<rparr>;
                     (r3, ok) = (if li > 0 then advance li r2 else (r2, True)) in
              if \<not> ok then (Some r3, False)
              else if \<not> length_ok code li then (Some (lose r3), False)
              else if code = 33 \<or> code = 1 \<or> code = 5
              then (Some (r3\<lparr>r_s := (if code = 33 then Set SMASK_AR_OID (r_s r3)
                                    else if code = 1 then Set SMASK_CN_REF (r_s r3) else r_s r3),
                             r_pktlen := pktlen + int li, r_pgilen := int li\<rparr>), True)
              else (case read_param mem si code li (r_s r3) (r_base r3) of
                      None \<Rightarrow> (None, False)
                    | Some (s, base) \<Rightarrow> (Some (r3\<lparr>r_s := s, r_base := base\<rparr>), True)))"

text \<open>Every turn consumes octets, so that the loop ends on every queue.\<close>

definition data :: "reading \<Rightarrow> byte list" where
  "data r = r_base r @ concat (r_queue r)"

lemma gather_Some: "gather n q = (Some bs, q') \<Longrightarrow> bs @ concat q' = concat q \<and> length bs = n"
proof (induction n q arbitrary: bs q' rule: gather.induct)
  case (2 n b q)
  show ?case
  proof (cases "n = 0")
    case False
    define i where "i = min (length b) n"
    define q1 where "q1 = (if drop i b = [] then q else drop i b # q)"
    obtain rr q2 where g: "gather (n - i) q1 = (rr, q2)" by fastforce
    have "gather n (b # q) = (map_option (\<lambda>bs. take i b @ bs) rr, q2)"
      unfolding gather.simps using False g by (simp only: Let_def i_def [symmetric] q1_def [symmetric] if_False prod.case)
    then obtain ys where y: "rr = Some ys" "bs = take i b @ ys" "q' = q2" using "2.prems" by auto
    have "ys @ concat q2 = concat q1 \<and> length ys = n - i"
      using "2.IH" [OF False i_def, folded q1_def] g y(1) by simp
    moreover have "concat q1 = drop i b @ concat q" by (simp add: q1_def)
    ultimately show ?thesis using y(2,3) by (simp add: i_def)
  qed (use "2.prems" in simp)
qed (simp split: if_splits)

lemma gather_enough: "n \<le> length (concat q) \<Longrightarrow> fst (gather n q) \<noteq> None"
proof (induction n q rule: gather.induct)
  case (2 n b q)
  show ?case
  proof (cases "n = 0")
    case False
    let ?i = "min (length b) n"
    have "n - ?i \<le> length (concat (if drop ?i b = [] then q else drop ?i b # q))" using "2.prems" by auto
    from "2.IH" [OF False refl this] False show ?thesis by (auto simp: Let_def split: prod.splits)
  qed simp
qed simp

lemma pullqb_Some: "pullqb n q = (Some bs, q') \<Longrightarrow> bs @ concat q' = concat q \<and> length bs = n"
  using gather_Some [of n q bs q'] by (auto simp: pullqb_def split: if_splits list.splits simp del: gather.simps)

lemma pullqb_enough:
  assumes "n \<le> length (concat q)" "n \<le> SEGMENT_MAX"
  shows "\<exists>q'. pullqb n q = (Some (take n (concat q)), q') \<and> concat q' = drop n (concat q)"
proof -
  have "fst (pullqb n q) \<noteq> None" using assms gather_enough [OF assms(1)] by (cases q) (auto simp: pullqb_def)
  then obtain bs q' where p: "pullqb n q = (Some bs, q')" by (cases "pullqb n q") auto
  from pullqb_Some [OF p] have "bs @ concat q' = concat q" "length bs = n" by auto
  then have "take n (concat q) = bs" "drop n (concat q) = concat q'" by (metis append_eq_conv_conj)+
  with p show ?thesis by simp
qed

lemma advance_data: "advance n r = (r', True) \<Longrightarrow> data r' = data r"
  by (auto simp: advance_def data_def split: if_splits prod.splits option.splits dest: pullqb_Some)

lemma read_head_data:
  "read_head r0 = Head (code, li, xlen) r \<Longrightarrow> int (length (data r0)) = int (length (data r)) + xlen \<and> 2 \<le> xlen"
  by (auto simp: read_head_def Let_def data_def split: prod.splits if_splits list.splits
    dest!: advance_data [THEN arg_cong [of _ _ length]])

lemma octet_base: "octet f base = Some (s, base') \<Longrightarrow> length base' \<le> length base"
  by (auto simp: octet_def split: list.splits)

lemma octets_base: "octets li f base = Some (s, base') \<Longrightarrow> length base' \<le> length base"
  by (auto simp: octets_def split: if_splits)

text \<open>
  The contract that the handlers of the parameters share: no handler goes back, and a handler that
  consumes its parameter exactly does so whatever follows.
\<close>

locale param_handler =
  fixes handler :: "ssapkt \<Rightarrow> byte list \<Rightarrow> (ssapkt \<times> byte list) option"
  assumes base: "handler s b = Some (s', b') \<Longrightarrow> length b' \<le> length b"
    and app: "handler s v = Some (s', []) \<Longrightarrow> handler s (v @ w) = Some (s', w)"

lemma handlerI:
  assumes "\<And>s b s' b'. h s b = Some (s', b') \<Longrightarrow> length b' \<le> length b"
    "\<And>s v s' w. h s v = Some (s', []) \<Longrightarrow> h s (v @ w) = Some (s', w)"
  shows "param_handler h"
  using assms by unfold_locales

lemma octet_app: "octet f v = Some (s', []) \<Longrightarrow> octet f (v @ w) = Some (s', w)"
  by (auto simp: octet_def split: list.splits)

lemma octets_app: "octets li f v = Some (s', []) \<Longrightarrow> octets li f (v @ w) = Some (s', w)"
  by (auto simp: octets_def split: if_splits)

interpretation user_ref: param_handler "read_user_ref si code li" for si code li
  by (rule handlerI) (auto simp: read_user_ref_def Let_def split: if_splits dest: octet_base octets_base octet_app octets_app)

interpretation common_ref: param_handler "read_common_ref si li" for si li
  by (rule handlerI) (auto simp: read_common_ref_def Let_def split: if_splits dest: octet_base octets_base octet_app octets_app)

interpretation add_info: param_handler "read_add_info si li" for si li
  by (rule handlerI) (auto simp: read_add_info_def Let_def split: if_splits dest: octet_base octets_base octet_app octets_app)

interpretation protocol_opt: param_handler read_protocol_opt
  by (rule handlerI) (auto simp: read_protocol_opt_def Let_def split: if_splits dest: octet_base octets_base octet_app octets_app)

interpretation tsdu_maxsiz: param_handler read_tsdu_maxsiz
  by (rule handlerI) (auto simp: read_tsdu_maxsiz_def Let_def split: if_splits dest: octet_base octets_base octet_app octets_app)

interpretation version: param_handler "read_version si" for si
  by (rule handlerI) (auto simp: read_version_def Let_def split: if_splits dest: octet_base octets_base octet_app octets_app)

interpretation sync: param_handler "read_sync si" for si
  by (rule handlerI) (auto simp: read_sync_def Let_def split: if_splits dest: octet_base octets_base octet_app octets_app)

interpretation token_set: param_handler "read_token_set si" for si
  by (rule handlerI) (auto simp: read_token_set_def Let_def split: if_splits dest: octet_base octets_base octet_app octets_app)

interpretation token: param_handler "read_token si" for si
  by (rule handlerI) (auto simp: read_token_def Let_def split: if_splits dest: octet_base octets_base octet_app octets_app)

interpretation tdisc: param_handler "read_tdisc si" for si
  by (rule handlerI) (auto simp: read_tdisc_def Let_def split: if_splits dest: octet_base octets_base octet_app octets_app)

interpretation user_req: param_handler "read_user_req si" for si
  by (rule handlerI) (auto simp: read_user_req_def Let_def split: if_splits dest: octet_base octets_base octet_app octets_app)

interpretation isn: param_handler "read_isn si li" for si li
  by (rule handlerI) (auto simp: read_isn_def Let_def split: if_splits dest: octet_base octets_base octet_app octets_app)

interpretation enclose: param_handler "read_enclose si" for si
  by (rule handlerI) (auto simp: read_enclose_def Let_def split: if_splits dest: octet_base octets_base octet_app octets_app)

interpretation resync: param_handler read_resync
  by (rule handlerI) (auto simp: read_resync_def Let_def split: if_splits dest: octet_base octets_base octet_app octets_app)

interpretation act_id: param_handler "read_act_id si li" for si li
  by (rule handlerI) (auto simp: read_act_id_def Let_def split: if_splits dest: octet_base octets_base octet_app octets_app)

interpretation serial: param_handler "read_serial si li" for si li
  by (rule handlerI) (auto simp: read_serial_def Let_def split: if_splits dest: octet_base octets_base octet_app octets_app)

interpretation udata: param_handler "read_udata mem si code li" for mem si code li
  by (rule handlerI) (auto simp: read_udata_def Let_def split: if_splits dest: octet_base octets_base octet_app octets_app)

interpretation reason: param_handler "read_reason mem si li" for mem si li
  by (rule handlerI) (auto simp: read_reason_def Let_def split: if_splits dest: octet_base octets_base octet_app octets_app)

interpretation reflect: param_handler "read_reflect mem si li" for mem si li
  by (rule handlerI) (auto simp: read_reflect_def Let_def split: if_splits dest: octet_base octets_base octet_app octets_app)

interpretation address: param_handler "read_address code li" for code li
  by (rule handlerI) (auto simp: read_address_def Let_def split: if_splits dest: octet_base octets_base octet_app octets_app)

interpretation prepare: param_handler read_prepare
  by (rule handlerI) (auto simp: read_prepare_def Let_def split: if_splits dest: octet_base octets_base octet_app octets_app)

lemmas handler_base =
  user_ref.base common_ref.base add_info.base protocol_opt.base tsdu_maxsiz.base version.base sync.base token_set.base token.base tdisc.base user_req.base isn.base enclose.base resync.base act_id.base serial.base udata.base reason.base reflect.base address.base prepare.base

lemmas handler_app =
  user_ref.app common_ref.app add_info.app protocol_opt.app tsdu_maxsiz.app version.app sync.app token_set.app token.app tdisc.app user_req.app isn.app enclose.app resync.app act_id.app serial.app udata.app reason.app reflect.app address.app prepare.app

lemma read_param_base: "read_param mem si code li s base = Some (s', base') \<Longrightarrow> length base' \<le> length base"
  unfolding read_param_def by (auto split: if_splits dest: handler_base)

lemma read_param_app:
  "read_param mem si code (length v) s v = Some (s', []) \<Longrightarrow> read_param mem si code (length v) s (v @ w) = Some (s', w)"
  unfolding read_param_def by (auto split: if_splits dest: handler_app)

lemma read_step_size:
  assumes "read_step mem si pmask r0 = (Some r, True)"
  shows "length (data r) + 2 \<le> length (data r0)"
proof -
  obtain code li xlen r1 where h: "read_head r0 = Head (code, li, xlen) r1"
    using assms by (auto simp: read_step_def split: head.splits prod.splits)
  from read_head_data [OF h] have d1: "length (data r1) + 2 \<le> length (data r0)" by auto
  let ?r2 = "r1\<lparr>r_pktlen := r_pktlen r1 - (xlen + int li), r_pgilen := (if r_pgilen r1 = 0 then r_pktlen r1 else r_pgilen r1) - xlen - int li\<rparr>"
  obtain r3 ok where a: "(if li > 0 then advance li ?r2 else (?r2, True)) = (r3, ok)" by fastforce
  have dr: "length (data r) \<le> length (data r3) \<and> ok"
    using assms a unfolding read_step_def h
    by (auto simp: Let_def data_def split: if_splits prod.splits option.splits dest: read_param_base)
  then have "data r3 = data ?r2" using a by (auto split: if_splits dest: advance_data)
  then have "length (data r3) = length (data r1)" by (simp add: data_def)
  with d1 dr show ?thesis by linarith
qed

function read_loop :: "(int \<Rightarrow> bool) \<Rightarrow> byte \<Rightarrow> int \<Rightarrow> reading \<Rightarrow> reading option" where
  "read_loop mem si pmask r =
     (if r_pktlen r \<noteq> 0 \<and> s_errno (r_s r) = SC_ACCEPT
      then (case read_step mem si pmask r of
              (None, _) \<Rightarrow> None
            | (Some r', go) \<Rightarrow> if go then read_loop mem si pmask r' else Some r')
      else Some r)"
  by pat_completeness auto
termination
  by (relation "measure (\<lambda>(mem, si, pmask, r). length (data r))") (auto dest!: read_step_size [OF sym])

declare read_loop.simps [simp del]

text \<open>What an SPDU must have, checked at the end.\<close>

definition mandatory :: "ssapkt \<Rightarrow> bool" where
  "mandatory s =
     (if s_code s = SPDU_AB then SMASK_SPDU_AB \<in> s_mask s \<longrightarrow> SMASK_AB_DISC \<in> s_mask s
      else if s_code s = SPDU_MIP then SMASK_MIP_SERIAL \<in> s_mask s
      else if s_code s = SPDU_MAP then SMASK_MAP_SERIAL \<in> s_mask s
      else if s_code s = SPDU_MIA then SMASK_MIA_SERIAL \<in> s_mask s
      else if s_code s = SPDU_MAA then SMASK_MAA_SERIAL \<in> s_mask s
      else if s_code s = SPDU_RS then SMASK_RS_TYPE \<in> s_mask s \<and> SMASK_RS_SSN \<in> s_mask s
      else if s_code s = SPDU_RA then SMASK_RA_SSN \<in> s_mask s
      else if s_code s = SPDU_PR then SMASK_PR_TYPE \<in> s_mask s
      else if s_code s = SPDU_ED then SMASK_ED_REASON \<in> s_mask s
      else if s_code s = SPDU_AS then SMASK_AS_ID \<in> s_mask s
      else if s_code s = SPDU_AR then SMASK_AR_OID \<in> s_mask s \<and> SMASK_AR_SSN \<in> s_mask s \<and> SMASK_AR_ID \<in> s_mask s
      else True)"

definition drop_dangling :: "byte list list \<Rightarrow> byte list list" where
  "drop_dangling q = (case q of [] # q' \<Rightarrow> q' | _ \<Rightarrow> q)"

text \<open>The category of the SPDU tells the codes apart that two SPDUs share.\<close>

definition set_category :: "bool \<Rightarrow> byte \<Rightarrow> ssapkt \<Rightarrow> ssapkt" where
  "set_category cat0 si s =
     (if \<not> cat0 then s
      else if si = SPDU_GT then Set SMASK_SPDU_GT s
      else if si = SPDU_AB then Set SMASK_SPDU_AB s
      else if si = SPDU_AA then Set SMASK_SPDU_AA s
      else s)"

text \<open>
  \<^verbatim>\<open>tsdu2spkt\<close>: the packet, what is stored through \<^verbatim>\<open>cc\<close>, and the rest of the queue. \<open>Notok\<close> is the null
  packet, \<open>Fault\<close> a read past the octets at hand.
\<close>

definition tsdu2spkt :: "(int \<Rightarrow> bool) \<Rightarrow> byte list list \<Rightarrow> int \<Rightarrow> bool \<Rightarrow> (ssapkt \<times> int \<times> byte list list) outcome" where
  "tsdu2spkt mem qb len cat0 =
     (case pullqb 2 qb of
        (Some [si, l], q) \<Rightarrow>
          (let s0 = newspkt si;
               start = (\<lambda>(li :: int) nread q.
                 let s1 = set_category cat0 si (s0\<lparr>s_li := li\<rparr>) in
                 if unat si \<ge> length si_table \<or> si_table ! unat si = PMASK_NOTSUPPORTED \<or> len < li + nread
                 then Done (protocol_error s1, 0, q)
                 else case read_loop mem si (si_table ! unat si)
                     \<lparr>r_s = s1\<lparr>s_errno := SC_ACCEPT\<rparr>, r_base = [], r_queue = q, r_pktlen = li, r_pgilen = li, r_nread = nread\<rparr> of
                   None \<Rightarrow> Fault
                 | Some r \<Rightarrow> Done ((if mandatory (r_s r) then r_s r else protocol_error (r_s r)),
                                  r_nread r, drop_dangling (r_queue r))) in
           if l = 255
           then (case pullqb 2 q of
                   (Some [h, l'], q') \<Rightarrow>
                     (let li = unat h * 256 + unat l' in
                      if li < 255 then Done (protocol_error (s0\<lparr>s_li := int li\<rparr>), 0, q') else start (int li) 4 q')
                 | (_, q') \<Rightarrow> Done (protocol_error s0, 0, q'))
           else start (int (unat l)) 2 q)
      | _ \<Rightarrow> Notok)"

end
