(* ===== verification/Spdu_Codec.thy ===== *)
theory Spdu_Codec
  imports Spdu_Read
begin

text \<open>
  The writer and the reader of session protocol data units together. The parameters of a packet have
  one rendering as octets; the writer produces it inside its block, and the reader takes it apart
  again whatever buffers it arrives in.
\<close>

section \<open>What the writer writes\<close>

fun render :: "param list \<Rightarrow> byte list" where
  "render [] = []"
| "render (PI code v # ps) = code # li_octets (length v) @ v @ render ps"
| "render (PGI code qs # ps) = code # word_of_nat (length (render qs)) # render qs @ render ps"
| "render (Break # ps) = []"
| "render (Lose # ps) = []"

text \<open>Parameters that the writer gets to the end of, in groups that a short length can describe.\<close>

fun pis :: "param list \<Rightarrow> bool" where
  "pis [] = True"
| "pis (PI code v # ps) = pis ps"
| "pis (_ # ps) = False"

fun plain :: "param list \<Rightarrow> bool" where
  "plain [] = True"
| "plain (PI code v # ps) = plain ps"
| "plain (PGI code qs # ps) = (pis qs \<and> length (render qs) < 255 \<and> plain ps)"
| "plain (_ # ps) = False"

definition spdu :: "byte \<Rightarrow> byte list \<Rightarrow> byte list" where
  "spdu code out = code # li_octets (length out) @ out"

lemma length_li_octets: "length (li_octets n) = (if n < 255 then 1 else 3)"
  by (simp add: li_octets_def)

text \<open>A buffer into which \<open>bs\<close> was written behind the place of the header.\<close>

definition holds :: "local_buf \<Rightarrow> byte list \<Rightarrow> bool" where
  "holds c bs \<longleftrightarrow> (\<exists>pre free. c_top c = pre @ bs @ free \<and> length pre = (if c_allocli c > 254 then 4 else 2)
     \<and> c_ptr c = length pre + length bs \<and> c_left c = int (length free) \<and> c_li c = int (length bs)
     \<and> c_len c = int (length (c_top c)))"

lemma poke_append: "length xs = length ys \<Longrightarrow> poke (pre @ xs @ free) (length pre) ys = Some (pre @ ys @ free)"
  by (simp add: poke_def)

lemma put2spdu_holds:
  assumes "holds c bs" "int (length (render [PI code v])) \<le> c_left c"
  shows "\<exists>c'. put2spdu mem code v c = Enc c' \<and> holds c' (bs @ render [PI code v]) \<and> c_allocli c' = c_allocli c
    \<and> c_pgi c' = c_pgi c \<and> c_left c' = c_left c - int (length (render [PI code v]))"
proof -
  let ?out = "render [PI code v]"
  obtain pre free where c: "c_top c = pre @ bs @ free" "length pre = (if c_allocli c > 254 then 4 else 2)"
    "c_ptr c = length pre + length bs" "c_left c = int (length free)" "c_li c = int (length bs)"
    "c_len c = int (length (c_top c))" using assms(1) by (auto simp: holds_def)
  have cl: "int (length v) + (if length v < 255 then 2 else 4) = int (length ?out)" by (simp add: length_li_octets)
  have n: "length ?out \<le> length free" using assms(2) c(4) by simp
  have nz: "c_len c \<noteq> 0" using c(1,2,6) by (auto split: if_splits)
  have "c_top c = (pre @ bs) @ take (length ?out) free @ drop (length ?out) free" using c(1) by simp
  moreover have "length (take (length ?out) free) = length ?out" using n by simp
  ultimately have "poke (c_top c) (c_ptr c) ?out = Some ((pre @ bs) @ ?out @ drop (length ?out) free)"
    using poke_append [of "take (length ?out) free" ?out "pre @ bs" "drop (length ?out) free"] c(3) by simp
  then have p: "poke (c_top c) (c_ptr c) (code # li_octets (length v) @ v) = Some (pre @ bs @ ?out @ drop (length ?out) free)" by simp
  let ?c' = "c\<lparr>c_left := c_left c - int (length ?out), c_top := pre @ bs @ ?out @ drop (length ?out) free,
    c_ptr := c_ptr c + length ?out, c_li := c_li c + int (length ?out)\<rparr>"
  have "put2spdu mem code v c = Enc ?c'"
    unfolding put2spdu_def Let_def cl using nz assms(2) p by simp
  moreover have "holds ?c' (bs @ ?out)" unfolding holds_def
    by (intro exI [of _ pre] exI [of _ "drop (length ?out) free"]) (use c n in auto)
  ultimately show ?thesis by (intro exI [of _ ?c']) simp
qed

lemma put_pis_holds:
  "holds c bs \<Longrightarrow> pis ps \<Longrightarrow> int (length (render ps)) \<le> c_left c \<Longrightarrow>
   \<exists>c'. put_params mem ps c = Enc c' \<and> holds c' (bs @ render ps) \<and> c_allocli c' = c_allocli c
    \<and> c_pgi c' = c_pgi c \<and> c_left c' = c_left c - int (length (render ps))"
proof (induction ps arbitrary: c bs rule: pis.induct)
  case (2 code v ps)
  then have "int (length (render [PI code v])) \<le> c_left c" by simp
  from put2spdu_holds [OF "2.prems"(1) this, of mem] obtain c1 where
    1: "put2spdu mem code v c = Enc c1" "holds c1 (bs @ render [PI code v])" "c_allocli c1 = c_allocli c"
      "c_pgi c1 = c_pgi c" "c_left c1 = c_left c - int (length (render [PI code v]))" by blast
  from "2.IH" [OF 1(2)] "2.prems" 1 show ?case by auto
qed auto

lemma put_group_holds:
  assumes "holds c bs" "pis qs" "length (render qs) < 255" "int (length (render [PGI code qs])) \<le> c_left c"
  shows "\<exists>c'. put_params mem [PGI code qs] c = Enc c' \<and> holds c' (bs @ render [PGI code qs]) \<and> c_allocli c' = c_allocli c
    \<and> c_left c' = c_left c - int (length (render [PGI code qs]))"
proof -
  have "int (length (render [PI code []])) \<le> c_left c" using assms(4) by (simp add: length_li_octets)
  from put2spdu_holds [OF assms(1) this, of mem] obtain c0 where
    0: "put2spdu mem code [] c = Enc c0" "holds c0 (bs @ [code, 0])" "c_allocli c0 = c_allocli c" "c_left c0 = c_left c - 2"
    by (auto simp: li_octets_def)
  let ?c1 = "c0\<lparr>c_pgi := int (c_ptr c0) - 1\<rparr>"
  have 1: "start_pgi mem code c = Enc ?c1" "holds ?c1 (bs @ [code, 0])" "c_left ?c1 = c_left c - 2"
    using 0 by (auto simp: start_pgi_def holds_def split: if_splits)
  from put_pis_holds [OF 1(2) assms(2), of mem] assms(4) 1(3) obtain c2 where
    2: "put_params mem qs ?c1 = Enc c2" "holds c2 (bs @ [code, 0] @ render qs)" "c_allocli c2 = c_allocli c"
      "c_pgi c2 = c_pgi ?c1" "c_left c2 = c_left c - 2 - int (length (render qs))" using 0(3) by auto
  obtain pre free where c: "c_top c2 = (pre @ bs @ [code]) @ [0] @ (render qs @ free)" "length pre = (if c_allocli c2 > 254 then 4 else 2)"
    "c_ptr c2 = length pre + length (bs @ [code, 0] @ render qs)" "c_left c2 = int (length free)"
    "c_li c2 = int (length (bs @ [code, 0] @ render qs))" "c_len c2 = int (length (c_top c2))"
    using 2(2) by (auto simp: holds_def)
  have pgi: "c_pgi c2 = int (length (pre @ bs @ [code]))"
    using 2(3,4) 0(2,3) c(2) by (auto simp: holds_def)
  have v: "c_len c2 - c_left c2 - (c_pgi c2 + 1) = int (length (render qs))" using c(1,4,6) pgi by simp
  have i: "int2u8 (int (length (render qs))) = Some (word_of_nat (length (render qs)))"
    using assms(3) by (simp add: int2u8_def of_int_of_nat_eq)
  have pk: "poke (c_top c2) (nat (c_pgi c2)) [word_of_nat (length (render qs))] =
      Some ((pre @ bs @ [code]) @ [word_of_nat (length (render qs))] @ (render qs @ free))"
    unfolding c(1) pgi nat_int by (rule poke_append) simp
  let ?c3 = "c2\<lparr>c_top := (pre @ bs @ [code]) @ [word_of_nat (length (render qs))] @ (render qs @ free)\<rparr>"
  have nz: "c_len c2 \<noteq> 0" using c(1,6) by simp
  have "end_pgi c2 = Enc ?c3" unfolding end_pgi_def v i using nz pk by simp
  then have "put_params mem [PGI code qs] c = Enc ?c3" using 1(1) 2(1) by simp
  moreover have "holds ?c3 (bs @ render [PGI code qs])" unfolding holds_def
    by (intro exI [of _ pre] exI [of _ free]) (use c in auto)
  ultimately show ?thesis using 2(3,5) by (intro exI [of _ ?c3]) simp
qed

lemma put_params_group:
  "put_params mem [PGI code qs] c = Enc c1 \<Longrightarrow> put_params mem (PGI code qs # ps) c = put_params mem ps c1"
  by (auto split: enc.splits)

lemma put_params_holds:
  "holds c bs \<Longrightarrow> plain ps \<Longrightarrow> int (length (render ps)) \<le> c_left c \<Longrightarrow>
   \<exists>c'. put_params mem ps c = Enc c' \<and> holds c' (bs @ render ps) \<and> c_allocli c' = c_allocli c
    \<and> c_left c' = c_left c - int (length (render ps))"
proof (induction ps arbitrary: c bs rule: plain.induct)
  case (2 code v ps)
  then have "int (length (render [PI code v])) \<le> c_left c" by simp
  from put2spdu_holds [OF "2.prems"(1) this, of mem] obtain c1 where
    1: "put2spdu mem code v c = Enc c1" "holds c1 (bs @ render [PI code v])" "c_allocli c1 = c_allocli c"
      "c_left c1 = c_left c - int (length (render [PI code v]))" by blast
  from "2.IH" [OF 1(2)] "2.prems" 1 show ?case by auto
next
  case (3 code qs ps)
  then have "int (length (render [PGI code qs])) \<le> c_left c" by simp
  from put_group_holds [OF "3.prems"(1) _ _ this, of mem] "3.prems"(2) obtain c1 where
    1: "put_params mem [PGI code qs] c = Enc c1" "holds c1 (bs @ render [PGI code qs])" "c_allocli c1 = c_allocli c"
      "c_left c1 = c_left c - int (length (render [PGI code qs]))" by auto
  from "3.IH" [OF 1(2)] "3.prems" 1 put_params_group [OF 1(1), of ps] show ?case by (auto simp del: put_params.simps)
qed auto

text \<open>
  The header. A short SPDU in a block laid out for a long header goes through the 256 octets on the
  stack with its two spare octets and its header, so that 252 octets are the most that fit.
\<close>

lemma end_spdu_holds:
  assumes "holds c out" "c_allocli c = c_left c + int (length out)"
    "c_allocli c > 254 \<Longrightarrow> length out \<le> 252 \<or> 255 \<le> length out"
  shows "end_spdu code c = Done (spdu code out)"
proof -
  obtain pre free where c: "c_top c = pre @ out @ free" "length pre = (if c_allocli c > 254 then 4 else 2)"
    "c_ptr c = length pre + length out" "c_left c = int (length free)" "c_li c = int (length out)"
    "c_len c = int (length (c_top c))" using assms(1) by (auto simp: holds_def)
  have nz: "c_len c \<noteq> 0" using c(1,2,6) by (auto split: if_splits)
  have e: "nat (int n + 4) = Suc (Suc (Suc (Suc n)))" "nat (int n + 2) = Suc (Suc n)" "nat (4 + int n) = 4 + n" for n by simp_all
  have u8: "int2u8 (int n) = Some (word_of_nat n)" if "n < 255" for n
    using that by (simp add: int2u8_def of_int_of_nat_eq)
  show ?thesis
  proof (cases "c_allocli c > 254")
    case True
    then have pre: "length pre = 4" using c(2) by simp
    then obtain h0 h1 h2 h3 where h: "pre = [h0, h1, h2, h3]" by (auto simp: length_Suc_conv numeral_eq_Suc)
    show ?thesis
    proof (cases "length out < 255")
      case False
      then show ?thesis using True nz c(1,5) h by (simp add: end_spdu_def spdu_def li_octets_def e)
    next
      case sh: True
      with assms(3) True have 252: "length out \<le> 252" by simp
      have free: "3 \<le> length free" using assms(2) True c(4) 252 by simp
      have nb: "c_len c - c_left c = int (4 + length out)" using c(1,4,6) pre by simp
      have t: "take (4 + length out) (drop 2 (c_top c)) = h2 # h3 # out @ take 2 free"
        using c(1) h by (simp add: numeral_eq_Suc)
      have "end_spdu code c = Done (take (nat (c_li c + 2)) (code # word_of_nat (length out) #
          drop 2 (take (4 + length out) (drop 2 (c_top c)) @ drop (4 + length out) (c_top c))))"
        unfolding end_spdu_def nb Let_def using True nz sh 252 free c(1,5) u8 [OF sh] h by (simp add: e(3))
      also have "\<dots> = Done (spdu code out)" unfolding t c(5) using sh by (simp add: spdu_def li_octets_def e)
      finally show ?thesis .
    qed
  next
    case False
    then have pre: "length pre = 2" and n: "length out < 255" using c(2,4) assms(2) by auto
    then obtain h0 h1 where "pre = [h0, h1]" by (auto simp: length_Suc_conv numeral_eq_Suc)
    then show ?thesis using False nz c(1,3,5) u8 [OF n] n by (simp add: end_spdu_def spdu_def li_octets_def)
  qed
qed

lemma start_spdu_holds:
  assumes "start_spdu mem s b = (c, s1)" "mem (spdu_size s b + (if spdu_size s b > 254 then 4 else 2))"
  shows "holds c []" "c_left c = spdu_size s b" "c_allocli c = spdu_size s b" "s1 = s\<lparr>s_errno := SC_ACCEPT\<rparr>"
proof -
  let ?n = "spdu_size s b" and ?h = "if spdu_size s b > 254 then 4 else 2"
  have ge: "254 \<le> ?n" by (simp add: spdu_size_def Let_def)
  have c: "c = \<lparr>c_top = replicate (nat (?n + ?h)) 0, c_ptr = nat ?h, c_pgi = 0, c_left = ?n, c_li = 0,
      c_allocli = ?n, c_len = ?n + ?h\<rparr>" "s1 = s\<lparr>s_errno := SC_ACCEPT\<rparr>"
    using assms by (auto simp: start_spdu_def Let_def)
  have "replicate (nat (?n + ?h)) 0 = replicate (nat ?h) (0 :: byte) @ [] @ replicate (nat ?n) 0"
    using ge by (simp add: replicate_add [symmetric] nat_add_distrib add.commute)
  then show "holds c []" unfolding holds_def c using ge
    by (intro exI [of _ "replicate (nat ?h) 0"] exI [of _ "replicate (nat ?n) 0"]) simp
  show "c_left c = ?n" "c_allocli c = ?n" "s1 = s\<lparr>s_errno := SC_ACCEPT\<rparr>" by (simp_all add: c)
qed

text \<open>The writer as a whole: within the room that \<^verbatim>\<open>start_spdu\<close> has estimated, it writes the rendering.\<close>

definition writable :: "(int \<Rightarrow> bool) \<Rightarrow> ssapkt \<Rightarrow> int \<Rightarrow> param list \<Rightarrow> bool" where
  "writable mem s b ps \<longleftrightarrow> plain ps \<and> int (length (render ps)) \<le> spdu_size s b
     \<and> mem (spdu_size s b + (if spdu_size s b > 254 then 4 else 2))
     \<and> (spdu_size s b > 254 \<longrightarrow> length (render ps) \<le> 252 \<or> 255 \<le> length (render ps))"

lemma spkt2tsdu_renders:
  assumes "spdu_case s = Some (b, ps)" "writable mem s b ps"
  shows "spkt2tsdu mem s = (Done (spdu (s_code s) (render ps)), s\<lparr>s_errno := SC_ACCEPT, s_li := int (length (render ps))\<rparr>)"
proof -
  obtain c s1 where st: "start_spdu mem s b = (c, s1)" by fastforce
  have w: "plain ps" "int (length (render ps)) \<le> spdu_size s b"
    "mem (spdu_size s b + (if spdu_size s b > 254 then 4 else 2))"
    "spdu_size s b > 254 \<Longrightarrow> length (render ps) \<le> 252 \<or> 255 \<le> length (render ps)"
    using assms(2) by (auto simp: writable_def)
  note h = start_spdu_holds [OF st w(3)]
  from put_params_holds [OF h(1) w(1), of mem] h(2,3) w(2) obtain c' where
    c': "put_params mem ps c = Enc c'" "holds c' (render ps)" "c_allocli c' = spdu_size s b"
      "c_left c' = spdu_size s b - int (length (render ps))" by auto
  have "end_spdu (s_code s) c' = Done (spdu (s_code s) (render ps))"
    using end_spdu_holds [OF c'(2)] c'(3,4) w(4) by simp
  moreover have "c_li c' = int (length (render ps))" using c'(2) by (auto simp: holds_def)
  ultimately show ?thesis using assms(1) st c'(1) h(4) by (simp add: spkt2tsdu_def)
qed

section \<open>What the reader takes apart\<close>

lemma and_255: "(x :: int) AND 255 = x mod 256"
proof -
  have "x AND 255 = x AND mask 8" by (simp add: mask_eq_exp_minus_1)
  then show ?thesis by (simp add: take_bit_eq_mask [symmetric] take_bit_eq_mod)
qed

lemma li_octets_value:
  assumes "n \<le> 65535" "\<not> n < 255"
  shows "\<exists>h l. li_octets n = [255, h, l] \<and> unat h * 256 + unat l = n"
proof -
  have "drop_bit 8 (int n) AND 0xff = int (n div 256)" "int n AND 0xff = int (n mod 256)"
    using assms(1) by (simp_all add: and_255 drop_bit_eq_div zdiv_int zmod_int)
  moreover have "unat (word_of_nat (n div 256) :: byte) = n div 256" "unat (word_of_nat (n mod 256) :: byte) = n mod 256"
    using assms(1) by (simp_all add: unat_of_nat take_bit_eq_mod)
  ultimately show ?thesis using assms(2) by (auto simp: li_octets_def)
qed

lemma advance_pull:
  assumes "r_base r = []" "concat (r_queue r) = bs @ rest" "length bs = n" "n \<le> SEGMENT_MAX"
  shows "\<exists>q. advance n r = (r\<lparr>r_base := bs, r_queue := q, r_nread := r_nread r + int n\<rparr>, True) \<and> concat q = rest"
proof -
  from pullqb_enough [of n "r_queue r"] assms obtain q where "pullqb n (r_queue r) = (Some bs, q)" "concat q = rest" by auto
  then show ?thesis using assms(1) by (intro exI [of _ q]) (simp add: advance_def)
qed

lemma read_head_top:
  assumes "r_base r = []" "concat (r_queue r) = code # li_octets n @ rest" "n \<le> 65535"
  shows "\<exists>q. read_head r = Head (code, n, if n < 255 then 2 else 4)
      (r\<lparr>r_base := [], r_queue := q, r_nread := r_nread r + (if n < 255 then 2 else 4)\<rparr>) \<and> concat q = rest"
proof (cases "n < 255")
  case True
  have l: "(word_of_nat n :: byte) \<noteq> 255" "unat (word_of_nat n :: byte) = n"
    using True by (simp_all add: word_unat_eq_iff unat_of_nat take_bit_eq_mod)
  from advance_pull [of r "[code, word_of_nat n]" rest 2] assms True obtain q where
    "advance 2 r = (r\<lparr>r_base := [code, word_of_nat n], r_queue := q, r_nread := r_nread r + 2\<rparr>, True)" "concat q = rest"
    by (auto simp: li_octets_def)
  with True l show ?thesis by (intro exI [of _ q]) (simp add: read_head_def)
next
  case False
  from li_octets_value [OF assms(3) False] obtain h l where hl: "li_octets n = [255, h, l]" "unat h * 256 + unat l = n" by blast
  from advance_pull [of r "[code, 255]" "h # l # rest" 2] assms hl obtain q1 where
    1: "advance 2 r = (r\<lparr>r_base := [code, 255], r_queue := q1, r_nread := r_nread r + 2\<rparr>, True)" "concat q1 = h # l # rest"
    by auto
  let ?r1 = "r\<lparr>r_base := [], r_queue := q1, r_nread := r_nread r + 2\<rparr>"
  have "\<exists>q. advance 2 ?r1 = (?r1\<lparr>r_base := [h, l], r_queue := q, r_nread := r_nread ?r1 + int 2\<rparr>, True) \<and> concat q = rest"
    by (rule advance_pull) (use 1(2) in simp_all)
  then obtain q2 where
    "advance 2 ?r1 = (?r1\<lparr>r_base := [h, l], r_queue := q2, r_nread := r_nread ?r1 + int 2\<rparr>, True)" "concat q2 = rest"
    by blast
  with 1 False hl(2) show ?thesis by (cases r) (auto simp: read_head_def intro!: exI [of _ q2])
qed

lemma read_head_nested:
  assumes "r_base r = code # word_of_nat n # rest" "n < 255"
  shows "read_head r = Head (code, n, 2) (r\<lparr>r_base := rest\<rparr>)"
proof -
  have "(word_of_nat n :: byte) \<noteq> 255" "unat (word_of_nat n :: byte) = n"
    using assms(2) by (simp_all add: word_unat_eq_iff unat_of_nat take_bit_eq_mod)
  then show ?thesis using assms(1) by (simp add: read_head_def advance_def)
qed

text \<open>
  What the reader makes of the parameters of a group, and of all the parameters, when it accepts them.
\<close>

definition is_group :: "byte \<Rightarrow> bool" where
  "is_group code \<longleftrightarrow> code = 33 \<or> code = 1 \<or> code = 5"

definition take_pi :: "(int \<Rightarrow> bool) \<Rightarrow> byte \<Rightarrow> int \<Rightarrow> byte \<Rightarrow> byte list \<Rightarrow> ssapkt \<Rightarrow> ssapkt option" where
  "take_pi mem si pmask code v s =
     (if s_errno s = SC_ACCEPT \<and> length v \<le> SEGMENT_MAX \<and> \<not> is_group code \<and> code_ok pmask code (length v) \<and> length_ok code (length v)
      then (case read_param mem si code (length v) s v of Some (s', []) \<Rightarrow> Some s' | _ \<Rightarrow> None)
      else None)"

fun take_pis :: "(int \<Rightarrow> bool) \<Rightarrow> byte \<Rightarrow> int \<Rightarrow> param list \<Rightarrow> ssapkt \<Rightarrow> ssapkt option" where
  "take_pis mem si pmask [] s = Some s"
| "take_pis mem si pmask (PI code v # ps) s =
     (if length v < 255
      then (case take_pi mem si pmask code v s of None \<Rightarrow> None | Some s1 \<Rightarrow> take_pis mem si pmask ps s1) else None)"
| "take_pis mem si pmask (_ # ps) s = None"

definition group_set :: "byte \<Rightarrow> ssapkt \<Rightarrow> ssapkt" where
  "group_set code s = (if code = 33 then Set SMASK_AR_OID s else if code = 1 then Set SMASK_CN_REF s else s)"

fun take_params :: "(int \<Rightarrow> bool) \<Rightarrow> byte \<Rightarrow> int \<Rightarrow> param list \<Rightarrow> ssapkt \<Rightarrow> ssapkt option" where
  "take_params mem si pmask [] s = Some s"
| "take_params mem si pmask (PI code v # ps) s =
     (case take_pi mem si pmask code v s of None \<Rightarrow> None | Some s1 \<Rightarrow> take_params mem si pmask ps s1)"
| "take_params mem si pmask (PGI code qs # ps) s =
     (if s_errno s = SC_ACCEPT \<and> is_group code \<and> code_ok pmask code (length (render qs)) \<and> length (render qs) < 255
      then (case take_pis mem si pmask qs (group_set code s) of None \<Rightarrow> None | Some s1 \<Rightarrow> take_params mem si pmask ps s1)
      else None)"
| "take_params mem si pmask (_ # ps) s = None"

lemma take_piD:
  assumes "take_pi mem si pmask code v s = Some s'"
  shows "s_errno s = SC_ACCEPT" "length v \<le> SEGMENT_MAX" "\<not> is_group code" "code_ok pmask code (length v)"
    "length_ok code (length v)" "read_param mem si code (length v) s (v @ w) = Some (s', w)"
  using assms read_param_app [of mem si code v s s' w]
  by (auto simp: take_pi_def split: if_splits option.splits prod.splits list.splits)

lemma read_step_head:
  assumes "read_head r = Head (code, li, x) r1" "code_ok pmask code li" "length_ok code li"
    "pg = (if r_pgilen r1 = 0 then r_pktlen r1 else r_pgilen r1)" "int li \<le> pg - x"
    "r2 = r1\<lparr>r_pktlen := r_pktlen r1 - (x + int li), r_pgilen := pg - x - int li\<rparr>"
    "(if li > 0 then advance li r2 else (r2, True)) = (r3, True)"
  shows "\<not> is_group code \<Longrightarrow> read_param mem si code li (r_s r3) (r_base r3) = Some (s', base) \<Longrightarrow>
      read_step mem si pmask r = (Some (r3\<lparr>r_s := s', r_base := base\<rparr>), True)"
    and "is_group code \<Longrightarrow>
      read_step mem si pmask r = (Some (r3\<lparr>r_s := group_set code (r_s r3),
        r_pktlen := r_pktlen r1 - (x + int li) + int li, r_pgilen := int li\<rparr>), True)"
proof -
  have n: "\<not> int li > pg - x" using assms(5) by simp
  note eqs = assms(1) Let_def head.case prod.case assms(4) [symmetric] assms(6) [symmetric] assms(7)
  show "read_step mem si pmask r = (Some (r3\<lparr>r_s := s', r_base := base\<rparr>), True)"
    if "\<not> is_group code" "read_param mem si code li (r_s r3) (r_base r3) = Some (s', base)"
    unfolding read_step_def eqs using n assms(2,3) that by (simp add: is_group_def)
  show "read_step mem si pmask r = (Some (r3\<lparr>r_s := group_set code (r_s r3),
        r_pktlen := r_pktlen r1 - (x + int li) + int li, r_pgilen := int li\<rparr>), True)" if "is_group code"
    unfolding read_step_def eqs using n assms(2,3) that by (simp add: is_group_def group_set_def)
qed

lemma pull_value:
  assumes "r_base r = []" "concat (r_queue r) = v @ rest" "length v \<le> SEGMENT_MAX"
  shows "\<exists>q. (if length v > 0 then advance (length v) r else (r, True)) =
      (r\<lparr>r_base := v, r_queue := q, r_nread := r_nread r + int (length v)\<rparr>, True) \<and> concat q = rest"
proof (cases "v = []")
  case True
  then have "r = r\<lparr>r_base := v, r_queue := r_queue r, r_nread := r_nread r + int (length v)\<rparr>" using assms(1) by (cases r) simp
  with True assms(2) show ?thesis by (intro exI [of _ "r_queue r"]) simp
qed (use advance_pull [OF assms(1,2) refl assms(3)] in simp)

lemma step_top:
  assumes "take_pi mem si pmask code v (r_s r) = Some s'" "r_base r = []"
    "concat (r_queue r) = render [PI code v] @ rest" "r_pgilen r = 0 \<or> r_pgilen r = r_pktlen r"
    "int (length (render [PI code v])) \<le> r_pktlen r"
  shows "\<exists>q. read_step mem si pmask r =
      (Some (r\<lparr>r_s := s', r_base := [], r_queue := q, r_nread := r_nread r + int (length (render [PI code v])),
         r_pktlen := r_pktlen r - int (length (render [PI code v])),
         r_pgilen := r_pktlen r - int (length (render [PI code v]))\<rparr>), True) \<and> concat q = rest"
proof -
  define x where "x = (if length v < 255 then 2 else 4 :: int)"
  note d = take_piD [OF assms(1)]
  have len: "int (length (render [PI code v])) = x + int (length v)" by (simp add: length_li_octets x_def)
  from read_head_top [OF assms(2), of code "length v" "v @ rest"] assms(3) d(2) obtain q1 where
    h: "read_head r = Head (code, length v, x) (r\<lparr>r_base := [], r_queue := q1, r_nread := r_nread r + x\<rparr>)" "concat q1 = v @ rest"
    by (auto simp: x_def)
  define r2 where "r2 = r\<lparr>r_base := [], r_queue := q1, r_nread := r_nread r + x, r_pktlen := r_pktlen r - (x + int (length v)),
    r_pgilen := r_pktlen r - x - int (length v)\<rparr>"
  have "\<exists>q. (if length v > 0 then advance (length v) r2 else (r2, True)) =
      (r2\<lparr>r_base := v, r_queue := q, r_nread := r_nread r2 + int (length v)\<rparr>, True) \<and> concat q = rest"
    by (rule pull_value) (use h(2) d(2) in \<open>simp_all add: r2_def\<close>)
  then obtain q where a: "(if length v > 0 then advance (length v) r2 else (r2, True)) =
      (r2\<lparr>r_base := v, r_queue := q, r_nread := r_nread r2 + int (length v)\<rparr>, True)" "concat q = rest" by blast
  have "read_step mem si pmask r = (Some (r2\<lparr>r_base := v, r_queue := q, r_nread := r_nread r2 + int (length v), r_s := s', r_base := []\<rparr>), True)"
    by (rule read_step_head(1) [OF h(1) d(4,5) _ _ _ a(1) d(3), of "r_pktlen r"])
      (use assms(4,5) len d(6) [of "[]"] in \<open>auto simp: r2_def\<close>)
  also have "r2\<lparr>r_base := v, r_queue := q, r_nread := r_nread r2 + int (length v), r_s := s', r_base := []\<rparr> =
      r\<lparr>r_s := s', r_base := [], r_queue := q, r_nread := r_nread r + int (length (render [PI code v])),
         r_pktlen := r_pktlen r - int (length (render [PI code v])),
         r_pgilen := r_pktlen r - int (length (render [PI code v]))\<rparr>"
    unfolding len r2_def by (cases r) simp
  finally show ?thesis using a(2) by blast
qed

lemma step_nested:
  assumes "take_pi mem si pmask code v (r_s r) = Some s'" "length v < 255" "r_base r = render [PI code v] @ rest"
    "r_pgilen r = int (length (r_base r))" "int (length (render [PI code v])) \<le> r_pktlen r"
  shows "read_step mem si pmask r =
      (Some (r\<lparr>r_s := s', r_base := rest, r_pktlen := r_pktlen r - int (length (render [PI code v])),
         r_pgilen := int (length rest)\<rparr>), True)"
proof -
  let ?n = "length v"
  note d = take_piD [OF assms(1)]
  have h: "read_head r = Head (code, ?n, 2) (r\<lparr>r_base := v @ rest\<rparr>)"
    using read_head_nested [of r code ?n "v @ rest"] assms(2,3) by (simp add: li_octets_def)
  have pl: "r_pgilen r = 2 + int ?n + int (length rest)" using assms(2,3,4) by (simp add: length_li_octets)
  show ?thesis unfolding read_step_def h using pl d(3,4,5) d(6) [of rest] assms(2)
    by (cases "v = []") (simp_all add: is_group_def Let_def length_li_octets advance_def)
qed

lemma loop_group:
  "take_pis mem si pmask qs (r_s r) = Some s' \<Longrightarrow> r_base r = render qs \<Longrightarrow> r_pgilen r = int (length (render qs)) \<Longrightarrow>
   r_pktlen r = int (length (render qs)) + k \<Longrightarrow> 0 \<le> k \<Longrightarrow>
   read_loop mem si pmask r = read_loop mem si pmask (r\<lparr>r_s := s', r_base := [], r_pktlen := k, r_pgilen := 0\<rparr>)"
proof (induction qs arbitrary: r rule: pis.induct)
  case (2 code v ps)
  from "2.prems"(1) obtain s1 where v: "length v < 255" and t: "take_pi mem si pmask code v (r_s r) = Some s1"
    "take_pis mem si pmask ps s1 = Some s'" by (auto split: if_splits option.splits)
  let ?r1 = "r\<lparr>r_s := s1, r_base := render ps, r_pktlen := r_pktlen r - int (length (render [PI code v])),
         r_pgilen := int (length (render ps))\<rparr>"
  have "read_step mem si pmask r = (Some ?r1, True)"
    using step_nested [OF t(1) v, of "render ps"] "2.prems" by simp
  moreover have "r_pktlen r \<noteq> 0" "s_errno (r_s r) = SC_ACCEPT" using "2.prems"(4,5) take_piD(1) [OF t(1)] by auto
  ultimately have "read_loop mem si pmask r = read_loop mem si pmask ?r1" by (subst read_loop.simps) simp
  also have "\<dots> = read_loop mem si pmask (?r1\<lparr>r_s := s', r_base := [], r_pktlen := k, r_pgilen := 0\<rparr>)"
    by (rule "2.IH") (use t(2) "2.prems"(4,5) in auto)
  finally show ?case by simp
next
  case 1
  then have "r\<lparr>r_s := s', r_base := [], r_pktlen := k, r_pgilen := 0\<rparr> = r" by (cases r) simp
  then show ?case by simp
qed auto

lemma step_group:
  assumes "s_errno (r_s r) = SC_ACCEPT" "is_group code" "code_ok pmask code (length (render qs))" "length (render qs) < 255"
    "r_base r = []" "concat (r_queue r) = render [PGI code qs] @ rest" "r_pgilen r = 0 \<or> r_pgilen r = r_pktlen r"
    "int (length (render [PGI code qs])) \<le> r_pktlen r"
  shows "\<exists>q. read_step mem si pmask r =
      (Some (r\<lparr>r_s := group_set code (r_s r), r_base := render qs, r_queue := q,
         r_nread := r_nread r + int (length (render [PGI code qs])), r_pktlen := r_pktlen r - 2,
         r_pgilen := int (length (render qs))\<rparr>), True) \<and> concat q = rest"
proof -
  define v where "v = render qs"
  from read_head_top [OF assms(5), of code "length v" "v @ rest"] assms(4,6) obtain q1 where
    h: "read_head r = Head (code, length v, 2) (r\<lparr>r_base := [], r_queue := q1, r_nread := r_nread r + 2\<rparr>)"
      "concat q1 = v @ rest" by (auto simp: li_octets_def v_def)
  define r2 where "r2 = r\<lparr>r_base := [], r_queue := q1, r_nread := r_nread r + 2, r_pktlen := r_pktlen r - (2 + int (length v)),
    r_pgilen := r_pktlen r - 2 - int (length v)\<rparr>"
  have "\<exists>q. (if length v > 0 then advance (length v) r2 else (r2, True)) =
      (r2\<lparr>r_base := v, r_queue := q, r_nread := r_nread r2 + int (length v)\<rparr>, True) \<and> concat q = rest"
    by (rule pull_value) (use h(2) assms(4) in \<open>simp_all add: r2_def v_def\<close>)
  then obtain q where a: "(if length v > 0 then advance (length v) r2 else (r2, True)) =
      (r2\<lparr>r_base := v, r_queue := q, r_nread := r_nread r2 + int (length v)\<rparr>, True)" "concat q = rest" by blast
  have lk: "length_ok code (length v)" using assms(2) by (auto simp: is_group_def length_ok_def pi_table_def)
  have c: "code_ok pmask code (length v)" using assms(3) by (simp add: v_def)
  let ?r3 = "r2\<lparr>r_base := v, r_queue := q, r_nread := r_nread r2 + int (length v)\<rparr>"
  have "read_step mem si pmask r = (Some (?r3\<lparr>r_s := group_set code (r_s ?r3),
      r_pktlen := r_pktlen (r\<lparr>r_base := [], r_queue := q1, r_nread := r_nread r + 2\<rparr>) - (2 + int (length v)) + int (length v),
      r_pgilen := int (length v)\<rparr>), True)"
    by (rule read_step_head(2) [OF h(1) c lk _ _ _ a(1) assms(2), of "r_pktlen r"])
      (use assms(7,8) in \<open>auto simp: r2_def v_def\<close>)
  also have "?r3\<lparr>r_s := group_set code (r_s ?r3),
      r_pktlen := r_pktlen (r\<lparr>r_base := [], r_queue := q1, r_nread := r_nread r + 2\<rparr>) - (2 + int (length v)) + int (length v),
      r_pgilen := int (length v)\<rparr> = r\<lparr>r_s := group_set code (r_s r), r_base := render qs, r_queue := q,
         r_nread := r_nread r + int (length (render [PGI code qs])), r_pktlen := r_pktlen r - 2,
         r_pgilen := int (length (render qs))\<rparr>"
    unfolding r2_def v_def by (cases r) simp
  finally show ?thesis using a(2) by blast
qed

lemma read_loop_takes:
  "take_params mem si pmask ps (r_s r) = Some s' \<Longrightarrow> r_base r = [] \<Longrightarrow> concat (r_queue r) = render ps @ rest \<Longrightarrow>
   r_pktlen r = int (length (render ps)) \<Longrightarrow> r_pgilen r = 0 \<or> r_pgilen r = r_pktlen r \<Longrightarrow>
   \<exists>r'. read_loop mem si pmask r = Some r' \<and> r_s r' = s' \<and> concat (r_queue r') = rest
     \<and> r_nread r' = r_nread r + int (length (render ps))"
proof (induction ps arbitrary: r rule: plain.induct)
  case 1
  then show ?case by (subst read_loop.simps) simp
next
  case (2 code v ps)
  from "2.prems"(1) obtain s1 where t: "take_pi mem si pmask code v (r_s r) = Some s1"
    "take_params mem si pmask ps s1 = Some s'" by (auto split: option.splits)
  from step_top [OF t(1) "2.prems"(2), of "render ps @ rest"] "2.prems" obtain q where
    st: "read_step mem si pmask r =
      (Some (r\<lparr>r_s := s1, r_base := [], r_queue := q, r_nread := r_nread r + int (length (render [PI code v])),
         r_pktlen := int (length (render ps)), r_pgilen := int (length (render ps))\<rparr>), True)" "concat q = render ps @ rest"
    by auto
  have "r_pktlen r \<noteq> 0" "s_errno (r_s r) = SC_ACCEPT" using "2.prems"(4) take_piD(1) [OF t(1)] by auto
  with st(1) have "read_loop mem si pmask r = read_loop mem si pmask
      (r\<lparr>r_s := s1, r_base := [], r_queue := q, r_nread := r_nread r + int (length (render [PI code v])),
         r_pktlen := int (length (render ps)), r_pgilen := int (length (render ps))\<rparr>)"
    by (subst read_loop.simps) simp
  with "2.IH" [of "r\<lparr>r_s := s1, r_base := [], r_queue := q, r_nread := r_nread r + int (length (render [PI code v])),
         r_pktlen := int (length (render ps)), r_pgilen := int (length (render ps))\<rparr>"] t(2) st(2)
  show ?case by auto
next
  case (3 code qs ps)
  from "3.prems"(1) obtain s1 where g: "s_errno (r_s r) = SC_ACCEPT" "is_group code"
    "code_ok pmask code (length (render qs))" "length (render qs) < 255"
    and t: "take_pis mem si pmask qs (group_set code (r_s r)) = Some s1" "take_params mem si pmask ps s1 = Some s'"
    by (auto split: option.splits if_splits)
  from step_group [OF g "3.prems"(2), of "render ps @ rest" mem si] "3.prems" obtain q where
    st: "read_step mem si pmask r =
      (Some (r\<lparr>r_s := group_set code (r_s r), r_base := render qs, r_queue := q,
         r_nread := r_nread r + int (length (render [PGI code qs])), r_pktlen := r_pktlen r - 2,
         r_pgilen := int (length (render qs))\<rparr>), True)" "concat q = render ps @ rest" by auto
  let ?r1 = "r\<lparr>r_s := group_set code (r_s r), r_base := render qs, r_queue := q,
         r_nread := r_nread r + int (length (render [PGI code qs])), r_pktlen := r_pktlen r - 2,
         r_pgilen := int (length (render qs))\<rparr>"
  let ?r2 = "?r1\<lparr>r_s := s1, r_base := [], r_pktlen := int (length (render ps)), r_pgilen := 0\<rparr>"
  have "r_pktlen r \<noteq> 0" using "3.prems"(4) by simp
  with st(1) g(1) have "read_loop mem si pmask r = read_loop mem si pmask ?r1" by (subst read_loop.simps) simp
  also have "\<dots> = read_loop mem si pmask ?r2"
    using loop_group [of mem si pmask qs ?r1 s1 "int (length (render ps))"] t(1) "3.prems"(4) by simp
  finally show ?case using "3.IH" [of ?r2] t(2) st(2) by auto
qed auto

end
