(* ===== verification/Spdu_Params.thy ===== *)
theory Spdu_Params
  imports Spdu_Codec
begin

text \<open>
  Every session protocol data unit that the writer can write is read back by the reader: the tables
  admit its parameters, each handler stores the value that was written, and the final checks pass.
\<close>

section \<open>The tables at the codes in use\<close>

lemma length_tables: "length pi_table = 56" "length si_table = 63"
  by (simp_all add: pi_table_def si_table_def)

lemma pi_at:
  "pi_table ! 1 = 12582913" "pi_table ! Suc 0 = 12582913" "pi_table ! 5 = 12582914" "pi_table ! 9 = 8390657" "pi_table ! 10 = 8390657"
  "pi_table ! 11 = 8390657" "pi_table ! 12 = 8390657" "pi_table ! 15 = 4" "pi_table ! 16 = 8"
  "pi_table ! 17 = 16" "pi_table ! 19 = 2" "pi_table ! 20 = 32" "pi_table ! 21 = 8388610"
  "pi_table ! 22 = 64" "pi_table ! 23 = 8388610" "pi_table ! 24 = 128" "pi_table ! 25 = 256"
  "pi_table ! 26 = 514" "pi_table ! 27 = 1024" "pi_table ! 33 = 12584960" "pi_table ! 41 = 8392704"
  "pi_table ! 42 = 8396800" "pi_table ! 46 = 8404992" "pi_table ! 49 = 8421376" "pi_table ! 50 = 8454144"
  "pi_table ! 51 = 8519680" "pi_table ! 52 = 8650752"
  by (simp_all add: pi_table_def)

lemma pi_length_at:
  "pi_length ! 9 = 64" "pi_length ! 10 = 64" "pi_length ! 11 = 64" "pi_length ! 12 = 4" "pi_length ! 15 = 1"
  "pi_length ! 16 = 1" "pi_length ! 17 = 1" "pi_length ! 19 = 1" "pi_length ! 20 = 2" "pi_length ! 21 = 4"
  "pi_length ! 22 = 1" "pi_length ! 23 = 6" "pi_length ! 24 = 1" "pi_length ! 25 = 1" "pi_length ! 26 = 1"
  "pi_length ! 27 = 1" "pi_length ! 41 = 6" "pi_length ! 42 = 6" "pi_length ! 46 = 65528"
  "pi_length ! 49 = 65528" "pi_length ! 50 = 513" "pi_length ! 51 = 64" "pi_length ! 52 = 64"
  by (simp_all add: pi_length_def)

lemma si_at:
  "si_table ! 1 = 524552" "si_table ! Suc 0 = 524552" "si_table ! 2 = 524552" "si_table ! 5 = 0" "si_table ! 7 = 128"
  "si_table ! 8 = 524544" "si_table ! 9 = 524560" "si_table ! 10 = 524544" "si_table ! 12 = 65905"
  "si_table ! 13 = 1966179" "si_table ! 14 = 917867" "si_table ! 21 = 0" "si_table ! 22 = 0"
  "si_table ! 25 = 622864" "si_table ! 26 = 0" "si_table ! 29 = 538880" "si_table ! 33 = 256"
  "si_table ! 34 = 533248" "si_table ! 41 = 532740" "si_table ! 42 = 532736" "si_table ! 45 = 528640"
  "si_table ! 48 = 590080" "si_table ! 49 = 532740" "si_table ! 50 = 24832" "si_table ! 53 = 534272"
  "si_table ! 57 = 65536" "si_table ! 58 = 0" "si_table ! 61 = 524544" "si_table ! 62 = 524544"
  by (simp_all add: si_table_def)

text \<open>An optional parameter sets a bit of the mask and a field, or neither.\<close>

lemma if_s_options: "(if b then Set k (t\<lparr>s_options := v\<rparr>) else t) =
    t\<lparr>s_mask := s_mask t \<union> (if b then {k} else {}), s_options := (if b then v else s_options t)\<rparr>" for t :: ssapkt
  by (simp add: Set_def)

lemma if_s_version: "(if b then Set k (t\<lparr>s_version := v\<rparr>) else t) =
    t\<lparr>s_mask := s_mask t \<union> (if b then {k} else {}), s_version := (if b then v else s_version t)\<rparr>" for t :: ssapkt
  by (simp add: Set_def)

lemma if_s_settings: "(if b then Set k (t\<lparr>s_settings := v\<rparr>) else t) =
    t\<lparr>s_mask := s_mask t \<union> (if b then {k} else {}), s_settings := (if b then v else s_settings t)\<rparr>" for t :: ssapkt
  by (simp add: Set_def)

lemma if_s_token: "(if b then Set k (t\<lparr>s_token := v\<rparr>) else t) =
    t\<lparr>s_mask := s_mask t \<union> (if b then {k} else {}), s_token := (if b then v else s_token t)\<rparr>" for t :: ssapkt
  by (simp add: Set_def)

lemma if_s_require: "(if b then Set k (t\<lparr>s_require := v\<rparr>) else t) =
    t\<lparr>s_mask := s_mask t \<union> (if b then {k} else {}), s_require := (if b then v else s_require t)\<rparr>" for t :: ssapkt
  by (simp add: Set_def)

lemma if_s_calling: "(if b then Set k (t\<lparr>s_calling := v\<rparr>) else t) =
    t\<lparr>s_mask := s_mask t \<union> (if b then {k} else {}), s_calling := (if b then v else s_calling t)\<rparr>" for t :: ssapkt
  by (simp add: Set_def)

lemma if_s_called: "(if b then Set k (t\<lparr>s_called := v\<rparr>) else t) =
    t\<lparr>s_mask := s_mask t \<union> (if b then {k} else {}), s_called := (if b then v else s_called t)\<rparr>" for t :: ssapkt
  by (simp add: Set_def)

lemma if_s_disconnect: "(if b then Set k (t\<lparr>s_disconnect := v\<rparr>) else t) =
    t\<lparr>s_mask := s_mask t \<union> (if b then {k} else {}), s_disconnect := (if b then v else s_disconnect t)\<rparr>" for t :: ssapkt
  by (simp add: Set_def)

lemma if_s_reflect: "(if b then Set k (t\<lparr>s_reflect := v\<rparr>) else t) =
    t\<lparr>s_mask := s_mask t \<union> (if b then {k} else {}), s_reflect := (if b then v else s_reflect t)\<rparr>" for t :: ssapkt
  by (simp add: Set_def)

lemma if_s_sync: "(if b then Set k (t\<lparr>s_sync := v\<rparr>) else t) =
    t\<lparr>s_mask := s_mask t \<union> (if b then {k} else {}), s_sync := (if b then v else s_sync t)\<rparr>" for t :: ssapkt
  by (simp add: Set_def)

lemma if_s_serial: "(if b then Set k (t\<lparr>s_serial := v\<rparr>) else t) =
    t\<lparr>s_mask := s_mask t \<union> (if b then {k} else {}), s_serial := (if b then v else s_serial t)\<rparr>" for t :: ssapkt
  by (simp add: Set_def)

lemma if_s_rs_type: "(if b then Set k (t\<lparr>s_rs_type := v\<rparr>) else t) =
    t\<lparr>s_mask := s_mask t \<union> (if b then {k} else {}), s_rs_type := (if b then v else s_rs_type t)\<rparr>" for t :: ssapkt
  by (simp add: Set_def)

lemma if_s_pr_type: "(if b then Set k (t\<lparr>s_pr_type := v\<rparr>) else t) =
    t\<lparr>s_mask := s_mask t \<union> (if b then {k} else {}), s_pr_type := (if b then v else s_pr_type t)\<rparr>" for t :: ssapkt
  by (simp add: Set_def)

lemma if_s_reason: "(if b then Set k (t\<lparr>s_reason := v\<rparr>) else t) =
    t\<lparr>s_mask := s_mask t \<union> (if b then {k} else {}), s_reason := (if b then v else s_reason t)\<rparr>" for t :: ssapkt
  by (simp add: Set_def)

lemma if_s_id: "(if b then Set k (t\<lparr>s_id := v\<rparr>) else t) =
    t\<lparr>s_mask := s_mask t \<union> (if b then {k} else {}), s_id := (if b then v else s_id t)\<rparr>" for t :: ssapkt
  by (simp add: Set_def)

lemma if_s_enclose: "(if b then Set k (t\<lparr>s_enclose := v\<rparr>) else t) =
    t\<lparr>s_mask := s_mask t \<union> (if b then {k} else {}), s_enclose := (if b then v else s_enclose t)\<rparr>" for t :: ssapkt
  by (simp add: Set_def)

lemma if_s_isn: "(if b then Set k (t\<lparr>s_isn := v\<rparr>) else t) =
    t\<lparr>s_mask := s_mask t \<union> (if b then {k} else {}), s_isn := (if b then v else s_isn t)\<rparr>" for t :: ssapkt
  by (simp add: Set_def)

lemma if_s_reference: "(if b then Set k (t\<lparr>s_reference := v\<rparr>) else t) =
    t\<lparr>s_mask := s_mask t \<union> (if b then {k} else {}), s_reference := (if b then v else s_reference t)\<rparr>" for t :: ssapkt
  by (simp add: Set_def)

lemma if_s_tsdu: "(if b then Set k (t\<lparr>s_tsdu_init := v, s_tsdu_resp := u\<rparr>) else t) =
    t\<lparr>s_mask := s_mask t \<union> (if b then {k} else {}), s_tsdu_init := (if b then v else s_tsdu_init t),
      s_tsdu_resp := (if b then u else s_tsdu_resp t)\<rparr>" for t :: ssapkt
  by (simp add: Set_def)

lemmas if_set = if_s_reference if_s_options if_s_version if_s_settings if_s_token if_s_require if_s_calling if_s_called if_s_disconnect if_s_reflect if_s_sync if_s_serial if_s_rs_type if_s_pr_type if_s_reason if_s_id if_s_enclose if_s_isn if_s_tsdu

section \<open>Reading what was written, parameter by parameter\<close>

lemma take_append:
  "take_params mem si pm (xs @ ys) t = (case take_params mem si pm xs t of None \<Rightarrow> None | Some u \<Rightarrow> take_params mem si pm ys u)"
  by (induction xs arbitrary: t rule: plain.induct) (auto split: option.splits)

lemma take_If: "take_params mem si pm (If_Set b xs) t = (if b then take_params mem si pm xs t else Some t)"
  by (simp add: If_Set_def)

lemma take_one: "take_params mem si pm [PI code v] t = take_pi mem si pm code v t"
  by (simp split: option.splits)

lemma if_Some: "(if b then Some x else Some y) = Some (if b then x else y)"
  by simp

lemma and_small: "b \<le> 1 \<Longrightarrow> b AND 1 = b" "b \<le> 3 \<Longrightarrow> b AND 3 = b" "b \<le> 15 \<Longrightarrow> b AND 15 = b" for b :: byte
proof -
  have n: "take_bit 1 b = b" if "b \<le> 1" using that by (simp add: word_unat_eq_iff take_bit_eq_mod unat_mod word_le_nat_alt)
  then show "b AND 1 = b" if "b \<le> 1" using that by (simp add: take_bit_eq_mask)
  have n: "take_bit 2 b = b" if "b \<le> 3" using that by (simp add: word_unat_eq_iff take_bit_eq_mod unat_mod word_le_nat_alt)
  then show "b AND 3 = b" if "b \<le> 3" using that by (simp add: take_bit_eq_mask mask_eq_exp_minus_1)
  have n: "take_bit 4 b = b" if "b \<le> 15" using that by (simp add: word_unat_eq_iff take_bit_eq_mod unat_mod word_le_nat_alt)
  then show "b AND 15 = b" if "b \<le> 15" using that by (simp add: take_bit_eq_mask mask_eq_exp_minus_1)
qed

lemmas tables_at = length_tables pi_at pi_length_at si_at

lemmas reads = take_pi_def code_ok_def length_ok_def is_group_def read_param_def octet_def octets_def tables_at

definition udata_ok :: "nat \<Rightarrow> ssapkt \<Rightarrow> bool" where
  "udata_ok n s \<longleftrightarrow> (case s_udata s of None \<Rightarrow> SMASK_UDATA_PGI \<notin> s_mask s
     | Some d \<Rightarrow> SMASK_UDATA_PGI \<in> s_mask s \<and> d \<noteq> [] \<and> length d \<le> n)"

definition bits :: "nat set \<Rightarrow> ssapkt \<Rightarrow> nat set" where
  "bits A s = A \<inter> s_mask s"

lemma take_enclose:
  assumes "s_errno t = SC_ACCEPT" "SMASK_ENCLOSE \<in> s_mask s \<longrightarrow> s_enclose s \<le> 3" "code_ok pm 25 1"
    "\<not> (si = SPDU_GT \<and> SMASK_SPDU_GT \<in> s_mask t)" "\<not> (si = SPDU_AB \<and> SMASK_SPDU_AB \<notin> s_mask t)"
  shows "take_params mem si pm (Put_Enclose s) t = Some (t\<lparr>s_mask := s_mask t \<union> (if 13 \<in> s_mask s then {13} else {}),
    s_enclose := (if 13 \<in> s_mask s then s_enclose s else s_enclose t)\<rparr>)"
proof (cases "13 \<in> s_mask s")
  case True
  then have "take_pi mem si pm 25 [s_enclose s] t = Some (Set 13 (t\<lparr>s_enclose := s_enclose s\<rparr>))"
    using assms and_small(2) [of "s_enclose s"]
    by (simp add: take_pi_def is_group_def length_ok_def tables_at read_param_def read_enclose_def octet_def)
  with True show ?thesis by (simp add: Put_Enclose_def take_If take_one Set_def)
next
  case False
  then show ?thesis by (simp add: Put_Enclose_def If_Set_def)
qed

lemma take_udata:
  assumes "s_errno t = SC_ACCEPT" "udata_ok 512 s" "pm AND PMASK_UDATA \<noteq> 0" "\<forall>n \<le> 70000. mem n"
    "\<not> (si = SPDU_AB \<and> SMASK_SPDU_AB \<notin> s_mask t)"
  shows "take_params mem si pm (Put_UData s) t = Some (t\<lparr>s_mask := s_mask t \<union> (if 14 \<in> s_mask s then {14} else {}),
    s_udata := (if 14 \<in> s_mask s then s_udata s else s_udata t)\<rparr>)"
proof (cases "s_udata s")
  case None
  then show ?thesis using assms(2) by (simp add: Put_UData_def udata_ok_def)
next
  case (Some d)
  then have "d \<noteq> []" "length d \<le> 512" "14 \<in> s_mask s" using assms(2) by (auto simp: udata_ok_def)
  then have "take_pi mem si pm 193 d t = Some (t\<lparr>s_mask := insert 14 (s_mask t), s_udata := Some d\<rparr>)"
    using assms by (auto simp: take_pi_def is_group_def length_ok_def code_ok_def tables_at read_param_def read_udata_def octets_def Set_def Let_def)
  then show ?thesis using Some \<open>14 \<in> s_mask s\<close> by (simp add: Put_UData_def split: option.splits)
qed

text \<open>
  What it means that the parameters \<open>f s\<close> are read back: the reader accepts them, starting from a packet \<open>t\<close>
  without parameters, and ends with a packet that has the same bits and the same parameters.
\<close>

definition reads_back :: "(int \<Rightarrow> bool) \<Rightarrow> (ssapkt \<Rightarrow> param list) \<Rightarrow> ssapkt \<Rightarrow> ssapkt \<Rightarrow> bool" where
  "reads_back mem f s t \<longleftrightarrow> (\<exists>u. take_params mem (s_code s) (si_table ! unat (s_code s)) (f s) t = Some u
     \<and> s_errno u = SC_ACCEPT \<and> s_code u = s_code s \<and> s_mask u = s_mask s \<and> f u = f s)"

definition enclose_ok :: "ssapkt \<Rightarrow> bool" where
  "enclose_ok s \<longleftrightarrow> (SMASK_ENCLOSE \<in> s_mask s \<longrightarrow> s_enclose s \<le> 3)"

text \<open>The packet before the loop.\<close>

definition fresh :: "byte \<Rightarrow> nat set \<Rightarrow> ssapkt \<Rightarrow> bool" where
  "fresh code m t \<longleftrightarrow> s_errno t = SC_ACCEPT \<and> s_code t = code \<and> s_mask t = m \<and> s_reference t = null_ref \<and> s_ar_oid t = []
     \<and> s_rdata t = None \<and> s_udata t = None \<and> length (s_reflect t) = 9"

text \<open>The enclosure item and the user data, which end most SPDUs.\<close>

definition with_tail :: "ssapkt \<Rightarrow> ssapkt \<Rightarrow> ssapkt" where
  "with_tail s t = t\<lparr>s_mask := s_mask t \<union> ({13, 14} \<inter> s_mask s), s_enclose := (if 13 \<in> s_mask s then s_enclose s else s_enclose t),
     s_udata := (if 14 \<in> s_mask s then s_udata s else s_udata t)\<rparr>"

lemma with_tail_simps [simp]:
  "s_errno (with_tail s t) = s_errno t" "s_code (with_tail s t) = s_code t" "s_reference (with_tail s t) = s_reference t"
  "s_mask (with_tail s t) = s_mask t \<union> ({13, 14} \<inter> s_mask s)"
  "s_disconnect (with_tail s t) = s_disconnect t" "s_token (with_tail s t) = s_token t" "s_sync (with_tail s t) = s_sync t"
  "s_serial (with_tail s t) = s_serial t" "s_settings (with_tail s t) = s_settings t" "s_rs_type (with_tail s t) = s_rs_type t"
  "s_reason (with_tail s t) = s_reason t" "s_id (with_tail s t) = s_id t" "s_ar_oid (with_tail s t) = s_ar_oid t"
  "s_reflect (with_tail s t) = s_reflect t" "s_rdata (with_tail s t) = s_rdata t"
  by (simp_all add: with_tail_def)

lemma take_tail:
  assumes "s_errno t = SC_ACCEPT" "enclose_ok s" "udata_ok 512 s" "\<forall>n \<le> 70000. mem n"
    "code_ok pm 25 1" "pm AND PMASK_UDATA \<noteq> 0"
    "\<not> (si = SPDU_GT \<and> SMASK_SPDU_GT \<in> s_mask t)" "\<not> (si = SPDU_AB \<and> SMASK_SPDU_AB \<notin> s_mask t)"
  shows "take_params mem si pm (Put_Enclose s @ Put_UData s) t = Some (with_tail s t)"
proof -
  let ?t1 = "t\<lparr>s_mask := s_mask t \<union> (if 13 \<in> s_mask s then {13} else {}), s_enclose := (if 13 \<in> s_mask s then s_enclose s else s_enclose t)\<rparr>"
  have "take_params mem si pm (Put_Enclose s) t = Some ?t1"
    by (rule take_enclose) (use assms in \<open>auto simp: enclose_ok_def\<close>)
  moreover have "take_params mem si pm (Put_UData s) ?t1 = Some (?t1\<lparr>s_mask := s_mask ?t1 \<union> (if 14 \<in> s_mask s then {14} else {}),
      s_udata := (if 14 \<in> s_mask s then s_udata s else s_udata ?t1)\<rparr>)"
    by (rule take_udata) (use assms in auto)
  moreover have "?t1\<lparr>s_mask := s_mask ?t1 \<union> (if 14 \<in> s_mask s then {14} else {}),
      s_udata := (if 14 \<in> s_mask s then s_udata s else s_udata ?t1)\<rparr> = with_tail s t"
    by (cases t; cases "13 \<in> s_mask s"; cases "14 \<in> s_mask s") (simp_all add: with_tail_def insert_commute)
  ultimately show ?thesis by (simp add: take_append)
qed

lemma back_tail:
  assumes "take_params mem (s_code s) (si_table ! unat (s_code s)) (h s) t = Some u"
    "s_errno u = SC_ACCEPT" "s_code u = s_code s" "s_mask u = s_mask s - {13, 14}" "s_udata u = None"
    "enclose_ok s" "udata_ok 512 s" "\<forall>n \<le> 70000. mem n"
    "code_ok (si_table ! unat (s_code s)) 25 1" "si_table ! unat (s_code s) AND PMASK_UDATA \<noteq> 0"
    "s_code s \<noteq> SPDU_GT" "s_code s = SPDU_AB \<longrightarrow> SMASK_SPDU_AB \<in> s_mask s" "h (with_tail s u) = h s"
  shows "reads_back mem (\<lambda>s. h s @ Put_Enclose s @ Put_UData s) s t"
proof -
  have "take_params mem (s_code s) (si_table ! unat (s_code s)) (Put_Enclose s @ Put_UData s) u = Some (with_tail s u)"
    by (rule take_tail) (use assms in auto)
  with assms(1) have "take_params mem (s_code s) (si_table ! unat (s_code s)) (h s @ Put_Enclose s @ Put_UData s) t = Some (with_tail s u)"
    by (simp add: take_append)
  moreover have "s_mask (with_tail s u) = s_mask s" using assms(4) by auto
  moreover from this have "Put_Enclose (with_tail s u) = Put_Enclose s" by (simp add: Put_Enclose_def If_Set_def with_tail_def)
  moreover have "Put_UData (with_tail s u) = Put_UData s"
    using assms(5,7) by (auto simp: Put_UData_def with_tail_def udata_ok_def split: option.splits)
  ultimately show ?thesis using assms(2,3,13) unfolding reads_back_def by (intro exI [of _ "with_tail s u"]) simp
qed

lemma data_back:
  assumes "s_code s \<in> {SPDU_DN, SPDU_NF, SPDU_CD, SPDU_CDA}" "enclose_ok s" "udata_ok 512 s" "\<forall>n \<le> 70000. mem n"
    "s_mask s \<subseteq> {13, 14}" "fresh (s_code s) {} t"
  shows "reads_back mem params_data s t"
proof -
  have "reads_back mem (\<lambda>s. [] @ Put_Enclose s @ Put_UData s) s t"
    by (rule back_tail [where u = t]) (use assms in \<open>auto simp: code_ok_def tables_at fresh_def\<close>)
  then show ?thesis by (simp add: params_data_def [abs_def])
qed

lemma FN_back:
  assumes "s_code s = SPDU_FN" "enclose_ok s" "udata_ok 512 s" "\<forall>n \<le> 70000. mem n"
    "s_mask s \<subseteq> {0, 13, 14}" "0 \<in> s_mask s \<longrightarrow> s_disconnect s \<le> 1" "fresh (s_code s) {} t"
  shows "reads_back mem params_FN s t"
proof -
  let ?h = "\<lambda>s. If_Set (SMASK_FN_DISC \<in> s_mask s) [PI 17 [s_disconnect s]]"
  have "reads_back mem (\<lambda>s. ?h s @ Put_Enclose s @ Put_UData s) s t"
    by (rule back_tail [where u = "if 0 \<in> s_mask s then Set 0 (t\<lparr>s_disconnect := s_disconnect s\<rparr>) else t"])
      (use assms in \<open>auto simp: reads fresh_def If_Set_def Set_def read_tdisc_def and_small\<close>)
  then show ?thesis by (simp add: params_FN_def [abs_def])
qed
lemma back_cong:
  assumes "reads_back mem g s t" "\<forall>u. s_mask u = s_mask s \<longrightarrow> f u = g u"
  shows "reads_back mem f s t"
  using assms unfolding reads_back_def by fastforce

lemma PT_back:
  assumes "s_code s = SPDU_PT" "enclose_ok s" "udata_ok 512 s" "\<forall>n \<le> 70000. mem n"
    "s_mask s \<subseteq> {0, 13, 14}" "fresh (s_code s) {} t"
  shows "reads_back mem params_PT s t"
proof -
  let ?h = "\<lambda>s. If_Set (SMASK_PT_TOKEN \<in> s_mask s) [PI 16 [s_token s]]"
  have "reads_back mem (\<lambda>s. ?h s @ Put_Enclose s @ Put_UData s) s t"
    by (rule back_tail [where u = "if 0 \<in> s_mask s then Set 0 (t\<lparr>s_token := s_token s\<rparr>) else t"])
      (use assms in \<open>auto simp: reads fresh_def If_Set_def Set_def read_token_def\<close>)
  then show ?thesis by (simp add: params_PT_def [abs_def])
qed

text \<open>Serial numbers are written in decimal and read back.\<close>

lemma digit_unat: "k < 10 \<Longrightarrow> unat (word_of_nat (48 + k) :: byte) = 48 + k"
  unfolding unat_of_nat by simp

lemma decimal_digits: "\<forall>c \<in> set (decimal n). 48 \<le> c \<and> c \<le> 57"
proof (induction n rule: decimal.induct)
  case (1 n)
  have d: "(48 :: byte) \<le> word_of_nat (48 + k) \<and> (word_of_nat (48 + k) :: byte) \<le> 57" if "k < 10" for k
    using digit_unat [OF that] that by (simp only: word_le_nat_alt) simp
  show ?case using 1 d [of n] d [of "n mod 10"] by (subst decimal.simps) auto
qed

lemma decimal_value: "foldl str2ssn_step 0 (decimal n) = n"
proof (induction n rule: decimal.induct)
  case (1 n)
  have "str2ssn_step u (word_of_nat (48 + k)) = u * 10 + k" if "k < 10" for u k
    unfolding str2ssn_step_def digit_unat [OF that] by simp
  from this [of n 0] this [of "n mod 10" "n div 10"] show ?case using 1 by (subst decimal.simps) (auto simp del: of_nat_add)
qed

lemma step_mono: "u \<le> foldl str2ssn_step u cs"
proof (induction cs arbitrary: u)
  case (Cons c cs)
  have "u \<le> str2ssn_step u c" by (simp add: str2ssn_step_def)
  with Cons.IH [of "str2ssn_step u c"] show ?case by simp
qed simp

lemma str2ssn_digits:
  "\<forall>c \<in> set cs. 48 \<le> c \<and> c \<le> 57 \<Longrightarrow> foldl str2ssn_step u cs \<le> 4294967295 \<Longrightarrow> str2ssn u cs = foldl str2ssn_step u cs"
proof (induction cs arbitrary: u)
  case (Cons c cs)
  have "str2ssn_step u c \<le> 4294967295" using step_mono [of "str2ssn_step u c" cs] Cons.prems(2) by simp
  then have "\<not> u > (4294967295 - (unat c - 48)) div 10" unfolding str2ssn_step_def by linarith
  moreover have "\<not> (c < 48 \<or> c > 57)" using Cons.prems(1) by auto
  ultimately show ?case using Cons by simp
qed simp

lemma str2ssn_decimal: "n \<le> 999999 \<Longrightarrow> str2ssn 0 (decimal n) = n"
  using str2ssn_digits [OF decimal_digits, of 0 n] by (simp add: decimal_value)

lemma length_decimal: "n < 10 ^ k \<Longrightarrow> 0 < k \<Longrightarrow> length (decimal n) \<le> k"
proof (induction k arbitrary: n)
  case (Suc k)
  show ?case
  proof (cases "n < 10")
    case False
    then have "n div 10 < 10 ^ k" "0 < k" using Suc.prems by (auto simp: div_less_iff_less_mult mult.commute) (cases k; simp)
    from Suc.IH [OF this] False show ?thesis by (subst decimal.simps) simp
  qed (subst decimal.simps, simp)
qed simp

lemma length_serial: "n \<le> 999999 \<Longrightarrow> length (decimal n) \<le> 6"
  using length_decimal [of n 6] by simp

lemma decimal_not_Nil: "decimal n \<noteq> []"
  by (subst decimal.simps) simp

lemma Put_SSN_eq: "n \<le> 999999 \<Longrightarrow> Put_SSN code n = [PI code (decimal n)]"
  by (simp add: Put_SSN_def SERIAL_MAX_def)

lemma take_serial:
  assumes "s_errno t = SC_ACCEPT" "n \<le> 999999" "code_ok pm 42 (length (decimal n))"
    "read_serial si (length (decimal n)) t (decimal n) = Some (Set k (t\<lparr>s_serial := str2ssn 0 (decimal n)\<rparr>), [])"
  shows "take_pi mem si pm 42 (decimal n) t = Some (Set k (t\<lparr>s_serial := n\<rparr>))"
  using assms length_serial [OF assms(2)]
  by (simp add: take_pi_def is_group_def length_ok_def tables_at read_param_def str2ssn_decimal)

lemma serial_code_ok: "pm AND 8396800 \<noteq> 0 \<Longrightarrow> code_ok pm 42 n"
  by (simp add: code_ok_def tables_at)

text \<open>The four synchronization SPDUs and the resynchronization ones.\<close>

lemma MIP_back:
  assumes "s_code s = SPDU_MIP" "enclose_ok s" "udata_ok 512 s" "\<forall>n \<le> 70000. mem n"
    "s_mask s \<subseteq> {0, 1, 13, 14}" "1 \<in> s_mask s" "0 \<in> s_mask s \<longrightarrow> s_sync s \<le> 1" "s_serial s \<le> 999999" "fresh (s_code s) {} t"
  shows "reads_back mem params_MIP s t"
proof -
  let ?h = "\<lambda>s. If_Set (SMASK_MIP_SYNC \<in> s_mask s) [PI 15 [s_sync s]] @ Put_SSN 42 (s_serial s)"
  let ?t = "if 0 \<in> s_mask s then Set 0 (t\<lparr>s_sync := s_sync s\<rparr>) else t"
  have ser: "take_pi mem SPDU_MIP 532740 42 (decimal (s_serial s)) ?t = Some (Set 1 (?t\<lparr>s_serial := s_serial s\<rparr>))"
    by (rule take_serial) (use assms in \<open>auto simp: fresh_def Set_def serial_code_ok read_serial_def octets_def\<close>)
  have "take_params mem SPDU_MIP 532740 (If_Set (SMASK_MIP_SYNC \<in> s_mask s) [PI 15 [s_sync s]]) t = Some ?t"
    using assms by (simp add: take_If take_one reads fresh_def read_sync_def and_small)
  with ser have "take_params mem (s_code s) (si_table ! unat (s_code s)) (?h s) t = Some (Set 1 (?t\<lparr>s_serial := s_serial s\<rparr>))"
    using assms by (simp add: take_append Put_SSN_eq tables_at)
  then have "reads_back mem (\<lambda>s. ?h s @ Put_Enclose s @ Put_UData s) s t"
    by (rule back_tail) (use assms in \<open>auto simp: code_ok_def tables_at fresh_def Set_def If_Set_def\<close>)
  then show ?thesis by (rule back_cong) (use assms in \<open>auto simp: params_MIP_def\<close>)
qed

lemma MAP_back:
  assumes "s_code s = SPDU_MAP" "enclose_ok s" "udata_ok 512 s" "\<forall>n \<le> 70000. mem n"
    "s_mask s \<subseteq> {0, 1, 13, 14}" "1 \<in> s_mask s" "0 \<in> s_mask s \<longrightarrow> s_sync s \<le> 1" "s_serial s \<le> 999999" "fresh (s_code s) {} t"
  shows "reads_back mem params_MAP s t"
proof -
  let ?h = "\<lambda>s. If_Set (SMASK_MAP_SYNC \<in> s_mask s) [PI 15 [s_sync s]] @ Put_SSN 42 (s_serial s)"
  let ?t = "if 0 \<in> s_mask s then Set 0 (t\<lparr>s_sync := s_sync s\<rparr>) else t"
  have ser: "take_pi mem SPDU_MAP 532740 42 (decimal (s_serial s)) ?t = Some (Set 1 (?t\<lparr>s_serial := s_serial s\<rparr>))"
    by (rule take_serial) (use assms in \<open>auto simp: fresh_def Set_def serial_code_ok read_serial_def octets_def\<close>)
  have "take_params mem SPDU_MAP 532740 (If_Set (SMASK_MAP_SYNC \<in> s_mask s) [PI 15 [s_sync s]]) t = Some ?t"
    using assms by (simp add: take_If take_one reads fresh_def read_sync_def and_small)
  with ser have "take_params mem (s_code s) (si_table ! unat (s_code s)) (?h s) t = Some (Set 1 (?t\<lparr>s_serial := s_serial s\<rparr>))"
    using assms by (simp add: take_append Put_SSN_eq tables_at)
  then have "reads_back mem (\<lambda>s. ?h s @ Put_Enclose s @ Put_UData s) s t"
    by (rule back_tail) (use assms in \<open>auto simp: code_ok_def tables_at fresh_def Set_def If_Set_def\<close>)
  then show ?thesis by (rule back_cong) (use assms in \<open>auto simp: params_MAP_def\<close>)
qed

lemma MAA_back:
  assumes "s_code s = SPDU_MAA" "enclose_ok s" "udata_ok 512 s" "\<forall>n \<le> 70000. mem n"
    "s_mask s \<subseteq> {0, 13, 14}" "0 \<in> s_mask s" "s_serial s \<le> 999999" "fresh (s_code s) {} t"
  shows "reads_back mem params_MAA s t"
proof -
  let ?h = "\<lambda>s. Put_SSN 42 (s_serial s)"
  have ser: "take_pi mem SPDU_MAA 532736 42 (decimal (s_serial s)) t = Some (Set 0 (t\<lparr>s_serial := s_serial s\<rparr>))"
    by (rule take_serial) (use assms in \<open>auto simp: fresh_def Set_def serial_code_ok read_serial_def octets_def\<close>)
  then have "take_params mem (s_code s) (si_table ! unat (s_code s)) (?h s) t = Some (Set 0 (t\<lparr>s_serial := s_serial s\<rparr>))"
    using assms by (simp add: Put_SSN_eq tables_at)
  then have "reads_back mem (\<lambda>s. ?h s @ Put_Enclose s @ Put_UData s) s t"
    by (rule back_tail) (use assms in \<open>auto simp: code_ok_def tables_at fresh_def Set_def If_Set_def\<close>)
  then show ?thesis by (rule back_cong) (use assms in \<open>auto simp: params_MAA_def\<close>)
qed

lemma RA_back:
  assumes "s_code s = SPDU_RA" "enclose_ok s" "udata_ok 512 s" "\<forall>n \<le> 70000. mem n"
    "s_mask s \<subseteq> {0, 1, 13, 14}" "1 \<in> s_mask s" "s_serial s \<le> 999999" "fresh (s_code s) {} t"
  shows "reads_back mem params_RA s t"
proof -
  let ?h = "\<lambda>s. If_Set (SMASK_RA_SET \<in> s_mask s) [PI 26 [s_settings s]] @ Put_SSN 42 (s_serial s)"
  let ?t = "if 0 \<in> s_mask s then Set 0 (t\<lparr>s_settings := s_settings s\<rparr>) else t"
  have ser: "take_pi mem SPDU_RA 533248 42 (decimal (s_serial s)) ?t = Some (Set 1 (?t\<lparr>s_serial := s_serial s\<rparr>))"
    by (rule take_serial) (use assms in \<open>auto simp: fresh_def Set_def serial_code_ok read_serial_def octets_def\<close>)
  have "take_params mem SPDU_RA 533248 (If_Set (SMASK_RA_SET \<in> s_mask s) [PI 26 [s_settings s]]) t = Some ?t"
    using assms by (simp add: take_If take_one reads fresh_def read_token_set_def)
  with ser have "take_params mem (s_code s) (si_table ! unat (s_code s)) (?h s) t = Some (Set 1 (?t\<lparr>s_serial := s_serial s\<rparr>))"
    using assms by (simp add: take_append Put_SSN_eq tables_at)
  then have "reads_back mem (\<lambda>s. ?h s @ Put_Enclose s @ Put_UData s) s t"
    by (rule back_tail) (use assms in \<open>auto simp: code_ok_def tables_at fresh_def Set_def If_Set_def\<close>)
  then show ?thesis by (rule back_cong) (use assms in \<open>auto simp: params_RA_def\<close>)
qed

lemma RS_back:
  assumes "s_code s = SPDU_RS" "enclose_ok s" "udata_ok 512 s" "\<forall>n \<le> 70000. mem n"
    "s_mask s \<subseteq> {0, 1, 2, 13, 14}" "{1, 2} \<subseteq> s_mask s" "s_rs_type s \<le> 2" "s_serial s \<le> 999999" "fresh (s_code s) {} t"
  shows "reads_back mem params_RS s t"
proof -
  let ?h = "\<lambda>s. If_Set (SMASK_RS_SET \<in> s_mask s) [PI 26 [s_settings s]] @ [PI 27 [s_rs_type s]] @ Put_SSN 42 (s_serial s)"
  let ?t = "if 0 \<in> s_mask s then Set 0 (t\<lparr>s_settings := s_settings s\<rparr>) else t"
  let ?u = "Set 1 (?t\<lparr>s_rs_type := s_rs_type s\<rparr>)"
  have ser: "take_pi mem SPDU_RS 534272 42 (decimal (s_serial s)) ?u = Some (Set 2 (?u\<lparr>s_serial := s_serial s\<rparr>))"
    by (rule take_serial) (use assms in \<open>auto simp: fresh_def Set_def serial_code_ok read_serial_def octets_def\<close>)
  have "take_params mem SPDU_RS 534272 (If_Set (SMASK_RS_SET \<in> s_mask s) [PI 26 [s_settings s]]) t = Some ?t"
    using assms by (simp add: take_If take_one reads fresh_def read_token_set_def)
  moreover have "s_errno ?t = SC_ACCEPT" using assms(9) by (simp add: fresh_def Set_def)
  then have "take_pi mem SPDU_RS 534272 27 [s_rs_type s] ?t = Some ?u"
    using assms(7) by (simp add: reads read_resync_def split del: if_split)
  ultimately have "take_params mem (s_code s) (si_table ! unat (s_code s)) (?h s) t = Some (Set 2 (?u\<lparr>s_serial := s_serial s\<rparr>))"
    using assms(1,8) ser by (simp add: take_append Put_SSN_eq tables_at split del: if_split)
  then have "reads_back mem (\<lambda>s. ?h s @ Put_Enclose s @ Put_UData s) s t"
    by (rule back_tail) (use assms in \<open>auto simp: code_ok_def tables_at fresh_def Set_def If_Set_def\<close>)
  then show ?thesis by (rule back_cong) (use assms in \<open>auto simp: params_RS_def\<close>)
qed

text \<open>The activity SPDUs.\<close>

lemma ED_back:
  assumes "s_code s = SPDU_ED" "enclose_ok s" "udata_ok 512 s" "\<forall>n \<le> 70000. mem n"
    "s_mask s \<subseteq> {0, 13, 14}" "0 \<in> s_mask s" "SP_OK (s_reason s)" "fresh (s_code s) {} t"
  shows "reads_back mem params_ED s t"
proof -
  let ?h = "\<lambda>s. [PI 50 [s_reason s]]"
  have "take_params mem (s_code s) (si_table ! unat (s_code s)) (?h s) t = Some (Set 0 (t\<lparr>s_reason := s_reason s\<rparr>))"
    using assms by (simp add: take_one reads fresh_def read_reason_def Let_def)
  then have "reads_back mem (\<lambda>s. ?h s @ Put_Enclose s @ Put_UData s) s t"
    by (rule back_tail) (use assms in \<open>auto simp: code_ok_def tables_at fresh_def Set_def\<close>)
  then show ?thesis by (rule back_cong) (use assms in \<open>auto simp: params_ED_def\<close>)
qed

lemma AS_back:
  assumes "s_code s = SPDU_AS" "enclose_ok s" "udata_ok 512 s" "\<forall>n \<le> 70000. mem n"
    "s_mask s \<subseteq> {0, 13, 14}" "0 \<in> s_mask s" "length (s_id s) \<le> 6" "fresh (s_code s) {} t"
  shows "reads_back mem params_AS s t"
proof -
  let ?h = "\<lambda>s. [PI 41 (s_id s)]"
  have "take_params mem (s_code s) (si_table ! unat (s_code s)) (?h s) t = Some (Set 0 (t\<lparr>s_id := s_id s\<rparr>))"
    using assms by (simp add: take_one reads fresh_def read_act_id_def)
  then have "reads_back mem (\<lambda>s. ?h s @ Put_Enclose s @ Put_UData s) s t"
    by (rule back_tail) (use assms in \<open>auto simp: code_ok_def tables_at fresh_def Set_def\<close>)
  then show ?thesis by (rule back_cong) (use assms in \<open>auto simp: params_AS_def\<close>)
qed

lemma AB_back:
  assumes "s_code s = SPDU_AB" "enclose_ok s" "udata_ok 512 s" "\<forall>n \<le> 70000. mem n"
    "s_mask s \<subseteq> {0, 1, 2, 13, 14}" "{0, 2} \<subseteq> s_mask s" "s_disconnect s \<le> 15" "length (s_reflect s) = 9" "fresh (s_code s) {2} t"
  shows "reads_back mem params_AB s t"
proof -
  let ?h = "\<lambda>s. [PI 17 [s_disconnect s]] @ If_Set (SMASK_AB_REFL \<in> s_mask s) [PI 49 (s_reflect s)]"
  let ?u = "Set 0 (t\<lparr>s_disconnect := s_disconnect s\<rparr>)"
  have "take_pi mem SPDU_AB 622864 17 [s_disconnect s] t = Some ?u"
    using assms by (simp add: reads fresh_def read_tdisc_def and_small)
  moreover have "take_pi mem SPDU_AB 622864 49 (s_reflect s) ?u = Some (Set 1 (?u\<lparr>s_reflect := s_reflect s\<rparr>))"
    using assms by (simp add: reads fresh_def read_reflect_def Set_def)
  ultimately have "take_params mem (s_code s) (si_table ! unat (s_code s)) (?h s) t =
      Some (if 1 \<in> s_mask s then Set 1 (?u\<lparr>s_reflect := s_reflect s\<rparr>) else ?u)"
    using assms(1) by (simp add: take_If take_one take_append tables_at)
  then have "reads_back mem (\<lambda>s. ?h s @ Put_Enclose s @ Put_UData s) s t"
    by (rule back_tail) (use assms in \<open>auto simp: code_ok_def tables_at fresh_def Set_def If_Set_def\<close>)
  then show ?thesis by (rule back_cong) (use assms in \<open>auto simp: params_AB_def\<close>)
qed

text \<open>The SPDUs without user data.\<close>

lemma back_end:
  assumes "take_params mem (s_code s) (si_table ! unat (s_code s)) (f s) t = Some u"
    "s_errno u = SC_ACCEPT" "s_code u = s_code s" "s_mask u = s_mask s" "f u = f s"
  shows "reads_back mem f s t"
  using assms unfolding reads_back_def by blast

lemma none_back:
  assumes "s_mask s = m" "fresh (s_code s) m t"
  shows "reads_back mem (\<lambda>s. []) s t"
  by (rule back_end [where u = t]) (use assms in \<open>auto simp: fresh_def\<close>)

lemma AI_back:
  assumes "s_code s = SPDU_AB" "s_mask s \<subseteq> {0}" "0 \<in> s_mask s \<longrightarrow> SP_OK (s_reason s)" "fresh (s_code s) {} t"
  shows "reads_back mem params_AB s t"
  by (rule back_end [where u = "if 0 \<in> s_mask s then Set 0 (t\<lparr>s_reason := s_reason s\<rparr>) else t"])
    (use assms in \<open>auto simp: params_AB_def take_If take_one reads fresh_def read_reason_def Set_def If_Set_def Let_def\<close>)

lemma AD_back:
  assumes "s_code s = SPDU_AD" "s_mask s \<subseteq> {0}" "0 \<in> s_mask s \<longrightarrow> SP_OK (s_reason s)" "fresh (s_code s) {} t"
  shows "reads_back mem params_AD s t"
  by (rule back_end [where u = "if 0 \<in> s_mask s then Set 0 (t\<lparr>s_reason := s_reason s\<rparr>) else t"])
    (use assms in \<open>auto simp: params_AD_def take_If take_one reads fresh_def read_reason_def Set_def If_Set_def Let_def\<close>)

lemma PR_back:
  assumes "s_code s = SPDU_PR" "s_mask s = {0}" "s_pr_type s \<le> 4" "fresh (s_code s) {} t"
  shows "reads_back mem params_PR s t"
  by (rule back_end [where u = "Set 0 (t\<lparr>s_pr_type := s_pr_type s\<rparr>)"])
    (use assms in \<open>auto simp: params_PR_def take_one reads fresh_def read_prepare_def Set_def\<close>)

lemma GT_back:
  assumes "s_code s = SPDU_GT" "s_mask s \<subseteq> {0, 1}" "1 \<in> s_mask s" "fresh (s_code s) {1} t"
  shows "reads_back mem params_GT s t"
  by (rule back_end [where u = "if 0 \<in> s_mask s then Set 0 (t\<lparr>s_token := s_token s\<rparr>) else t"])
    (use assms in \<open>auto simp: params_GT_def take_If take_one reads fresh_def read_token_def Set_def If_Set_def\<close>)

lemma enclose_back:
  assumes "s_code s \<in> {SPDU_GT, SPDU_TD}" "s_mask s \<subseteq> {13}" "enclose_ok s" "fresh (s_code s) {} t"
  shows "reads_back mem Put_Enclose s t"
proof -
  let ?u = "t\<lparr>s_mask := s_mask t \<union> (if 13 \<in> s_mask s then {13} else {}), s_enclose := (if 13 \<in> s_mask s then s_enclose s else s_enclose t)\<rparr>"
  have "take_params mem (s_code s) (si_table ! unat (s_code s)) (Put_Enclose s) t = Some ?u"
    by (rule take_enclose) (use assms in \<open>auto simp: fresh_def enclose_ok_def code_ok_def tables_at\<close>)
  then show ?thesis
    by (rule back_end) (use assms in \<open>auto simp: fresh_def Put_Enclose_def If_Set_def\<close>)
qed

lemma MIA_back:
  assumes "s_code s = SPDU_MIA" "enclose_ok s" "udata_ok 65400 s" "\<forall>n \<le> 70000. mem n"
    "s_mask s \<subseteq> {0, 13, 14}" "0 \<in> s_mask s" "s_serial s \<le> 999999" "fresh (s_code s) {} t"
  shows "reads_back mem params_MIA s t"
proof -
  let ?t = "Set 0 (t\<lparr>s_serial := s_serial s\<rparr>)"
  let ?u = "?t\<lparr>s_mask := s_mask ?t \<union> (if 13 \<in> s_mask s then {13} else {}), s_enclose := (if 13 \<in> s_mask s then s_enclose s else s_enclose ?t)\<rparr>"
  have ser: "take_pi mem SPDU_MIA 24832 42 (decimal (s_serial s)) t = Some ?t"
    by (rule take_serial) (use assms in \<open>auto simp: fresh_def Set_def serial_code_ok read_serial_def octets_def\<close>)
  have enc: "take_params mem SPDU_MIA 24832 (Put_Enclose s) ?t = Some ?u"
    by (rule take_enclose) (use assms in \<open>auto simp: fresh_def enclose_ok_def code_ok_def tables_at Set_def\<close>)
  have dat: "take_params mem SPDU_MIA 24832 (Put_MData s) ?u =
      Some (if 14 \<in> s_mask s then ?u\<lparr>s_mask := insert 14 (s_mask ?u), s_udata := s_udata s\<rparr> else ?u)"
    using assms(3,4,8)
    by (cases "s_udata s") (simp_all add: udata_ok_def Put_MData_def take_one reads read_udata_def fresh_def Set_def Let_def)
  have f: "params_MIA v = Put_SSN 42 (s_serial v) @ Put_Enclose v @ Put_MData v" if "0 \<in> s_mask v" for v
    using that by (simp add: params_MIA_def)
  show ?thesis
  proof (rule back_end)
    show "take_params mem (s_code s) (si_table ! unat (s_code s)) (params_MIA s) t =
        Some (if 14 \<in> s_mask s then ?u\<lparr>s_mask := insert 14 (s_mask ?u), s_udata := s_udata s\<rparr> else ?u)" (is "_ = Some ?w")
      using assms(1,7) ser enc dat by (simp add: f [OF assms(6)] take_append Put_SSN_eq tables_at split del: if_split)
    show "s_mask ?w = s_mask s" using assms(5,6,8) by (auto simp: fresh_def Set_def)
    then show "params_MIA ?w = params_MIA s" using assms(3,6,8)
      by (auto simp: params_MIA_def Put_Enclose_def Put_MData_def If_Set_def fresh_def Set_def udata_ok_def split: option.splits)
  qed (use assms in \<open>auto simp: fresh_def Set_def\<close>)
qed
end
