(* ===== verification/Spdu_Groups.thy ===== *)
theory Spdu_Groups
  imports Spdu_Params
begin

text \<open>
  The SPDUs with groups of parameters: connect, accept, refuse and activity resume.
\<close>

section \<open>Numbers in several octets\<close>


lemma from_be16: "from_be16 (be16 w) = w"
  unfolding from_be16_def be16_def
  by (rule bit_word_eqI) (auto simp: bit_simps less_Suc_eq_le)

lemma from_be32: "from_be32 (be32 w) = w"
  unfolding from_be32_def be32_def
proof (rule bit_word_eqI)
  fix n assume n: "n < LENGTH(32)"
  consider "n < 8" | "8 \<le> n" "n < 16" | "16 \<le> n" "n < 24" | "24 \<le> n" "n < 32" using n by fastforce
  then show "bit (push_bit 24 (ucast ([ucast (drop_bit 24 w), ucast (drop_bit 16 w), ucast (drop_bit 8 w), ucast w] ! 0 :: byte)) OR
         push_bit 16 (ucast ([ucast (drop_bit 24 w), ucast (drop_bit 16 w), ucast (drop_bit 8 w), ucast w] ! 1 :: byte)) OR
         push_bit 8 (ucast ([ucast (drop_bit 24 w), ucast (drop_bit 16 w), ucast (drop_bit 8 w), ucast w] ! 2 :: byte)) OR
         ucast ([ucast (drop_bit 24 w), ucast (drop_bit 16 w), ucast (drop_bit 8 w), ucast w] ! 3 :: byte) :: 32 word) n \<longleftrightarrow> bit w n"
    by cases (auto simp: bit_simps)
qed

lemma halves: "ucast (drop_bit 16 (push_bit 16 (ucast i) OR ucast r :: 32 word) AND 0xffff) = i"
  "ucast ((push_bit 16 (ucast i) OR ucast r :: 32 word) AND 0xffff) = r" for i r :: "16 word"
proof -
  have e: "(0xffff :: 32 word) = mask 16" by (simp add: mask_eq_exp_minus_1)
  show "ucast (drop_bit 16 (push_bit 16 (ucast i) OR ucast r :: 32 word) AND 0xffff) = i"
    unfolding e by (rule bit_word_eqI) (auto simp: bit_simps dest: bit_imp_le_length)
  show "ucast ((push_bit 16 (ucast i) OR ucast r :: 32 word) AND 0xffff) = r"
    unfolding e by (rule bit_word_eqI) (auto simp: bit_simps dest: bit_imp_le_length)
qed

section \<open>Groups\<close>

lemma If_Set_cong: "b = b' \<Longrightarrow> (b' \<Longrightarrow> ps = ps') \<Longrightarrow> If_Set b ps = If_Set b' ps'"
  by (simp add: If_Set_def)

lemma take_pis_append:
  "take_pis mem si pm (xs @ ys) t = (case take_pis mem si pm xs t of None \<Rightarrow> None | Some u \<Rightarrow> take_pis mem si pm ys u)"
  by (induction xs arbitrary: t rule: pis.induct) (auto split: option.splits)

lemma take_pis_If: "take_pis mem si pm (If_Set b xs) t = (if b then take_pis mem si pm xs t else Some t)"
  by (simp add: If_Set_def)

lemma take_pis_one: "length v < 255 \<Longrightarrow> take_pis mem si pm [PI code v] t = take_pi mem si pm code v t"
  by (simp split: option.splits)

lemma render_append: "pis xs \<Longrightarrow> render (xs @ ys) = render xs @ render ys"
  by (induction xs rule: pis.induct) auto

lemma pis_append: "pis (xs @ ys) \<longleftrightarrow> pis xs \<and> pis ys"
  by (induction xs rule: pis.induct) auto

lemma pis_If: "pis (If_Set b xs) \<longleftrightarrow> (b \<longrightarrow> pis xs)"
  by (simp add: If_Set_def)

lemma render_If: "length (render (If_Set b xs)) = (if b then length (render xs) else 0)"
  by (simp add: If_Set_def)

lemmas sizes = render_append pis_append pis_If render_If length_li_octets

definition ref_ok :: "SSAPref \<Rightarrow> bool" where
  "ref_ok r \<longleftrightarrow> length (sr_udata r) \<le> 64 \<and> length (sr_cdata r) \<le> 64 \<and> length (sr_adata r) \<le> 4"

definition ref_items :: "SSAPref \<Rightarrow> byte \<Rightarrow> param list" where
  "ref_items r code =
     If_Set (sr_udata r \<noteq> []) [PI code (sr_udata r)]
      @ If_Set (sr_cdata r \<noteq> []) [PI 11 (sr_cdata r)]
      @ If_Set (sr_adata r \<noteq> []) [PI 12 (sr_adata r)]"

lemma ref_items_size: "ref_ok r \<Longrightarrow> pis (ref_items r code) \<and> length (render (ref_items r code)) < 140"
  by (simp add: ref_items_def ref_ok_def sizes)

definition ref_users :: "(byte \<times> int \<times> byte) set" where
  "ref_users = {(SPDU_CN, 1966179, 10), (SPDU_AC, 917867, 9), (SPDU_RF, 65905, 9)}"

lemma take_ref:
  assumes "s_errno t = SC_ACCEPT" "ref_ok r" "s_reference t = null_ref" "(si, pm, code) \<in> ref_users"
  shows "take_params mem si pm (Put_Ref r code) t = Some (Set 0 (t\<lparr>s_reference := r\<lparr>sr_vdata := []\<rparr>\<rparr>))"
proof -
  let ?t = "Set 0 t"
  let ?u1 = "?t\<lparr>s_reference := null_ref\<lparr>sr_udata := sr_udata r\<rparr>\<rparr>"
  let ?u2 = "?u1\<lparr>s_reference := null_ref\<lparr>sr_udata := sr_udata r, sr_cdata := sr_cdata r\<rparr>\<rparr>"
  let ?u3 = "?u2\<lparr>s_reference := r\<lparr>sr_vdata := []\<rparr>\<rparr>"
  have gs: "group_set 1 t = ?t" by (simp add: group_set_def)
  have k: "si = SPDU_CN \<or> si = SPDU_AC \<or> si = SPDU_RF" "si \<noteq> SPDU_AR" "pm AND 8390657 \<noteq> 0" "pm AND 12582913 \<noteq> 0" "code = 9 \<or> code = 10"
    using assms(4) by (auto simp: ref_users_def)
  have 1: "take_pis mem si pm (If_Set (sr_udata r \<noteq> []) [PI code (sr_udata r)]) ?t = Some ?u1"
    using assms(1,2,3) k(1,2,3,5) by (auto simp: take_pis_If take_pis_one ref_ok_def reads read_user_ref_def Set_def null_ref_def)
  have 2: "take_pis mem si pm (If_Set (sr_cdata r \<noteq> []) [PI 11 (sr_cdata r)]) ?u1 = Some ?u2"
    using assms(1,2,3) k(1,2,3,5) by (auto simp: take_pis_If take_pis_one ref_ok_def reads read_common_ref_def Set_def null_ref_def)
  have 3: "take_pis mem si pm (If_Set (sr_adata r \<noteq> []) [PI 12 (sr_adata r)]) ?u2 = Some ?u3"
    using assms(1,2,3) k(1,2,3,5) by (cases r) (auto simp: take_pis_If take_pis_one ref_ok_def reads read_add_info_def Set_def null_ref_def)
  have items: "take_pis mem si pm (ref_items r code) ?t = Some ?u3"
    unfolding ref_items_def by (simp only: take_pis_append 1 2 3 option.case)
  have "take_params mem si pm (Put_Ref r code) t = Some ?u3"
    unfolding Put_Ref_def ref_items_def [symmetric]
    using assms(1) k(4) items ref_items_size [OF assms(2), of code] gs
    by (simp add: is_group_def code_ok_def tables_at)
  then show ?thesis by (simp add: Set_def)
qed

text \<open>The connect/accept items.\<close>

definition item_list :: "ssapkt \<Rightarrow> param list" where
  "item_list s =
     If_Set (SMASK_CN_OPT \<in> s_mask s) [PI 19 [s_options s]]
     @ If_Set (SMASK_CN_TSDU \<in> s_mask s) [PI 21 (be32 (push_bit 16 (ucast (s_tsdu_init s)) OR ucast (s_tsdu_resp s)))]
     @ If_Set (SMASK_CN_VRSN \<in> s_mask s) [PI 22 [s_version s]]
     @ If_Set (SMASK_CN_ISN \<in> s_mask s) [PI 23 (decimal (s_isn s))]
     @ If_Set (SMASK_CN_SET \<in> s_mask s) [PI 26 [s_settings s]]"

definition items_ok :: "ssapkt \<Rightarrow> bool" where
  "items_ok s \<longleftrightarrow> (1 \<in> s_mask s \<longrightarrow> s_options s \<le> 1) \<and> (4 \<in> s_mask s \<longrightarrow> s_isn s \<le> 999999)"

lemma cn_items_eq: "items_ok s \<Longrightarrow> cn_items s = If_Set ({1, 2, 3, 4, 5} \<inter> s_mask s \<noteq> {}) [PGI 5 (item_list s)]"
  by (simp add: cn_items_def item_list_def items_ok_def Put_SSN_eq cong: If_Set_cong)

lemma length_be: "length (be16 v) = 2" "length (be32 w) = 4"
  by (simp_all add: be16_def be32_def)

lemma item_list_size: "items_ok s \<Longrightarrow> pis (item_list s) \<and> length (render (item_list s)) \<le> 23"
  using length_serial [of "s_isn s"] by (auto simp: item_list_def items_ok_def sizes length_be)

definition with_items :: "ssapkt \<Rightarrow> ssapkt \<Rightarrow> ssapkt" where
  "with_items s t = t\<lparr>s_mask := s_mask t \<union> ({1, 2, 3, 4, 5} \<inter> s_mask s),
     s_options := (if 1 \<in> s_mask s then s_options s else s_options t),
     s_tsdu_init := (if 2 \<in> s_mask s then s_tsdu_init s else s_tsdu_init t),
     s_tsdu_resp := (if 2 \<in> s_mask s then s_tsdu_resp s else s_tsdu_resp t),
     s_version := (if 3 \<in> s_mask s then s_version s else s_version t),
     s_isn := (if 4 \<in> s_mask s then s_isn s else s_isn t),
     s_settings := (if 5 \<in> s_mask s then s_settings s else s_settings t)\<rparr>"

lemma with_items_simps [simp]:
  "s_errno (with_items s t) = s_errno t" "s_code (with_items s t) = s_code t" "s_reference (with_items s t) = s_reference t"
  "s_mask (with_items s t) = s_mask t \<union> ({1, 2, 3, 4, 5} \<inter> s_mask s)" "s_udata (with_items s t) = s_udata t"
  by (simp_all add: with_items_def)

lemma octets_all: "octets (length v) f v = Some (f v, [])"
  by (simp add: octets_def)

lemma take_item_list:
  assumes "s_errno t = SC_ACCEPT" "items_ok s" "(si, pm) \<in> {(SPDU_CN, 1966179), (SPDU_AC, 917867)}"
  shows "take_pis mem si pm (item_list s) t = Some (with_items s t)"
proof -
  define wa where "wa = (if 1 \<in> s_mask s then Set 1 (t\<lparr>s_options := s_options s\<rparr>) else t)"
  define wb where "wb = (if 2 \<in> s_mask s then Set 2 (wa\<lparr>s_tsdu_init := s_tsdu_init s, s_tsdu_resp := s_tsdu_resp s\<rparr>) else wa)"
  define wc where "wc = (if 3 \<in> s_mask s then Set 3 (wb\<lparr>s_version := s_version s\<rparr>) else wb)"
  define wd where "wd = (if 4 \<in> s_mask s then Set 4 (wc\<lparr>s_isn := s_isn s\<rparr>) else wc)"
  define we where "we = (if 5 \<in> s_mask s then Set 5 (wd\<lparr>s_settings := s_settings s\<rparr>) else wd)"
  have k: "si = SPDU_CN \<or> si = SPDU_AC" "pm AND 8388610 \<noteq> 0" "pm AND 2 \<noteq> 0" "pm AND 64 \<noteq> 0" "pm AND 514 \<noteq> 0" using assms(3) by auto
  have one: "take_pis mem si pm (If_Set b [PI c v]) u = Some (if b then w else u)"
    if "b \<Longrightarrow> take_pi mem si pm c v u = Some w" "b \<Longrightarrow> length v < 255" for b c v u w
    using that by (cases b) (auto simp: take_pis_If take_pis_one)
  have er: "s_errno wa = SC_ACCEPT" "s_errno wb = SC_ACCEPT" "s_errno wc = SC_ACCEPT" "s_errno wd = SC_ACCEPT"
    using assms(1) by (simp_all add: wa_def wb_def wc_def wd_def Set_def)
  have a: "take_pis mem si pm (If_Set (SMASK_CN_OPT \<in> s_mask s) [PI 19 [s_options s]]) t = Some wa"
    unfolding wa_def by (rule one) (use assms(1,2) k in \<open>auto simp: items_ok_def reads read_protocol_opt_def and_small\<close>)
  have b: "take_pis mem si pm (If_Set (SMASK_CN_TSDU \<in> s_mask s) [PI 21 (be32 (push_bit 16 (ucast (s_tsdu_init s)) OR ucast (s_tsdu_resp s)))]) wa = Some wb"
    unfolding wb_def by (rule one) (use er k in \<open>simp_all add: reads length_be read_tsdu_maxsiz_def from_be32 halves halves [simplified]\<close>)
  have c: "take_pis mem si pm (If_Set (SMASK_CN_VRSN \<in> s_mask s) [PI 22 [s_version s]]) wb = Some wc"
    unfolding wc_def by (rule one) (use er k in \<open>simp_all add: reads read_version_def\<close>)
  have d: "take_pis mem si pm (If_Set (SMASK_CN_ISN \<in> s_mask s) [PI 23 (decimal (s_isn s))]) wc = Some wd"
    unfolding wd_def by (rule one) (use er k length_serial [of "s_isn s"] assms(2) in
      \<open>simp_all add: reads read_isn_def items_ok_def str2ssn_decimal\<close>)
  have e: "take_pis mem si pm (If_Set (SMASK_CN_SET \<in> s_mask s) [PI 26 [s_settings s]]) wd = Some we"
    unfolding we_def by (rule one) (use er k in \<open>simp_all add: reads read_token_set_def\<close>)
  have "take_pis mem si pm (item_list s) t = Some we"
    unfolding item_list_def by (simp only: take_pis_append a b c d e option.case)
  also have "we = with_items s t"
    unfolding we_def wd_def wc_def wb_def wa_def by (cases t) (auto simp: if_set with_items_def)
  finally show ?thesis .
qed

lemma take_items:
  assumes "s_errno t = SC_ACCEPT" "items_ok s" "(si, pm) \<in> {(SPDU_CN, 1966179), (SPDU_AC, 917867)}"
  shows "take_params mem si pm (cn_items s) t = Some (with_items s t)"
proof (cases "{1, 2, 3, 4, 5} \<inter> s_mask s = {}")
  case True
  then have "with_items s t = t" by (cases t) (auto simp: with_items_def)
  then show ?thesis using True by (simp add: cn_items_eq [OF assms(2)] If_Set_def)
next
  case False
  have "group_set 5 t = t" "pm AND 12582914 \<noteq> 0" using assms(3) by (auto simp: group_set_def)
  with False assms(1) item_list_size [OF assms(2)] show ?thesis
    by (simp add: cn_items_eq [OF assms(2)] take_If is_group_def code_ok_def tables_at take_item_list [OF assms])
qed

section \<open>Connect and accept\<close>

text \<open>What the two have in common: a connect SPDU never has the token item.\<close>

definition conn_head :: "byte \<Rightarrow> ssapkt \<Rightarrow> param list" where
  "conn_head code s =
     If_Set (0 \<in> s_mask s) (Put_Ref (s_reference s) code)
     @ cn_items s
     @ If_Set (6 \<in> s_mask s) [PI 16 [s_token s]]
     @ If_Set (7 \<in> s_mask s) [PI 20 (be16 (s_require s))]
     @ cn_addresses s"

definition conn_ok :: "ssapkt \<Rightarrow> bool" where
  "conn_ok s \<longleftrightarrow> (0 \<in> s_mask s \<longrightarrow> ref_ok (s_reference s)) \<and> items_ok s
     \<and> (8 \<in> s_mask s \<longrightarrow> length (s_calling s) \<le> 64) \<and> (9 \<in> s_mask s \<longrightarrow> length (s_called s) \<le> 64)"

definition with_conn :: "ssapkt \<Rightarrow> ssapkt \<Rightarrow> ssapkt" where
  "with_conn s t = with_items s (t\<lparr>s_mask := s_mask t \<union> ({0, 6, 7, 8, 9} \<inter> s_mask s),
     s_reference := (if 0 \<in> s_mask s then (s_reference s)\<lparr>sr_vdata := []\<rparr> else s_reference t),
     s_token := (if 6 \<in> s_mask s then s_token s else s_token t),
     s_require := (if 7 \<in> s_mask s then s_require s else s_require t),
     s_calling := (if 8 \<in> s_mask s then s_calling s else s_calling t),
     s_called := (if 9 \<in> s_mask s then s_called s else s_called t)\<rparr>)"

lemma with_conn_simps [simp]:
  "s_errno (with_conn s t) = s_errno t" "s_code (with_conn s t) = s_code t" "s_udata (with_conn s t) = s_udata t"
  "s_mask (with_conn s t) = s_mask t \<union> ({0, 1, 2, 3, 4, 5, 6, 7, 8, 9} \<inter> s_mask s)"
  by (auto simp: with_conn_def)

lemma take_opt:
  "(b \<Longrightarrow> take_pi mem si pm c v u = Some w) \<Longrightarrow> take_params mem si pm (If_Set b [PI c v]) u = Some (if b then w else u)"
  by (simp add: take_If take_one)

lemma take_conn:
  assumes "s_errno t = SC_ACCEPT" "conn_ok s" "s_reference t = null_ref"
    "(si, pm, code) \<in> {(SPDU_CN, 1966179, 10), (SPDU_AC, 917867, 9)}" "si = SPDU_CN \<Longrightarrow> 6 \<notin> s_mask s"
  shows "take_params mem si pm (conn_head code s) t = Some (with_conn s t)"
proof -
  have k: "(si, pm, code) \<in> ref_users" "(si, pm) \<in> {(SPDU_CN, 1966179), (SPDU_AC, 917867)}"
    "pm AND 32 \<noteq> 0" "pm AND 8519680 \<noteq> 0" "pm AND 8650752 \<noteq> 0" "si = SPDU_CN \<or> si = SPDU_AC" "si = SPDU_AC \<Longrightarrow> pm AND 8 \<noteq> 0"
    using assms(4) by (auto simp: ref_users_def)
  have ok: "0 \<in> s_mask s \<Longrightarrow> ref_ok (s_reference s)" "items_ok s" "8 \<in> s_mask s \<Longrightarrow> length (s_calling s) \<le> 64"
    "9 \<in> s_mask s \<Longrightarrow> length (s_called s) \<le> 64" using assms(2) by (auto simp: conn_ok_def)
  define wa where "wa = (if 0 \<in> s_mask s then Set 0 (t\<lparr>s_reference := (s_reference s)\<lparr>sr_vdata := []\<rparr>\<rparr>) else t)"
  define wb where "wb = with_items s wa"
  define wc where "wc = (if 6 \<in> s_mask s then Set 6 (wb\<lparr>s_token := s_token s\<rparr>) else wb)"
  define wd where "wd = (if 7 \<in> s_mask s then Set 7 (wc\<lparr>s_require := s_require s\<rparr>) else wc)"
  define we where "we = (if 8 \<in> s_mask s then Set 8 (wd\<lparr>s_calling := s_calling s\<rparr>) else wd)"
  define wf where "wf = (if 9 \<in> s_mask s then Set 9 (we\<lparr>s_called := s_called s\<rparr>) else we)"
  have er: "s_errno wa = SC_ACCEPT" "s_errno wb = SC_ACCEPT" "s_errno wc = SC_ACCEPT" "s_errno wd = SC_ACCEPT" "s_errno we = SC_ACCEPT"
    using assms(1) by (simp_all add: wa_def wb_def wc_def wd_def we_def Set_def)
  have a: "take_params mem si pm (If_Set (0 \<in> s_mask s) (Put_Ref (s_reference s) code)) t = Some wa"
    unfolding take_If wa_def using take_ref [OF assms(1) ok(1) assms(3) k(1)] by simp
  have b: "take_params mem si pm (cn_items s) wa = Some wb"
    unfolding wb_def by (rule take_items [OF er(1) ok(2) k(2)])
  have c: "take_params mem si pm (If_Set (6 \<in> s_mask s) [PI 16 [s_token s]]) wb = Some wc"
    unfolding wc_def by (rule take_opt) (use er(2) k assms(5) in \<open>auto simp: reads read_token_def\<close>)
  have d: "take_params mem si pm (If_Set (7 \<in> s_mask s) [PI 20 (be16 (s_require s))]) wc = Some wd"
    unfolding wd_def by (rule take_opt) (use er(3) k in \<open>auto simp: reads read_user_req_def length_be from_be16\<close>)
  have e: "take_params mem si pm (If_Set (8 \<in> s_mask s) [PI 51 (s_calling s)]) wd = Some we"
    unfolding we_def by (rule take_opt) (use er(4) k ok(3) in \<open>auto simp: reads read_address_def\<close>)
  have f: "take_params mem si pm (If_Set (9 \<in> s_mask s) [PI 52 (s_called s)]) we = Some wf"
    unfolding wf_def by (rule take_opt) (use er(5) k ok(4) in \<open>auto simp: reads read_address_def\<close>)
  have "take_params mem si pm (conn_head code s) t = Some wf"
    unfolding conn_head_def cn_addresses_def by (simp only: take_append a b c d e f option.case)
  also have "wf = with_conn s t"
  proof -
    have wa: "wa = t\<lparr>s_mask := s_mask t \<union> ({0} \<inter> s_mask s), s_reference := (if 0 \<in> s_mask s then (s_reference s)\<lparr>sr_vdata := []\<rparr> else s_reference t)\<rparr>"
      by (cases t) (simp add: wa_def Set_def)
    have "s_mask wf = s_mask (with_conn s t)"
      unfolding wf_def we_def wd_def wc_def wb_def wa if_set with_items_simps with_conn_simps by simp blast
    moreover have "wf = (with_conn s t)\<lparr>s_mask := s_mask wf\<rparr>"
      unfolding wf_def we_def wd_def wc_def wb_def wa if_set with_conn_def with_items_def by (cases t) simp
    ultimately show ?thesis by simp
  qed
  finally show ?thesis .
qed

lemma conn_head_cong:
  assumes "s_mask u = s_mask s" "s_reference u = s_reference v" "s_options u = s_options v" "s_tsdu_init u = s_tsdu_init v"
    "s_tsdu_resp u = s_tsdu_resp v" "s_version u = s_version v" "s_isn u = s_isn v" "s_settings u = s_settings v"
    "s_token u = s_token v" "s_require u = s_require v" "s_calling u = s_calling v" "s_called u = s_called v" "v = with_conn s t"
  shows "conn_head code u = conn_head code s"
  unfolding conn_head_def cn_items_def cn_addresses_def Put_Ref_def assms with_conn_def with_items_def
  by (simp cong: If_Set_cong)

lemma AC_reads:
  assumes "enclose_ok s" "udata_ok 512 s" "\<forall>n \<le> 70000. mem n" "conn_ok s" "fresh SPDU_AC {} t"
  shows "take_params mem SPDU_AC 917867 (params_AC s) t = Some (with_tail s (with_conn s t))"
proof -
  have "take_params mem SPDU_AC 917867 (conn_head 9 s) t = Some (with_conn s t)"
    by (rule take_conn) (use assms in \<open>auto simp: fresh_def\<close>)
  moreover have "take_params mem SPDU_AC 917867 (Put_Enclose s @ Put_UData s) (with_conn s t) = Some (with_tail s (with_conn s t))"
    by (rule take_tail) (use assms in \<open>auto simp: code_ok_def tables_at fresh_def\<close>)
  moreover have "params_AC s = conn_head 9 s @ Put_Enclose s @ Put_UData s" by (simp add: params_AC_def conn_head_def)
  ultimately show ?thesis by (simp add: take_append)
qed

lemma AC_back:
  assumes "s_code s = SPDU_AC" "enclose_ok s" "udata_ok 512 s" "\<forall>n \<le> 70000. mem n"
    "s_mask s \<subseteq> {0, 1, 2, 3, 4, 5, 6, 7, 8, 9, 13, 14}" "conn_ok s" "fresh (s_code s) {} t"
  shows "reads_back mem params_AC s t"
proof -
  let ?u = "with_conn s t"
  have "take_params mem SPDU_AC 917867 (conn_head 9 s) t = Some ?u"
    by (rule take_conn) (use assms in \<open>auto simp: fresh_def\<close>)
  then have "take_params mem (s_code s) (si_table ! unat (s_code s)) (conn_head 9 s) t = Some ?u"
    using assms(1) by (simp add: tables_at)
  moreover have m: "s_mask ?u = s_mask s - {13, 14}" using assms(5,7) by (auto simp: fresh_def)
  moreover have "conn_head 9 (with_tail s ?u) = conn_head 9 s"
    by (rule conn_head_cong [where v = ?u, OF _ _ _ _ _ _ _ _ _ _ _ _ refl]) (use m in \<open>auto simp: with_tail_def\<close>)
  ultimately have "reads_back mem (\<lambda>s. conn_head 9 s @ Put_Enclose s @ Put_UData s) s t"
    by (intro back_tail) (use assms in \<open>auto simp: code_ok_def tables_at fresh_def\<close>)
  then show ?thesis by (rule back_cong) (simp add: params_AC_def conn_head_def)
qed

lemma params_CN_head: "6 \<notin> s_mask v \<Longrightarrow> params_CN v = conn_head 10 v @ Put_XData v"
  by (simp add: params_CN_def conn_head_def If_Set_def)

lemma CN_reads:
  assumes "udata_ok 10240 s" "\<forall>n \<le> 70000. mem n" "s_mask s \<subseteq> {0, 1, 2, 3, 4, 5, 7, 8, 9, 14}" "conn_ok s" "fresh SPDU_CN {} t"
  shows "take_params mem SPDU_CN 1966179 (params_CN s) t = Some ((with_conn s t)\<lparr>s_mask := s_mask s, s_udata := s_udata s\<rparr>)"
proof -
  let ?u = "with_conn s t"
  let ?w = "?u\<lparr>s_mask := s_mask s, s_udata := s_udata s\<rparr>"
  have 6: "6 \<notin> s_mask s" using assms(3) by auto
  have h: "take_params mem SPDU_CN 1966179 (conn_head 10 s) t = Some ?u"
    by (rule take_conn) (use assms 6 in \<open>auto simp: fresh_def\<close>)
  have m: "s_mask ?u = s_mask s - {14}" using assms(3,5) by (auto simp: fresh_def)
  have x: "take_params mem SPDU_CN 1966179 (Put_XData s) ?u = Some ?w"
  proof (cases "s_udata s")
    case None
    have upd: "x\<lparr>s_mask := s_mask x, s_udata := s_udata x\<rparr> = x" for x :: ssapkt by (cases x) simp
    from None have "s_mask s = s_mask ?u" "s_udata s = s_udata ?u" using assms(1,5) m by (auto simp: udata_ok_def fresh_def)
    then have "?w = ?u" using upd [of ?u] by simp
    with None show ?thesis by (simp add: Put_XData_def)
  next
    case (Some d)
    then have d: "d \<noteq> []" "length d \<le> 10240" "14 \<in> s_mask s" using assms(1) by (auto simp: udata_ok_def)
    moreover from d(3) m have "insert 14 (s_mask ?u) = s_mask s" by auto
    ultimately show ?thesis using Some assms(2,5)
      by (auto simp: Put_XData_def take_one reads read_udata_def Set_def Let_def fresh_def)
  qed
  show ?thesis unfolding params_CN_head [OF 6] take_append h option.case by (rule x)
qed

lemma CN_back:
  assumes "s_code s = SPDU_CN" "udata_ok 10240 s" "\<forall>n \<le> 70000. mem n"
    "s_mask s \<subseteq> {0, 1, 2, 3, 4, 5, 7, 8, 9, 14}" "conn_ok s" "fresh (s_code s) {} t"
  shows "reads_back mem params_CN s t"
proof -
  let ?w = "(with_conn s t)\<lparr>s_mask := s_mask s, s_udata := s_udata s\<rparr>"
  have 6: "6 \<notin> s_mask s" using assms(4) by auto
  have "conn_head 10 ?w = conn_head 10 s"
    by (rule conn_head_cong [where v = "with_conn s t", OF _ _ _ _ _ _ _ _ _ _ _ _ refl]) auto
  then have "params_CN ?w = params_CN s" using 6 by (simp add: params_CN_head Put_XData_def)
  moreover have "take_params mem SPDU_CN 1966179 (params_CN s) t = Some ?w" by (rule CN_reads) (use assms in auto)
  ultimately show ?thesis
    by (intro back_end [where u = ?w]) (use assms in \<open>simp_all add: tables_at fresh_def\<close>)
qed

section \<open>Refuse\<close>

lemma RF_back:
  assumes "s_code s = SPDU_RF" "enclose_ok s" "\<forall>n \<le> 70000. mem n" "s_mask s \<subseteq> {0, 1, 2, 3, 13}"
    "0 \<in> s_mask s \<longrightarrow> ref_ok (s_reference s)" "1 \<in> s_mask s \<longrightarrow> s_disconnect s \<le> 1" "length (octs (s_rdata s)) \<le> 513"
    "fresh (s_code s) {} t"
  shows "reads_back mem params_RF s t"
proof -
  have t: "s_errno t = SC_ACCEPT" "s_code t = s_code s" "s_mask t = {}" "s_reference t = null_ref" "s_rdata t = None"
    using assms(8) by (auto simp: fresh_def)
  define wa where "wa = (if 0 \<in> s_mask s then Set 0 (t\<lparr>s_reference := (s_reference s)\<lparr>sr_vdata := []\<rparr>\<rparr>) else t)"
  define wb where "wb = (if 1 \<in> s_mask s then Set 1 (wa\<lparr>s_disconnect := s_disconnect s\<rparr>) else wa)"
  define wc where "wc = (if 2 \<in> s_mask s then Set 2 (wb\<lparr>s_require := s_require s\<rparr>) else wb)"
  define wd where "wd = (if 3 \<in> s_mask s then Set 3 (wc\<lparr>s_version := s_version s\<rparr>) else wc)"
  define we where "we = wd\<lparr>s_mask := s_mask wd \<union> (if 13 \<in> s_mask s then {13} else {}),
    s_enclose := (if 13 \<in> s_mask s then s_enclose s else s_enclose wd)\<rparr>"
  define wf where "wf = (if octs (s_rdata s) \<noteq> [] then we\<lparr>s_rdata := Some (octs (s_rdata s))\<rparr> else we)"
  have wf: "wf = we\<lparr>s_rdata := (if octs (s_rdata s) \<noteq> [] then Some (octs (s_rdata s)) else s_rdata we)\<rparr>" by (simp add: wf_def)
  note ws = wf we_def wd_def wc_def wb_def wa_def if_set
  have er: "s_errno wa = SC_ACCEPT" "s_errno wb = SC_ACCEPT" "s_errno wc = SC_ACCEPT" "s_errno wd = SC_ACCEPT" "s_errno we = SC_ACCEPT"
    using t(1) by (simp_all add: wa_def wb_def wc_def wd_def we_def Set_def)
  have a: "take_params mem SPDU_RF 65905 (If_Set (0 \<in> s_mask s) (Put_Ref (s_reference s) 9)) t = Some wa"
    unfolding take_If wa_def using take_ref [OF t(1) _ t(4), of "s_reference s" SPDU_RF 65905 9 mem] assms(5) by (auto simp: ref_users_def)
  have b: "take_params mem SPDU_RF 65905 (If_Set (1 \<in> s_mask s) [PI 17 [s_disconnect s]]) wa = Some wb"
    unfolding wb_def by (rule take_opt) (use er(1) assms(6) in \<open>auto simp: reads read_tdisc_def and_small\<close>)
  have c: "take_params mem SPDU_RF 65905 (If_Set (2 \<in> s_mask s) [PI 20 (be16 (s_require s))]) wb = Some wc"
    unfolding wc_def by (rule take_opt) (use er(2) in \<open>auto simp: reads read_user_req_def length_be from_be16\<close>)
  have d: "take_params mem SPDU_RF 65905 (If_Set (3 \<in> s_mask s) [PI 22 [s_version s]]) wc = Some wd"
    unfolding wd_def by (rule take_opt) (use er(3) in \<open>auto simp: reads read_version_def\<close>)
  have e: "take_params mem SPDU_RF 65905 (Put_Enclose s) wd = Some we"
    unfolding we_def by (rule take_enclose) (use er(4) assms(2) in \<open>auto simp: enclose_ok_def code_ok_def tables_at\<close>)
  have f: "take_params mem SPDU_RF 65905 (If_Set (octs (s_rdata s) \<noteq> []) [PI 50 (octs (s_rdata s))]) we = Some wf"
    unfolding wf_def by (rule take_opt) (use er(5) assms(3,7) in \<open>auto simp: reads read_reason_def Let_def\<close>)
  have g: "take_params mem (s_code s) (si_table ! unat (s_code s)) (params_RF s) t = Some wf"
    using a b c d e f assms(1,7) by (simp add: params_RF_def take_append tables_at)
  have "s_mask wf = {0, 1, 2, 3, 13} \<inter> s_mask s" unfolding ws using t(3) by (simp add: insert_commute)
  then have m: "s_mask wf = s_mask s" using assms(4) by auto
  have fl: "0 \<in> s_mask s \<Longrightarrow> s_reference wf = (s_reference s)\<lparr>sr_vdata := []\<rparr>" "1 \<in> s_mask s \<Longrightarrow> s_disconnect wf = s_disconnect s"
    "2 \<in> s_mask s \<Longrightarrow> s_require wf = s_require s" "3 \<in> s_mask s \<Longrightarrow> s_version wf = s_version s"
    "13 \<in> s_mask s \<Longrightarrow> s_enclose wf = s_enclose s" "octs (s_rdata wf) = octs (s_rdata s)"
    unfolding ws using t(5) by (simp_all split del: if_split) simp
  have "params_RF wf = params_RF s"
    unfolding params_RF_def Put_Enclose_def Put_Ref_def m fl(6) by (simp add: fl cong: If_Set_cong)
  moreover have "s_errno wf = SC_ACCEPT" "s_code wf = s_code s" unfolding ws by (simp_all add: t(1,2))
  ultimately show ?thesis using g m by (intro back_end)
qed

section \<open>Activity resume\<close>

text \<open>
  The reader tells the old activity identifier from the new one by the first being there already, so
  that an empty old one would be taken for missing; and a set of references is there when one of them
  has octets.
\<close>

definition link_ok :: "ssapkt \<Rightarrow> bool" where
  "link_ok s \<longleftrightarrow> (let r = s_reference s in
     (0 \<in> s_mask s \<longrightarrow> ref_ok r \<and> length (sr_vdata r) \<le> 64 \<and> r \<noteq> null_ref)
     \<and> s_ar_oid s \<noteq> [] \<and> length (s_ar_oid s) \<le> 6 \<and> length (s_id s) \<le> 6 \<and> s_serial s \<le> 999999)"

definition link_refs :: "SSAPref \<Rightarrow> param list" where
  "link_refs r =
     If_Set (sr_vdata r \<noteq> []) [PI 9 (sr_vdata r)] @ If_Set (sr_udata r \<noteq> []) [PI 10 (sr_udata r)]
     @ If_Set (sr_cdata r \<noteq> []) [PI 11 (sr_cdata r)] @ If_Set (sr_adata r \<noteq> []) [PI 12 (sr_adata r)]"

lemma ar_link_eq: "{1, 2} \<subseteq> s_mask s \<Longrightarrow> link_ok s \<Longrightarrow>
    ar_link s = If_Set (0 \<in> s_mask s) (link_refs (s_reference s)) @ [PI 41 (s_ar_oid s), PI 42 (decimal (s_serial s))]"
  by (simp add: ar_link_def link_refs_def link_ok_def Let_def Put_SSN_eq)

lemma ar_link_size: "{1, 2} \<subseteq> s_mask s \<Longrightarrow> link_ok s \<Longrightarrow> pis (ar_link s) \<and> length (render (ar_link s)) < 225"
  using length_serial [of "s_serial s"]
  by (auto simp: ar_link_eq link_refs_def sizes link_ok_def ref_ok_def Let_def)

lemma take_link_refs:
  assumes "s_errno t = SC_ACCEPT" "s_reference t = null_ref" "ref_ok r" "length (sr_vdata r) \<le> 64" "r \<noteq> null_ref"
  shows "take_pis mem SPDU_AR 538880 (link_refs r) t = Some (Set 0 (t\<lparr>s_reference := r\<rparr>))"
proof -
  define step where "step b v u = u\<lparr>s_mask := s_mask u \<union> (if b then {0} else {}), s_reference := v\<rparr>" for b v and u :: ssapkt
  let ?r1 = "null_ref\<lparr>sr_vdata := sr_vdata r\<rparr>"
  let ?r2 = "?r1\<lparr>sr_udata := sr_udata r\<rparr>"
  let ?r3 = "?r2\<lparr>sr_cdata := sr_cdata r\<rparr>"
  let ?r4 = "?r3\<lparr>sr_adata := sr_adata r\<rparr>"
  have l: "length (sr_udata r) \<le> 64" "length (sr_cdata r) \<le> 64" "length (sr_adata r) \<le> 4" using assms(3) by (auto simp: ref_ok_def)
  have 1: "take_pis mem SPDU_AR 538880 (If_Set (sr_vdata r \<noteq> []) [PI 9 (sr_vdata r)]) u = Some (step (sr_vdata r \<noteq> []) ?r1 u)"
    if "s_errno u = SC_ACCEPT" "s_reference u = null_ref" for u
    using that assms(4) by (cases u) (auto simp: take_pis_If take_pis_one reads read_user_ref_def Set_def step_def null_ref_def)
  have 2: "take_pis mem SPDU_AR 538880 (If_Set (sr_udata r \<noteq> []) [PI 10 (sr_udata r)]) u = Some (step (sr_udata r \<noteq> []) ?r2 u)"
    if "s_errno u = SC_ACCEPT" "s_reference u = ?r1" for u
    using that l(1) by (cases u) (auto simp: take_pis_If take_pis_one reads read_user_ref_def Set_def step_def null_ref_def)
  have 3: "take_pis mem SPDU_AR 538880 (If_Set (sr_cdata r \<noteq> []) [PI 11 (sr_cdata r)]) u = Some (step (sr_cdata r \<noteq> []) ?r3 u)"
    if "s_errno u = SC_ACCEPT" "s_reference u = ?r2" for u
    using that l(2) by (cases u) (auto simp: take_pis_If take_pis_one reads read_common_ref_def Set_def step_def null_ref_def)
  have 4: "take_pis mem SPDU_AR 538880 (If_Set (sr_adata r \<noteq> []) [PI 12 (sr_adata r)]) u = Some (step (sr_adata r \<noteq> []) ?r4 u)"
    if "s_errno u = SC_ACCEPT" "s_reference u = ?r3" for u
    using that l(3) by (cases u) (auto simp: take_pis_If take_pis_one reads read_add_info_def Set_def step_def null_ref_def)
  have "take_pis mem SPDU_AR 538880 (link_refs r) t = Some (step (sr_adata r \<noteq> []) ?r4 (step (sr_cdata r \<noteq> []) ?r3
      (step (sr_udata r \<noteq> []) ?r2 (step (sr_vdata r \<noteq> []) ?r1 t))))"
    using assms(1,2) by (simp add: link_refs_def take_pis_append 1 2 3 4 step_def del: not_Cons_self2 split del: if_split)
  moreover have "?r4 = r" by (cases r) simp
  moreover have "sr_adata r \<noteq> [] \<or> sr_cdata r \<noteq> [] \<or> sr_udata r \<noteq> [] \<or> sr_vdata r \<noteq> []"
    using assms(5) by (cases r) (auto simp: null_ref_def)
  ultimately show ?thesis by (auto simp: step_def Set_def)
qed

lemma AR_back:
  assumes "s_code s = SPDU_AR" "enclose_ok s" "udata_ok 512 s" "\<forall>n \<le> 70000. mem n"
    "s_mask s \<subseteq> {0, 1, 2, 3, 13, 14}" "{1, 2, 3} \<subseteq> s_mask s" "link_ok s" "fresh (s_code s) {} t"
  shows "reads_back mem params_AR s t"
proof -
  let ?h = "\<lambda>s. PGI 33 (ar_link s) # [PI 41 (s_id s)]"
  have t: "s_errno t = SC_ACCEPT" "s_code t = s_code s" "s_mask t = {}" "s_reference t = null_ref" "s_ar_oid t = []" "s_udata t = None"
    using assms(8) by (auto simp: fresh_def)
  have l: "0 \<in> s_mask s \<Longrightarrow> ref_ok (s_reference s) \<and> length (sr_vdata (s_reference s)) \<le> 64 \<and> s_reference s \<noteq> null_ref"
    "s_ar_oid s \<noteq> []" "length (s_ar_oid s) \<le> 6" "length (s_id s) \<le> 6" "s_serial s \<le> 999999"
    using assms(7) by (auto simp: link_ok_def Let_def)
  have m: "{1, 2} \<subseteq> s_mask s" using assms(6) by simp
  define wa where "wa = Set 1 t"
  define wb where "wb = (if 0 \<in> s_mask s then Set 0 (wa\<lparr>s_reference := s_reference s\<rparr>) else wa)"
  define wc where "wc = wb\<lparr>s_ar_oid := s_ar_oid s\<rparr>"
  define wd where "wd = Set 2 (wc\<lparr>s_serial := s_serial s\<rparr>)"
  define we where "we = Set 3 (wd\<lparr>s_id := s_id s\<rparr>)"
  note ws = we_def wd_def wc_def wb_def wa_def if_set Set_def
  have a: "group_set 33 t = wa" by (simp add: group_set_def wa_def)
  have b: "take_pis mem SPDU_AR 538880 (If_Set (0 \<in> s_mask s) (link_refs (s_reference s))) wa = Some wb"
    using take_link_refs [of wa "s_reference s" mem] t l(1) by (simp add: take_pis_If wb_def wa_def Set_def)
  have c: "take_pi mem SPDU_AR 538880 41 (s_ar_oid s) wb = Some wc"
    using t l(2,3) by (simp add: reads read_act_id_def wc_def wb_def wa_def Set_def)
  have d: "take_pi mem SPDU_AR 538880 42 (decimal (s_serial s)) wc = Some wd"
    unfolding wd_def by (rule take_serial)
      (use t l(5) in \<open>simp_all add: serial_code_ok read_serial_def octets_all wc_def wb_def wa_def Set_def\<close>)
  have e: "take_pi mem SPDU_AR 538880 41 (s_id s) wd = Some we"
    using t l(2,4) by (simp add: reads read_act_id_def we_def wd_def wc_def wb_def wa_def Set_def)
  have link: "take_pis mem SPDU_AR 538880 (ar_link s) wa = Some wd"
    using l(3) length_serial [OF l(5)] by (simp add: ar_link_eq [OF m assms(7)] take_pis_append b c d)
  have "take_params mem (s_code s) (si_table ! unat (s_code s)) (?h s) t = Some we"
    using t(1) ar_link_size [OF m assms(7)] assms(1) by (simp add: a link e is_group_def code_ok_def tables_at)
  moreover have wm: "s_mask we = s_mask s - {13, 14}" using assms(5,6) t(3) unfolding ws by auto
  moreover have "ar_link (with_tail s we) = ar_link s"
  proof -
    have "s_mask (with_tail s we) = s_mask s" using wm by auto
    moreover have "0 \<in> s_mask s \<Longrightarrow> s_reference we = s_reference s" "s_ar_oid we = s_ar_oid s" "s_serial we = s_serial s"
      by (simp_all add: ws)
    ultimately show ?thesis unfolding ar_link_def by (simp cong: If_Set_cong)
  qed
  moreover have "s_id we = s_id s" "s_errno we = SC_ACCEPT" "s_code we = s_code s" "s_udata we = None" by (simp_all add: ws t)
  ultimately have "reads_back mem (\<lambda>s. ?h s @ Put_Enclose s @ Put_UData s) s t"
    by (intro back_tail [where u = we]) (use assms in \<open>simp_all add: code_ok_def tables_at\<close>)
  then show ?thesis by (rule back_cong) (use assms(6) in \<open>auto simp: params_AR_def\<close>)
qed

end
