(* ===== verification/Spdu_Size.thy ===== *)
theory Spdu_Size
  imports Spdu_Groups
begin

text \<open>
  The packets that \<^verbatim>\<open>spkt2tsdu\<close> is meant to write: each is read back parameter by parameter, and its
  parameters fit into the room that \<^verbatim>\<open>start_spdu\<close> sets aside.
\<close>

section \<open>Packets that can be written\<close>

text \<open>
  For each code the parameters that it may and must have, and their ranges, as the standard and the
  masks of \<^verbatim>\<open>h/spkt.h\<close> give them.
\<close>

definition spkt_ok :: "ssapkt \<Rightarrow> bool" where
  "spkt_ok s =
     (if s_code s = SPDU_CN
      then s_mask s \<subseteq> {0, 1, 2, 3, 4, 5, 7, 8, 9, 14} \<and> conn_ok s \<and> udata_ok 10240 s
      else if s_code s = SPDU_AC
      then s_mask s \<subseteq> {0, 1, 2, 3, 4, 5, 6, 7, 8, 9, 13, 14} \<and> conn_ok s \<and> enclose_ok s \<and> udata_ok 512 s
      else if s_code s = SPDU_RF
      then s_mask s \<subseteq> {0, 1, 2, 3, 13} \<and> (0 \<in> s_mask s \<longrightarrow> ref_ok (s_reference s)) \<and> (1 \<in> s_mask s \<longrightarrow> s_disconnect s \<le> 1)
        \<and> length (octs (s_rdata s)) \<le> 513 \<and> s_udata s = None \<and> enclose_ok s
      else if s_code s = SPDU_FN
      then s_mask s \<subseteq> {0, 13, 14} \<and> (0 \<in> s_mask s \<longrightarrow> s_disconnect s \<le> 1) \<and> enclose_ok s \<and> udata_ok 512 s
      else if s_code s = SPDU_DN
      then s_mask s \<subseteq> {13, 14} \<and> enclose_ok s \<and> udata_ok 512 s
      else if s_code s = SPDU_NF
      then s_mask s \<subseteq> {13, 14} \<and> enclose_ok s \<and> udata_ok 512 s
      else if s_code s = SPDU_CD
      then s_mask s \<subseteq> {13, 14} \<and> enclose_ok s \<and> udata_ok 512 s
      else if s_code s = SPDU_CDA
      then s_mask s \<subseteq> {13, 14} \<and> enclose_ok s \<and> udata_ok 512 s
      else if s_code s = SPDU_AB
      then (if 2 \<in> s_mask s
        then {0} \<subseteq> s_mask s \<and> s_mask s \<subseteq> {0, 1, 2, 13, 14} \<and> s_disconnect s \<le> 15 \<and> length (s_reflect s) = 9 \<and> enclose_ok s \<and> udata_ok 512 s
        else s_mask s \<subseteq> {0} \<and> (0 \<in> s_mask s \<longrightarrow> SP_OK (s_reason s)))
      else if s_code s = SPDU_AA
      then s_mask s \<subseteq> {0}
      else if s_code s = SPDU_GT
      then (if 1 \<in> s_mask s then s_mask s \<subseteq> {0, 1} else s_mask s \<subseteq> {13} \<and> enclose_ok s)
      else if s_code s = SPDU_TD
      then s_mask s \<subseteq> {13} \<and> enclose_ok s
      else if s_code s = SPDU_EX
      then s_mask s = {}
      else if s_code s = SPDU_GTC
      then s_mask s = {}
      else if s_code s = SPDU_GTA
      then s_mask s = {}
      else if s_code s = SPDU_ADA
      then s_mask s = {}
      else if s_code s = SPDU_PT
      then s_mask s \<subseteq> {0, 13, 14} \<and> enclose_ok s \<and> udata_ok 512 s
      else if s_code s = SPDU_MIP
      then {1} \<subseteq> s_mask s \<and> s_mask s \<subseteq> {0, 1, 13, 14} \<and> (0 \<in> s_mask s \<longrightarrow> s_sync s \<le> 1) \<and> s_serial s \<le> 999999 \<and> enclose_ok s \<and> udata_ok 512 s
      else if s_code s = SPDU_MAP
      then {1} \<subseteq> s_mask s \<and> s_mask s \<subseteq> {0, 1, 13, 14} \<and> (0 \<in> s_mask s \<longrightarrow> s_sync s \<le> 1) \<and> s_serial s \<le> 999999 \<and> enclose_ok s \<and> udata_ok 512 s
        \<and> (0 \<notin> s_mask s \<and> 13 \<in> s_mask s \<longrightarrow> length (octs (s_udata s)) \<le> 241)
      else if s_code s = SPDU_MIA
      then {0} \<subseteq> s_mask s \<and> s_mask s \<subseteq> {0, 13, 14} \<and> s_serial s \<le> 999999 \<and> enclose_ok s \<and> udata_ok 65400 s
      else if s_code s = SPDU_MAA
      then {0} \<subseteq> s_mask s \<and> s_mask s \<subseteq> {0, 13, 14} \<and> s_serial s \<le> 999999 \<and> enclose_ok s \<and> udata_ok 512 s
      else if s_code s = SPDU_RS
      then {1, 2} \<subseteq> s_mask s \<and> s_mask s \<subseteq> {0, 1, 2, 13, 14} \<and> s_rs_type s \<le> 2 \<and> s_serial s \<le> 999999 \<and> enclose_ok s \<and> udata_ok 512 s
      else if s_code s = SPDU_RA
      then {1} \<subseteq> s_mask s \<and> s_mask s \<subseteq> {0, 1, 13, 14} \<and> s_serial s \<le> 999999 \<and> enclose_ok s \<and> udata_ok 512 s
      else if s_code s = SPDU_PR
      then s_mask s = {0} \<and> s_pr_type s \<le> 4
      else if s_code s = SPDU_ED
      then {0} \<subseteq> s_mask s \<and> s_mask s \<subseteq> {0, 13, 14} \<and> SP_OK (s_reason s) \<and> enclose_ok s \<and> udata_ok 512 s
      else if s_code s = SPDU_AS
      then {0} \<subseteq> s_mask s \<and> s_mask s \<subseteq> {0, 13, 14} \<and> length (s_id s) \<le> 6 \<and> enclose_ok s \<and> udata_ok 512 s
      else if s_code s = SPDU_AR
      then {1, 2, 3} \<subseteq> s_mask s \<and> s_mask s \<subseteq> {0, 1, 2, 3, 13, 14} \<and> link_ok s \<and> enclose_ok s \<and> udata_ok 512 s
      else if s_code s = SPDU_AD
      then s_mask s \<subseteq> {0} \<and> (0 \<in> s_mask s \<longrightarrow> SP_OK (s_reason s))
      else False)"

text \<open>The category that tells which of two SPDUs with one code it is.\<close>

definition category :: "ssapkt \<Rightarrow> bool" where
  "category s = (if s_code s = SPDU_GT then SMASK_SPDU_GT \<in> s_mask s
     else if s_code s = SPDU_AB then SMASK_SPDU_AB \<in> s_mask s
     else if s_code s = SPDU_AA then SMASK_SPDU_AA \<in> s_mask s
     else True)"

definition category_bits :: "ssapkt \<Rightarrow> nat set" where
  "category_bits s = (if s_code s = SPDU_GT then {1} \<inter> s_mask s
     else if s_code s = SPDU_AB then {2} \<inter> s_mask s
     else if s_code s = SPDU_AA then {0} \<inter> s_mask s
     else {})"

lemma spdu_cases:
  assumes "spkt_ok s"
  obtains (CN) "s_code s = SPDU_CN"
    | (AC) "s_code s = SPDU_AC"
    | (RF) "s_code s = SPDU_RF"
    | (FN) "s_code s = SPDU_FN"
    | (DN) "s_code s = SPDU_DN"
    | (NF) "s_code s = SPDU_NF"
    | (CD) "s_code s = SPDU_CD"
    | (CDA) "s_code s = SPDU_CDA"
    | (AB) "s_code s = SPDU_AB"
    | (AA) "s_code s = SPDU_AA"
    | (GT) "s_code s = SPDU_GT"
    | (TD) "s_code s = SPDU_TD"
    | (EX) "s_code s = SPDU_EX"
    | (GTC) "s_code s = SPDU_GTC"
    | (GTA) "s_code s = SPDU_GTA"
    | (ADA) "s_code s = SPDU_ADA"
    | (PT) "s_code s = SPDU_PT"
    | (MIP) "s_code s = SPDU_MIP"
    | (MAP) "s_code s = SPDU_MAP"
    | (MIA) "s_code s = SPDU_MIA"
    | (MAA) "s_code s = SPDU_MAA"
    | (RS) "s_code s = SPDU_RS"
    | (RA) "s_code s = SPDU_RA"
    | (PR) "s_code s = SPDU_PR"
    | (ED) "s_code s = SPDU_ED"
    | (AS) "s_code s = SPDU_AS"
    | (AR) "s_code s = SPDU_AR"
    | (AD) "s_code s = SPDU_AD"
proof (rule ccontr)
  assume n: "\<not> thesis"
  have "s_code s \<noteq> SPDU_CN" "s_code s \<noteq> SPDU_AC" "s_code s \<noteq> SPDU_RF" "s_code s \<noteq> SPDU_FN" "s_code s \<noteq> SPDU_DN" "s_code s \<noteq> SPDU_NF" "s_code s \<noteq> SPDU_CD" "s_code s \<noteq> SPDU_CDA" "s_code s \<noteq> SPDU_AB" "s_code s \<noteq> SPDU_AA" "s_code s \<noteq> SPDU_GT" "s_code s \<noteq> SPDU_TD" "s_code s \<noteq> SPDU_EX" "s_code s \<noteq> SPDU_GTC" "s_code s \<noteq> SPDU_GTA" "s_code s \<noteq> SPDU_ADA" "s_code s \<noteq> SPDU_PT" "s_code s \<noteq> SPDU_MIP" "s_code s \<noteq> SPDU_MAP" "s_code s \<noteq> SPDU_MIA" "s_code s \<noteq> SPDU_MAA" "s_code s \<noteq> SPDU_RS" "s_code s \<noteq> SPDU_RA" "s_code s \<noteq> SPDU_PR" "s_code s \<noteq> SPDU_ED" "s_code s \<noteq> SPDU_AS" "s_code s \<noteq> SPDU_AR" "s_code s \<noteq> SPDU_AD"
    using n that by blast+
  then show False using assms unfolding spkt_ok_def by (simp only: if_False)
qed

text \<open>Every such packet is read back.\<close>

lemma reads_case:
  assumes "reads_back mem f s t" "spdu_case s = Some (b, f s)"
    "\<And>u. s_code u = s_code s \<Longrightarrow> s_mask u = s_mask s \<Longrightarrow> spdu_case u = Some (b, f u)"
  shows "\<exists>b ps u. spdu_case s = Some (b, ps) \<and> take_params mem (s_code s) (si_table ! unat (s_code s)) ps t = Some u
    \<and> s_errno u = SC_ACCEPT \<and> s_code u = s_code s \<and> s_mask u = s_mask s \<and> spdu_case u = spdu_case s"
  using assms unfolding reads_back_def by auto

lemma spkt_back:
  assumes "spkt_ok s" "\<forall>n \<le> 70000. mem n" "fresh (s_code s) (category_bits s) t"
  shows "\<exists>b ps u. spdu_case s = Some (b, ps) \<and> take_params mem (s_code s) (si_table ! unat (s_code s)) ps t = Some u
    \<and> s_errno u = SC_ACCEPT \<and> s_code u = s_code s \<and> s_mask u = s_mask s \<and> spdu_case u = spdu_case s"
  using assms(1)
proof (cases rule: spdu_cases)
  case CN
  have "reads_back mem (params_CN) s t" by (rule CN_back) (use CN assms in \<open>auto simp: spkt_ok_def category_bits_def\<close>)
  then show ?thesis by (rule reads_case) (use CN in \<open>simp_all add: spdu_case_def\<close>)
next
  case AC
  have "reads_back mem (params_AC) s t" by (rule AC_back) (use AC assms in \<open>auto simp: spkt_ok_def category_bits_def\<close>)
  then show ?thesis by (rule reads_case) (use AC in \<open>simp_all add: spdu_case_def\<close>)
next
  case RF
  have "reads_back mem (params_RF) s t" by (rule RF_back) (use RF assms in \<open>auto simp: spkt_ok_def category_bits_def\<close>)
  then show ?thesis by (rule reads_case) (use RF in \<open>simp_all add: spdu_case_def\<close>)
next
  case FN
  have "reads_back mem (params_FN) s t" by (rule FN_back) (use FN assms in \<open>auto simp: spkt_ok_def category_bits_def\<close>)
  then show ?thesis by (rule reads_case) (use FN in \<open>simp_all add: spdu_case_def\<close>)
next
  case DN
  have "reads_back mem (params_data) s t" by (rule data_back) (use DN assms in \<open>auto simp: spkt_ok_def category_bits_def\<close>)
  then show ?thesis by (rule reads_case) (use DN in \<open>simp_all add: spdu_case_def\<close>)
next
  case NF
  have "reads_back mem (params_data) s t" by (rule data_back) (use NF assms in \<open>auto simp: spkt_ok_def category_bits_def\<close>)
  then show ?thesis by (rule reads_case) (use NF in \<open>simp_all add: spdu_case_def\<close>)
next
  case CD
  have "reads_back mem (params_data) s t" by (rule data_back) (use CD assms in \<open>auto simp: spkt_ok_def category_bits_def\<close>)
  then show ?thesis by (rule reads_case) (use CD in \<open>simp_all add: spdu_case_def\<close>)
next
  case CDA
  have "reads_back mem (params_data) s t" by (rule data_back) (use CDA assms in \<open>auto simp: spkt_ok_def category_bits_def\<close>)
  then show ?thesis by (rule reads_case) (use CDA in \<open>simp_all add: spdu_case_def\<close>)
next
  case AB
  have "reads_back mem params_AB s t"
  proof (cases "2 \<in> s_mask s")
    case True
    then show ?thesis by (intro AB_back) (use AB assms in \<open>auto simp: spkt_ok_def category_bits_def\<close>)
  next
    case False
    then show ?thesis by (intro AI_back) (use AB assms in \<open>auto simp: spkt_ok_def category_bits_def\<close>)
  qed
  then show ?thesis by (rule reads_case) (use AB in \<open>simp_all add: spdu_case_def\<close>)
next
  case AA
  have "reads_back mem (\<lambda>s. []) s t" by (rule none_back [where m = "category_bits s"]) (use AA assms in \<open>auto simp: spkt_ok_def category_bits_def\<close>)
  then show ?thesis by (rule reads_case) (use AA in \<open>simp_all add: spdu_case_def\<close>)
next
  case GT
  show ?thesis
  proof (cases "1 \<in> s_mask s")
    case True
    then have "reads_back mem params_GT s t" by (intro GT_back) (use GT assms in \<open>auto simp: spkt_ok_def category_bits_def\<close>)
    then show ?thesis by (rule reads_case) (use GT in \<open>simp_all add: spdu_case_def\<close>)
  next
    case False
    then have "reads_back mem Put_Enclose s t" by (intro enclose_back) (use GT assms in \<open>auto simp: spkt_ok_def category_bits_def\<close>)
    then show ?thesis by (rule reads_case) (use GT False in \<open>simp_all add: spdu_case_def params_GT_def\<close>)
  qed
next
  case TD
  have "reads_back mem (Put_Enclose) s t" by (rule enclose_back) (use TD assms in \<open>auto simp: spkt_ok_def category_bits_def\<close>)
  then show ?thesis by (rule reads_case) (use TD in \<open>simp_all add: spdu_case_def\<close>)
next
  case EX
  have "reads_back mem (\<lambda>s. []) s t" by (rule none_back [where m = "category_bits s"]) (use EX assms in \<open>auto simp: spkt_ok_def category_bits_def\<close>)
  then show ?thesis by (rule reads_case) (use EX in \<open>simp_all add: spdu_case_def\<close>)
next
  case GTC
  have "reads_back mem (\<lambda>s. []) s t" by (rule none_back [where m = "category_bits s"]) (use GTC assms in \<open>auto simp: spkt_ok_def category_bits_def\<close>)
  then show ?thesis by (rule reads_case) (use GTC in \<open>simp_all add: spdu_case_def\<close>)
next
  case GTA
  have "reads_back mem (\<lambda>s. []) s t" by (rule none_back [where m = "category_bits s"]) (use GTA assms in \<open>auto simp: spkt_ok_def category_bits_def\<close>)
  then show ?thesis by (rule reads_case) (use GTA in \<open>simp_all add: spdu_case_def\<close>)
next
  case ADA
  have "reads_back mem (\<lambda>s. []) s t" by (rule none_back [where m = "category_bits s"]) (use ADA assms in \<open>auto simp: spkt_ok_def category_bits_def\<close>)
  then show ?thesis by (rule reads_case) (use ADA in \<open>simp_all add: spdu_case_def\<close>)
next
  case PT
  have "reads_back mem (params_PT) s t" by (rule PT_back) (use PT assms in \<open>auto simp: spkt_ok_def category_bits_def\<close>)
  then show ?thesis by (rule reads_case) (use PT in \<open>simp_all add: spdu_case_def\<close>)
next
  case MIP
  have "reads_back mem (params_MIP) s t" by (rule MIP_back) (use MIP assms in \<open>auto simp: spkt_ok_def category_bits_def\<close>)
  then show ?thesis by (rule reads_case) (use MIP in \<open>simp_all add: spdu_case_def\<close>)
next
  case MAP
  have "reads_back mem (params_MAP) s t" by (rule MAP_back) (use MAP assms in \<open>auto simp: spkt_ok_def category_bits_def\<close>)
  then show ?thesis by (rule reads_case) (use MAP in \<open>simp_all add: spdu_case_def\<close>)
next
  case MIA
  have "reads_back mem (params_MIA) s t" by (rule MIA_back) (use MIA assms in \<open>auto simp: spkt_ok_def category_bits_def\<close>)
  then show ?thesis by (rule reads_case) (use MIA in \<open>simp_all add: spdu_case_def\<close>)
next
  case MAA
  have "reads_back mem (params_MAA) s t" by (rule MAA_back) (use MAA assms in \<open>auto simp: spkt_ok_def category_bits_def\<close>)
  then show ?thesis by (rule reads_case) (use MAA in \<open>simp_all add: spdu_case_def\<close>)
next
  case RS
  have "reads_back mem (params_RS) s t" by (rule RS_back) (use RS assms in \<open>auto simp: spkt_ok_def category_bits_def\<close>)
  then show ?thesis by (rule reads_case) (use RS in \<open>simp_all add: spdu_case_def\<close>)
next
  case RA
  have "reads_back mem (params_RA) s t" by (rule RA_back) (use RA assms in \<open>auto simp: spkt_ok_def category_bits_def\<close>)
  then show ?thesis by (rule reads_case) (use RA in \<open>simp_all add: spdu_case_def\<close>)
next
  case PR
  have "reads_back mem (params_PR) s t" by (rule PR_back) (use PR assms in \<open>auto simp: spkt_ok_def category_bits_def\<close>)
  then show ?thesis by (rule reads_case) (use PR in \<open>simp_all add: spdu_case_def\<close>)
next
  case ED
  have "reads_back mem (params_ED) s t" by (rule ED_back) (use ED assms in \<open>auto simp: spkt_ok_def category_bits_def\<close>)
  then show ?thesis by (rule reads_case) (use ED in \<open>simp_all add: spdu_case_def\<close>)
next
  case AS
  have "reads_back mem (params_AS) s t" by (rule AS_back) (use AS assms in \<open>auto simp: spkt_ok_def category_bits_def\<close>)
  then show ?thesis by (rule reads_case) (use AS in \<open>simp_all add: spdu_case_def\<close>)
next
  case AR
  have "reads_back mem (params_AR) s t" by (rule AR_back) (use AR assms in \<open>auto simp: spkt_ok_def category_bits_def\<close>)
  then show ?thesis by (rule reads_case) (use AR in \<open>simp_all add: spdu_case_def\<close>)
next
  case AD
  have "reads_back mem (params_AD) s t" by (rule AD_back) (use AD assms in \<open>auto simp: spkt_ok_def category_bits_def\<close>)
  then show ?thesis by (rule reads_case) (use AD in \<open>simp_all add: spdu_case_def\<close>)
qed

section \<open>The room that is set aside\<close>

lemma plain_append: "plain (xs @ ys) \<longleftrightarrow> plain xs \<and> plain ys"
  by (induction xs rule: plain.induct) auto

lemma render_plain: "plain xs \<Longrightarrow> render (xs @ ys) = render xs @ render ys"
  by (induction xs rule: plain.induct) auto

lemma plain_If: "plain (If_Set b xs) \<longleftrightarrow> (b \<longrightarrow> plain xs)"
  by (simp add: If_Set_def)

lemmas plain_sizes = plain_append render_plain plain_If render_If length_li_octets

text \<open>The octets of the user data and of the enclosure item.\<close>

definition tail_size :: "ssapkt \<Rightarrow> int" where
  "tail_size s = (case s_udata s of None \<Rightarrow> 0 | Some d \<Rightarrow> udata_size d)"

lemma udata_sizes:
  "plain (Put_UData s)" "plain (Put_XData s)" "plain (Put_MData s)"
  "int (length (render (Put_UData s))) = tail_size s" "int (length (render (Put_XData s))) = tail_size s"
  "int (length (render (Put_MData s))) = tail_size s"
  by (auto simp: Put_UData_def Put_XData_def Put_MData_def tail_size_def udata_size_def length_li_octets split: option.splits)

lemma enclose_size: "plain (Put_Enclose s)" "length (render (Put_Enclose s)) = (if 13 \<in> s_mask s then 3 else 0)"
  by (simp_all add: Put_Enclose_def If_Set_def length_li_octets)

lemma serial_size:
  assumes "n \<le> 999999"
  shows "plain (Put_SSN code n)" "length (render (Put_SSN code n)) \<le> 8"
  using length_serial [OF assms] by (simp_all add: Put_SSN_eq [OF assms] length_li_octets)

definition fits :: "ssapkt \<Rightarrow> int \<Rightarrow> param list \<Rightarrow> bool" where
  "fits s b ps \<longleftrightarrow> plain ps \<and> int (length (render ps)) \<le> spdu_size s b \<and> length (render ps) \<le> 65535"

lemma size_least: "254 \<le> spdu_size s b"
  by (simp add: spdu_size_def Let_def)

lemma size_tail:
  assumes "s_code s \<notin> {SPDU_GT, SPDU_EX, SPDU_TD, SPDU_CN, SPDU_AC, SPDU_RF, SPDU_AR}" "udata_ok n s"
  shows "b + tail_size s \<le> spdu_size s b" "tail_size s \<le> int n + 4"
  using assms by (auto simp: spdu_size_def Let_def tail_size_def udata_ok_def udata_size_def split: option.splits)

lemma fits_tail:
  assumes "s_code s \<notin> {SPDU_GT, SPDU_EX, SPDU_TD, SPDU_CN, SPDU_AC, SPDU_RF, SPDU_AR}" "udata_ok 512 s"
    "plain h" "length (render h) + (if 13 \<in> s_mask s then 3 else 0) \<le> k" "int k \<le> b" "k \<le> 1000"
  shows "fits s b (h @ Put_Enclose s @ Put_UData s)"
  using assms(3-6) size_tail(1) [OF assms(1,2), of b] size_tail(2) [OF assms(1,2)] udata_sizes [of s] enclose_size [of s]
  unfolding fits_def by (simp add: plain_sizes)

lemma fits_short: "plain ps \<Longrightarrow> length (render ps) \<le> 254 \<Longrightarrow> fits s b ps"
  using size_least [of s b] by (simp add: fits_def)

text \<open>The SPDUs with groups.\<close>

lemma ref_size_render:
  "int (length (render (If_Set (d \<noteq> []) [PI code d]))) = ref_size d" if "length d < 255"
  using that by (simp add: ref_size_def render_If length_li_octets)

lemma Put_Ref_size:
  assumes "ref_ok r"
  shows "plain (Put_Ref r code)"
    "int (length (render (Put_Ref r code))) = 2 + ref_size (sr_udata r) + ref_size (sr_cdata r) + ref_size (sr_adata r)"
proof -
  have "length (sr_udata r) < 255" "length (sr_cdata r) < 255" "length (sr_adata r) < 255" using assms by (auto simp: ref_ok_def)
  from this [THEN ref_size_render] show "int (length (render (Put_Ref r code))) = 2 + ref_size (sr_udata r) + ref_size (sr_cdata r) + ref_size (sr_adata r)"
    by (simp add: Put_Ref_def sizes)
  show "plain (Put_Ref r code)" using ref_items_size [OF assms, of code] by (simp add: Put_Ref_def ref_items_def)
qed

lemma cn_items_size:
  assumes "items_ok s"
  shows "plain (cn_items s)" "length (render (cn_items s)) \<le> 25"
  using item_list_size [OF assms] by (simp_all add: cn_items_eq [OF assms] plain_If render_If)

lemma cn_addresses_size:
  assumes "conn_ok s"
  shows "plain (cn_addresses s)" "int (length (render (cn_addresses s))) =
    (if 8 \<in> s_mask s then int (length (s_calling s)) + 2 else 0) + (if 9 \<in> s_mask s then int (length (s_called s)) + 2 else 0)"
  using assms by (auto simp: cn_addresses_def plain_sizes conn_ok_def)

lemma conn_size:
  assumes "s_code s = SPDU_CN \<or> s_code s = SPDU_AC" "udata_ok n s"
  shows "b + tail_size s + (if 0 \<in> s_mask s then 2 + ref_size (sr_udata (s_reference s)) + ref_size (sr_cdata (s_reference s))
      + ref_size (sr_adata (s_reference s)) else 0)
    + (if 8 \<in> s_mask s then int (length (s_calling s)) + 2 else 0) + (if 9 \<in> s_mask s then int (length (s_called s)) + 2 else 0) \<le> spdu_size s b"
  using assms by (auto simp: spdu_size_def Let_def tail_size_def udata_ok_def split: option.splits)

lemma conn_head_size:
  assumes "conn_ok s"
  shows "plain (conn_head code s)" "int (length (render (conn_head code s))) \<le> 32
    + (if 0 \<in> s_mask s then 2 + ref_size (sr_udata (s_reference s)) + ref_size (sr_cdata (s_reference s))
      + ref_size (sr_adata (s_reference s)) else 0)
    + (if 8 \<in> s_mask s then int (length (s_calling s)) + 2 else 0) + (if 9 \<in> s_mask s then int (length (s_called s)) + 2 else 0)"
    "length (render (conn_head code s)) \<le> 500"
proof -
  have ok: "items_ok s" "0 \<in> s_mask s \<Longrightarrow> ref_ok (s_reference s)" using assms by (auto simp: conn_ok_def)
  note r = Put_Ref_size [OF ok(2), of code] and i = cn_items_size [OF ok(1)] and a = cn_addresses_size [OF assms]
  show p: "plain (conn_head code s)" using r i a by (simp add: conn_head_def plain_sizes)
  show l: "int (length (render (conn_head code s))) \<le> 32
    + (if 0 \<in> s_mask s then 2 + ref_size (sr_udata (s_reference s)) + ref_size (sr_cdata (s_reference s))
      + ref_size (sr_adata (s_reference s)) else 0)
    + (if 8 \<in> s_mask s then int (length (s_calling s)) + 2 else 0) + (if 9 \<in> s_mask s then int (length (s_called s)) + 2 else 0)"
    unfolding conn_head_def using r i a by (simp add: plain_sizes length_be split del: if_split) (auto simp: length_li_octets length_be split: if_splits)
  have "(if 0 \<in> s_mask s then 2 + ref_size (sr_udata (s_reference s)) + ref_size (sr_cdata (s_reference s))
      + ref_size (sr_adata (s_reference s)) else 0) \<le> 140" using ok(2) by (auto simp: ref_size_def ref_ok_def)
  moreover have "(if 8 \<in> s_mask s then int (length (s_calling s)) + 2 else 0) \<le> 66"
    "(if 9 \<in> s_mask s then int (length (s_called s)) + 2 else 0) \<le> 66" using assms by (auto simp: conn_ok_def)
  ultimately show "length (render (conn_head code s)) \<le> 500" using l by linarith
qed

lemma CN_fits:
  assumes "s_code s = SPDU_CN" "spkt_ok s" "spdu_case s = Some (b, ps)"
  shows "fits s b ps"
proof -
  have ok: "conn_ok s" "udata_ok 10240 s" "6 \<notin> s_mask s" using assms(1,2) by (auto simp: spkt_ok_def)
  have ps: "ps = conn_head 10 s @ Put_XData s" "b = 56"
    using assms(1,3) ok(3) by (auto simp: spdu_case_def params_CN_def conn_head_def If_Set_def)
  have "tail_size s \<le> 10244" using ok(2) by (auto simp: tail_size_def udata_ok_def udata_size_def split: option.splits)
  with conn_head_size [OF ok(1), of 10] conn_size [of s 10240 56] udata_sizes [of s] assms(1) ok(2) show ?thesis
    unfolding fits_def ps by (simp add: plain_sizes)
qed

lemma AC_fits:
  assumes "s_code s = SPDU_AC" "spkt_ok s" "spdu_case s = Some (b, ps)"
  shows "fits s b ps"
proof -
  have ok: "conn_ok s" "udata_ok 512 s" using assms(1,2) by (auto simp: spkt_ok_def)
  have ps: "ps = conn_head 9 s @ Put_Enclose s @ Put_UData s" "b = 62"
    using assms(1,3) by (auto simp: spdu_case_def params_AC_def conn_head_def)
  have "tail_size s \<le> 516" using ok(2) by (auto simp: tail_size_def udata_ok_def udata_size_def split: option.splits)
  with conn_head_size [OF ok(1), of 9] conn_size [of s 512 62] udata_sizes [of s] enclose_size [of s] assms(1) ok(2) show ?thesis
    unfolding fits_def ps by (simp add: plain_sizes)
qed

lemma RF_fits:
  assumes "s_code s = SPDU_RF" "spkt_ok s" "spdu_case s = Some (b, ps)"
  shows "fits s b ps"
proof -
  define rs where "rs = (if 0 \<in> s_mask s then 2 + ref_size (sr_udata (s_reference s)) + ref_size (sr_cdata (s_reference s))
      + ref_size (sr_adata (s_reference s)) else 0)"
  define d where "d = octs (s_rdata s)"
  have ok: "0 \<in> s_mask s \<Longrightarrow> ref_ok (s_reference s)" "length d \<le> 513" "s_udata s = None" using assms(1,2) by (auto simp: spkt_ok_def d_def)
  have sz: "13 + rs + (if d \<noteq> [] then udata_size d else 0) \<le> spdu_size s 13"
    using assms(1) ok(3) by (auto simp: spdu_size_def Let_def rs_def d_def)
  have rs: "rs \<le> 140" using ok(1) by (auto simp: rs_def ref_size_def ref_ok_def)
  let ?r = "If_Set (0 \<in> s_mask s) (Put_Ref (s_reference s) 9)"
  let ?m = "If_Set (1 \<in> s_mask s) [PI 17 [s_disconnect s]] @ If_Set (2 \<in> s_mask s) [PI 20 (be16 (s_require s))]
    @ If_Set (3 \<in> s_mask s) [PI 22 [s_version s]] @ Put_Enclose s"
  let ?d = "If_Set (d \<noteq> []) [PI 50 d]"
  have ps: "ps = ?r @ ?m @ ?d" "b = 13" using assms(1,3) ok(2) by (auto simp: spdu_case_def params_RF_def d_def)
  have r: "plain ?r" "int (length (render ?r)) = rs" using Put_Ref_size [OF ok(1), of 9] by (auto simp: plain_If render_If rs_def)
  have m: "plain ?m" "length (render ?m) \<le> 13" using enclose_size [of s] by (auto simp: plain_sizes length_be)
  have dd: "plain ?d" "int (length (render ?d)) = (if d \<noteq> [] then udata_size d else 0)" by (auto simp: plain_sizes udata_size_def)
  have "(if d \<noteq> [] then udata_size d else 0) \<le> 517" using ok(2) by (auto simp: udata_size_def)
  moreover have "length (render ps) = length (render ?r) + length (render ?m) + length (render ?d)"
    unfolding ps(1) by (simp only: render_plain [OF r(1)] render_plain [OF m(1)] length_append add.assoc)
  ultimately show ?thesis unfolding fits_def ps(2) using sz rs r m dd by (auto simp: ps(1) plain_append)
qed

lemma AR_fits:
  assumes "s_code s = SPDU_AR" "spkt_ok s" "spdu_case s = Some (b, ps)"
  shows "fits s b ps"
proof -
  define rs where "rs = (if 0 \<in> s_mask s then ref_size (sr_udata (s_reference s)) + ref_size (sr_cdata (s_reference s))
      + ref_size (sr_adata (s_reference s)) + ref_size (sr_vdata (s_reference s)) else 0)"
  have ok: "link_ok s" "udata_ok 512 s" "{1, 2} \<subseteq> s_mask s" "length (s_id s) \<le> 6" "length (s_ar_oid s) \<le> 6" "s_serial s \<le> 999999"
    using assms(1,2) by (auto simp: spkt_ok_def link_ok_def Let_def)
  have ps: "ps = [PGI 33 (ar_link s), PI 41 (s_id s)] @ Put_Enclose s @ Put_UData s" "b = 29"
    using assms by (auto simp: spdu_case_def params_AR_def spkt_ok_def)
  have sz: "31 + tail_size s + rs \<le> spdu_size s 29" and tail: "tail_size s \<le> 516"
    using assms(1) ok(2) by (auto simp: spdu_size_def Let_def rs_def tail_size_def udata_ok_def udata_size_def split: option.splits)
  have refs: "int (length (render (If_Set (0 \<in> s_mask s) (link_refs (s_reference s))))) = rs"
  proof (cases "0 \<in> s_mask s")
    case True
    then have l: "length (sr_vdata (s_reference s)) < 255" "length (sr_udata (s_reference s)) < 255" "length (sr_cdata (s_reference s)) < 255"
      "length (sr_adata (s_reference s)) < 255" using ok(1) by (auto simp: link_ok_def Let_def ref_ok_def)
    from l [THEN ref_size_render] True show ?thesis by (simp add: link_refs_def sizes rs_def If_Set_def)
  qed (simp add: If_Set_def rs_def)
  have "int (length (render (ar_link s))) \<le> rs + 16"
    using refs length_serial [OF ok(6)] ok(5) by (simp add: ar_link_eq [OF ok(3,1)] sizes link_refs_def)
  with sz tail udata_sizes [of s] enclose_size [of s] ar_link_size [OF ok(3,1)] ok(4) show ?thesis
    unfolding fits_def ps by (simp add: plain_sizes)
qed

lemma FN_fits:
  assumes "spkt_ok s" "spdu_case s = Some (b, ps)" and FN: "s_code s = SPDU_FN"
  shows "fits s b ps"
proof -
  from FN have "ps = (If_Set (0 \<in> s_mask s) [PI 17 [s_disconnect s]]) @ Put_Enclose s @ Put_UData s" "b = 6"
    using assms by (auto simp: spdu_case_def spkt_ok_def params_FN_def)
  moreover have "fits s 6 ((If_Set (0 \<in> s_mask s) [PI 17 [s_disconnect s]]) @ Put_Enclose s @ Put_UData s)"
    by (rule fits_tail [where k = 6]) (use FN assms(1) in \<open>auto simp: spkt_ok_def plain_sizes\<close>)
  ultimately show ?thesis by simp
qed

lemma DN_fits:
  assumes "spkt_ok s" "spdu_case s = Some (b, ps)" and DN: "s_code s = SPDU_DN"
  shows "fits s b ps"
proof -
  from DN have "ps = ([]) @ Put_Enclose s @ Put_UData s" "b = 3"
    using assms by (auto simp: spdu_case_def spkt_ok_def params_data_def)
  moreover have "fits s 3 (([]) @ Put_Enclose s @ Put_UData s)"
    by (rule fits_tail [where k = 3]) (use DN assms(1) in \<open>auto simp: spkt_ok_def plain_sizes\<close>)
  ultimately show ?thesis by simp
qed

lemma NF_fits:
  assumes "spkt_ok s" "spdu_case s = Some (b, ps)" and NF: "s_code s = SPDU_NF"
  shows "fits s b ps"
proof -
  from NF have "ps = ([]) @ Put_Enclose s @ Put_UData s" "b = 3"
    using assms by (auto simp: spdu_case_def spkt_ok_def params_data_def)
  moreover have "fits s 3 (([]) @ Put_Enclose s @ Put_UData s)"
    by (rule fits_tail [where k = 3]) (use NF assms(1) in \<open>auto simp: spkt_ok_def plain_sizes\<close>)
  ultimately show ?thesis by simp
qed

lemma CD_fits:
  assumes "spkt_ok s" "spdu_case s = Some (b, ps)" and CD: "s_code s = SPDU_CD"
  shows "fits s b ps"
proof -
  from CD have "ps = ([]) @ Put_Enclose s @ Put_UData s" "b = 3"
    using assms by (auto simp: spdu_case_def spkt_ok_def params_data_def)
  moreover have "fits s 3 (([]) @ Put_Enclose s @ Put_UData s)"
    by (rule fits_tail [where k = 3]) (use CD assms(1) in \<open>auto simp: spkt_ok_def plain_sizes\<close>)
  ultimately show ?thesis by simp
qed

lemma CDA_fits:
  assumes "spkt_ok s" "spdu_case s = Some (b, ps)" and CDA: "s_code s = SPDU_CDA"
  shows "fits s b ps"
proof -
  from CDA have "ps = ([]) @ Put_Enclose s @ Put_UData s" "b = 3"
    using assms by (auto simp: spdu_case_def spkt_ok_def params_data_def)
  moreover have "fits s 3 (([]) @ Put_Enclose s @ Put_UData s)"
    by (rule fits_tail [where k = 3]) (use CDA assms(1) in \<open>auto simp: spkt_ok_def plain_sizes\<close>)
  ultimately show ?thesis by simp
qed

lemma AB_fits:
  assumes "spkt_ok s" "spdu_case s = Some (b, ps)" and AB: "s_code s = SPDU_AB"
  shows "fits s b ps"
proof -
  show ?thesis
  proof (cases "2 \<in> s_mask s")
    case True
    let ?h = "PI 17 [s_disconnect s] # If_Set (1 \<in> s_mask s) [PI 49 (s_reflect s)]"
    have "ps = ?h @ Put_Enclose s @ Put_UData s" "b = 17" using AB True assms by (auto simp: spdu_case_def spkt_ok_def params_AB_def)
    moreover have "fits s 17 (?h @ Put_Enclose s @ Put_UData s)"
      by (rule fits_tail [where k = 17]) (use AB True assms(1) in \<open>auto simp: spkt_ok_def plain_sizes\<close>)
    ultimately show ?thesis by simp
  next
    case False
    then show ?thesis using AB assms by (intro fits_short) (auto simp: spdu_case_def params_AB_def plain_sizes)
  qed
qed

lemma AA_fits:
  assumes "spkt_ok s" "spdu_case s = Some (b, ps)" and AA: "s_code s = SPDU_AA"
  shows "fits s b ps"
proof -
  from AA show ?thesis using assms by (intro fits_short) (auto simp: spdu_case_def)
qed

lemma GT_fits:
  assumes "spkt_ok s" "spdu_case s = Some (b, ps)" and GT: "s_code s = SPDU_GT"
  shows "fits s b ps"
proof -
  from GT show ?thesis using assms
    by (intro fits_short) (auto simp: spdu_case_def spkt_ok_def params_GT_def params_AD_def plain_sizes enclose_size)
qed

lemma TD_fits:
  assumes "spkt_ok s" "spdu_case s = Some (b, ps)" and TD: "s_code s = SPDU_TD"
  shows "fits s b ps"
proof -
  from TD show ?thesis using assms
    by (intro fits_short) (auto simp: spdu_case_def spkt_ok_def params_GT_def params_AD_def plain_sizes enclose_size)
qed

lemma EX_fits:
  assumes "spkt_ok s" "spdu_case s = Some (b, ps)" and EX: "s_code s = SPDU_EX"
  shows "fits s b ps"
proof -
  from EX show ?thesis using assms by (intro fits_short) (auto simp: spdu_case_def)
qed

lemma GTC_fits:
  assumes "spkt_ok s" "spdu_case s = Some (b, ps)" and GTC: "s_code s = SPDU_GTC"
  shows "fits s b ps"
proof -
  from GTC show ?thesis using assms by (intro fits_short) (auto simp: spdu_case_def)
qed

lemma GTA_fits:
  assumes "spkt_ok s" "spdu_case s = Some (b, ps)" and GTA: "s_code s = SPDU_GTA"
  shows "fits s b ps"
proof -
  from GTA show ?thesis using assms by (intro fits_short) (auto simp: spdu_case_def)
qed

lemma ADA_fits:
  assumes "spkt_ok s" "spdu_case s = Some (b, ps)" and ADA: "s_code s = SPDU_ADA"
  shows "fits s b ps"
proof -
  from ADA show ?thesis using assms by (intro fits_short) (auto simp: spdu_case_def)
qed

lemma PT_fits:
  assumes "spkt_ok s" "spdu_case s = Some (b, ps)" and PT: "s_code s = SPDU_PT"
  shows "fits s b ps"
proof -
  from PT have "ps = (If_Set (0 \<in> s_mask s) [PI 16 [s_token s]]) @ Put_Enclose s @ Put_UData s" "b = 6"
    using assms by (auto simp: spdu_case_def spkt_ok_def params_PT_def)
  moreover have "fits s 6 ((If_Set (0 \<in> s_mask s) [PI 16 [s_token s]]) @ Put_Enclose s @ Put_UData s)"
    by (rule fits_tail [where k = 6]) (use PT assms(1) in \<open>auto simp: spkt_ok_def plain_sizes\<close>)
  ultimately show ?thesis by simp
qed

lemma MIP_fits:
  assumes "spkt_ok s" "spdu_case s = Some (b, ps)" and MIP: "s_code s = SPDU_MIP"
  shows "fits s b ps"
proof -
  from MIP have "ps = (If_Set (0 \<in> s_mask s) [PI 15 [s_sync s]] @ Put_SSN 42 (s_serial s)) @ Put_Enclose s @ Put_UData s" "b = 14"
    using assms by (auto simp: spdu_case_def spkt_ok_def params_MIP_def)
  moreover have "fits s 14 ((If_Set (0 \<in> s_mask s) [PI 15 [s_sync s]] @ Put_SSN 42 (s_serial s)) @ Put_Enclose s @ Put_UData s)"
    by (rule fits_tail [where k = 14]) (use MIP assms(1) serial_size [of "s_serial s" 42] in \<open>auto simp: spkt_ok_def plain_sizes\<close>)
  ultimately show ?thesis by simp
qed

lemma MAP_fits:
  assumes "spkt_ok s" "spdu_case s = Some (b, ps)" and MAP: "s_code s = SPDU_MAP"
  shows "fits s b ps"
proof -
  let ?h = "If_Set (0 \<in> s_mask s) [PI 15 [s_sync s]] @ Put_SSN 42 (s_serial s)"
  have ps: "ps = ?h @ Put_Enclose s @ Put_UData s" "b = (if 0 \<in> s_mask s then 14 else 8)"
    using MAP assms by (auto simp: spdu_case_def spkt_ok_def params_MAP_def)
  note ser = serial_size [of "s_serial s" 42]
  show ?thesis
  proof (cases "0 \<notin> s_mask s \<and> 13 \<in> s_mask s")
    case True
    then have "tail_size s \<le> 243" using MAP assms(1) by (auto simp: spkt_ok_def tail_size_def udata_size_def split: option.splits)
    with True show ?thesis unfolding ps(1)
      by (intro fits_short) (use MAP assms(1) ser udata_sizes [of s] enclose_size [of s] in \<open>auto simp: spkt_ok_def plain_sizes\<close>)
  next
    case False
    have "fits s b (?h @ Put_Enclose s @ Put_UData s)" unfolding ps(2)
      by (rule fits_tail [where k = "if 0 \<in> s_mask s then 14 else 8"]) (use MAP False assms(1) ser in \<open>auto simp: spkt_ok_def plain_sizes\<close>)
    with ps(1) show ?thesis by simp
  qed
qed

lemma MIA_fits:
  assumes "spkt_ok s" "spdu_case s = Some (b, ps)" and MIA: "s_code s = SPDU_MIA"
  shows "fits s b ps"
proof -
  have ps: "ps = Put_SSN 42 (s_serial s) @ Put_Enclose s @ Put_MData s" "b = 11"
    using MIA assms by (auto simp: spdu_case_def spkt_ok_def params_MIA_def)
  have "11 + tail_size s \<le> spdu_size s 11" "tail_size s \<le> 65404"
    using size_tail [of s 65400] MIA assms(1) by (auto simp: spkt_ok_def)
  with udata_sizes [of s] enclose_size [of s] serial_size [of "s_serial s" 42] MIA assms(1) show ?thesis
    unfolding fits_def ps by (auto simp: spkt_ok_def plain_sizes)
qed

lemma MAA_fits:
  assumes "spkt_ok s" "spdu_case s = Some (b, ps)" and MAA: "s_code s = SPDU_MAA"
  shows "fits s b ps"
proof -
  from MAA have "ps = (Put_SSN 42 (s_serial s)) @ Put_Enclose s @ Put_UData s" "b = 11"
    using assms by (auto simp: spdu_case_def spkt_ok_def params_MAA_def)
  moreover have "fits s 11 ((Put_SSN 42 (s_serial s)) @ Put_Enclose s @ Put_UData s)"
    by (rule fits_tail [where k = 11]) (use MAA assms(1) serial_size [of "s_serial s" 42] in \<open>auto simp: spkt_ok_def plain_sizes\<close>)
  ultimately show ?thesis by simp
qed

lemma RS_fits:
  assumes "spkt_ok s" "spdu_case s = Some (b, ps)" and RS: "s_code s = SPDU_RS"
  shows "fits s b ps"
proof -
  from RS have "ps = (If_Set (0 \<in> s_mask s) [PI 26 [s_settings s]] @ PI 27 [s_rs_type s] # Put_SSN 42 (s_serial s)) @ Put_Enclose s @ Put_UData s" "b = 17"
    using assms by (auto simp: spdu_case_def spkt_ok_def params_RS_def)
  moreover have "fits s 17 ((If_Set (0 \<in> s_mask s) [PI 26 [s_settings s]] @ PI 27 [s_rs_type s] # Put_SSN 42 (s_serial s)) @ Put_Enclose s @ Put_UData s)"
    by (rule fits_tail [where k = 17]) (use RS assms(1) serial_size [of "s_serial s" 42] in \<open>auto simp: spkt_ok_def plain_sizes\<close>)
  ultimately show ?thesis by simp
qed

lemma RA_fits:
  assumes "spkt_ok s" "spdu_case s = Some (b, ps)" and RA: "s_code s = SPDU_RA"
  shows "fits s b ps"
proof -
  from RA have "ps = (If_Set (0 \<in> s_mask s) [PI 26 [s_settings s]] @ Put_SSN 42 (s_serial s)) @ Put_Enclose s @ Put_UData s" "b = 14"
    using assms by (auto simp: spdu_case_def spkt_ok_def params_RA_def)
  moreover have "fits s 14 ((If_Set (0 \<in> s_mask s) [PI 26 [s_settings s]] @ Put_SSN 42 (s_serial s)) @ Put_Enclose s @ Put_UData s)"
    by (rule fits_tail [where k = 14]) (use RA assms(1) serial_size [of "s_serial s" 42] in \<open>auto simp: spkt_ok_def plain_sizes\<close>)
  ultimately show ?thesis by simp
qed

lemma PR_fits:
  assumes "spkt_ok s" "spdu_case s = Some (b, ps)" and PR: "s_code s = SPDU_PR"
  shows "fits s b ps"
proof -
  have "0 \<in> s_mask s" using PR assms(1) by (simp add: spkt_ok_def)
  then have "ps = [PI 24 [s_pr_type s]]" using PR assms(2) by (simp add: spdu_case_def params_PR_def)
  then show ?thesis by (intro fits_short) (simp_all add: length_li_octets)
qed

lemma ED_fits:
  assumes "spkt_ok s" "spdu_case s = Some (b, ps)" and ED: "s_code s = SPDU_ED"
  shows "fits s b ps"
proof -
  from ED have "ps = ([PI 50 [s_reason s]]) @ Put_Enclose s @ Put_UData s" "b = 6"
    using assms by (auto simp: spdu_case_def spkt_ok_def params_ED_def)
  moreover have "fits s 6 (([PI 50 [s_reason s]]) @ Put_Enclose s @ Put_UData s)"
    by (rule fits_tail [where k = 6]) (use ED assms(1) in \<open>auto simp: spkt_ok_def plain_sizes\<close>)
  ultimately show ?thesis by simp
qed

lemma AS_fits:
  assumes "spkt_ok s" "spdu_case s = Some (b, ps)" and AS: "s_code s = SPDU_AS"
  shows "fits s b ps"
proof -
  from AS have "ps = ([PI 41 (s_id s)]) @ Put_Enclose s @ Put_UData s" "b = 11"
    using assms by (auto simp: spdu_case_def spkt_ok_def params_AS_def)
  moreover have "fits s 11 (([PI 41 (s_id s)]) @ Put_Enclose s @ Put_UData s)"
    by (rule fits_tail [where k = 11]) (use AS assms(1) in \<open>auto simp: spkt_ok_def plain_sizes\<close>)
  ultimately show ?thesis by simp
qed

lemma AD_fits:
  assumes "spkt_ok s" "spdu_case s = Some (b, ps)" and AD: "s_code s = SPDU_AD"
  shows "fits s b ps"
proof -
  from AD show ?thesis using assms
    by (intro fits_short) (auto simp: spdu_case_def spkt_ok_def params_GT_def params_AD_def plain_sizes enclose_size)
qed

text \<open>Every packet fits into what \<^verbatim>\<open>start_spdu\<close> sets aside for it.\<close>

lemma spkt_fits:
  assumes "spkt_ok s" "spdu_case s = Some (b, ps)"
  shows "fits s b ps"
  using assms(1)
proof (cases rule: spdu_cases)
  case CN
  then show ?thesis using assms by (intro CN_fits)
next
  case AC
  then show ?thesis using assms by (intro AC_fits)
next
  case RF
  then show ?thesis using assms by (intro RF_fits)
next
  case FN
  then show ?thesis using assms by (intro FN_fits)
next
  case DN
  then show ?thesis using assms by (intro DN_fits)
next
  case NF
  then show ?thesis using assms by (intro NF_fits)
next
  case CD
  then show ?thesis using assms by (intro CD_fits)
next
  case CDA
  then show ?thesis using assms by (intro CDA_fits)
next
  case AB
  then show ?thesis using assms by (intro AB_fits)
next
  case AA
  then show ?thesis using assms by (intro AA_fits)
next
  case GT
  then show ?thesis using assms by (intro GT_fits)
next
  case TD
  then show ?thesis using assms by (intro TD_fits)
next
  case EX
  then show ?thesis using assms by (intro EX_fits)
next
  case GTC
  then show ?thesis using assms by (intro GTC_fits)
next
  case GTA
  then show ?thesis using assms by (intro GTA_fits)
next
  case ADA
  then show ?thesis using assms by (intro ADA_fits)
next
  case PT
  then show ?thesis using assms by (intro PT_fits)
next
  case MIP
  then show ?thesis using assms by (intro MIP_fits)
next
  case MAP
  then show ?thesis using assms by (intro MAP_fits)
next
  case MIA
  then show ?thesis using assms by (intro MIA_fits)
next
  case MAA
  then show ?thesis using assms by (intro MAA_fits)
next
  case RS
  then show ?thesis using assms by (intro RS_fits)
next
  case RA
  then show ?thesis using assms by (intro RA_fits)
next
  case PR
  then show ?thesis using assms by (intro PR_fits)
next
  case ED
  then show ?thesis using assms by (intro ED_fits)
next
  case AS
  then show ?thesis using assms by (intro AS_fits)
next
  case AR
  then show ?thesis using assms by (intro AR_fits)
next
  case AD
  then show ?thesis using assms by (intro AD_fits)
qed

end
