(* ===== verification/Spdu_Roundtrip.thy ===== *)
theory Spdu_Roundtrip
  imports Spdu_Size
begin

text \<open>
  The writer and the reader of session protocol data units as a whole: what \<^verbatim>\<open>spkt2tsdu\<close> writes,
  \<^verbatim>\<open>tsdu2spkt\<close> reads back, however it is split into buffers; and what happens outside of the packets
  for which this holds.
\<close>

section \<open>Writing, then reading\<close>

lemma concat_drop_dangling: "concat (drop_dangling q) = concat q"
  by (auto simp: drop_dangling_def split: list.splits)

definition start_packet :: "bool \<Rightarrow> byte \<Rightarrow> int \<Rightarrow> ssapkt" where
  "start_packet cat0 si li = (set_category cat0 si ((newspkt si)\<lparr>s_li := li\<rparr>))\<lparr>s_errno := SC_ACCEPT\<rparr>"

definition start_reading :: "bool \<Rightarrow> byte \<Rightarrow> nat \<Rightarrow> int \<Rightarrow> byte list list \<Rightarrow> reading" where
  "start_reading cat0 si n k q =
     \<lparr>r_s = start_packet cat0 si (int n), r_base = [], r_queue = q, r_pktlen = int n, r_pgilen = int n, r_nread = k\<rparr>"

text \<open>The header is read in one or two pulls; then the loop runs.\<close>

lemma tsdu2spkt_start:
  assumes "unat si < length si_table" "si_table ! unat si \<noteq> PMASK_NOTSUPPORTED" "length out \<le> 65535"
    "concat qb = spdu si out @ rest" "int (length (spdu si out)) \<le> len"
  shows "\<exists>q. concat q = out @ rest \<and> tsdu2spkt mem qb len cat0 =
    (case read_loop mem si (si_table ! unat si) (start_reading cat0 si (length out) (if length out < 255 then 2 else 4) q) of
       None \<Rightarrow> Fault
     | Some r \<Rightarrow> Done ((if mandatory (r_s r) then r_s r else protocol_error (r_s r)), r_nread r, drop_dangling (r_queue r)))"
proof (cases "length out < 255")
  case True
  let ?n = "length out"
  have c: "concat qb = [si, word_of_nat ?n] @ out @ rest" using assms(4) True by (simp add: spdu_def li_octets_def)
  from pullqb_enough [of 2 qb] obtain q where q: "pullqb 2 qb = (Some [si, word_of_nat ?n], q)" "concat q = out @ rest"
    unfolding c by auto
  have w: "unat (word_of_nat ?n :: byte) = ?n" using True by (simp add: unat_of_nat)
  then have "(word_of_nat ?n :: byte) \<noteq> 255" using True by auto
  with q w assms(1,2,5) True show ?thesis
    by (intro exI [of _ q]) (simp add: tsdu2spkt_def Let_def start_reading_def start_packet_def spdu_def li_octets_def)
next
  case False
  let ?n = "length out"
  obtain h l where hl: "li_octets ?n = [255, h, l]" "unat h * 256 + unat l = ?n"
    using li_octets_value [OF assms(3) False] by blast
  then have c: "concat qb = [si, 255, h, l] @ out @ rest" using assms(4) by (simp add: spdu_def)
  from pullqb_enough [of 2 qb] obtain q where q: "pullqb 2 qb = (Some [si, 255], q)" "concat q = [h, l] @ out @ rest"
    unfolding c by auto
  from pullqb_enough [of 2 q] obtain q' where q': "pullqb 2 q = (Some [h, l], q')" "concat q' = out @ rest"
    unfolding q(2) by auto
  with q hl assms(1,2,5) False show ?thesis
    by (intro exI [of _ q']) (simp add: tsdu2spkt_def Let_def start_reading_def start_packet_def spdu_def)
qed

lemma tsdu2spkt_takes:
  assumes "take_params mem si (si_table ! unat si) ps (start_packet cat0 si (int (length (render ps)))) = Some u" "mandatory u"
    "unat si < length si_table" "si_table ! unat si \<noteq> PMASK_NOTSUPPORTED" "length (render ps) \<le> 65535"
    "concat qb = spdu si (render ps) @ rest" "int (length (spdu si (render ps))) \<le> len"
  shows "\<exists>q. tsdu2spkt mem qb len cat0 = Done (u, int (length (spdu si (render ps))), q) \<and> concat q = rest"
proof -
  let ?n = "length (render ps)"
  let ?k = "if ?n < 255 then 2 else 4 :: int"
  obtain q where q: "concat q = render ps @ rest" "tsdu2spkt mem qb len cat0 =
      (case read_loop mem si (si_table ! unat si) (start_reading cat0 si ?n ?k q) of
         None \<Rightarrow> Fault
       | Some r \<Rightarrow> Done ((if mandatory (r_s r) then r_s r else protocol_error (r_s r)), r_nread r, drop_dangling (r_queue r)))"
    using tsdu2spkt_start [OF assms(3-7), of mem cat0] by blast
  have "\<exists>r'. read_loop mem si (si_table ! unat si) (start_reading cat0 si ?n ?k q) = Some r' \<and> r_s r' = u
      \<and> concat (r_queue r') = rest \<and> r_nread r' = ?k + int ?n"
    using read_loop_takes [of mem si "si_table ! unat si" ps "start_reading cat0 si ?n ?k q" u rest] assms(1) q(1)
    by (simp add: start_reading_def)
  with q(2) assms(2) show ?thesis by (auto simp: spdu_def length_li_octets concat_drop_dangling)
qed

lemma fresh_start:
  "cat0 = category s \<Longrightarrow> fresh (s_code s) (category_bits s) (start_packet cat0 (s_code s) li)"
  by (auto simp: fresh_def start_packet_def set_category_def category_def category_bits_def Set_def newspkt_def)

lemma spkt_ok_supported:
  assumes "spkt_ok s"
  shows "unat (s_code s) < length si_table" "si_table ! unat (s_code s) \<noteq> PMASK_NOTSUPPORTED"
  using assms by (cases rule: spdu_cases; simp add: tables_at)+

lemma spkt_ok_mandatory:
  assumes "spkt_ok s" "s_code u = s_code s" "s_mask u = s_mask s"
  shows "mandatory u"
  using assms(1) unfolding mandatory_def assms(2,3)
  by (cases rule: spdu_cases; simp add: spkt_ok_def split: if_splits)

text \<open>The window of \<open>end_spdu\<close>: a short SPDU of 253 or 254 octets must not lie in a block for a long one.\<close>

definition clear_of_window :: "ssapkt \<Rightarrow> bool" where
  "clear_of_window s = (case spdu_case s of None \<Rightarrow> True
     | Some (b, ps) \<Rightarrow> spdu_size s b > 254 \<longrightarrow> length (render ps) \<notin> {253, 254})"

text \<open>The octets of a packet, and what the reader makes of them.\<close>

lemma spdu_travels:
  assumes "spkt_ok s" "clear_of_window s" "\<forall>n. mem n" "spdu_case s = Some (b, ps)"
  shows "spkt2tsdu mem s = (Done (spdu (s_code s) (render ps)), s\<lparr>s_errno := SC_ACCEPT, s_li := int (length (render ps))\<rparr>)"
    and "concat qb = spdu (s_code s) (render ps) @ rest \<Longrightarrow> int (length (spdu (s_code s) (render ps))) \<le> len \<Longrightarrow>
      \<exists>u q. tsdu2spkt mem qb len (category s) = Done (u, int (length (spdu (s_code s) (render ps))), q) \<and> concat q = rest
        \<and> s_errno u = SC_ACCEPT \<and> s_code u = s_code s \<and> s_mask u = s_mask s \<and> spdu_case u = spdu_case s"
proof -
  have mem: "\<forall>n \<le> 70000. mem n" using assms(3) by simp
  have f: "plain ps" "int (length (render ps)) \<le> spdu_size s b" "length (render ps) \<le> 65535"
    using spkt_fits [OF assms(1,4)] by (auto simp: fits_def)
  have w: "writable mem s b ps" unfolding writable_def
    using f assms(2-4) by (auto simp: clear_of_window_def)
  show "spkt2tsdu mem s = (Done (spdu (s_code s) (render ps)), s\<lparr>s_errno := SC_ACCEPT, s_li := int (length (render ps))\<rparr>)"
    by (rule spkt2tsdu_renders [OF assms(4) w])
  have fr: "fresh (s_code s) (category_bits s) (start_packet (category s) (s_code s) (int (length (render ps))))"
    by (rule fresh_start) simp
  obtain u where u: "take_params mem (s_code s) (si_table ! unat (s_code s)) ps
      (start_packet (category s) (s_code s) (int (length (render ps)))) = Some u"
    "s_errno u = SC_ACCEPT" "s_code u = s_code s" "s_mask u = s_mask s" "spdu_case u = spdu_case s"
    using spkt_back [OF assms(1) mem fr] assms(4) by auto
  have m: "mandatory u" by (rule spkt_ok_mandatory [OF assms(1) u(3,4)])
  show "\<exists>u q. tsdu2spkt mem qb len (category s) = Done (u, int (length (spdu (s_code s) (render ps))), q) \<and> concat q = rest
      \<and> s_errno u = SC_ACCEPT \<and> s_code u = s_code s \<and> s_mask u = s_mask s \<and> spdu_case u = spdu_case s"
    if "concat qb = spdu (s_code s) (render ps) @ rest" "int (length (spdu (s_code s) (render ps))) \<le> len"
    using tsdu2spkt_takes [OF u(1) m spkt_ok_supported [OF assms(1)] f(3) that] u(2-5) by blast
qed

lemma spkt_ok_case:
  assumes "spkt_ok s"
  obtains b ps where "spdu_case s = Some (b, ps)"
  using spkt_back [OF assms _ fresh_start [OF refl, of _ 0], of "\<lambda>_. True"] by auto

text \<open>
  C2: Round trip of session protocol data units. Every packet with the parameters that its code may and
  must have, in their ranges, is written by \<^verbatim>\<open>spkt2tsdu\<close>, and \<^verbatim>\<open>tsdu2spkt\<close> reads exactly these octets back,
  from any sequence of buffers that begins with them, to an accepted packet with the same code, the same
  mask and the same parameters with the same values; what follows in the buffers stays there.
\<close>

theorem spdu_roundtrip:
  assumes "spkt_ok s" "clear_of_window s" "\<forall>n. mem n"
  shows "\<exists>bs s'. spkt2tsdu mem s = (Done bs, s') \<and> s_errno s' = SC_ACCEPT
    \<and> (\<forall>qb rest len. concat qb = bs @ rest \<and> int (length bs) \<le> len \<longrightarrow>
        (\<exists>u q. tsdu2spkt mem qb len (category s) = Done (u, int (length bs), q) \<and> concat q = rest
           \<and> s_errno u = SC_ACCEPT \<and> s_code u = s_code s \<and> s_mask u = s_mask s \<and> spdu_case u = spdu_case s))"
proof -
  obtain b ps where c: "spdu_case s = Some (b, ps)" by (rule spkt_ok_case [OF assms(1)])
  from spdu_travels [OF assms c] show ?thesis by auto
qed

definition connect_example :: ssapkt where
  "connect_example = (newspkt SPDU_CN)\<lparr>s_mask := {0, 1, 2, 3, 4, 7, 8, 14},
     s_reference := \<lparr>sr_udata = [1, 2, 3], sr_cdata = [4], sr_adata = [], sr_vdata = []\<rparr>,
     s_options := 1, s_tsdu_init := 1024, s_tsdu_resp := 512, s_version := 3, s_isn := 42, s_require := 0x17,
     s_calling := [7, 8], s_udata := Some [9, 9, 9]\<rparr>"

lemma connect_example_ok: "spkt_ok connect_example" "clear_of_window connect_example"
proof -
  show "spkt_ok connect_example"
    by (simp add: spkt_ok_def connect_example_def newspkt_def conn_ok_def items_ok_def ref_ok_def udata_ok_def)
  show "clear_of_window connect_example"
    by (simp add: clear_of_window_def spdu_case_def connect_example_def newspkt_def spdu_size_def udata_size_def ref_size_def)
qed

theorem spdu_roundtrip_witness:
  "\<exists>bs s'. spkt2tsdu (\<lambda>_. True) connect_example = (Done bs, s') \<and> s_errno s' = SC_ACCEPT
    \<and> (\<forall>qb rest len. concat qb = bs @ rest \<and> int (length bs) \<le> len \<longrightarrow>
        (\<exists>u q. tsdu2spkt (\<lambda>_. True) qb len (category connect_example) = Done (u, int (length bs), q) \<and> concat q = rest
           \<and> s_errno u = SC_ACCEPT \<and> s_code u = s_code connect_example \<and> s_mask u = s_mask connect_example
           \<and> spdu_case u = spdu_case connect_example))"
  by (rule spdu_roundtrip [OF connect_example_ok]) simp

end
