(* ===== verification/Spdu_Limits.thy ===== *)
theory Spdu_Limits
  imports Spdu_Roundtrip
begin

text \<open>
  Where the writer and the reader of session protocol data units leave the memory that they own, what
  the reader refuses although the writer writes it, and what the reader takes off its queue.
\<close>

section \<open>Outside of the block\<close>

lemma end_spdu_window:
  assumes "holds c out" "c_allocli c > 254" "length out \<in> {253, 254}"
  shows "end_spdu code c = Fault"
proof -
  obtain pre free where c: "c_top c = pre @ out @ free" "length pre = 4" "c_left c = int (length free)"
    "c_li c = int (length out)" "c_len c = int (length (c_top c))" using assms(1,2) by (auto simp: holds_def)
  have "c_len c - c_left c = int (length out) + 4" using c by simp
  with c assms(2,3) show ?thesis by (auto simp: end_spdu_def Let_def)
qed

text \<open>
  C38: The stack buffer of \<^verbatim>\<open>end_spdu\<close>. A packet that is written except for the window, that is one whose
  parameters take 253 or 254 octets in a block that was laid out for a long SPDU, makes \<^verbatim>\<open>end_spdu\<close> copy
  257 or 258 octets into its buffer of 256 octets: the writer leaves its memory.
\<close>

theorem spkt2tsdu_window_overrun:
  assumes "spkt_ok s" "\<not> clear_of_window s" "\<forall>n. mem n"
  shows "fst (spkt2tsdu mem s) = Fault"
proof -
  obtain b ps where c: "spdu_case s = Some (b, ps)" "spdu_size s b > 254" "length (render ps) \<in> {253, 254}"
    using assms(2) by (auto simp: clear_of_window_def split: option.splits prod.splits)
  have f: "plain ps" "int (length (render ps)) \<le> spdu_size s b" using spkt_fits [OF assms(1) c(1)] by (auto simp: fits_def)
  obtain c0 s1 where st: "start_spdu mem s b = (c0, s1)" by fastforce
  have "mem (spdu_size s b + (if spdu_size s b > 254 then 4 else 2))" using assms(3) by simp
  note h = start_spdu_holds [OF st this]
  from put_params_holds [OF h(1) f(1), of mem] h(2,3) f(2) obtain c' where
    c': "put_params mem ps c0 = Enc c'" "holds c' (render ps)" "c_allocli c' = spdu_size s b"
      "c_left c' = spdu_size s b - int (length (render ps))" by auto
  have "end_spdu (s_code s) c' = Fault"
    by (rule end_spdu_window [OF c'(2)]) (use c'(3,4) c(2,3) in auto)
  then show ?thesis using c(1) st c'(1) by (simp add: spkt2tsdu_def)
qed

definition finish_example :: ssapkt where
  "finish_example = (newspkt SPDU_FN)\<lparr>s_mask := {14}, s_udata := Some (replicate 251 7)\<rparr>"

lemma finish_example_ok: "spkt_ok finish_example" "\<not> clear_of_window finish_example"
proof -
  show "spkt_ok finish_example"
    by (simp add: spkt_ok_def finish_example_def newspkt_def udata_ok_def enclose_ok_def)
  show "\<not> clear_of_window finish_example"
    by (simp add: clear_of_window_def spdu_case_def finish_example_def newspkt_def spdu_size_def udata_size_def params_FN_def
      Put_UData_def Put_Enclose_def If_Set_def length_li_octets)
qed

theorem spkt2tsdu_window_overrun_witness: "fst (spkt2tsdu (\<lambda>_. True) finish_example) = Fault"
  by (rule spkt2tsdu_window_overrun [OF finish_example_ok]) simp

text \<open>
  The growth branch of \<^verbatim>\<open>put2spdu\<close>. When what is left of the block does not hold the next parameter,
  the block grows, and then the code always leaves it: with a short header its copying loop goes below
  the start of the block or beyond its end, with a long header the parameter is written behind the end.
\<close>

lemma put2spdu_overrun:
  assumes "c_len c = int (length (c_top c))" "0 \<le> c_left c" "c_left c < c_len c" "c_left c < int (length v) + (if length v < 255 then 2 else 4)"
    "\<forall>n. mem n"
  shows "put2spdu mem code v c = EncFault"
proof -
  let ?cl = "int (length v) + (if length v < 255 then 2 else 4)"
  have nz: "c_len c \<noteq> 0" "\<not> ?cl \<le> c_left c" using assms(2,3,4) by auto
  have down: "move_up n p blk = None" if "p < int n - 1" "-1 \<le> p" for n p blk
    using that by (induction n p blk rule: move_up.induct) (auto simp: not_le)
  show ?thesis
  proof (cases "c_allocli c < 255")
    case True
    let ?len = "c_len c + (?cl + 2)"
    have "move_up (nat (?len - c_left c + 2)) (?len - c_left c) blk = None" for blk
      by (rule down) (use assms(2,3) in \<open>simp_all add: nat_add_distrib\<close>)
    then have "grow mem ?cl c = EncFault" unfolding grow_def Let_def using True assms(5) by simp
    with nz show ?thesis unfolding put2spdu_def Let_def by simp
  next
    case False
    let ?len = "c_len c + ?cl"
    let ?c1 = "c\<lparr>c_len := ?len, c_top := c_top c @ replicate (nat ?len - length (c_top c)) 0, c_ptr := nat (?len - c_left c)\<rparr>"
    have "grow mem ?cl c = Enc ?c1" unfolding grow_def Let_def using False assms(5) by simp
    moreover have "poke (c_top ?c1) (c_ptr ?c1) (code # li_octets (length v) @ v) = None"
      using assms(1-4) by (auto simp: poke_def length_li_octets split: if_splits)
    ultimately show ?thesis unfolding put2spdu_def Let_def using nz assms(2,3) by simp
  qed
qed

text \<open>
  An enclosed major synchronization point without a type item. \<^verbatim>\<open>spkt2tsdu\<close> sets eight octets aside
  for it, which its serial number alone may take, and forgets the enclosure item: with a serial number
  of six digits and from 242 octets of user data on, the user data do not fit, and the writer leaves
  its memory.
\<close>

theorem spkt2tsdu_enclosed_end_overrun:
  assumes "s_code s = SPDU_MAP" "s_mask s = {SMASK_MAP_SERIAL, SMASK_ENCLOSE, SMASK_UDATA_PGI}" "s_udata s = Some d"
    "242 \<le> length d" "s_serial s \<le> 999999" "length (decimal (s_serial s)) = 6" "\<forall>n. mem n"
  shows "fst (spkt2tsdu mem s) = Fault"
proof -
  let ?qs = "[PI 42 (decimal (s_serial s)), PI 25 [s_enclose s]]"
  have ps: "params_MAP s = ?qs @ [PI 193 d]"
    using assms(2,3,5) by (simp add: params_MAP_def If_Set_def Put_SSN_eq Put_Enclose_def Put_UData_def)
  have size: "spdu_size s 8 < 11 + int (length d) + (if length d < 255 then 2 else 4)" "11 \<le> spdu_size s 8"
    using assms(1,3,4) by (auto simp: spdu_size_def udata_size_def Let_def)
  obtain c0 s1 where st: "start_spdu mem s 8 = (c0, s1)" by fastforce
  have "mem (spdu_size s 8 + (if spdu_size s 8 > 254 then 4 else 2))" using assms(7) by simp
  note h = start_spdu_holds [OF st this]
  have r: "length (render ?qs) = 11" using assms(6) by (simp add: length_li_octets)
  from put_pis_holds [OF h(1), of ?qs mem] h(2) r size(2) obtain c' where
    c': "put_params mem ?qs c0 = Enc c'" "holds c' (render ?qs)" "c_left c' = spdu_size s 8 - 11" by auto
  have "put2spdu mem 193 d c' = EncFault"
    by (rule put2spdu_overrun) (use c'(2,3) size assms(7) in \<open>auto simp: holds_def split: if_splits\<close>)
  then have "put_params mem (params_MAP s) c0 = EncFault" unfolding ps using c'(1) by (auto split: enc.splits)
  moreover have "spdu_case s = Some (8, params_MAP s)" using assms(1,2) by (simp add: spdu_case_def)
  ultimately show ?thesis using st by (simp add: spkt2tsdu_def)
qed

definition end_example :: ssapkt where
  "end_example = (newspkt SPDU_MAP)\<lparr>s_mask := {1, 13, 14}, s_serial := 123456, s_enclose := 3, s_udata := Some (replicate 300 7)\<rparr>"

theorem spkt2tsdu_enclosed_end_overrun_witness: "fst (spkt2tsdu (\<lambda>_. True) end_example) = Fault"
  by (rule spkt2tsdu_enclosed_end_overrun [where d = "replicate 300 7"])
    (simp_all add: end_example_def newspkt_def decimal.simps)

section \<open>What the reader refuses\<close>

lemma read_step_refuses:
  assumes "r_base r = []" "concat (r_queue r) = code # li_octets n @ rest" "n \<le> 65535" "\<not> code_ok pmask code n"
  shows "\<exists>r'. read_step mem si pmask r = (Some (lose r'), False)"
proof -
  from read_head_top [OF assms(1), of code n rest] assms(2,3) obtain q1 where
    "read_head r = Head (code, n, if n < 255 then 2 else 4) (r\<lparr>r_base := [], r_queue := q1, r_nread := r_nread r + (if n < 255 then 2 else 4)\<rparr>)"
    by auto
  then show ?thesis using assms(4) by (auto simp: read_step_def)
qed


definition data_example :: ssapkt where
  "data_example = (newspkt SPDU_DN)\<lparr>s_mask := {14}, s_udata := Some (replicate 600 7)\<rparr>"


section \<open>Parameters without a value\<close>

text \<open>The parameters with a fixed length, and SPDUs in which they stand for themselves.\<close>

definition fixed_items :: "(byte \<times> byte) list" where
  "fixed_items = [(SPDU_CN, 20), (SPDU_CN, 22), (SPDU_AC, 16), (SPDU_AC, 25), (SPDU_RF, 17), (SPDU_FN, 17), (SPDU_DN, 25),
     (SPDU_PT, 16), (SPDU_MIP, 15), (SPDU_MAP, 15), (SPDU_RS, 26), (SPDU_RS, 27), (SPDU_RA, 26), (SPDU_PR, 24), (SPDU_ED, 50)]"

lemma fixed_item_cases:
  assumes "(si, code) \<in> set fixed_items"
    "P SPDU_CN 20" "P SPDU_CN 22" "P SPDU_AC 16" "P SPDU_AC 25" "P SPDU_RF 17" "P SPDU_FN 17" "P SPDU_DN 25" "P SPDU_PT 16"
    "P SPDU_MIP 15" "P SPDU_MAP 15" "P SPDU_RS 26" "P SPDU_RS 27" "P SPDU_RA 26" "P SPDU_PR 24" "P SPDU_ED 50"
  shows "P si code"
proof -
  have "\<forall>(si, code) \<in> set fixed_items. P si code" using assms(2-) by (simp add: fixed_items_def)
  with assms(1) show ?thesis by blast
qed

lemma fixed_item_supported:
  "(si, code) \<in> set fixed_items \<Longrightarrow> unat si < length si_table \<and> si_table ! unat si \<noteq> PMASK_NOTSUPPORTED"
  by (erule fixed_item_cases) (simp_all add: tables_at)

lemma fixed_item_ok:
  "(si, code) \<in> set fixed_items \<Longrightarrow> code_ok (si_table ! unat si) code 0 \<and> length_ok code 0 \<and> \<not> is_group code"
  by (erule fixed_item_cases) (simp_all add: code_ok_def length_ok_def tables_at is_group_def)

lemma fixed_item_reads: "(si, code) \<in> set fixed_items \<Longrightarrow> read_param mem si code 0 s [] = None"
  by (erule fixed_item_cases) (simp_all add: read_param_def read_user_req_def read_version_def read_token_def read_enclose_def
    read_tdisc_def read_sync_def read_token_set_def read_resync_def read_prepare_def read_reason_def octet_def octets_def)

text \<open>
  C40: A parameter of a fixed length that comes with length zero passes every check of the reader, since
  the comparison with the length of the table is made for positive lengths only; its handler then
  reads an octet that is not part of the SPDU.
\<close>

theorem empty_item_overread:
  assumes "(si, code) \<in> set fixed_items" "concat qb = spdu si [code, 0] @ rest" "4 \<le> len"
  shows "tsdu2spkt mem qb len cat0 = Fault"
proof -
  have sup: "unat si < length si_table" "si_table ! unat si \<noteq> PMASK_NOTSUPPORTED"
    using fixed_item_supported [OF assms(1)] by auto
  have len: "int (length (spdu si [code, 0])) \<le> len" using assms(3) by (simp add: spdu_def li_octets_def)
  have n: "length [code, 0] \<le> 65535" by simp
  obtain q where q: "concat q = [code, 0] @ rest" "tsdu2spkt mem qb len cat0 =
      (case read_loop mem si (si_table ! unat si) (start_reading cat0 si 2 2 q) of None \<Rightarrow> Fault
       | Some r \<Rightarrow> Done ((if mandatory (r_s r) then r_s r else protocol_error (r_s r)), r_nread r, drop_dangling (r_queue r)))"
    using tsdu2spkt_start [OF sup n assms(2) len, of mem cat0] by (auto simp: numeral_eq_Suc)
  define r0 where "r0 = start_reading cat0 si 2 2 q"
  have r0: "r_base r0 = []" "concat (r_queue r0) = code # li_octets 0 @ rest" "r_pktlen r0 = 2" "r_pgilen r0 = 2" "s_errno (r_s r0) = SC_ACCEPT"
    using q(1) by (simp_all add: r0_def start_reading_def start_packet_def li_octets_def)
  from read_head_top [OF r0(1,2)] obtain q1 where
    h: "read_head r0 = Head (code, 0, 2) (r0\<lparr>r_base := [], r_queue := q1, r_nread := r_nread r0 + 2\<rparr>)" by auto
  have ok: "code_ok (si_table ! unat si) code 0" "length_ok code 0" "\<not> is_group code" "read_param mem si code 0 s [] = None" for s
    using fixed_item_ok [OF assms(1)] fixed_item_reads [OF assms(1)] by auto
  have "read_step mem si (si_table ! unat si) r0 = (None, False)"
    unfolding read_step_def h using ok r0(3,4) by (simp add: Let_def is_group_def)
  then have "read_loop mem si (si_table ! unat si) r0 = None" by (subst read_loop.simps) (simp add: r0(3,5))
  then show ?thesis using q(2) by (simp add: r0_def)
qed

theorem empty_item_overread_witness: "tsdu2spkt (\<lambda>_. True) [[SPDU_PR, 2], [24, 0]] 4 True = Fault"
  by (rule empty_item_overread [where si = SPDU_PR and code = 24 and rest = "[]"]) (simp_all add: fixed_items_def spdu_def li_octets_def)

section \<open>What the reader takes off the queue\<close>

definition accounted :: "reading \<Rightarrow> int" where
  "accounted r = r_nread r + int (length (concat (r_queue r)))"

lemma advance_accounted: "advance n r = (r', True) \<Longrightarrow> accounted r' = accounted r"
  by (auto simp: advance_def accounted_def split: if_splits prod.splits option.splits
    dest!: pullqb_Some arg_cong [of _ "concat (r_queue r)" length])

lemma advance_stops: "advance n r = (r', False) \<Longrightarrow> s_errno (r_s r') = SC_PROTOCOL"
  by (auto simp: advance_def lose_def protocol_error_def split: if_splits prod.splits option.splits)

lemma accounted_upd [simp]:
  "accounted (r\<lparr>r_s := s\<rparr>) = accounted r" "accounted (r\<lparr>r_base := b\<rparr>) = accounted r"
  "accounted (r\<lparr>r_pktlen := k\<rparr>) = accounted r" "accounted (r\<lparr>r_pgilen := k\<rparr>) = accounted r"
  by (simp_all add: accounted_def)

lemma read_head_accounted:
  "read_head r = Head h r' \<Longrightarrow> accounted r' = accounted r"
  "read_head r = Stop r' \<Longrightarrow> s_errno (r_s r') = SC_PROTOCOL"
  by (auto simp: read_head_def Let_def lose_def protocol_error_def split: prod.splits if_splits list.splits
    dest!: advance_accounted advance_stops)

lemma read_step_accounted:
  "read_step mem si pmask r = (Some r', True) \<Longrightarrow> accounted r' = accounted r"
  "read_step mem si pmask r = (Some r', False) \<Longrightarrow> s_errno (r_s r') = SC_PROTOCOL"
  by (auto simp: read_step_def Let_def lose_def protocol_error_def split: head.splits prod.splits if_splits option.splits
    dest!: advance_accounted advance_stops read_head_accounted)

lemma read_loop_accounted:
  "read_loop mem si pmask r = Some r' \<Longrightarrow> s_errno (r_s r') \<noteq> SC_PROTOCOL \<Longrightarrow> accounted r' = accounted r"
proof (induction mem si pmask r rule: read_loop.induct)
  case (1 mem si pmask r)
  show ?case
  proof (cases "r_pktlen r \<noteq> 0 \<and> s_errno (r_s r) = SC_ACCEPT")
    case True
    obtain o1 go where st: "read_step mem si pmask r = (o1, go)" by fastforce
    with "1.prems"(1) True obtain r1 where r1: "o1 = Some r1" by (subst (asm) read_loop.simps) (auto split: option.splits)
    show ?thesis
    proof (cases go)
      case go: True
      have "read_loop mem si pmask r1 = Some r'" using "1.prems"(1) True st r1 go by (subst (asm) read_loop.simps) simp
      with "1.IH" [OF True st [symmetric] r1 go] "1.prems"(2) read_step_accounted(1) st r1 go show ?thesis by auto
    next
      case False
      have "r1 = r'" using "1.prems"(1) True st r1 False by (subst (asm) read_loop.simps) simp
      with read_step_accounted(2) [of mem si pmask r r'] st r1 False "1.prems"(2) show ?thesis by simp
    qed
  next
    case False
    then have "read_loop mem si pmask r = Some r" by (subst read_loop.simps) auto
    then show ?thesis using "1.prems"(1) by simp
  qed
qed

text \<open>
  C16: The count that \<^verbatim>\<open>tsdu2spkt\<close> stores through \<^verbatim>\<open>cc\<close>. Whenever the packet that it returns is not marked as
  a protocol error, the count is exactly the number of octets that are gone from the queue, so that the
  caller, who goes on reading behind it, loses none and reads none twice.
\<close>

theorem tsdu2spkt_accounts:
  assumes "tsdu2spkt mem qb len cat0 = Done (u, k, q)" "s_errno u \<noteq> SC_PROTOCOL"
  shows "k + int (length (concat q)) = int (length (concat qb))"
proof -
  have loop: "r_nread r' + int (length (concat (drop_dangling (r_queue r')))) = n + int (length (concat q0))"
    if "read_loop mem si pm \<lparr>r_s = s, r_base = [], r_queue = q0, r_pktlen = a, r_pgilen = a, r_nread = n\<rparr> = Some r'"
      "s_errno (r_s r') \<noteq> SC_PROTOCOL" for si pm s q0 a n r'
    using read_loop_accounted [OF that] by (simp add: accounted_def concat_drop_dangling)
  have pe: "s_errno (protocol_error x) = SC_PROTOCOL" for x by (simp add: protocol_error_def)
  obtain si l q0 where p: "pullqb 2 qb = (Some [si, l], q0)"
    using assms(1) by (auto simp: tsdu2spkt_def split: prod.splits option.splits list.splits)
  then have c0: "int (length (concat qb)) = 2 + int (length (concat q0))"
    using pullqb_Some [OF p] by (metis length_append of_nat_add of_nat_numeral)
  show ?thesis
  proof (cases "l = 255")
    case False
    then show ?thesis using assms p c0 loop unfolding tsdu2spkt_def
      by (auto simp: Let_def pe split: if_splits option.splits)
  next
    case True
    obtain h l' q1 where p1: "pullqb 2 q0 = (Some [h, l'], q1)"
      using assms p True by (cases "pullqb 2 q0") (auto simp: tsdu2spkt_def Let_def pe split: option.splits list.splits)
    then have "int (length (concat q0)) = 2 + int (length (concat q1))"
      using pullqb_Some [OF p1] by (metis length_append of_nat_add of_nat_numeral)
    with assms p c0 p1 True loop show ?thesis unfolding tsdu2spkt_def
      by (auto simp: Let_def pe split: if_splits option.splits)
  qed
qed

theorem tsdu2spkt_accounts_witness:
  "\<exists>u k q. tsdu2spkt (\<lambda>_. True) [[SPDU_GTC], [0, 1, 2]] 2 True = Done (u, k, q) \<and> s_errno u \<noteq> SC_PROTOCOL
    \<and> k + int (length (concat q)) = int (length (concat [[SPDU_GTC], [0, 1, 2]]))"
proof -
  let ?u = "start_packet True SPDU_GTC 0"
  have "\<exists>q. tsdu2spkt (\<lambda>_. True) [[SPDU_GTC], [0, 1, 2]] 2 True = Done (?u, int (length (spdu SPDU_GTC (render []))), q) \<and> concat q = [1, 2]"
    by (rule tsdu2spkt_takes) (simp_all add: tables_at mandatory_def start_packet_def set_category_def newspkt_def spdu_def li_octets_def)
  moreover have "s_errno ?u \<noteq> SC_PROTOCOL" by (simp add: start_packet_def)
  ultimately show ?thesis using tsdu2spkt_accounts by blast
qed

end
