(* ===== verification/Spm_Block.thy ===== *)
theory Spm_Block
  imports Spdu_Read
begin

text \<open>
  The session protocol machine, its state: the session block of \<^verbatim>\<open>h/spkt.h\<close>, the functional units and
  tokens of \<^verbatim>\<open>h/ssap.h\<close>, the guards in front of the requests, the check of the activity constraints
  (\<^verbatim>\<open>ssap/ssapactchk.c\<close>) and the decision tree for colliding resynchronizations.

  The flags are the set of the bits that are set. Of an address the block keeps the selector; timers and the
  vectors of the indication handlers are left out: no operation here depends on them.
\<close>

section \<open>The session block\<close>

datatype sb_flag = SB_CONN | SB_FINN | SB_INIT | SB_ASYN | SB_EXPD | SB_CD | SB_CDA | SB_GTC | SB_MAP | SB_MAA | SB_AE
  | SB_RS | SB_RA | SB_AI | SB_AIA | SB_ED | SB_EDACK | SB_ERACK | SB_Vact | SB_Vsc | SB_Vnextact | SB_RELEASE
  | SB_ASYNC_CONN | SB_TS_CONN

text \<open>A packet as it waits in the block: with the user information that follows it in its unit.\<close>

record qspkt =
  qs_pkt :: ssapkt
  qs_qbuf :: "byte list list"
  qs_qlen :: int

text \<open>What the transport tells of a connection that it has opened.\<close>

record TSAPconnect =
  tc_expedited :: bool
  tc_tsdusize :: int

record ssapblk =
  sb_version :: nat
  sb_flags :: "sb_flag set"
  sb_retry :: "ssapkt option"
  sb_V_A :: int
  sb_V_M :: int
  sb_V_R :: int
  sb_rs :: int
  sb_rsn :: int
  sb_rsettings :: byte
  sb_pr :: byte
  sb_xspdu :: "qspkt option"
  sb_spdu :: "qspkt option"
  sb_qbuf :: "byte list list"
  sb_len :: int
  sb_code :: byte
  sb_tsdu_us :: int
  sb_tsdu_them :: int
  sb_owned :: byte
  sb_requirements :: "16 word"
  sb_vrsnmask :: byte
  sb_tc :: TSAPconnect
  sb_options :: byte
  sb_settings :: byte
  sb_initiating :: "byte list"
  sb_responding :: "byte list"

text \<open>The error codes that the machine reports; those of the packets are among them.\<close>

datatype sc = Errno spkt_errno | SC_PARAMETER | SC_OPERATION | SC_WAITING | SC_TRANSPORT | SC_TIMER | SC_ADDRESS | SC_REFUSED
  | SC_ABORT | SC_VERSION | SC_OTHER int

definition newsblk :: ssapblk where
  "newsblk = \<lparr>sb_version = 0, sb_flags = {}, sb_retry = None, sb_V_A = 0, sb_V_M = 0, sb_V_R = 0, sb_rs = 0, sb_rsn = 0,
     sb_rsettings = 0, sb_pr = SPDU_PR, sb_xspdu = None, sb_spdu = None, sb_qbuf = [], sb_len = 0, sb_code = 0,
     sb_tsdu_us = 0, sb_tsdu_them = 0, sb_owned = 0, sb_requirements = 0, sb_vrsnmask = 0,
     sb_tc = \<lparr>tc_expedited = False, tc_tsdusize = 0\<rparr>, sb_options = 0, sb_settings = 0, sb_initiating = [], sb_responding = []\<rparr>"

section \<open>Functional units and tokens\<close>

abbreviation (input) SR_HALFDUPLEX :: "16 word" where "SR_HALFDUPLEX \<equiv> 0x0001"
abbreviation (input) SR_EXPEDITED :: "16 word" where "SR_EXPEDITED \<equiv> 0x0004"
abbreviation (input) SR_MINORSYNC :: "16 word" where "SR_MINORSYNC \<equiv> 0x0008"
abbreviation (input) SR_MAJORSYNC :: "16 word" where "SR_MAJORSYNC \<equiv> 0x0010"
abbreviation (input) SR_RESYNC :: "16 word" where "SR_RESYNC \<equiv> 0x0020"
abbreviation (input) SR_ACTIVITY :: "16 word" where "SR_ACTIVITY \<equiv> 0x0040"
abbreviation (input) SR_NEGOTIATED :: "16 word" where "SR_NEGOTIATED \<equiv> 0x0080"
abbreviation (input) SR_CAPABILITY :: "16 word" where "SR_CAPABILITY \<equiv> 0x0100"
abbreviation (input) SR_EXCEPTIONS :: "16 word" where "SR_EXCEPTIONS \<equiv> 0x0200"
abbreviation (input) SR_TYPEDATA :: "16 word" where "SR_TYPEDATA \<equiv> 0x0400"
abbreviation (input) SR_MAJ_EXISTS :: "16 word" where "SR_MAJ_EXISTS \<equiv> 0x0050"
abbreviation (input) SR_TOKENS :: "16 word" where "SR_TOKENS \<equiv> 0x00d9"

abbreviation (input) ST_DAT_SHIFT :: nat where "ST_DAT_SHIFT \<equiv> 0"
abbreviation (input) ST_MIN_SHIFT :: nat where "ST_MIN_SHIFT \<equiv> 2"
abbreviation (input) ST_MAJ_SHIFT :: nat where "ST_MAJ_SHIFT \<equiv> 4"
abbreviation (input) ST_RLS_SHIFT :: nat where "ST_RLS_SHIFT \<equiv> 6"

text \<open>A token is named by its shift; \<open>tokens\<close> has them in the order of \<^verbatim>\<open>dotokens\<close>.\<close>

definition tokens :: "nat list" where
  "tokens = [ST_RLS_SHIFT, ST_MAJ_SHIFT, ST_MIN_SHIFT, ST_DAT_SHIFT]"

definition requires :: "ssapblk \<Rightarrow> 16 word \<Rightarrow> bool" where
  "requires sb unit = (sb_requirements sb AND unit \<noteq> 0)"

definition token_exists :: "ssapblk \<Rightarrow> nat \<Rightarrow> bool" where
  "token_exists sb n = requires sb (if n = ST_RLS_SHIFT then SR_NEGOTIATED else if n = ST_MAJ_SHIFT then SR_MAJ_EXISTS
     else if n = ST_MIN_SHIFT then SR_MINORSYNC else SR_HALFDUPLEX)"

definition owns :: "ssapblk \<Rightarrow> nat \<Rightarrow> bool" where
  "owns sb n = bit (sb_owned sb) n"

definition all_tokens :: "ssapblk \<Rightarrow> byte \<Rightarrow> byte" where
  "all_tokens sb w = foldl (\<lambda>w n. if token_exists sb n then set_bit n w else w) w tokens"

section \<open>Guards\<close>

definition flags_clear :: "sb_flag list \<Rightarrow> ssapblk \<Rightarrow> sc option" where
  "flags_clear fs sb =
     (if SB_CONN \<notin> sb_flags sb then Some SC_PARAMETER
      else if list_ex (\<lambda>f. f \<in> sb_flags sb) fs then Some SC_OPERATION else None)"

definition ssapPsig :: "ssapblk \<Rightarrow> sc option" where
  "ssapPsig = flags_clear [SB_FINN, SB_RELEASE, SB_MAP, SB_RS, SB_RA, SB_AI, SB_AIA, SB_ED, SB_EDACK, SB_ERACK]"

definition ssapXsig :: "ssapblk \<Rightarrow> sc option" where
  "ssapXsig = flags_clear [SB_FINN, SB_RELEASE, SB_RS, SB_RA, SB_AI, SB_AIA, SB_ED]"

definition ssapRsig :: "ssapblk \<Rightarrow> sc option" where
  "ssapRsig = flags_clear [SB_FINN, SB_RELEASE, SB_RS, SB_AI, SB_AIA, SB_AE, SB_ED]"

definition ssapAsig :: "ssapblk \<Rightarrow> sc option" where
  "ssapAsig = flags_clear [SB_FINN, SB_RELEASE, SB_MAA, SB_RS, SB_AI, SB_ED, SB_EDACK, SB_ERACK]"

definition ssapFsig :: "ssapblk \<Rightarrow> sc option" where
  "ssapFsig sb =
     (if SB_CONN \<notin> sb_flags sb then Some SC_PARAMETER
      else if SB_FINN \<notin> sb_flags sb then Some SC_OPERATION
      else flags_clear [SB_RELEASE, SB_MAA, SB_RS, SB_RA, SB_AI, SB_AIA, SB_ED, SB_EDACK, SB_ERACK] sb)"

definition toomuchP :: "ssapblk \<Rightarrow> byte list \<Rightarrow> int \<Rightarrow> bool" where
  "toomuchP sb d m = (int (length d) > (if sb_version sb < 1 then m else 65400))"

definition SDoActivityAux :: "ssapblk \<Rightarrow> bool \<Rightarrow> bool \<Rightarrow> bool" where
  "SDoActivityAux sb act rls =
     ((if act then requires sb SR_ACTIVITY \<and> SB_Vact \<notin> sb_flags sb else requires sb SR_MAJ_EXISTS)
      \<and> (requires sb SR_HALFDUPLEX \<longrightarrow> owns sb ST_DAT_SHIFT)
      \<and> (requires sb SR_MINORSYNC \<longrightarrow> owns sb ST_MIN_SHIFT)
      \<and> owns sb ST_MAJ_SHIFT
      \<and> (rls \<and> requires sb SR_NEGOTIATED \<longrightarrow> owns sb ST_RLS_SHIFT))"

abbreviation (input) SYNC_RESTART :: int where "SYNC_RESTART \<equiv> 0"
abbreviation (input) SYNC_ABANDON :: int where "SYNC_ABANDON \<equiv> 1"
abbreviation (input) SYNC_SET :: int where "SYNC_SET \<equiv> 2"
abbreviation (input) SYNC_INTR :: int where "SYNC_INTR \<equiv> 3"
abbreviation (input) SYNC_DISC :: int where "SYNC_DISC \<equiv> 4"

text \<open>The decision tree for colliding resynchronizations: whether the local one goes on.\<close>

definition SDoCollideAux :: "bool \<Rightarrow> int \<Rightarrow> int \<Rightarrow> int \<Rightarrow> int \<Rightarrow> bool" where
  "SDoCollideAux init localop localssn remoteop remotessn =
     (if localop = SYNC_DISC then True
      else if remoteop = SYNC_DISC then False
      else if localop = SYNC_INTR then True
      else if remoteop = SYNC_INTR then False
      else if localop = SYNC_ABANDON then remoteop \<noteq> SYNC_ABANDON \<or> init
      else if remoteop = SYNC_ABANDON then False
      else if localop = SYNC_SET then remoteop \<noteq> SYNC_SET \<or> init
      else if remoteop = SYNC_SET then False
      else if localssn = remotessn then init
      else localssn < remotessn)"


end
