(* ===== verification/Spm_Io.thy ===== *)
theory Spm_Io
  imports Spm_Block
begin

text \<open>
  The session protocol machine, its transport interface: \<^verbatim>\<open>spkt2sd\<close>, \<^verbatim>\<open>sb2spkt\<close> and \<^verbatim>\<open>ts2sslose\<close> of
  \<^verbatim>\<open>ssap/ssaprovider.c\<close>, the aborting \<^verbatim>\<open>spktlose\<close> of \<^verbatim>\<open>ssap/ssaplose.c\<close> and the writer of
  \<^verbatim>\<open>ssap/ssapwrite.c\<close>.

  The transport below is an argument: \<open>tw\<close> says of a unit that is handed to it with which reason the call
  fails, if it does, and what arrives is a list. The texts of the error messages are left out, and so are
  the checks for null pointers, since the arguments are values.
\<close>

section \<open>The transport\<close>

text \<open>A unit that is handed to the transport, on its normal or on its expedited flow.\<close>

datatype tsdu = Normal "byte list" | Expedited "byte list"

text \<open>The reasons of a disconnect that the session tells apart.\<close>

datatype td_reason = DR_REMOTE | DR_CONGEST | DR_SESSION | DR_ADDRESS | DR_REFUSED | DR_NETWORK | DR_TIMER | DR_OTHER

text \<open>What a read yields: a unit in its buffers, with the flow it came on, or a reason.\<close>

datatype incoming = Arrive bool "byte list list" | Gone td_reason

definition ts2sslose :: "td_reason \<Rightarrow> sc" where
  "ts2sslose r =
     (if r = DR_REMOTE \<or> r = DR_CONGEST then Errno SC_CONGEST
      else if r = DR_SESSION \<or> r = DR_ADDRESS then SC_ADDRESS
      else if r = DR_REFUSED then SC_REFUSED
      else SC_TRANSPORT)"

datatype sres = S_OK | S_NOTOK sc | S_FAULT

definition hand_over :: "(tsdu \<Rightarrow> td_reason option) \<Rightarrow> tsdu \<Rightarrow> sres \<times> tsdu list" where
  "hand_over tw t = (case tw t of None \<Rightarrow> (S_OK, [t]) | Some r \<Rightarrow> (S_NOTOK (ts2sslose r), []))"

section \<open>Writing\<close>

abbreviation (input) SMASK_SPDU_EXPD :: nat where "SMASK_SPDU_EXPD \<equiv> 15"
abbreviation (input) TX_SIZE :: nat where "TX_SIZE \<equiv> 16"

definition spkt2sd :: "(int \<Rightarrow> bool) \<Rightarrow> (tsdu \<Rightarrow> td_reason option) \<Rightarrow> ssapkt \<Rightarrow> bool \<Rightarrow> sres \<times> tsdu list" where
  "spkt2sd mem tw s expedited =
     (case spkt2tsdu mem (if expedited then Set SMASK_SPDU_EXPD s else s) of
        (Done bs, s2) \<Rightarrow>
          (let d = octs (s_udata s); ex = (s_code s = SPDU_EX \<and> s_udata s \<noteq> None) in
           if ex \<and> \<not> mem (int (length bs + length d)) then (S_NOTOK (Errno SC_CONGEST), [])
           else let base = (if ex then bs @ d else bs) in
             hand_over tw (if expedited \<and> length base \<le> TX_SIZE then Expedited base else Normal base))
      | (Fault, s2) \<Rightarrow> (S_FAULT, [])
      | (_, s2) \<Rightarrow> (S_NOTOK (Errno (s_errno s2)), []))"

abbreviation (input) AB_DISC_RELEASE :: byte where "AB_DISC_RELEASE \<equiv> 0x01"
abbreviation (input) AB_DISC_USER :: byte where "AB_DISC_USER \<equiv> 0x02"
abbreviation (input) AB_DISC_PROTO :: byte where "AB_DISC_PROTO \<equiv> 0x04"
abbreviation (input) AB_DISC_UNKNOWN :: byte where "AB_DISC_UNKNOWN \<equiv> 0x08"

definition abort_spkt :: "byte \<Rightarrow> ssapkt" where
  "abort_spkt disc = Set SMASK_AB_DISC (Set SMASK_SPDU_AB ((newspkt SPDU_AB)\<lparr>s_disconnect := disc\<rparr>))"

text \<open>
  An error of the protocol: the peer gets an abort. When even that cannot be written, the reason of that
  failure replaces the first one. The unit that is read and thrown away afterwards is left out.
\<close>

definition spktlose :: "(int \<Rightarrow> bool) \<Rightarrow> (tsdu \<Rightarrow> td_reason option) \<Rightarrow> ssapblk \<Rightarrow> spkt_errno \<Rightarrow> sres \<times> tsdu list" where
  "spktlose mem tw sb reason =
     (let disc = (if reason = SC_PROTOCOL then u8_bis AB_DISC_RELEASE AB_DISC_PROTO
                  else if reason = SC_CONGEST then AB_DISC_RELEASE
                  else u8_bis AB_DISC_RELEASE AB_DISC_UNKNOWN) in
      case spkt2sd mem tw (abort_spkt disc) (SB_EXPD \<in> sb_flags sb) of
        (S_OK, out) \<Rightarrow> (S_NOTOK (Errno reason), out)
      | (r, out) \<Rightarrow> (r, out))"

definition long2u32 :: "int \<Rightarrow> nat option" where
  "long2u32 n = (if n < 0 \<or> n > 4294967295 then None else Some (nat n))"

text \<open>The codes that an activity interrupt and its confirmation share with an abort and its confirmation.\<close>

abbreviation (input) SPDU_AI :: byte where "SPDU_AI \<equiv> 0x19"
abbreviation (input) SPDU_AIA :: byte where "SPDU_AIA \<equiv> 0x1a"

abbreviation (input) PR_MAA :: byte where "PR_MAA \<equiv> 1"
abbreviation (input) PR_RS :: byte where "PR_RS \<equiv> 2"
abbreviation (input) PR_RA :: byte where "PR_RA \<equiv> 3"
abbreviation (input) PR_AB :: byte where "PR_AB \<equiv> 4"

definition prepare_type :: "byte \<Rightarrow> byte option" where
  "prepare_type code =
     (if code = SPDU_MAA then Some PR_MAA
      else if code = SPDU_AI \<or> code = SPDU_AD \<or> code = SPDU_RS then Some PR_RS
      else if code = SPDU_AIA \<or> code = SPDU_ADA \<or> code = SPDU_RA then Some PR_RA
      else None)"

text \<open>The category 0 SPDU that comes before: give tokens for the requests, please tokens for the responses.\<close>

definition lead_spkt :: "byte \<Rightarrow> ssapkt" where
  "lead_spkt code =
     (if code \<in> {SPDU_MAP, SPDU_MIP, SPDU_RS, SPDU_AS, SPDU_AR, SPDU_AD, SPDU_AI, SPDU_CD}
      then Set SMASK_SPDU_GT (newspkt SPDU_GT) else newspkt SPDU_PT)"

text \<open>The fields of the SPDU itself; \<open>None\<close> when a field is out of range.\<close>

definition with_ssn :: "(nat \<Rightarrow> ssapkt) \<Rightarrow> int \<Rightarrow> ssapkt option" where
  "with_ssn f ssn = map_option f (long2u32 ssn)"

definition with_octet :: "(byte \<Rightarrow> ssapkt option) \<Rightarrow> int \<Rightarrow> ssapkt option" where
  "with_octet f n = (case int2u8 n of None \<Rightarrow> None | Some b \<Rightarrow> f b)"

definition write_fields :: "ssapblk \<Rightarrow> byte \<Rightarrow> int \<Rightarrow> int \<Rightarrow> int \<Rightarrow> byte list \<Rightarrow> byte list \<Rightarrow> SSAPref option \<Rightarrow> ssapkt option" where
  "write_fields sb code type ssn settings aid oid ref =
     (let s = newspkt code in
      if code = SPDU_MAP
      then (if type \<noteq> 0
            then with_octet (\<lambda>b. with_ssn (\<lambda>n. Set SMASK_MAP_SERIAL (Set SMASK_MAP_SYNC (s\<lparr>s_sync := b, s_serial := n\<rparr>))) ssn) type
            else with_ssn (\<lambda>n. Set SMASK_MAP_SERIAL (s\<lparr>s_serial := n\<rparr>)) ssn)
      else if code = SPDU_MAA then with_ssn (\<lambda>n. Set SMASK_MAA_SERIAL (s\<lparr>s_serial := n\<rparr>)) ssn
      else if code = SPDU_MIP
      then with_ssn (\<lambda>n. Set SMASK_MIP_SERIAL (if type = 0 then Set SMASK_MIP_SYNC (s\<lparr>s_sync := 1, s_serial := n\<rparr>) else s\<lparr>s_serial := n\<rparr>)) ssn
      else if code = SPDU_MIA then with_ssn (\<lambda>n. Set SMASK_MIA_SERIAL (s\<lparr>s_serial := n\<rparr>)) ssn
      else if code = SPDU_RS
      then (if requires sb SR_TOKENS
            then with_octet (\<lambda>w. with_octet (\<lambda>b. with_ssn (\<lambda>n. Set SMASK_RS_SSN (Set SMASK_RS_TYPE (Set SMASK_RS_SET
                   (s\<lparr>s_settings := w, s_rs_type := b, s_serial := n\<rparr>)))) ssn) type) settings
            else with_octet (\<lambda>b. with_ssn (\<lambda>n. Set SMASK_RS_SSN (Set SMASK_RS_TYPE (s\<lparr>s_rs_type := b, s_serial := n\<rparr>))) ssn) type)
      else if code = SPDU_RA
      then (if requires sb SR_TOKENS
            then with_octet (\<lambda>w. with_ssn (\<lambda>n. Set SMASK_RA_SSN (Set SMASK_RA_SET (s\<lparr>s_settings := w, s_serial := n\<rparr>))) ssn) settings
            else with_ssn (\<lambda>n. Set SMASK_RA_SSN (s\<lparr>s_serial := n\<rparr>)) ssn)
      else if code = SPDU_AS then Some (Set SMASK_AS_ID (s\<lparr>s_id := aid\<rparr>))
      else if code = SPDU_AR
      then with_ssn (\<lambda>n. let s1 = Set SMASK_AR_ID (Set SMASK_AR_SSN (Set SMASK_AR_OID (s\<lparr>s_ar_oid := oid, s_serial := n, s_id := aid\<rparr>))) in
             case ref of None \<Rightarrow> s1 | Some r \<Rightarrow> Set SMASK_AR_REF (s1\<lparr>s_reference := r\<rparr>)) ssn
      else if code = SPDU_AI \<or> code = SPDU_AD \<or> code = SPDU_ED then with_octet (\<lambda>b. Some (Set 0 (s\<lparr>s_reason := b\<rparr>))) type
      else Some s)"

definition add_udata :: "byte list \<Rightarrow> ssapkt \<Rightarrow> ssapkt" where
  "add_udata d s = (if d \<noteq> [] then Set SMASK_UDATA_PGI (s\<lparr>s_udata := Some d\<rparr>) else s\<lparr>s_udata := None\<rparr>)"

definition write_two :: "(int \<Rightarrow> bool) \<Rightarrow> (tsdu \<Rightarrow> td_reason option) \<Rightarrow> ssapkt \<Rightarrow> ssapkt option \<Rightarrow> sres \<times> tsdu list" where
  "write_two mem tw p s =
     (case spkt2tsdu mem p of
        (Fault, _) \<Rightarrow> (S_FAULT, [])
      | (Done b0, _) \<Rightarrow>
          (case s of
             None \<Rightarrow> (S_NOTOK SC_PARAMETER, [])
           | Some s \<Rightarrow>
               (case spkt2tsdu mem s of
                  (Fault, _) \<Rightarrow> (S_FAULT, [])
                | (Done b1, _) \<Rightarrow> hand_over tw (Normal (b0 @ b1))
                | (_, s1) \<Rightarrow> (S_NOTOK (Errno (s_errno s1)), [])))
      | (_, p1) \<Rightarrow> (S_NOTOK (Errno (s_errno p1)), []))"

definition SWriteRequestAux :: "(int \<Rightarrow> bool) \<Rightarrow> (tsdu \<Rightarrow> td_reason option) \<Rightarrow> ssapblk \<Rightarrow> byte \<Rightarrow> byte list \<Rightarrow> int \<Rightarrow> int \<Rightarrow> int \<Rightarrow>
    byte list \<Rightarrow> byte list \<Rightarrow> SSAPref option \<Rightarrow> sres \<times> tsdu list" where
  "SWriteRequestAux mem tw sb code d type ssn settings aid oid ref =
     (let rest = write_two mem tw (lead_spkt code) (map_option (add_udata d) (write_fields sb code type ssn settings aid oid ref)) in
      case (if SB_EXPD \<in> sb_flags sb then prepare_type code else None) of
        None \<Rightarrow> rest
      | Some t \<Rightarrow>
          (case spkt2sd mem tw (Set SMASK_PR_TYPE ((newspkt SPDU_PR)\<lparr>s_pr_type := t\<rparr>)) True of
             (S_OK, out) \<Rightarrow> (fst rest, out @ snd rest)
           | (r, out) \<Rightarrow> (r, out)))"

section \<open>Reading\<close>

text \<open>A packet, or the way in which there is none.\<close>

datatype got = Got qspkt | GotNone sres

definition plain_spkt :: "ssapkt \<Rightarrow> qspkt" where
  "plain_spkt s = \<lparr>qs_pkt = s, qs_qbuf = [], qs_qlen = 0\<rparr>"

text \<open>The user information that follows a packet becomes its queue.\<close>

definition with_rest :: "ssapkt \<Rightarrow> byte list list \<Rightarrow> int \<Rightarrow> qspkt" where
  "with_rest s q cc = (if q \<noteq> [] then \<lparr>qs_pkt = s, qs_qbuf = q, qs_qlen = cc\<rparr> else plain_spkt s)"

text \<open>The packets that wait in the block come first.\<close>

definition take_buffered :: "ssapblk \<Rightarrow> (qspkt \<times> ssapblk) option" where
  "take_buffered sb =
     (case (if sb_pr sb = SPDU_PR then sb_xspdu sb else None) of
        Some s \<Rightarrow> Some (s, sb\<lparr>sb_xspdu := None\<rparr>)
      | None \<Rightarrow> (case sb_spdu sb of Some s \<Rightarrow> Some (s, sb\<lparr>sb_spdu := None\<rparr>) | None \<Rightarrow> None))"

text \<open>Reading the next packet of a unit: with the number of octets left.\<close>

definition next_spkt :: "(int \<Rightarrow> bool) \<Rightarrow> byte list list \<Rightarrow> int \<Rightarrow> bool \<Rightarrow> bool \<Rightarrow> (ssapkt \<times> byte list list \<times> int) + spkt_errno option" where
  "next_spkt mem q cc cat0 expd =
     (case tsdu2spkt mem q cc cat0 of
        Done (s, n, q') \<Rightarrow>
          if s_errno s = SC_ACCEPT then Inl (if expd then Set SMASK_SPDU_EXPD s else s, q', cc - n)
          else Inr (Some (s_errno s))
      | Notok \<Rightarrow> Inr (Some SC_CONGEST)
      | _ \<Rightarrow> Inr None)"

definition CAT0 :: "byte list" where
  "CAT0 = [SPDU_GT, SPDU_PT]"

definition CAT1_USER :: "byte list" where
  "CAT1_USER = [SPDU_EX, SPDU_TD]"

definition CAT1 :: "byte list" where
  "CAT1 = [SPDU_CN, SPDU_AC, SPDU_RF, SPDU_FN, SPDU_DN, SPDU_NF, SPDU_AB, SPDU_AA, SPDU_GTC, SPDU_GTA, SPDU_PR]"

definition CAT2 :: "(byte \<times> byte) list" where
  "CAT2 = [(SPDU_GT, SPDU_MIP), (SPDU_PT, SPDU_MIA), (SPDU_GT, SPDU_MAP), (SPDU_PT, SPDU_MAA), (SPDU_GT, SPDU_RS),
     (SPDU_PT, SPDU_RA), (SPDU_GT, SPDU_AS), (SPDU_GT, SPDU_AR), (SPDU_GT, SPDU_AD), (SPDU_PT, SPDU_ADA),
     (SPDU_GT, SPDU_AI), (SPDU_PT, SPDU_AIA), (SPDU_GT, SPDU_CD), (SPDU_PT, SPDU_CDA), (SPDU_PT, SPDU_ER), (SPDU_PT, SPDU_ED)]"

text \<open>Whether the category 0 packet in front is kept for later.\<close>

definition keeps_cat0 :: "ssapkt \<Rightarrow> ssapkt \<Rightarrow> bool" where
  "keeps_cat0 p s \<longleftrightarrow>
     s_code s \<notin> {SPDU_RS, SPDU_AD, SPDU_AI, SPDU_CD}
     \<and> (if s_code p = SPDU_GT then SMASK_GT_TOKEN \<in> s_mask p \<and> s_token p \<noteq> 0
        else SMASK_PT_TOKEN \<in> s_mask p \<and> s_token p \<noteq> 0 \<or> octs (s_udata p) \<noteq> [])"

definition lost :: "(int \<Rightarrow> bool) \<Rightarrow> (tsdu \<Rightarrow> td_reason option) \<Rightarrow> ssapblk \<Rightarrow> spkt_errno option \<Rightarrow> got \<times> ssapblk \<times> tsdu list" where
  "lost mem tw sb e =
     (case e of None \<Rightarrow> (GotNone S_FAULT, sb, [])
      | Some e \<Rightarrow> (case spktlose mem tw sb e of (r, out) \<Rightarrow> (GotNone r, sb, out)))"

definition concatenated :: "(int \<Rightarrow> bool) \<Rightarrow> (tsdu \<Rightarrow> td_reason option) \<Rightarrow> ssapblk \<Rightarrow> ssapkt \<Rightarrow> byte list list \<Rightarrow> int \<Rightarrow> bool \<Rightarrow>
    got \<times> ssapblk \<times> tsdu list" where
  "concatenated mem tw sb p q cc expd =
     (case next_spkt mem q cc False expd of
        Inr e \<Rightarrow> lost mem tw (sb\<lparr>sb_spdu := None\<rparr>) e
      | Inl (s, q', cc') \<Rightarrow>
          (let sb' = sb\<lparr>sb_spdu := (if keeps_cat0 p s then Some (plain_spkt p) else None)\<rparr> in
           if s_code p = SPDU_GT \<and> s_code s = SPDU_GT then (Got (with_rest s q' cc'), sb', [])
           else if (s_code p, s_code s) \<in> set CAT2 \<and> cc' \<le> 0 then (Got (plain_spkt s), sb', [])
           else lost mem tw (sb\<lparr>sb_spdu := None\<rparr>) (Some SC_PROTOCOL)))"

definition tsdu2sb :: "(int \<Rightarrow> bool) \<Rightarrow> (tsdu \<Rightarrow> td_reason option) \<Rightarrow> ssapblk \<Rightarrow> bool \<Rightarrow> byte list list \<Rightarrow>
    got \<times> ssapblk \<times> tsdu list" where
  "tsdu2sb mem tw sb expd q =
     (case next_spkt mem q (int (length (concat q))) True expd of
        Inr e \<Rightarrow> lost mem tw sb e
      | Inl (s, q', cc) \<Rightarrow>
          if s_code s \<in> set CAT0
          then (if cc \<le> 0 then (Got (plain_spkt s), sb, []) else concatenated mem tw sb s q' cc expd)
          else if s_code s \<in> set CAT1_USER then (Got (with_rest s q' cc), sb, [])
          else if s_code s \<in> set CAT1 \<and> cc \<le> 0 then (Got (plain_spkt s), sb, [])
          else lost mem tw sb (Some SC_PROTOCOL))"

text \<open>The whole: what is left to arrive is the last component.\<close>

definition sb2spkt :: "(int \<Rightarrow> bool) \<Rightarrow> (tsdu \<Rightarrow> td_reason option) \<Rightarrow> ssapblk \<Rightarrow> incoming list \<Rightarrow>
    got \<times> ssapblk \<times> tsdu list \<times> incoming list" where
  "sb2spkt mem tw sb rx =
     (case take_buffered sb of
        Some (s, sb') \<Rightarrow> (Got s, sb', [], rx)
      | None \<Rightarrow>
          (case rx of
             [] \<Rightarrow> (GotNone (S_NOTOK SC_TIMER), sb, [], [])
           | Gone r # rx' \<Rightarrow> (GotNone (S_NOTOK (if r = DR_TIMER then SC_TIMER else ts2sslose r)), sb, [], rx')
           | Arrive expd q # rx' \<Rightarrow> (case tsdu2sb mem tw sb expd q of (g, sb', out) \<Rightarrow> (g, sb', out, rx'))))"

end
