(* ===== verification/Spm_Request.thy ===== *)
theory Spm_Request
  imports Spm_Io
begin

text \<open>
  The session protocol machine, its requests and responses: the files \<^verbatim>\<open>ssap/ssaptoken.c\<close>,
  \<^verbatim>\<open>ssapminor1.c\<close>, \<^verbatim>\<open>ssapminor2.c\<close>, \<^verbatim>\<open>ssapmajor1.c\<close>, \<^verbatim>\<open>ssapmajor2.c\<close>, \<^verbatim>\<open>ssapresync1.c\<close>, \<^verbatim>\<open>ssapresync2.c\<close>,
  \<^verbatim>\<open>ssapactivity.c\<close>, \<^verbatim>\<open>ssapcapd1.c\<close>, \<^verbatim>\<open>ssapcapd2.c\<close>, \<^verbatim>\<open>ssapexpd.c\<close>, \<^verbatim>\<open>ssapreport.c\<close> and \<^verbatim>\<open>ssapabort.c\<close>.

  A request yields its result, the session block (none when the code has freed it), the units that were
  handed to the transport, and the serial number that it stores for the caller, if it does.
\<close>

section \<open>Replies\<close>

record reply =
  rp_res :: sres
  rp_sb :: "ssapblk option"
  rp_out :: "tsdu list"
  rp_ssn :: "int option"

definition refuse :: "sc \<Rightarrow> ssapblk \<Rightarrow> reply" where
  "refuse e sb = \<lparr>rp_res = S_NOTOK e, rp_sb = Some sb, rp_out = [], rp_ssn = None\<rparr>"

text \<open>The common end of the requests: a failed write frees the block, a successful one updates it.\<close>

definition settle :: "sres \<times> tsdu list \<Rightarrow> ssapblk \<Rightarrow> reply" where
  "settle w sb = \<lparr>rp_res = fst w, rp_sb = (if fst w = S_OK then Some sb else None), rp_out = snd w, rp_ssn = None\<rparr>"

text \<open>The guard and the size of the user data, in front of a request.\<close>

definition guarded :: "sc option \<Rightarrow> bool \<Rightarrow> ssapblk \<Rightarrow> reply \<Rightarrow> reply" where
  "guarded g much sb k = (case g of Some e \<Rightarrow> refuse e sb | None \<Rightarrow> if much then refuse SC_PARAMETER sb else k)"

definition set_flags :: "sb_flag set \<Rightarrow> sb_flag set \<Rightarrow> ssapblk \<Rightarrow> ssapblk" where
  "set_flags on off sb = sb\<lparr>sb_flags := (sb_flags sb - off) \<union> on\<rparr>"

section \<open>Tokens\<close>

text \<open>
  The tokens that a request names: all of them have to exist, and all to be owned (\<open>mine\<close>) or not owned.
  \<open>None\<close> is the error return in the middle of \<^verbatim>\<open>dotokens\<close>.
\<close>

fun name_tokens :: "ssapblk \<Rightarrow> bool \<Rightarrow> int \<Rightarrow> nat list \<Rightarrow> byte \<Rightarrow> byte option" where
  "name_tokens sb mine w [] settings = Some settings"
| "name_tokens sb mine w (n # ns) settings =
     (if bit w n
      then if token_exists sb n \<and> owns sb n = mine then name_tokens sb mine w ns (set_bit n settings) else None
      else name_tokens sb mine w ns settings)"

definition gt_spkt :: "byte \<Rightarrow> ssapkt" where
  "gt_spkt w = Set SMASK_GT_TOKEN (Set SMASK_SPDU_GT ((newspkt SPDU_GT)\<lparr>s_token := w\<rparr>))"

definition SGTokenRequestAux :: "(int \<Rightarrow> bool) \<Rightarrow> (tsdu \<Rightarrow> td_reason option) \<Rightarrow> ssapblk \<Rightarrow> int \<Rightarrow> reply" where
  "SGTokenRequestAux mem tw sb w =
     (case name_tokens sb True w tokens 0 of
        None \<Rightarrow> refuse SC_OPERATION sb
      | Some settings \<Rightarrow>
          if settings = 0 then refuse SC_PARAMETER sb
          else if SB_GTC \<in> sb_flags sb then refuse SC_OPERATION sb
          else if \<not> bit settings ST_DAT_SHIFT \<and> sb_flags sb \<inter> {SB_EDACK, SB_ERACK} \<noteq> {} then refuse SC_OPERATION sb
          else let sb1 = (if bit settings ST_DAT_SHIFT then set_flags {} {SB_EDACK, SB_ERACK} sb else sb) in
            settle (spkt2sd mem tw (gt_spkt settings) False) (sb1\<lparr>sb_owned := u8_bic (sb_owned sb1) settings\<rparr>))"

definition SGTokenRequest :: "(int \<Rightarrow> bool) \<Rightarrow> (tsdu \<Rightarrow> td_reason option) \<Rightarrow> ssapblk \<Rightarrow> int \<Rightarrow> reply" where
  "SGTokenRequest mem tw sb w = guarded (ssapXsig sb) False sb (SGTokenRequestAux mem tw sb w)"

definition SPTokenRequestAux :: "(int \<Rightarrow> bool) \<Rightarrow> (tsdu \<Rightarrow> td_reason option) \<Rightarrow> ssapblk \<Rightarrow> int \<Rightarrow> byte list \<Rightarrow> reply" where
  "SPTokenRequestAux mem tw sb w d =
     (case name_tokens sb False w tokens 0 of
        None \<Rightarrow> refuse SC_OPERATION sb
      | Some settings \<Rightarrow>
          if settings = 0 then refuse SC_PARAMETER sb
          else if SB_GTC \<in> sb_flags sb then refuse SC_OPERATION sb
          else settle (spkt2sd mem tw (add_udata d (Set SMASK_PT_TOKEN ((newspkt SPDU_PT)\<lparr>s_token := settings\<rparr>))) False) sb)"

definition SPTokenRequest :: "(int \<Rightarrow> bool) \<Rightarrow> (tsdu \<Rightarrow> td_reason option) \<Rightarrow> ssapblk \<Rightarrow> int \<Rightarrow> byte list \<Rightarrow> reply" where
  "SPTokenRequest mem tw sb w d = guarded (ssapPsig sb) (toomuchP sb d 512) sb (SPTokenRequestAux mem tw sb w d)"

section \<open>Minor synchronization\<close>

abbreviation (input) SYNC_NOCONFIRM :: int where "SYNC_NOCONFIRM \<equiv> 0"
abbreviation (input) SYNC_CONFIRM :: int where "SYNC_CONFIRM \<equiv> 1"

text \<open>The points that the owner of the token has set go back to those of the peer.\<close>

definition next_point :: "ssapblk \<Rightarrow> ssapblk" where
  "next_point sb =
     (let sb1 = (if SB_Vsc \<in> sb_flags sb then set_flags {} {SB_Vsc} (sb\<lparr>sb_V_A := sb_V_M sb\<rparr>) else sb) in
      sb1\<lparr>sb_V_M := sb_V_M sb1 + 1\<rparr>)"

definition SMinSyncRequestAux :: "(int \<Rightarrow> bool) \<Rightarrow> (tsdu \<Rightarrow> td_reason option) \<Rightarrow> ssapblk \<Rightarrow> int \<Rightarrow> byte list \<Rightarrow> reply" where
  "SMinSyncRequestAux mem tw sb type d =
     (if \<not> requires sb SR_MINORSYNC \<or> requires sb SR_HALFDUPLEX \<and> \<not> owns sb ST_DAT_SHIFT \<or> \<not> owns sb ST_MIN_SHIFT
         \<or> requires sb SR_ACTIVITY \<and> SB_Vact \<notin> sb_flags sb \<or> SB_MAA \<in> sb_flags sb
      then refuse SC_OPERATION sb
      else (settle (SWriteRequestAux mem tw sb SPDU_MIP d type (sb_V_M sb) 0 [] [] None) (next_point sb))
        \<lparr>rp_ssn := Some (sb_V_M sb)\<rparr>)"

definition SMinSyncRequest :: "(int \<Rightarrow> bool) \<Rightarrow> (tsdu \<Rightarrow> td_reason option) \<Rightarrow> ssapblk \<Rightarrow> int \<Rightarrow> byte list \<Rightarrow> reply" where
  "SMinSyncRequest mem tw sb type d =
     (if type \<noteq> SYNC_CONFIRM \<and> type \<noteq> SYNC_NOCONFIRM then refuse SC_PARAMETER sb
      else guarded (ssapPsig sb) (toomuchP sb d 512) sb (SMinSyncRequestAux mem tw sb type d))"

definition serial_range :: "int \<Rightarrow> bool" where
  "serial_range ssn \<longleftrightarrow> 0 \<le> ssn \<and> ssn \<le> int SERIAL_MAX"

definition SMinSyncResponseAux :: "(int \<Rightarrow> bool) \<Rightarrow> (tsdu \<Rightarrow> td_reason option) \<Rightarrow> ssapblk \<Rightarrow> int \<Rightarrow> byte list \<Rightarrow> reply" where
  "SMinSyncResponseAux mem tw sb ssn d =
     (if \<not> requires sb SR_MINORSYNC \<or> SB_Vsc \<notin> sb_flags sb \<or> ssn < sb_V_A sb then refuse SC_OPERATION sb
      else settle (SWriteRequestAux mem tw sb SPDU_MIA d 0 ssn 0 [] [] None) (sb\<lparr>sb_V_A := ssn + 1\<rparr>))"

definition SMinSyncResponse :: "(int \<Rightarrow> bool) \<Rightarrow> (tsdu \<Rightarrow> td_reason option) \<Rightarrow> ssapblk \<Rightarrow> int \<Rightarrow> byte list \<Rightarrow> reply" where
  "SMinSyncResponse mem tw sb ssn d =
     (if \<not> serial_range ssn then refuse SC_PARAMETER sb
      else guarded (ssapPsig sb) (toomuchP sb d 512) sb (SMinSyncResponseAux mem tw sb ssn d))"

section \<open>Major synchronization\<close>

abbreviation (input) MAP_SYNC_NOEND :: int where "MAP_SYNC_NOEND \<equiv> 1"

definition SMajSyncRequestAux :: "(int \<Rightarrow> bool) \<Rightarrow> (tsdu \<Rightarrow> td_reason option) \<Rightarrow> ssapblk \<Rightarrow> byte list \<Rightarrow> int \<Rightarrow> reply" where
  "SMajSyncRequestAux mem tw sb d opts =
     (if \<not> SDoActivityAux sb False False \<or> requires sb SR_ACTIVITY \<and> SB_Vact \<notin> sb_flags sb \<or> SB_MAA \<in> sb_flags sb
      then refuse SC_OPERATION sb
      else let sb1 = set_flags {SB_MAP} {} sb;
               sb2 = (if bit opts 0
                      then if requires sb SR_ACTIVITY then set_flags {SB_Vnextact} {} sb1 else sb1
                      else set_flags {SB_AE} {SB_Vnextact} sb1) in
        (settle (SWriteRequestAux mem tw sb SPDU_MAP d opts (sb_V_M sb) 0 [] [] None) (next_point sb2))
          \<lparr>rp_ssn := Some (sb_V_M sb)\<rparr>)"

definition SMajSyncRequest :: "(int \<Rightarrow> bool) \<Rightarrow> (tsdu \<Rightarrow> td_reason option) \<Rightarrow> ssapblk \<Rightarrow> byte list \<Rightarrow> reply" where
  "SMajSyncRequest mem tw sb d = guarded (ssapPsig sb) (toomuchP sb d 512) sb (SMajSyncRequestAux mem tw sb d MAP_SYNC_NOEND)"

text \<open>The end of a major synchronization, on both sides.\<close>

definition major_done :: "ssapblk \<Rightarrow> ssapblk" where
  "major_done sb =
     (let sb1 = sb\<lparr>sb_V_A := sb_V_M sb, sb_V_R := sb_V_M sb\<rparr> in
      if requires sb SR_ACTIVITY
      then if SB_Vnextact \<in> sb_flags sb then set_flags {SB_Vact} {} sb1 else set_flags {} {SB_Vact} sb1
      else sb1)"

definition SMajSyncResponseAux :: "(int \<Rightarrow> bool) \<Rightarrow> (tsdu \<Rightarrow> td_reason option) \<Rightarrow> ssapblk \<Rightarrow> byte list \<Rightarrow> reply" where
  "SMajSyncResponseAux mem tw sb d =
     (if \<not> requires sb SR_MAJORSYNC \<and> \<not> requires sb SR_ACTIVITY \<and> SB_Vact \<notin> sb_flags sb \<or> SB_MAA \<notin> sb_flags sb
      then refuse SC_OPERATION sb
      else settle (SWriteRequestAux mem tw sb SPDU_MAA d 0 (sb_V_M sb - 1) 0 [] [] None)
             (set_flags {} {SB_MAA, SB_AE} (major_done sb)))"

definition SMajSyncResponse :: "(int \<Rightarrow> bool) \<Rightarrow> (tsdu \<Rightarrow> td_reason option) \<Rightarrow> ssapblk \<Rightarrow> byte list \<Rightarrow> reply" where
  "SMajSyncResponse mem tw sb d = guarded (ssapPsig sb) (toomuchP sb d 512) sb (SMajSyncResponseAux mem tw sb d)"

section \<open>Resynchronization\<close>

abbreviation (input) ST_INIT_VALUE :: int where "ST_INIT_VALUE \<equiv> 0"
abbreviation (input) ST_RESP_VALUE :: int where "ST_RESP_VALUE \<equiv> 1"
abbreviation (input) ST_CALL_VALUE :: int where "ST_CALL_VALUE \<equiv> 2"

definition setting :: "int \<Rightarrow> nat \<Rightarrow> int" where
  "setting w n = drop_bit n w AND 3"

text \<open>What a setting makes of the ownership of a token.\<close>

definition set_owner :: "bool \<Rightarrow> nat \<Rightarrow> int \<Rightarrow> byte \<Rightarrow> byte" where
  "set_owner init n v w =
     (if v = ST_INIT_VALUE then if init then set_bit n w else unset_bit n w
      else if v = ST_RESP_VALUE then if \<not> init then set_bit n w else unset_bit n w
      else w)"

definition set_owners :: "ssapblk \<Rightarrow> int \<Rightarrow> byte \<Rightarrow> byte" where
  "set_owners sb w owned =
     foldl (\<lambda>o' n. if token_exists sb n then set_owner (SB_INIT \<in> sb_flags sb) n (setting w n) o' else o') owned tokens"

definition SReSyncRequestAux :: "(int \<Rightarrow> bool) \<Rightarrow> (tsdu \<Rightarrow> td_reason option) \<Rightarrow> ssapblk \<Rightarrow> int \<Rightarrow> int \<Rightarrow> int \<Rightarrow> byte list \<Rightarrow> reply" where
  "SReSyncRequestAux mem tw sb type ssn settings d =
     (if \<not> requires sb SR_RESYNC \<or> requires sb SR_ACTIVITY \<and> SB_Vact \<notin> sb_flags sb
         \<or> SB_RA \<in> sb_flags sb \<and> \<not> SDoCollideAux (SB_INIT \<in> sb_flags sb) type ssn (sb_rs sb) (sb_rsn sb)
         \<or> type = SYNC_RESTART \<and> (sb_V_M sb < ssn \<or> ssn < sb_V_R sb)
      then refuse SC_OPERATION sb
      else let ssn1 = (if type = SYNC_ABANDON then sb_V_M sb else ssn) in
        if list_ex (\<lambda>n. token_exists sb n \<and> setting settings n = 3) tokens then refuse SC_PARAMETER sb
        else case (if requires sb SR_TOKENS then int2u8 settings else Some 0) of
          None \<Rightarrow> refuse SC_PARAMETER sb
        | Some w \<Rightarrow>
            settle (SWriteRequestAux mem tw sb SPDU_RS d type ssn1 settings [] [] None)
              ((set_flags {SB_RS} {SB_RA, SB_EDACK, SB_ERACK} sb)\<lparr>sb_rsettings := w, sb_rs := type, sb_rsn := ssn1\<rparr>))"

definition SReSyncRequest :: "(int \<Rightarrow> bool) \<Rightarrow> (tsdu \<Rightarrow> td_reason option) \<Rightarrow> ssapblk \<Rightarrow> int \<Rightarrow> int \<Rightarrow> int \<Rightarrow> byte list \<Rightarrow> reply" where
  "SReSyncRequest mem tw sb type ssn settings d =
     (if type \<noteq> SYNC_RESTART \<and> (type \<noteq> SYNC_ABANDON \<or> ssn \<noteq> -1) \<and> (type \<noteq> SYNC_SET \<or> ssn < 0 \<or> ssn > int SERIAL_MAX + 1)
      then refuse SC_PARAMETER sb
      else guarded (ssapRsig sb) (toomuchP sb d 512) sb (SReSyncRequestAux mem tw sb type ssn settings d))"

text \<open>
  The settings of the response: a free choice has to be made, any other is to be repeated. The first
  token that violates it decides the error.
\<close>

fun response_settings :: "ssapblk \<Rightarrow> int \<Rightarrow> nat list \<Rightarrow> sc option" where
  "response_settings sb w [] = None"
| "response_settings sb w (n # ns) =
     (let v = setting (uint (sb_rsettings sb)) n in
      if token_exists sb n \<and> v = ST_CALL_VALUE \<and> setting w n \<noteq> ST_INIT_VALUE \<and> setting w n \<noteq> ST_RESP_VALUE
      then Some SC_PARAMETER
      else if token_exists sb n \<and> v \<noteq> ST_CALL_VALUE \<and> v \<noteq> setting w n then Some SC_OPERATION
      else response_settings sb w ns)"

definition SReSyncResponseAux :: "(int \<Rightarrow> bool) \<Rightarrow> (tsdu \<Rightarrow> td_reason option) \<Rightarrow> ssapblk \<Rightarrow> int \<Rightarrow> int \<Rightarrow> byte list \<Rightarrow> reply" where
  "SReSyncResponseAux mem tw sb ssn settings d =
     (if \<not> requires sb SR_RESYNC \<or> SB_RA \<notin> sb_flags sb then refuse SC_OPERATION sb
      else let ssn1 = (if sb_rs sb = SYNC_RESTART then sb_rsn sb else if sb_rs sb = SYNC_ABANDON then sb_V_A sb else ssn) in
        case response_settings sb settings tokens of
          Some e \<Rightarrow> refuse e sb
        | None \<Rightarrow>
            settle (SWriteRequestAux mem tw sb SPDU_RA d 0 ssn1 settings [] [] None)
              ((set_flags {} {SB_RA} sb)\<lparr>sb_V_A := ssn1, sb_V_M := ssn1,
                 sb_V_R := (if sb_rs sb \<noteq> SYNC_RESTART then 0 else sb_V_R sb), sb_owned := set_owners sb settings (sb_owned sb)\<rparr>))"

definition SReSyncResponse :: "(int \<Rightarrow> bool) \<Rightarrow> (tsdu \<Rightarrow> td_reason option) \<Rightarrow> ssapblk \<Rightarrow> int \<Rightarrow> int \<Rightarrow> byte list \<Rightarrow> reply" where
  "SReSyncResponse mem tw sb ssn settings d =
     guarded (ssapRsig sb) (toomuchP sb d 512) sb (SReSyncResponseAux mem tw sb ssn settings d)"

section \<open>Activities\<close>

definition SGControlRequest :: "(int \<Rightarrow> bool) \<Rightarrow> (tsdu \<Rightarrow> td_reason option) \<Rightarrow> ssapblk \<Rightarrow> reply" where
  "SGControlRequest mem tw sb = guarded (ssapPsig sb) False sb
     (if \<not> SDoActivityAux sb True True \<or> SB_GTC \<in> sb_flags sb then refuse SC_OPERATION sb
      else settle (spkt2sd mem tw (newspkt SPDU_GTC) False) ((set_flags {SB_GTC} {} sb)\<lparr>sb_owned := 0\<rparr>))"

definition idmuchP :: "byte list \<Rightarrow> bool" where
  "idmuchP aid \<longleftrightarrow> length aid > 6"

definition refmuchP :: "SSAPref \<Rightarrow> bool" where
  "refmuchP r \<longleftrightarrow> length (sr_udata r) > 64 \<or> length (sr_cdata r) > 64 \<or> length (sr_adata r) > 4 \<or> length (sr_vdata r) > 64"

definition SActStartRequestAux :: "(int \<Rightarrow> bool) \<Rightarrow> (tsdu \<Rightarrow> td_reason option) \<Rightarrow> ssapblk \<Rightarrow> byte list \<Rightarrow> byte list \<Rightarrow> reply" where
  "SActStartRequestAux mem tw sb aid d =
     (if \<not> SDoActivityAux sb True False then refuse SC_OPERATION sb
      else settle (SWriteRequestAux mem tw sb SPDU_AS d 0 0 0 aid [] None)
             ((set_flags {SB_Vact} {} sb)\<lparr>sb_V_A := 1, sb_V_M := 1, sb_V_R := 1\<rparr>))"

definition SActStartRequest :: "(int \<Rightarrow> bool) \<Rightarrow> (tsdu \<Rightarrow> td_reason option) \<Rightarrow> ssapblk \<Rightarrow> byte list \<Rightarrow> byte list \<Rightarrow> reply" where
  "SActStartRequest mem tw sb aid d =
     (if idmuchP aid then refuse SC_PARAMETER sb
      else guarded (ssapPsig sb) (toomuchP sb d 512) sb (SActStartRequestAux mem tw sb aid d))"

definition SActResumeRequestAux :: "(int \<Rightarrow> bool) \<Rightarrow> (tsdu \<Rightarrow> td_reason option) \<Rightarrow> ssapblk \<Rightarrow> byte list \<Rightarrow> byte list \<Rightarrow> int \<Rightarrow>
    SSAPref option \<Rightarrow> byte list \<Rightarrow> reply" where
  "SActResumeRequestAux mem tw sb aid oid ssn ref d =
     (if \<not> SDoActivityAux sb True False then refuse SC_OPERATION sb
      else settle (SWriteRequestAux mem tw sb SPDU_AR d 0 ssn 0 aid oid ref)
             ((set_flags {SB_Vact} {} sb)\<lparr>sb_V_A := ssn + 1, sb_V_M := ssn + 1, sb_V_R := 1\<rparr>))"

definition SActResumeRequest :: "(int \<Rightarrow> bool) \<Rightarrow> (tsdu \<Rightarrow> td_reason option) \<Rightarrow> ssapblk \<Rightarrow> byte list \<Rightarrow> byte list \<Rightarrow> int \<Rightarrow>
    SSAPref option \<Rightarrow> byte list \<Rightarrow> reply" where
  "SActResumeRequest mem tw sb aid oid ssn ref d =
     (if idmuchP aid \<or> idmuchP oid \<or> \<not> serial_range ssn \<or> (case ref of None \<Rightarrow> False | Some r \<Rightarrow> refmuchP r)
      then refuse SC_PARAMETER sb
      else guarded (ssapPsig sb) (toomuchP sb d 512) sb (SActResumeRequestAux mem tw sb aid oid ssn ref d))"

definition SP_OK_int :: "int \<Rightarrow> bool" where
  "SP_OK_int r \<longleftrightarrow> r < 6 \<and> r \<noteq> 2 \<and> r \<noteq> 4 \<or> r = 128"

definition SActIntrRequestAux :: "(int \<Rightarrow> bool) \<Rightarrow> (tsdu \<Rightarrow> td_reason option) \<Rightarrow> ssapblk \<Rightarrow> int \<Rightarrow> byte \<Rightarrow> reply" where
  "SActIntrRequestAux mem tw sb reason type =
     (let op = (if type = SPDU_AI then SYNC_INTR else SYNC_DISC) in
      if \<not> requires sb SR_ACTIVITY \<or> \<not> owns sb ST_MAJ_SHIFT \<or> SB_Vact \<notin> sb_flags sb
         \<or> SB_RA \<in> sb_flags sb \<and> \<not> SDoCollideAux (SB_INIT \<in> sb_flags sb) op 0 (sb_rs sb) (sb_rsn sb)
      then refuse SC_OPERATION sb
      else settle (SWriteRequestAux mem tw sb type [] reason 0 0 [] [] None)
             ((set_flags {SB_AI} {SB_RA, SB_EDACK, SB_ERACK} sb)\<lparr>sb_rs := op\<rparr>))"

definition act_intr_request :: "(int \<Rightarrow> bool) \<Rightarrow> (tsdu \<Rightarrow> td_reason option) \<Rightarrow> ssapblk \<Rightarrow> int \<Rightarrow> byte \<Rightarrow> reply" where
  "act_intr_request mem tw sb reason type =
     (if \<not> SP_OK_int reason then refuse SC_PARAMETER sb
      else guarded (ssapXsig sb) False sb
        (if SB_MAP \<in> sb_flags sb then refuse SC_OPERATION sb else SActIntrRequestAux mem tw sb reason type))"

definition SActIntrRequest :: "(int \<Rightarrow> bool) \<Rightarrow> (tsdu \<Rightarrow> td_reason option) \<Rightarrow> ssapblk \<Rightarrow> int \<Rightarrow> reply" where
  "SActIntrRequest mem tw sb reason = act_intr_request mem tw sb reason SPDU_AI"

definition SActDiscRequest :: "(int \<Rightarrow> bool) \<Rightarrow> (tsdu \<Rightarrow> td_reason option) \<Rightarrow> ssapblk \<Rightarrow> int \<Rightarrow> reply" where
  "SActDiscRequest mem tw sb reason = act_intr_request mem tw sb reason SPDU_AD"

definition SActIntrResponseAux :: "(int \<Rightarrow> bool) \<Rightarrow> (tsdu \<Rightarrow> td_reason option) \<Rightarrow> ssapblk \<Rightarrow> byte \<Rightarrow> reply" where
  "SActIntrResponseAux mem tw sb type =
     (if \<not> requires sb SR_ACTIVITY \<or> SB_Vact \<notin> sb_flags sb \<or> SB_AIA \<notin> sb_flags sb then refuse SC_OPERATION sb
      else settle (SWriteRequestAux mem tw sb type [] 0 0 0 [] [] None) ((set_flags {} {SB_AIA, SB_Vact} sb)\<lparr>sb_owned := 0\<rparr>))"

definition SActIntrResponse :: "(int \<Rightarrow> bool) \<Rightarrow> (tsdu \<Rightarrow> td_reason option) \<Rightarrow> ssapblk \<Rightarrow> reply" where
  "SActIntrResponse mem tw sb = guarded (ssapAsig sb) False sb (SActIntrResponseAux mem tw sb SPDU_AIA)"

definition SActDiscResponse :: "(int \<Rightarrow> bool) \<Rightarrow> (tsdu \<Rightarrow> td_reason option) \<Rightarrow> ssapblk \<Rightarrow> reply" where
  "SActDiscResponse mem tw sb = guarded (ssapAsig sb) False sb (SActIntrResponseAux mem tw sb SPDU_ADA)"

definition SActEndRequest :: "(int \<Rightarrow> bool) \<Rightarrow> (tsdu \<Rightarrow> td_reason option) \<Rightarrow> ssapblk \<Rightarrow> byte list \<Rightarrow> reply" where
  "SActEndRequest mem tw sb d = guarded (ssapPsig sb) (toomuchP sb d 512) sb (SMajSyncRequestAux mem tw sb d 0)"

definition SActEndResponse :: "(int \<Rightarrow> bool) \<Rightarrow> (tsdu \<Rightarrow> td_reason option) \<Rightarrow> ssapblk \<Rightarrow> byte list \<Rightarrow> reply" where
  "SActEndResponse mem tw sb d = guarded (ssapPsig sb) (toomuchP sb d 512) sb (SMajSyncResponseAux mem tw sb d)"

section \<open>Capability data, expedited data, reports and aborts\<close>

definition SCapdRequestAux :: "(int \<Rightarrow> bool) \<Rightarrow> (tsdu \<Rightarrow> td_reason option) \<Rightarrow> ssapblk \<Rightarrow> byte list \<Rightarrow> reply" where
  "SCapdRequestAux mem tw sb d =
     (if \<not> requires sb SR_CAPABILITY \<or> \<not> SDoActivityAux sb True False \<or> SB_CD \<in> sb_flags sb then refuse SC_OPERATION sb
      else let sb1 = set_flags {SB_CD} {} sb in
        settle (SWriteRequestAux mem tw sb1 SPDU_CD d 0 0 0 [] [] None) sb1)"

definition SCapdRequest :: "(int \<Rightarrow> bool) \<Rightarrow> (tsdu \<Rightarrow> td_reason option) \<Rightarrow> ssapblk \<Rightarrow> byte list \<Rightarrow> reply" where
  "SCapdRequest mem tw sb d = guarded (ssapPsig sb) (toomuchP sb d 512) sb (SCapdRequestAux mem tw sb d)"

definition SCapdResponseAux :: "(int \<Rightarrow> bool) \<Rightarrow> (tsdu \<Rightarrow> td_reason option) \<Rightarrow> ssapblk \<Rightarrow> byte list \<Rightarrow> reply" where
  "SCapdResponseAux mem tw sb d =
     (if \<not> requires sb SR_CAPABILITY \<or> SB_CDA \<notin> sb_flags sb then refuse SC_OPERATION sb
      else settle (SWriteRequestAux mem tw sb SPDU_CDA d 0 0 0 [] [] None) (set_flags {} {SB_CDA} sb))"

definition SCapdResponse :: "(int \<Rightarrow> bool) \<Rightarrow> (tsdu \<Rightarrow> td_reason option) \<Rightarrow> ssapblk \<Rightarrow> byte list \<Rightarrow> reply" where
  "SCapdResponse mem tw sb d = guarded (ssapPsig sb) (toomuchP sb d 512) sb (SCapdResponseAux mem tw sb d)"

definition SExpdRequestAux :: "(int \<Rightarrow> bool) \<Rightarrow> (tsdu \<Rightarrow> td_reason option) \<Rightarrow> ssapblk \<Rightarrow> byte list \<Rightarrow> reply" where
  "SExpdRequestAux mem tw sb d =
     (if \<not> requires sb SR_EXPEDITED then refuse SC_OPERATION sb
      else settle (spkt2sd mem tw ((newspkt SPDU_EX)\<lparr>s_udata := Some d\<rparr>) True) sb)"

definition SExpdRequest :: "(int \<Rightarrow> bool) \<Rightarrow> (tsdu \<Rightarrow> td_reason option) \<Rightarrow> ssapblk \<Rightarrow> byte list \<Rightarrow> reply" where
  "SExpdRequest mem tw sb d =
     (if length d > 14 then refuse SC_PARAMETER sb else guarded (ssapPsig sb) False sb (SExpdRequestAux mem tw sb d))"

definition SUReportRequestAux :: "(int \<Rightarrow> bool) \<Rightarrow> (tsdu \<Rightarrow> td_reason option) \<Rightarrow> ssapblk \<Rightarrow> int \<Rightarrow> byte list \<Rightarrow> reply" where
  "SUReportRequestAux mem tw sb reason d =
     (if \<not> requires sb SR_EXCEPTIONS \<or> \<not> requires sb SR_HALFDUPLEX \<or> owns sb ST_DAT_SHIFT
         \<or> requires sb SR_ACTIVITY \<and> SB_Vact \<notin> sb_flags sb
      then refuse SC_OPERATION sb
      else settle (SWriteRequestAux mem tw sb SPDU_ED d reason 0 0 [] [] None) (set_flags {SB_ED} {} sb))"

definition SUReportRequest :: "(int \<Rightarrow> bool) \<Rightarrow> (tsdu \<Rightarrow> td_reason option) \<Rightarrow> ssapblk \<Rightarrow> int \<Rightarrow> byte list \<Rightarrow> reply" where
  "SUReportRequest mem tw sb reason d =
     (if \<not> SP_OK_int reason then refuse SC_PARAMETER sb
      else guarded (ssapPsig sb) (toomuchP sb d 512) sb (SUReportRequestAux mem tw sb reason d))"

text \<open>An abort frees the block in any case; the unit that is read and thrown away before is left out.\<close>

definition prepare_abort :: "(int \<Rightarrow> bool) \<Rightarrow> (tsdu \<Rightarrow> td_reason option) \<Rightarrow> ssapblk \<Rightarrow> byte list \<Rightarrow> sres \<times> tsdu list" where
  "prepare_abort mem tw sb d =
     (if SB_EXPD \<in> sb_flags sb \<and> sb_version sb \<ge> 1 \<and> length d > 9
      then spkt2sd mem tw (Set SMASK_PR_TYPE ((newspkt SPDU_PR)\<lparr>s_pr_type := PR_AB\<rparr>)) True else (S_OK, []))"

definition SUAbortRequestAux :: "(int \<Rightarrow> bool) \<Rightarrow> (tsdu \<Rightarrow> td_reason option) \<Rightarrow> ssapblk \<Rightarrow> byte list \<Rightarrow> reply" where
  "SUAbortRequestAux mem tw sb d =
     (let (r0, out0) = prepare_abort mem tw sb d in
      if r0 \<noteq> S_OK then \<lparr>rp_res = r0, rp_sb = None, rp_out = out0, rp_ssn = None\<rparr>
      else case spkt2sd mem tw (add_udata d (abort_spkt (AB_DISC_RELEASE OR AB_DISC_USER))) (SB_EXPD \<in> sb_flags sb) of
        (r, out) \<Rightarrow> \<lparr>rp_res = r, rp_sb = None, rp_out = out0 @ out, rp_ssn = None\<rparr>)"

definition SUAbortRequest :: "(int \<Rightarrow> bool) \<Rightarrow> (tsdu \<Rightarrow> td_reason option) \<Rightarrow> ssapblk \<Rightarrow> byte list \<Rightarrow> reply" where
  "SUAbortRequest mem tw sb d = (if toomuchP sb d 512 then refuse SC_PARAMETER sb else SUAbortRequestAux mem tw sb d)"

end
