(* ===== verification/Spm_Read.thy ===== *)
theory Spm_Read
  imports Spm_Request
begin

text \<open>
  The session protocol machine, its reading side: \<^verbatim>\<open>SReadRequestAux\<close> of \<^verbatim>\<open>ssap/ssaprovider.c\<close>. A packet
  passes a row of filters, which may discard it or end the session, and then the switch on its code, one
  definition for each arm. The loop around them reads until there is something to indicate.
\<close>

section \<open>Indications\<close>

datatype sx_type = SX_NORMAL | SX_EXPEDITED | SX_TYPED | SX_CAPDIND | SX_CAPDCNF
datatype st_type = ST_GIVE | ST_PLEASE | ST_CONTROL
datatype sn_type = SN_MAJORIND | SN_MAJORCNF | SN_MINORIND | SN_MINORCNF | SN_RESETIND | SN_RESETCNF
datatype sv_type = SV_START | SV_RESUME | SV_INTRIND | SV_INTRCNF | SV_DISCIND | SV_DISCCNF | SV_ENDIND | SV_ENDCNF

record SSAPsync =
  sn_type :: sn_type
  sn_options :: int
  sn_ssn :: int
  sn_settings :: byte
  sn_data :: "byte list option"

record SSAPactivity =
  sv_type :: sv_type
  sv_id :: "byte list"
  sv_oid :: "byte list"
  sv_connect :: SSAPref
  sv_ssn :: int
  sv_reason :: byte
  sv_data :: "byte list option"

datatype indication =
    SI_DATA sx_type "byte list list" int
  | SI_TOKEN st_type byte byte "byte list option"
  | SI_SYNC SSAPsync
  | SI_ACTIVITY SSAPactivity
  | SI_REPORT bool int "byte list option"
  | SI_FINISH "byte list option"
  | SI_PARTIAL

definition null_sync :: "sn_type \<Rightarrow> SSAPsync" where
  "null_sync t = \<lparr>sn_type = t, sn_options = 0, sn_ssn = 0, sn_settings = 0, sn_data = None\<rparr>"

definition null_activity :: "sv_type \<Rightarrow> SSAPactivity" where
  "null_activity t = \<lparr>sv_type = t, sv_id = [], sv_oid = [], sv_connect = null_ref, sv_ssn = 0, sv_reason = 0, sv_data = None\<rparr>"

text \<open>
  What the loop body does with a packet: it goes around once more, it indicates something, or it ends the
  session with an error or with the abort of the peer.
\<close>

datatype step =
    Spin ssapblk
  | Ind indication ssapblk "tsdu list"
  | Over sres "tsdu list"
  | Aborted bool "byte list option"

section \<open>Filters\<close>

datatype verdict = Pass ssapblk | Discard ssapblk | Mangled

text \<open>The preparation that an expedited PR SPDU announced, and the flow that a code may come on.\<close>

definition normal_flow :: "ssapblk \<Rightarrow> ssapkt \<Rightarrow> verdict" where
  "normal_flow sb s = (if s_code s = SPDU_PR \<or> s_code s = SPDU_EX then Mangled else Pass sb)"

definition prepare_filter :: "ssapblk \<Rightarrow> ssapkt \<Rightarrow> verdict" where
  "prepare_filter sb s =
     (let c = s_code s; pr = sb_pr sb; ready = sb\<lparr>sb_pr := SPDU_PR\<rparr> in
      if SMASK_SPDU_EXPD \<in> s_mask s
      then (if c = SPDU_PR then if pr \<noteq> SPDU_PR then Mangled else Pass sb
            else if c = SPDU_AB \<or> c = SPDU_AA \<or> c = SPDU_EX then Pass sb
            else Mangled)
      else if pr = SPDU_MAA then normal_flow (if c = SPDU_MAA then ready else sb) s
      else if pr = SPDU_RS
      then (if c = SPDU_AB \<and> SMASK_SPDU_AB \<in> s_mask s then normal_flow sb s
            else if c = SPDU_AB \<or> c = SPDU_AD \<or> c = SPDU_RS then normal_flow ready s
            else Discard sb)
      else if pr = SPDU_RA
      then (if c = SPDU_AB \<or> c = SPDU_AA \<and> SMASK_SPDU_AA \<in> s_mask s then normal_flow sb s
            else if c = SPDU_AA \<or> c = SPDU_ADA \<or> c = SPDU_RA then normal_flow ready s
            else Discard sb)
      else if pr = SPDU_AB then (if c \<noteq> SPDU_AB then Discard sb else normal_flow ready s)
      else normal_flow sb s)"

definition collide_filter :: "ssapblk \<Rightarrow> ssapkt \<Rightarrow> verdict" where
  "collide_filter sb s =
     (let c = s_code s; wins = SDoCollideAux (SB_INIT \<in> sb_flags sb) (sb_rs sb) (sb_rsn sb) in
      if sb_flags sb \<inter> {SB_RS, SB_AI} = {} then Pass sb
      else if c = SPDU_PR then if s_pr_type s = PR_RS \<or> s_pr_type s = PR_RA then Pass sb else Discard sb
      else if c = SPDU_RS then if wins (uint (s_rs_type s)) (int (s_serial s)) then Discard sb else Pass sb
      else if c = SPDU_AD then if wins SYNC_DISC 0 then Discard sb else Pass sb
      else if c = SPDU_AB \<and> SMASK_SPDU_AB \<notin> s_mask s then if wins SYNC_INTR 0 then Discard sb else Pass sb
      else Pass sb)"

definition exception_filter :: "ssapblk \<Rightarrow> ssapkt \<Rightarrow> verdict" where
  "exception_filter sb s =
     (let c = s_code s in
      if sb_flags sb \<inter> {SB_ED, SB_ERACK} = {} then Pass sb
      else if c = SPDU_AB \<or> (c = SPDU_MAP \<or> c = SPDU_MIP) \<and> SB_ED \<in> sb_flags sb
              \<or> c = SPDU_PR \<and> s_pr_type s = PR_RS
              \<or> c = SPDU_GT \<and> SMASK_SPDU_GT \<in> s_mask s \<and> SMASK_GT_TOKEN \<in> s_mask s \<and> bit (s_token s) ST_DAT_SHIFT
      then Pass sb
      else Discard sb)"

definition segment_filter :: "ssapblk \<Rightarrow> ssapkt \<Rightarrow> verdict" where
  "segment_filter sb s =
     (let c = s_code s in
      if sb_len sb \<le> 0 \<or> c = SPDU_PT \<or> c = SPDU_EX \<or> c = SPDU_PR \<and> s_pr_type s \<noteq> PR_RS then Pass sb
      else if c = SPDU_PR \<or> c = SPDU_RS \<or> c = SPDU_ER \<or> c = SPDU_ED \<or> c = SPDU_AD \<or> c = SPDU_AB
      then Pass (sb\<lparr>sb_qbuf := [], sb_len := 0\<rparr>)
      else if c = SPDU_GT \<and> SMASK_SPDU_GT \<in> s_mask s \<or> sb_code sb = c then Pass sb
      else Mangled)"

definition size_filter :: "ssapblk \<Rightarrow> ssapkt \<Rightarrow> verdict" where
  "size_filter sb s =
     (if sb_version sb < 1
         \<and> (length (octs (s_udata s)) > 512
            \<or> SMASK_ENCLOSE \<in> s_mask s \<and> (s_code s \<noteq> SPDU_GT \<or> SMASK_SPDU_GT \<in> s_mask s) \<and> s_code s \<noteq> SPDU_TD)
      then Mangled else Pass sb)"

text \<open>The functional units that a code needs.\<close>

definition units :: "byte \<Rightarrow> 16 word option" where
  "units c =
     (if c = SPDU_GTC \<or> c = SPDU_GTA \<or> c = SPDU_PT then Some SR_TOKENS
      else if c = SPDU_TD then Some SR_TYPEDATA
      else if c = SPDU_EX then Some SR_EXPEDITED
      else if c = SPDU_CD \<or> c = SPDU_CDA then Some SR_CAPABILITY
      else if c = SPDU_MAP \<or> c = SPDU_MAA then Some SR_MAJ_EXISTS
      else if c = SPDU_MIP \<or> c = SPDU_MIA then Some SR_MINORSYNC
      else if c = SPDU_RS \<or> c = SPDU_RA then Some SR_RESYNC
      else if c = SPDU_ER \<or> c = SPDU_ED then Some SR_EXCEPTIONS
      else if c = SPDU_AS \<or> c = SPDU_AR \<or> c = SPDU_AD \<or> c = SPDU_ADA then Some SR_ACTIVITY
      else None)"

definition unit_filter :: "ssapblk \<Rightarrow> ssapkt \<Rightarrow> verdict" where
  "unit_filter sb s = (case units (s_code s) of None \<Rightarrow> Pass sb | Some u \<Rightarrow> if requires sb u then Pass sb else Mangled)"

fun filters :: "(ssapblk \<Rightarrow> ssapkt \<Rightarrow> verdict) list \<Rightarrow> ssapblk \<Rightarrow> ssapkt \<Rightarrow> verdict" where
  "filters [] sb s = Pass sb"
| "filters (f # fs) sb s = (case f sb s of Pass sb' \<Rightarrow> filters fs sb' s | v \<Rightarrow> v)"

definition all_filters :: "(ssapblk \<Rightarrow> ssapkt \<Rightarrow> verdict) list" where
  "all_filters = [prepare_filter, collide_filter, exception_filter, segment_filter, size_filter, unit_filter]"

section \<open>The arms of the switch\<close>

text \<open>An error of the protocol in an arm ends the session.\<close>

definition mangled :: "(int \<Rightarrow> bool) \<Rightarrow> (tsdu \<Rightarrow> td_reason option) \<Rightarrow> ssapblk \<Rightarrow> spkt_errno \<Rightarrow> step" where
  "mangled mem tw sb e = (case spktlose mem tw sb e of (r, out) \<Rightarrow> Over r out)"

definition shared_tokens :: "ssapblk \<Rightarrow> byte \<Rightarrow> byte" where
  "shared_tokens sb w = foldl (\<lambda>o' n. if token_exists sb n \<and> bit w n then set_bit n o' else o') 0 tokens"

definition on_PT :: "ssapblk \<Rightarrow> ssapkt \<Rightarrow> step" where
  "on_PT sb s =
     (if SB_GTC \<in> sb_flags sb then Spin sb
      else Ind (SI_TOKEN ST_PLEASE (if SMASK_PT_TOKEN \<in> s_mask s then shared_tokens sb (s_token s) else 0) (sb_owned sb) (s_udata s)) sb [])"

definition on_GT :: "(int \<Rightarrow> bool) \<Rightarrow> (tsdu \<Rightarrow> td_reason option) \<Rightarrow> ssapblk \<Rightarrow> ssapkt \<Rightarrow> step" where
  "on_GT mem tw sb s =
     (if SB_GTC \<in> sb_flags sb then Spin sb
      else let w = (if SMASK_GT_TOKEN \<in> s_mask s then shared_tokens sb (s_token s) else 0);
               sb1 = sb\<lparr>sb_owned := sb_owned sb OR w\<rparr> in
        if w \<noteq> 0 \<and> \<not> requires sb SR_TOKENS then mangled mem tw sb1 SC_PROTOCOL
        else let sb2 = (if bit w ST_DAT_SHIFT then set_flags {} {SB_ED, SB_ERACK} sb1 else sb1) in
          Ind (SI_TOKEN ST_GIVE w (sb_owned sb2) None) sb2 [])"

abbreviation (input) ENCL_BEGIN :: nat where "ENCL_BEGIN \<equiv> 0"
abbreviation (input) ENCL_END :: nat where "ENCL_END \<equiv> 1"

text \<open>Whether a segment ends its unit; \<open>None\<close> when the enclosure does not fit.\<close>

definition segment_end :: "ssapblk \<Rightarrow> ssapkt \<Rightarrow> bool option" where
  "segment_end sb s =
     (if sb_tsdu_them sb \<noteq> 0
      then if SMASK_ENCLOSE \<notin> s_mask s then None
           else if (if bit (s_enclose s) ENCL_BEGIN then sb_len sb > 0 else sb_len sb = 0) then None
           else Some (bit (s_enclose s) ENCL_END)
      else if SMASK_ENCLOSE \<in> s_mask s \<and> (\<not> bit (s_enclose s) ENCL_BEGIN \<or> \<not> bit (s_enclose s) ENCL_END) then None
      else Some True)"

definition on_DT :: "(int \<Rightarrow> bool) \<Rightarrow> (tsdu \<Rightarrow> td_reason option) \<Rightarrow> ssapblk \<Rightarrow> qspkt \<Rightarrow> step" where
  "on_DT mem tw sb qs =
     (let c = s_code (qs_pkt qs); sb1 = sb\<lparr>sb_code := c\<rparr> in
      case segment_end sb (qs_pkt qs) of
        None \<Rightarrow> mangled mem tw sb1 SC_PROTOCOL
      | Some eot \<Rightarrow>
          (let sb2 = (if qs_qbuf qs \<noteq> [] then sb1\<lparr>sb_qbuf := sb_qbuf sb1 @ qs_qbuf qs, sb_len := sb_len sb1 + qs_qlen qs\<rparr> else sb1) in
           if \<not> eot then Spin (if c = SPDU_GT then sb2\<lparr>sb_spdu := None\<rparr> else sb2)
           else let t = (if c = SPDU_GT then SX_NORMAL else SX_TYPED) in
             if sb_qbuf sb2 \<noteq> [] then Ind (SI_DATA t (sb_qbuf sb2) (sb_len sb2)) (sb2\<lparr>sb_qbuf := [], sb_len := 0\<rparr>) []
             else Ind (SI_DATA t [] 0) sb2 []))"

definition on_EX :: "(int \<Rightarrow> bool) \<Rightarrow> (tsdu \<Rightarrow> td_reason option) \<Rightarrow> ssapblk \<Rightarrow> qspkt \<Rightarrow> step" where
  "on_EX mem tw sb qs =
     (if sb_pr sb \<noteq> SPDU_PR
      then if sb_xspdu sb \<noteq> None then mangled mem tw sb SC_CONGEST else Spin (sb\<lparr>sb_xspdu := Some qs\<rparr>)
      else Ind (SI_DATA SX_EXPEDITED (qs_qbuf qs) (if qs_qbuf qs \<noteq> [] then qs_qlen qs else 0)) sb [])"

definition on_CD :: "(int \<Rightarrow> bool) \<Rightarrow> (tsdu \<Rightarrow> td_reason option) \<Rightarrow> ssapblk \<Rightarrow> ssapkt \<Rightarrow> step" where
  "on_CD mem tw sb s =
     (let (sb1, t) = (if s_code s = SPDU_CD then (set_flags {SB_CDA} {} sb, SX_CAPDIND) else (set_flags {} {SB_CD} sb, SX_CAPDCNF)) in
      case s_udata s of
        None \<Rightarrow> Ind (SI_DATA t [] 0) sb1 []
      | Some d \<Rightarrow> if \<not> mem (int (length d)) then mangled mem tw sb1 SC_CONGEST else Ind (SI_DATA t [d] (int (length d))) sb1 [])"

definition on_GTC :: "(int \<Rightarrow> bool) \<Rightarrow> (tsdu \<Rightarrow> td_reason option) \<Rightarrow> ssapblk \<Rightarrow> step" where
  "on_GTC mem tw sb =
     (if SB_Vact \<in> sb_flags sb then Spin sb
      else let sb1 = sb\<lparr>sb_owned := all_tokens sb (sb_owned sb)\<rparr> in
        case spkt2sd mem tw (newspkt SPDU_GTA) False of
          (S_OK, out) \<Rightarrow> Ind (SI_TOKEN ST_CONTROL (sb_owned sb1) (sb_owned sb1) None) sb1 out
        | (r, out) \<Rightarrow> Over r out)"

definition on_GTA :: "ssapblk \<Rightarrow> step" where
  "on_GTA sb = Spin (set_flags {} {SB_GTC} sb)"

text \<open>A synchronization point of the peer.\<close>

definition their_point :: "sb_flag set \<Rightarrow> ssapblk \<Rightarrow> ssapblk" where
  "their_point on sb =
     (let sb1 = (if SB_Vsc \<notin> sb_flags sb then set_flags on {} (sb\<lparr>sb_V_A := sb_V_M sb\<rparr>) else sb) in
      sb1\<lparr>sb_V_M := sb_V_M sb1 + 1\<rparr>)"

definition on_MAP :: "ssapblk \<Rightarrow> ssapkt \<Rightarrow> step" where
  "on_MAP sb s =
     (if sb_V_M sb \<noteq> int (s_serial s) then Spin sb
      else let sb1 = their_point {} sb in
        if SMASK_MAP_SYNC \<notin> s_mask s \<or> \<not> bit (s_sync s) 0
        then Ind (SI_ACTIVITY ((null_activity SV_ENDIND)\<lparr>sv_ssn := int (s_serial s), sv_data := s_udata s\<rparr>))
               (set_flags {SB_MAA, SB_AE} {SB_Vnextact} sb1) []
        else if sb_flags sb \<inter> {SB_ED, SB_ERACK} \<noteq> {} then Spin sb1
        else Ind (SI_SYNC ((null_sync SN_MAJORIND)\<lparr>sn_ssn := int (s_serial s), sn_data := s_udata s\<rparr>))
               (set_flags (if requires sb SR_ACTIVITY then {SB_Vnextact, SB_MAA} else {SB_MAA}) {} sb1) [])"

definition u32_succ :: "nat \<Rightarrow> int" where
  "u32_succ n = (int n + 1) mod 4294967296"

definition on_MAA :: "ssapblk \<Rightarrow> ssapkt \<Rightarrow> step" where
  "on_MAA sb s =
     (if sb_V_M sb \<noteq> u32_succ (s_serial s) then Spin sb
      else let sb1 = set_flags {} {SB_MAP} (major_done sb) in
        if SB_AE \<in> sb_flags sb
        then Ind (SI_ACTIVITY ((null_activity SV_ENDCNF)\<lparr>sv_ssn := int (s_serial s), sv_data := s_udata s\<rparr>)) (set_flags {} {SB_AE} sb1) []
        else Ind (SI_SYNC ((null_sync SN_MAJORCNF)\<lparr>sn_ssn := int (s_serial s), sn_data := s_udata s\<rparr>)) sb1 [])"

definition on_MIP :: "ssapblk \<Rightarrow> ssapkt \<Rightarrow> step" where
  "on_MIP sb s =
     (let sb1 = their_point {SB_Vsc} sb in
      if sb_flags sb \<inter> {SB_ED, SB_ERACK} \<noteq> {} then Spin sb1
      else Ind (SI_SYNC ((null_sync SN_MINORIND)\<lparr>sn_options := (if SMASK_MIP_SYNC \<in> s_mask s \<and> bit (s_sync s) 0 then SYNC_NOCONFIRM else SYNC_CONFIRM),
                 sn_ssn := int (s_serial s), sn_data := s_udata s\<rparr>)) sb1 [])"

definition on_MIA :: "ssapblk \<Rightarrow> ssapkt \<Rightarrow> step" where
  "on_MIA sb s =
     (if SB_Vsc \<in> sb_flags sb \<or> sb_V_A sb > int (s_serial s) \<or> int (s_serial s) \<ge> sb_V_M sb then Spin sb
      else Ind (SI_SYNC ((null_sync SN_MINORCNF)\<lparr>sn_ssn := int (s_serial s), sn_data := s_udata s\<rparr>)) (sb\<lparr>sb_V_A := int (s_serial s)\<rparr>) [])"

text \<open>The settings of a resynchronization that has none: each token assigns the octet anew.\<close>

definition default_settings :: "ssapblk \<Rightarrow> byte" where
  "default_settings sb =
     foldl (\<lambda>w n. if token_exists sb n then if owns sb n \<and> SB_INIT \<in> sb_flags sb then 0 else push_bit n 1 else w) 0 tokens"

definition on_RS :: "ssapblk \<Rightarrow> ssapkt \<Rightarrow> step" where
  "on_RS sb s =
     (if uint (s_rs_type s) = SYNC_RESTART \<and> sb_V_R sb > int (s_serial s) then Spin sb
      else let sb1 = (set_flags {SB_RA} {SB_RS} sb)\<lparr>sb_rs := uint (s_rs_type s), sb_rsn := int (s_serial s),
                 sb_rsettings := (if SMASK_RS_SET \<in> s_mask s then s_settings s else default_settings sb)\<rparr> in
        Ind (SI_SYNC \<lparr>sn_type = SN_RESETIND, sn_options = sb_rs sb1, sn_ssn = sb_rsn sb1, sn_settings = sb_rsettings sb1, sn_data = s_udata s\<rparr>) sb1 [])"

text \<open>
  The ownership after a resynchronization. Where the settings leave the choice to the called user, the
  code compares the settings of the packet, masked and not shifted back, with the unshifted values.
\<close>

definition resync_owner :: "ssapblk \<Rightarrow> byte \<Rightarrow> ssapkt \<Rightarrow> byte \<Rightarrow> nat \<Rightarrow> byte" where
  "resync_owner sb rsettings s owned n =
     (if \<not> token_exists sb n then owned
      else let v = setting (uint rsettings) n in
        if v = ST_CALL_VALUE
        then set_owner (SB_INIT \<in> sb_flags sb) n (uint (s_settings s) AND push_bit n 3) owned
        else set_owner (SB_INIT \<in> sb_flags sb) n v owned)"

definition on_RA :: "ssapblk \<Rightarrow> ssapkt \<Rightarrow> step" where
  "on_RA sb s =
     (let w = (if SMASK_RA_SET \<in> s_mask s then s_settings s else sb_rsettings sb);
          sb1 = (set_flags {} {SB_RS} sb)\<lparr>sb_V_A := int (s_serial s), sb_V_M := int (s_serial s),
             sb_V_R := (if sb_rs sb \<noteq> SYNC_RESTART then 0 else sb_V_R sb), sb_rsettings := w,
             sb_owned := foldl (resync_owner sb w s) (sb_owned sb) tokens\<rparr> in
      Ind (SI_SYNC ((null_sync SN_RESETCNF)\<lparr>sn_ssn := sb_V_M sb1, sn_settings := w, sn_data := s_udata s\<rparr>)) sb1 [])"

definition on_PR :: "ssapblk \<Rightarrow> ssapkt \<Rightarrow> step" where
  "on_PR sb s =
     (if s_pr_type s = PR_MAA then Spin (sb\<lparr>sb_pr := SPDU_MAA\<rparr>)
      else if s_pr_type s = PR_RS then Spin ((set_flags {} {SB_ED, SB_ERACK} sb)\<lparr>sb_pr := SPDU_RS\<rparr>)
      else if s_pr_type s = PR_RA then Spin (sb\<lparr>sb_pr := SPDU_RA\<rparr>)
      else if s_pr_type s = PR_AB then Spin (sb\<lparr>sb_pr := SPDU_AB\<rparr>)
      else Spin sb)"

definition on_ER :: "ssapblk \<Rightarrow> step" where
  "on_ER sb = Ind (SI_REPORT False (-1) None) (set_flags {SB_ERACK} {} sb) []"

definition on_ED :: "ssapblk \<Rightarrow> ssapkt \<Rightarrow> step" where
  "on_ED sb s =
     Ind (SI_REPORT True (uint (s_reason s)) (s_udata s)) (if owns sb ST_DAT_SHIFT then set_flags {SB_EDACK} {} sb else sb) []"

definition on_AS :: "ssapblk \<Rightarrow> ssapkt \<Rightarrow> step" where
  "on_AS sb s =
     (if SB_Vact \<in> sb_flags sb then Spin sb
      else Ind (SI_ACTIVITY ((null_activity SV_START)\<lparr>sv_id := s_id s, sv_data := s_udata s\<rparr>))
             ((set_flags {SB_Vact} {} sb)\<lparr>sb_V_A := 1, sb_V_M := 1, sb_V_R := 1\<rparr>) [])"

definition on_AR :: "ssapblk \<Rightarrow> ssapkt \<Rightarrow> step" where
  "on_AR sb s =
     (if SB_Vact \<in> sb_flags sb then Spin sb
      else Ind (SI_ACTIVITY ((null_activity SV_RESUME)\<lparr>sv_id := s_id s, sv_oid := s_ar_oid s,
                 sv_connect := (if SMASK_AR_REF \<in> s_mask s then s_reference s else null_ref), sv_ssn := int (s_serial s), sv_data := s_udata s\<rparr>))
             ((set_flags {SB_Vact} {} sb)\<lparr>sb_V_A := u32_succ (s_serial s), sb_V_M := u32_succ (s_serial s), sb_V_R := 1\<rparr>) [])"

definition on_AI :: "ssapblk \<Rightarrow> ssapkt \<Rightarrow> step" where
  "on_AI sb s =
     (if SB_Vact \<notin> sb_flags sb then Spin sb
      else Ind (SI_ACTIVITY ((null_activity (if s_code s = SPDU_AI then SV_INTRIND else SV_DISCIND))\<lparr>sv_reason := s_reason s\<rparr>))
             ((set_flags {SB_AIA} {SB_RS, SB_RA} sb)\<lparr>sb_rs := SYNC_INTR\<rparr>) [])"

definition on_AIA :: "ssapblk \<Rightarrow> ssapkt \<Rightarrow> step" where
  "on_AIA sb s =
     (if SB_Vact \<notin> sb_flags sb then Spin sb
      else Ind (SI_ACTIVITY (null_activity (if s_code s = SPDU_AIA then SV_INTRCNF else SV_DISCCNF)))
             ((set_flags {} {SB_AI, SB_Vact} sb)\<lparr>sb_owned := all_tokens sb (sb_owned sb)\<rparr>) [])"

definition on_FN :: "ssapblk \<Rightarrow> ssapkt \<Rightarrow> step" where
  "on_FN sb s = Ind (SI_FINISH (s_udata s)) (set_flags {SB_FINN} {} sb) []"

definition on_AB :: "ssapkt \<Rightarrow> step" where
  "on_AB s = Aborted (bit (s_disconnect s) 1) (s_udata s)"

definition dispatch :: "(int \<Rightarrow> bool) \<Rightarrow> (tsdu \<Rightarrow> td_reason option) \<Rightarrow> ssapblk \<Rightarrow> qspkt \<Rightarrow> step" where
  "dispatch mem tw sb qs =
     (let s = qs_pkt qs; c = s_code s in
      if c = SPDU_PT then on_PT sb s
      else if c = SPDU_GT then if SMASK_SPDU_GT \<in> s_mask s then on_GT mem tw sb s else on_DT mem tw sb qs
      else if c = SPDU_TD then on_DT mem tw sb qs
      else if c = SPDU_EX then on_EX mem tw sb qs
      else if c = SPDU_CD \<or> c = SPDU_CDA then on_CD mem tw sb s
      else if c = SPDU_GTC then on_GTC mem tw sb
      else if c = SPDU_GTA then on_GTA sb
      else if c = SPDU_MAP then on_MAP sb s
      else if c = SPDU_MAA then on_MAA sb s
      else if c = SPDU_MIP then on_MIP sb s
      else if c = SPDU_MIA then on_MIA sb s
      else if c = SPDU_RS then on_RS sb s
      else if c = SPDU_RA then on_RA sb s
      else if c = SPDU_PR then on_PR sb s
      else if c = SPDU_ER then on_ER sb
      else if c = SPDU_ED then on_ED sb s
      else if c = SPDU_AS then on_AS sb s
      else if c = SPDU_AR then on_AR sb s
      else if c = SPDU_AD then on_AI sb s
      else if c = SPDU_AA then if SMASK_SPDU_AA \<in> s_mask s then Spin sb else on_AIA sb s
      else if c = SPDU_ADA then on_AIA sb s
      else if c = SPDU_FN then on_FN sb s
      else if c = SPDU_AB then if SMASK_SPDU_AB \<in> s_mask s then on_AB s else on_AI sb s
      else mangled mem tw sb SC_PROTOCOL)"

definition body :: "(int \<Rightarrow> bool) \<Rightarrow> (tsdu \<Rightarrow> td_reason option) \<Rightarrow> ssapblk \<Rightarrow> qspkt \<Rightarrow> step" where
  "body mem tw sb qs =
     (case filters all_filters sb (qs_pkt qs) of
        Pass sb' \<Rightarrow> dispatch mem tw sb' qs
      | Discard sb' \<Rightarrow> Spin sb'
      | Mangled \<Rightarrow> mangled mem tw sb SC_PROTOCOL)"

section \<open>The loop\<close>

text \<open>
  The result of a read: an indication, an abort of the peer, or an error. The block is gone except after an
  indication and after the timer. What has not arrived yet is kept.
\<close>

datatype rresult = R_IND indication | R_ABORT bool "byte list option" | R_NOTOK sres

record readout =
  ro_res :: rresult
  ro_sb :: "ssapblk option"
  ro_out :: "tsdu list"
  ro_rx :: "incoming list"

text \<open>What still may be read, weighted so that every turn of the loop lowers it.\<close>

definition backlog :: "ssapblk \<Rightarrow> incoming list \<Rightarrow> nat" where
  "backlog sb rx = 4 * length rx + (if sb_spdu sb = None then 0 else 2) + (if sb_xspdu sb = None then 0 else 1)"

definition keeps_buffers :: "ssapblk \<Rightarrow> ssapblk \<Rightarrow> bool" where
  "keeps_buffers sb sb' \<longleftrightarrow> (sb_spdu sb' = sb_spdu sb \<or> sb_spdu sb' = None) \<and> (sb_xspdu sb' = sb_xspdu sb \<or> sb_pr sb \<noteq> SPDU_PR)"

lemma filter_keeps_buffers:
  assumes "f sb s = Pass sb' \<or> f sb s = Discard sb'" "f \<in> set all_filters"
  shows "sb_spdu sb' = sb_spdu sb" "sb_xspdu sb' = sb_xspdu sb" "sb_pr sb' = sb_pr sb \<or> sb_pr sb' = SPDU_PR"
proof -
  have "sb_spdu sb' = sb_spdu sb \<and> sb_xspdu sb' = sb_xspdu sb \<and> (sb_pr sb' = sb_pr sb \<or> sb_pr sb' = SPDU_PR)"
    using assms
    by (auto simp: all_filters_def prepare_filter_def normal_flow_def collide_filter_def exception_filter_def segment_filter_def
      size_filter_def unit_filter_def Let_def split: if_splits option.splits)
  then show "sb_spdu sb' = sb_spdu sb" "sb_xspdu sb' = sb_xspdu sb" "sb_pr sb' = sb_pr sb \<or> sb_pr sb' = SPDU_PR" by auto
qed

lemma filters_keep_buffers:
  assumes "filters fs sb s = Pass sb' \<or> filters fs sb s = Discard sb'" "set fs \<subseteq> set all_filters"
  shows "sb_spdu sb' = sb_spdu sb \<and> sb_xspdu sb' = sb_xspdu sb \<and> (sb_pr sb' = sb_pr sb \<or> sb_pr sb' = SPDU_PR)"
  using assms
proof (induction fs arbitrary: sb)
  case (Cons f fs)
  from Cons.prems(2) have f: "f \<in> set all_filters" "set fs \<subseteq> set all_filters" by auto
  show ?case
  proof (cases "f sb s")
    case (Pass sb1)
    with Cons.prems(1) have "filters fs sb1 s = Pass sb' \<or> filters fs sb1 s = Discard sb'" by simp
    from Cons.IH [OF this f(2)] filter_keeps_buffers [OF disjI1 [OF Pass] f(1)] show ?thesis by auto
  next
    case (Discard sb1)
    with Cons.prems(1) have "sb' = sb1" by simp
    with filter_keeps_buffers [OF disjI2 [OF Discard] f(1)] show ?thesis by auto
  next
    case Mangled
    with Cons.prems(1) show ?thesis by simp
  qed
qed simp

lemma mangled_not_Spin [simp]: "mangled mem tw sb e \<noteq> Spin sb'"
  by (simp add: mangled_def split: prod.splits)

lemmas arm_defs = on_PT_def on_GT_def on_DT_def on_EX_def on_CD_def on_GTC_def on_GTA_def on_MAP_def on_MAA_def on_MIP_def
  on_MIA_def on_RS_def on_RA_def on_PR_def on_ER_def on_ED_def on_AS_def on_AR_def on_AI_def on_AIA_def on_FN_def on_AB_def

lemma dispatch_keeps_buffers:
  assumes "dispatch mem tw sb qs = Spin sb'"
  shows "keeps_buffers sb sb'"
  using assms unfolding dispatch_def Let_def
  by (auto simp: keeps_buffers_def arm_defs Let_def set_flags_def their_point_def split: if_splits option.splits prod.splits sres.splits)

lemma body_keeps_buffers:
  assumes "body mem tw sb qs = Spin sb'"
  shows "keeps_buffers sb sb'"
proof (cases "filters all_filters sb (qs_pkt qs)")
  case (Pass sb1)
  with assms dispatch_keeps_buffers [of mem tw sb1 qs sb'] filters_keep_buffers [OF disjI1 [OF Pass]]
  show ?thesis by (auto simp: body_def keeps_buffers_def)
next
  case (Discard sb1)
  with assms filters_keep_buffers [OF disjI2 [OF Discard]] show ?thesis by (auto simp: body_def keeps_buffers_def)
qed (use assms in \<open>simp add: body_def\<close>)

lemma lost_not_Got [simp]: "lost mem tw sb e \<noteq> (Got qs, sb', out)"
  by (auto simp: lost_def split: option.splits prod.splits)

lemma tsdu2sb_xspdu:
  assumes "tsdu2sb mem tw sb expd q = (Got qs, sb', out)"
  shows "sb_xspdu sb' = sb_xspdu sb"
  using assms by (auto simp: tsdu2sb_def concatenated_def Let_def split: sum.splits if_splits prod.splits)

lemma backlog_decreases:
  assumes "sb2spkt mem tw sb rx = (Got qs, sb1, out, rx1)" "body mem tw sb1 qs = Spin sb2"
  shows "backlog sb2 rx1 < backlog sb rx"
proof (cases "take_buffered sb")
  case None
  with assms(1) obtain expd q where r: "rx = Arrive expd q # rx1" "tsdu2sb mem tw sb expd q = (Got qs, sb1, out)"
    by (auto simp: sb2spkt_def split: list.splits incoming.splits prod.splits)
  from body_keeps_buffers [OF assms(2)] r(1) show ?thesis by (auto simp: backlog_def keeps_buffers_def)
next
  case (Some p)
  obtain s sb' where p: "p = (s, sb')" by (cases p)
  with Some assms(1) have e: "qs = s" "sb1 = sb'" "rx1 = rx" by (auto simp: sb2spkt_def)
  from Some p have "sb_pr sb = SPDU_PR \<and> sb_xspdu sb \<noteq> None \<and> sb' = sb\<lparr>sb_xspdu := None\<rparr> \<or> sb_spdu sb \<noteq> None \<and> sb' = sb\<lparr>sb_spdu := None\<rparr>"
    by (auto simp: take_buffered_def split: option.splits if_splits)
  then show ?thesis using body_keeps_buffers [OF assms(2)] e(2,3) unfolding backlog_def keeps_buffers_def by (elim disjE) auto
qed

function SReadRequestAux :: "(int \<Rightarrow> bool) \<Rightarrow> (tsdu \<Rightarrow> td_reason option) \<Rightarrow> bool \<Rightarrow> ssapblk \<Rightarrow> incoming list \<Rightarrow> readout" where
  "SReadRequestAux mem tw async sb rx =
     (case sb2spkt mem tw sb rx of
        (GotNone r, sb1, out, rx1) \<Rightarrow>
          \<lparr>ro_res = R_NOTOK r, ro_sb = (if r = S_NOTOK SC_TIMER then Some sb1 else None), ro_out = out, ro_rx = rx1\<rparr>
      | (Got qs, sb1, out, rx1) \<Rightarrow>
          (case body mem tw sb1 qs of
             Spin sb2 \<Rightarrow>
               if async \<and> sb_spdu sb2 = None then \<lparr>ro_res = R_IND SI_PARTIAL, ro_sb = Some sb2, ro_out = out, ro_rx = rx1\<rparr>
               else (let r = SReadRequestAux mem tw async sb2 rx1 in r\<lparr>ro_out := out @ ro_out r\<rparr>)
           | Ind i sb2 out2 \<Rightarrow> \<lparr>ro_res = R_IND i, ro_sb = Some sb2, ro_out = out @ out2, ro_rx = rx1\<rparr>
           | Over r out2 \<Rightarrow> \<lparr>ro_res = R_NOTOK r, ro_sb = None, ro_out = out @ out2, ro_rx = rx1\<rparr>
           | Aborted peer info \<Rightarrow> \<lparr>ro_res = R_ABORT peer info, ro_sb = None, ro_out = out, ro_rx = rx1\<rparr>))"
  by pat_completeness auto
termination
  by (relation "measure (\<lambda>(mem, tw, async, sb, rx). backlog sb rx)") (auto intro: backlog_decreases [OF sym])

declare SReadRequestAux.simps [simp del]

definition SReadRequest :: "(int \<Rightarrow> bool) \<Rightarrow> (tsdu \<Rightarrow> td_reason option) \<Rightarrow> ssapblk \<Rightarrow> incoming list \<Rightarrow> readout" where
  "SReadRequest mem tw sb rx =
     (if SB_CONN \<notin> sb_flags sb then \<lparr>ro_res = R_NOTOK (S_NOTOK SC_PARAMETER), ro_sb = Some sb, ro_out = [], ro_rx = rx\<rparr>
      else if SB_FINN \<in> sb_flags sb then \<lparr>ro_res = R_NOTOK (S_NOTOK SC_OPERATION), ro_sb = Some sb, ro_out = [], ro_rx = rx\<rparr>
      else SReadRequestAux mem tw False sb rx)"

end
