(* ===== verification/Spm_Data.thy ===== *)
theory Spm_Data
  imports Spm_Read
begin

text \<open>
  The session protocol machine, normal and typed data: \<^verbatim>\<open>SDataRequestAux\<close> of \<^verbatim>\<open>ssap/ssaprovider.c\<close> with
  its callers there and in \<^verbatim>\<open>ssap/ssaptyped.c\<close>. User data comes as a list of vectors and goes out in
  segments, when a size was negotiated for them.
\<close>

section \<open>Segments\<close>

text \<open>
  The vectors of one segment: at most as many as there are slots, and together at most \<open>len\<close> octets. The
  head of the list is what is left of the current vector, the empty list its end mark.
\<close>

definition move_on :: "nat \<Rightarrow> byte list \<Rightarrow> byte list list \<Rightarrow> byte list list" where
  "move_on j v vs = (if length v \<le> j then vs else drop j v # vs)"

fun fill :: "nat \<Rightarrow> int \<Rightarrow> byte list list \<Rightarrow> byte list list \<times> byte list list" where
  "fill 0 len vs = ([], vs)"
| "fill (Suc k) len [] = ([], [])"
| "fill (Suc k) len (v # vs) =
     (if len \<le> 0 then ([], v # vs)
      else let j = min (length v) (nat len) in
        if move_on j v vs = [] then ([take j v], [])
        else case fill k (len - int j) (move_on j v vs) of (cs, r) \<Rightarrow> (take j v # cs, r))"

abbreviation (input) NSPUV :: nat where "NSPUV \<equiv> 12"
abbreviation (input) SSDU_MAGIC :: int where "SSDU_MAGIC \<equiv> 7"

definition slots :: "byte \<Rightarrow> nat" where
  "slots code = NSPUV - 1 - (if code = SPDU_GT then 2 else 1)"

definition data_spkt :: "byte \<Rightarrow> int \<Rightarrow> bool \<Rightarrow> bool \<Rightarrow> ssapkt" where
  "data_spkt code us beg fin =
     (if us \<noteq> 0
      then Set SMASK_ENCLOSE ((newspkt code)\<lparr>s_enclose := (let e = (if beg then u8_bis 0 1 else 0) in if fin then u8_bis e 2 else e)\<rparr>)
      else newspkt code)"

definition data_lead :: "(int \<Rightarrow> bool) \<Rightarrow> byte \<Rightarrow> byte list outcome \<times> ssapkt" where
  "data_lead mem code =
     (if code = SPDU_GT then spkt2tsdu mem (Set SMASK_SPDU_GT (newspkt SPDU_GT)) else (Done [], newspkt code))"

definition write_segment :: "(int \<Rightarrow> bool) \<Rightarrow> (tsdu \<Rightarrow> td_reason option) \<Rightarrow> byte list \<Rightarrow> ssapkt \<Rightarrow> byte list list \<Rightarrow> sres \<times> tsdu list" where
  "write_segment mem tw lead s cs =
     (case spkt2tsdu mem s of
        (Done h, _) \<Rightarrow> hand_over tw (Normal (lead @ h @ concat cs))
      | (Fault, _) \<Rightarrow> (S_FAULT, [])
      | (_, s1) \<Rightarrow> (S_NOTOK (Errno (s_errno s1)), []))"

text \<open>\<open>None\<close> stands for a loop that does not end.\<close>

partial_function (option) send_segments :: "(int \<Rightarrow> bool) \<Rightarrow> (tsdu \<Rightarrow> td_reason option) \<Rightarrow> byte \<Rightarrow> int \<Rightarrow> bool \<Rightarrow> bool \<Rightarrow> int \<Rightarrow>
    byte list list \<Rightarrow> (sres \<times> tsdu list) option" where
  [code]: "send_segments mem tw code us beg fin n vs =
     (if vs = [] then Some (S_OK, [])
      else let len = (if us \<noteq> 0 then min n (us - SSDU_MAGIC) else n);
               cs = fst (fill (slots code) len vs);
               vs' = snd (fill (slots code) len vs) in
        case data_lead mem code of
          (Done lead, _) \<Rightarrow>
            if us = 0 \<and> vs' \<noteq> [] then Some (S_NOTOK SC_PARAMETER, [])
            else let w = write_segment mem tw lead (data_spkt code us beg (fin \<and> vs' = [])) cs in
              if fst w = S_OK
              then Option.bind (send_segments mem tw code us (beg \<and> us = 0) fin (n - int (length (concat cs))) vs')
                     (\<lambda>r. Some (fst r, snd w @ snd r))
              else Some w
        | (Fault, _) \<Rightarrow> Some (S_FAULT, [])
        | (_, s1) \<Rightarrow> Some (S_NOTOK (Errno (s_errno s1)), []))"

definition SDataRequestAux :: "(int \<Rightarrow> bool) \<Rightarrow> (tsdu \<Rightarrow> td_reason option) \<Rightarrow> ssapblk \<Rightarrow> byte \<Rightarrow> byte list list \<Rightarrow> bool \<Rightarrow> bool \<Rightarrow>
    (sres \<times> tsdu list) option" where
  "SDataRequestAux mem tw sb code vs beg fin =
     (if code = SPDU_GT \<and> requires sb SR_HALFDUPLEX \<and> \<not> owns sb ST_DAT_SHIFT then Some (S_NOTOK SC_OPERATION, [])
      else if code = SPDU_TD \<and> \<not> requires sb SR_TYPEDATA then Some (S_NOTOK SC_OPERATION, [])
      else let n = int (length (concat vs)) in
        if n = 0 then Some (S_NOTOK SC_PARAMETER, []) else send_segments mem tw code (sb_tsdu_us sb) beg fin n vs)"

section \<open>Requests\<close>

definition guarded_data :: "ssapblk \<Rightarrow> (sres \<times> tsdu list) option \<Rightarrow> (sres \<times> tsdu list) option" where
  "guarded_data sb k = (case ssapPsig sb of Some e \<Rightarrow> Some (S_NOTOK e, []) | None \<Rightarrow> k)"

definition SSendRequest :: "(int \<Rightarrow> bool) \<Rightarrow> (tsdu \<Rightarrow> td_reason option) \<Rightarrow> ssapblk \<Rightarrow> byte list \<Rightarrow> bool \<Rightarrow> bool \<Rightarrow> (sres \<times> tsdu list) option" where
  "SSendRequest mem tw sb d beg fin =
     (if d = [] then Some (S_NOTOK SC_PARAMETER, []) else guarded_data sb (SDataRequestAux mem tw sb SPDU_GT [d] beg fin))"

definition SDataRequest :: "(int \<Rightarrow> bool) \<Rightarrow> (tsdu \<Rightarrow> td_reason option) \<Rightarrow> ssapblk \<Rightarrow> byte list \<Rightarrow> (sres \<times> tsdu list) option" where
  "SDataRequest mem tw sb d = SSendRequest mem tw sb d True True"

definition STypedRequest :: "(int \<Rightarrow> bool) \<Rightarrow> (tsdu \<Rightarrow> td_reason option) \<Rightarrow> ssapblk \<Rightarrow> byte list \<Rightarrow> (sres \<times> tsdu list) option" where
  "STypedRequest mem tw sb d =
     (if d = [] then Some (S_NOTOK SC_PARAMETER, []) else guarded_data sb (SDataRequestAux mem tw sb SPDU_TD [d] True True))"

definition SWriteRequest :: "(int \<Rightarrow> bool) \<Rightarrow> (tsdu \<Rightarrow> td_reason option) \<Rightarrow> ssapblk \<Rightarrow> bool \<Rightarrow> byte list list \<Rightarrow> (sres \<times> tsdu list) option" where
  "SWriteRequest mem tw sb typed vs =
     guarded_data sb (SDataRequestAux mem tw sb (if typed then SPDU_TD else SPDU_GT) vs True True)"

section \<open>Filling a segment\<close>

lemma concat_move_on: "take j v @ concat (move_on j v vs) = concat (v # vs)"
  unfolding move_on_def using append_take_drop_id [of j v] by (auto simp del: append_take_drop_id)

text \<open>A vector moves into the segment, as a whole or its first part.\<close>

lemma fill_step:
  assumes "fill (Suc k) len (v # vs) = (cs, r)" "0 < len"
  obtains cs' where "cs = take (min (length v) (nat len)) v # cs'"
    "fill k (len - int (min (length v) (nat len))) (move_on (min (length v) (nat len)) v vs) = (cs', r)
     \<or> move_on (min (length v) (nat len)) v vs = [] \<and> cs' = [] \<and> r = []"
  using assms by (cases "move_on (min (length v) (nat len)) v vs = []") (auto simp: Let_def split: prod.splits)

lemma fill_concat: "fill k len vs = (cs, r) \<Longrightarrow> concat cs @ concat r = concat vs"
proof (induction k arbitrary: len vs cs r)
  case (Suc k)
  show ?case
  proof (cases "vs = [] \<or> len \<le> 0")
    case False
    then obtain v vs' where vs: "vs = v # vs'" "0 < len" by (cases vs) auto
    from fill_step [OF Suc.prems [unfolded vs(1)] vs(2)] Suc.IH concat_move_on [of "min (length v) (nat len)" v vs'] vs(1)
    show ?thesis by (metis append_assoc append_Nil2 concat.simps(1,2))
  next
    case True
    with Suc.prems show ?thesis by (cases vs) auto
  qed
qed simp

lemma fill_length: "fill k len vs = (cs, r) \<Longrightarrow> 0 \<le> len \<Longrightarrow> int (length (concat cs)) \<le> len"
proof (induction k arbitrary: len vs cs r)
  case (Suc k)
  show ?case
  proof (cases "vs = [] \<or> len \<le> 0")
    case False
    then obtain v vs' where vs: "vs = v # vs'" "0 < len" by (cases vs) auto
    obtain cs' where c: "cs = take (min (length v) (nat len)) v # cs'"
      "fill k (len - int (min (length v) (nat len))) (move_on (min (length v) (nat len)) v vs') = (cs', r) \<or> cs' = []"
      using fill_step [OF Suc.prems(1) [unfolded vs(1)] vs(2)] by metis
    then have "cs' = [] \<or> int (length (concat cs')) \<le> len - int (min (length v) (nat len))"
      using Suc.IH vs(2) by fastforce
    with c(1) vs(2) show ?thesis by auto
  next
    case True
    with Suc.prems show ?thesis by (cases vs) auto
  qed
qed simp

text \<open>What is left is a rest of the list: the marks of its vectors stay.\<close>

definition rest_of :: "byte list list \<Rightarrow> byte list list \<Rightarrow> bool" where
  "rest_of vs r \<longleftrightarrow> r = [] \<or> vs \<noteq> [] \<and> (last r = [] \<longleftrightarrow> last vs = []) \<and> ([] \<notin> set vs \<longrightarrow> [] \<notin> set r)"

lemma rest_of_refl: "rest_of vs vs"
  by (auto simp: rest_of_def)

lemma rest_of_trans: "rest_of vs r \<Longrightarrow> rest_of r r' \<Longrightarrow> rest_of vs r'"
  by (auto simp: rest_of_def)

lemma rest_of_move_on: "rest_of (v # vs) (move_on j v vs)"
  by (auto simp: rest_of_def move_on_def)

lemma fill_rest: "fill k len vs = (cs, r) \<Longrightarrow> rest_of vs r"
proof (induction k arbitrary: len vs cs r)
  case (Suc k)
  show ?case
  proof (cases "vs = [] \<or> len \<le> 0")
    case False
    then obtain v vs' where vs: "vs = v # vs'" "0 < len" by (cases vs) auto
    have "rest_of (move_on (min (length v) (nat len)) v vs') r"
      using fill_step [OF Suc.prems [unfolded vs(1)] vs(2)] Suc.IH by (metis rest_of_refl)
    with vs(1) rest_of_move_on rest_of_trans show ?thesis by metis
  next
    case True
    with Suc.prems show ?thesis by (cases vs) (auto simp: rest_of_refl)
  qed
qed (simp add: rest_of_refl)

text \<open>A segment that is not empty takes an octet or a vector.\<close>

definition load :: "byte list list \<Rightarrow> nat" where
  "load vs = length (concat vs) + length vs"

lemma load_move_on: "load (move_on (min (length v) (nat len)) v vs) < load (v # vs)" if "0 < len"
  using that by (auto simp: load_def move_on_def)

lemma fill_load: "fill k len vs = (cs, r) \<Longrightarrow> load r \<le> load vs"
proof (induction k arbitrary: len vs cs r)
  case (Suc k)
  show ?case
  proof (cases "vs = [] \<or> len \<le> 0")
    case False
    then obtain v vs' where vs: "vs = v # vs'" "0 < len" by (cases vs) auto
    have "load r \<le> load (move_on (min (length v) (nat len)) v vs')"
      using fill_step [OF Suc.prems [unfolded vs(1)] vs(2)] Suc.IH by (metis order_refl)
    with vs load_move_on [OF vs(2), of v vs'] show ?thesis by simp
  next
    case True
    with Suc.prems show ?thesis by (cases vs) auto
  qed
qed simp

lemma fill_progress:
  assumes "fill k len vs = (cs, r)" "0 < k" "0 < len" "vs \<noteq> []"
  shows "load r < load vs"
proof -
  obtain v vs' m where v: "vs = v # vs'" "k = Suc m" using assms by (cases vs; cases k) auto
  have "load r \<le> load (move_on (min (length v) (nat len)) v vs')"
    using fill_step [OF assms(1) [unfolded v] assms(3)] fill_load by (metis order_refl)
  with v load_move_on [OF assms(3), of v vs'] show ?thesis by simp
qed

lemma fill_nonempty:
  assumes "fill k len vs = (cs, r)" "0 < k" "0 < len" "vs \<noteq> []" "[] \<notin> set vs"
  shows "concat cs \<noteq> []"
proof -
  obtain v vs' m where v: "vs = v # vs'" "k = Suc m" using assms by (cases vs; cases k) auto
  from fill_step [OF assms(1) [unfolded v] assms(3)] obtain cs' where c: "cs = take (min (length v) (nat len)) v # cs'" by metis
  from assms(3,5) v(1) have "take (min (length v) (nat len)) v \<noteq> []" by (auto simp: min_def)
  with c show ?thesis by simp
qed

end
