(* ===== verification/Spm_Segment.thy ===== *)
theory Spm_Segment
  imports Spm_Data Spdu_Roundtrip
begin

text \<open>
  Segmentation and reassembly: the units that \<^verbatim>\<open>SDataRequestAux\<close> hands to the transport are read by the
  peer's \<^verbatim>\<open>SReadRequestAux\<close> as the data that was given to it; and when the loop that writes them ends.
\<close>

section \<open>The octets of the data units\<close>

definition encl :: "int \<Rightarrow> bool \<Rightarrow> bool \<Rightarrow> byte list" where
  "encl us beg fin = (if us \<noteq> 0 then [25, 1, (if beg then 1 else 0) OR (if fin then 2 else 0)] else [])"

definition data_code :: "byte \<Rightarrow> bool" where
  "data_code c \<longleftrightarrow> c = SPDU_GT \<or> c = SPDU_TD"

definition lead_octets :: "byte \<Rightarrow> byte list" where
  "lead_octets code = (if code = SPDU_GT then [1, 0] else [])"

definition unit_octets :: "byte \<Rightarrow> int \<Rightarrow> bool \<Rightarrow> bool \<Rightarrow> byte list \<Rightarrow> byte list" where
  "unit_octets code us beg fin d = lead_octets code @ spdu code (encl us beg fin) @ d"

lemma writable_short:
  assumes "plain ps" "length (render ps) \<le> 252" "int (length (render ps)) \<le> spdu_size s b" "\<forall>n. mem n"
  shows "writable mem s b ps"
  using assms by (simp add: writable_def)

lemma spdu_size_small: "254 \<le> spdu_size s b"
  by (simp add: spdu_size_def Let_def)

lemma spkt2tsdu_short:
  assumes "spdu_case s = Some (b, ps)" "plain ps" "length (render ps) \<le> 252" "\<forall>n. mem n"
  shows "spkt2tsdu mem s = (Done (spdu (s_code s) (render ps)), s\<lparr>s_errno := SC_ACCEPT, s_li := int (length (render ps))\<rparr>)"
  using assms spdu_size_small [of s b] by (intro spkt2tsdu_renders writable_short) auto

lemma data_lead_octets:
  assumes "\<forall>n. mem n" "data_code code"
  shows "\<exists>s. data_lead mem code = (Done (lead_octets code), s)"
proof -
  have "spdu_case (Set 1 (newspkt 1)) = Some (3, [])"
    by (simp add: spdu_case_def params_GT_def If_Set_def newspkt_def Set_def)
  from spkt2tsdu_short [OF this _ _ assms(1)] show ?thesis
    by (simp add: data_lead_def lead_octets_def spdu_def li_octets_def Set_def newspkt_def)
qed

lemma data_spkt_octets:
  assumes "\<forall>n. mem n" "data_code code"
  shows "\<exists>s. spkt2tsdu mem (data_spkt code us beg fin) = (Done (spdu code (encl us beg fin)), s)"
proof -
  let ?s = "data_spkt code us beg fin"
  have c: "spdu_case ?s = Some (3, Put_Enclose ?s)" "s_code ?s = code"
    using assms(2) by (auto simp: data_code_def data_spkt_def spdu_case_def params_GT_def newspkt_def Set_def)
  have r: "render (Put_Enclose ?s) = encl us beg fin" "plain (Put_Enclose ?s)"
    by (auto simp: Put_Enclose_def If_Set_def data_spkt_def newspkt_def Set_def encl_def li_octets_def u8_bis_def Let_def)
  have "length (encl us beg fin) \<le> 252" by (simp add: encl_def)
  with spkt2tsdu_short [OF c(1) r(2) _ assms(1)] r(1) c(2) show ?thesis by simp
qed

lemma write_segment_octets:
  assumes "\<forall>n. mem n" "data_code code" "tw (Normal (unit_octets code us beg fin (concat cs))) = None"
  shows "write_segment mem tw (lead_octets code) (data_spkt code us beg fin) cs = (S_OK, [Normal (unit_octets code us beg fin (concat cs))])"
  using data_spkt_octets [OF assms(1,2), of us beg fin] assms(3) by (auto simp: write_segment_def unit_octets_def hand_over_def)

section \<open>Reading a data unit\<close>

lemma tsdu2spkt_GT:
  assumes "concat qb = [1, 0] @ rest" "2 \<le> len"
  shows "\<exists>q. tsdu2spkt mem qb len True = Done (start_packet True 1 0, 2, q) \<and> concat q = rest"
  using tsdu2spkt_takes [of mem 1 "[]" True "start_packet True 1 0" qb rest len] assms
  by (simp add: tables_at spdu_def li_octets_def mandatory_def start_packet_def set_category_def Set_def newspkt_def)

definition data_read :: "byte \<Rightarrow> int \<Rightarrow> bool \<Rightarrow> bool \<Rightarrow> bool \<Rightarrow> ssapkt" where
  "data_read code us beg fin cat0 =
     (let t = start_packet cat0 code (int (length (encl us beg fin))) in
      if us \<noteq> 0 then t\<lparr>s_mask := s_mask t \<union> {13}, s_enclose := s_enclose (data_spkt code us beg fin)\<rparr> else t)"

lemma tsdu2spkt_data:
  assumes "concat qb = spdu code (encl us beg fin) @ rest" "int (length (spdu code (encl us beg fin))) \<le> len"
    "code = SPDU_GT \<and> \<not> cat0 \<or> code = SPDU_TD"
  shows "\<exists>q. tsdu2spkt mem qb len cat0 = Done (data_read code us beg fin cat0, int (length (spdu code (encl us beg fin))), q) \<and> concat q = rest"
proof -
  let ?s = "data_spkt code us beg fin"
  let ?t = "start_packet cat0 code (int (length (encl us beg fin)))"
  have r: "render (Put_Enclose ?s) = encl us beg fin"
    by (auto simp: Put_Enclose_def If_Set_def data_spkt_def newspkt_def Set_def encl_def li_octets_def u8_bis_def Let_def)
  have t: "s_errno ?t = SC_ACCEPT" "\<not> (code = SPDU_GT \<and> SMASK_SPDU_GT \<in> s_mask ?t)" "\<not> (code = SPDU_AB \<and> SMASK_SPDU_AB \<notin> s_mask ?t)"
    "code_ok (si_table ! unat code) 25 1"
    using assms(3) by (auto simp: start_packet_def set_category_def newspkt_def Set_def code_ok_def tables_at)
  have e: "SMASK_ENCLOSE \<in> s_mask ?s \<longrightarrow> s_enclose ?s \<le> 3" "13 \<in> s_mask ?s \<longleftrightarrow> us \<noteq> 0"
    by (auto simp: data_spkt_def newspkt_def Set_def u8_bis_def Let_def)
  have "take_params mem code (si_table ! unat code) (Put_Enclose ?s) ?t = Some (data_read code us beg fin cat0)"
    using take_enclose [OF t(1) e(1) t(4,2,3)] e(2) by (simp add: data_read_def Let_def)
  moreover have "mandatory (data_read code us beg fin cat0)"
    using assms(3) by (auto simp: mandatory_def data_read_def Let_def start_packet_def set_category_def newspkt_def Set_def)
  moreover have "unat code < length si_table" "si_table ! unat code \<noteq> PMASK_NOTSUPPORTED" "length (encl us beg fin) \<le> 65535"
    using assms(3) by (auto simp: tables_at encl_def)
  ultimately show ?thesis using tsdu2spkt_takes [of mem code "Put_Enclose ?s" cat0 "data_read code us beg fin cat0" qb rest len] assms(1,2) r
    by simp
qed

lemma data_read_fields [simp]:
  "s_code (data_read code us beg fin cat0) = code"
  "s_errno (data_read code us beg fin cat0) = SC_ACCEPT"
  "s_udata (data_read code us beg fin cat0) = None"
  "15 \<notin> s_mask (data_read code us beg fin cat0)"
  "13 \<in> s_mask (data_read code us beg fin cat0) \<longleftrightarrow> us \<noteq> 0"
  "Suc 0 \<in> s_mask (data_read code us beg fin cat0) \<longleftrightarrow> cat0 \<and> code = SPDU_GT"
  by (auto simp: data_read_def Let_def start_packet_def set_category_def newspkt_def Set_def)

lemma data_read_enclose:
  "us \<noteq> 0 \<Longrightarrow> bit (s_enclose (data_read code us beg fin cat0)) 0 = beg"
  "us \<noteq> 0 \<Longrightarrow> bit (s_enclose (data_read code us beg fin cat0)) 1 = fin"
  by (auto simp: data_read_def data_spkt_def newspkt_def Set_def u8_bis_def Let_def bit_simps)

text \<open>A unit with some user data, in whatever buffers it arrives, is read as one data packet.\<close>

lemma tsdu2sb_data:
  assumes "concat q = unit_octets code us beg fin d" "d \<noteq> []" "data_code code" "sb_spdu sb = None"
  shows "\<exists>q'. concat q' = d \<and> q' \<noteq> [] \<and>
    tsdu2sb mem tw sb False q = (Got \<lparr>qs_pkt = data_read code us beg fin (code = SPDU_TD), qs_qbuf = q', qs_qlen = int (length d)\<rparr>, sb, [])"
proof (cases "code = SPDU_GT")
  case True
  let ?h = "spdu code (encl us beg fin)"
  have c: "concat q = [1, 0] @ ?h @ d" using assms(1) True by (simp add: unit_octets_def lead_octets_def)
  then have n: "length (concat q) = 2 + length ?h + length d" by simp
  obtain q1 where q1: "tsdu2spkt mem q (int (length (concat q))) True = Done (start_packet True 1 0, 2, q1)" "concat q1 = ?h @ d"
    using tsdu2spkt_GT [OF c, of "int (length (concat q))"] n by auto
  obtain q2 where q2: "tsdu2spkt mem q1 (int (length ?h + length d)) False = Done (data_read code us beg fin False, int (length ?h), q2)" "concat q2 = d"
    using tsdu2spkt_data [OF q1(2), of "int (length ?h + length d)" False] True by auto
  have s: "s_errno (start_packet True 1 0) = SC_ACCEPT" "s_code (start_packet True 1 0) = 1" "0 \<notin> s_mask (start_packet True 1 0)"
    by (auto simp: start_packet_def set_category_def newspkt_def Set_def)
  have "q2 \<noteq> []" using q2(2) assms(2) by auto
  moreover have "sb\<lparr>sb_spdu := None\<rparr> = sb" using assms(4) by simp
  moreover have "\<not> int (length ?h) + int (length d) \<le> 0" using assms(2) by (cases d) auto
  ultimately show ?thesis using q1 q2 n s True
    by (intro exI [of _ q2]) (simp add: tsdu2sb_def next_spkt_def CAT0_def concatenated_def Let_def keeps_cat0_def with_rest_def)
next
  case False
  with assms(3) have td: "code = SPDU_TD" by (simp add: data_code_def)
  let ?h = "spdu code (encl us beg fin)"
  have c: "concat q = ?h @ d" using assms(1) False by (simp add: unit_octets_def lead_octets_def)
  then have n: "length (concat q) = length ?h + length d" by simp
  obtain q2 where q2: "tsdu2spkt mem q (int (length (concat q))) True = Done (data_read code us beg fin True, int (length ?h), q2)" "concat q2 = d"
    using tsdu2spkt_data [OF c, of "int (length (concat q))" True] td n by auto
  have "q2 \<noteq> []" using q2(2) assms(2) by auto
  with q2 n td show ?thesis
    by (intro exI [of _ q2]) (simp add: tsdu2sb_def next_spkt_def CAT0_def CAT1_USER_def with_rest_def)
qed

section \<open>Reassembly\<close>

text \<open>The receiver is not in the middle of anything else.\<close>

definition quiet :: "ssapblk \<Rightarrow> bool" where
  "quiet sb \<longleftrightarrow> sb_pr sb = SPDU_PR \<and> sb_flags sb \<inter> {SB_RS, SB_AI, SB_ED, SB_ERACK} = {} \<and> sb_spdu sb = None \<and> sb_xspdu sb = None"

lemma quiet_filters:
  assumes "quiet sb"
  shows "15 \<notin> s_mask s \<Longrightarrow> s_code s \<noteq> SPDU_PR \<Longrightarrow> s_code s \<noteq> SPDU_EX \<Longrightarrow> prepare_filter sb s = Pass sb"
    "collide_filter sb s = Pass sb" "exception_filter sb s = Pass sb"
  using assms by (auto simp: quiet_def prepare_filter_def normal_flow_def collide_filter_def exception_filter_def Let_def)

definition typed_ok :: "ssapblk \<Rightarrow> byte \<Rightarrow> bool" where
  "typed_ok sb code \<longleftrightarrow> code = SPDU_GT \<or> code = SPDU_TD \<and> requires sb SR_TYPEDATA"

lemma filters_data:
  assumes "quiet sb" "typed_ok sb code" "sb_len sb > 0 \<longrightarrow> sb_code sb = code"
  shows "filters all_filters sb (data_read code us beg fin (code = SPDU_TD)) = Pass sb"
  using assms quiet_filters [OF assms(1)]
  by (auto simp: all_filters_def typed_ok_def segment_filter_def size_filter_def unit_filter_def units_def)

lemma body_data:
  assumes "quiet sb" "typed_ok sb code" "sb_len sb > 0 \<longrightarrow> sb_code sb = code"
  shows "body mem tw sb \<lparr>qs_pkt = data_read code us beg fin (code = SPDU_TD), qs_qbuf = q, qs_qlen = n\<rparr> =
    on_DT mem tw sb \<lparr>qs_pkt = data_read code us beg fin (code = SPDU_TD), qs_qbuf = q, qs_qlen = n\<rparr>"
  using filters_data [OF assms] assms(2) by (auto simp: body_def dispatch_def Let_def typed_ok_def)

definition sx_of :: "byte \<Rightarrow> sx_type" where
  "sx_of code = (if code = SPDU_GT then SX_NORMAL else SX_TYPED)"

lemma on_DT_data:
  assumes "(if us = 0 then sb_tsdu_them sb = 0 \<and> beg \<and> fin else sb_tsdu_them sb \<noteq> 0 \<and> (if beg then sb_len sb = 0 else sb_len sb > 0))"
    "q \<noteq> []" "sb_spdu sb = None"
  shows "on_DT mem tw sb \<lparr>qs_pkt = data_read code us beg fin c0, qs_qbuf = q, qs_qlen = n\<rparr> =
    (if fin then Ind (SI_DATA (sx_of code) (sb_qbuf sb @ q) (sb_len sb + n)) (sb\<lparr>sb_code := code, sb_qbuf := [], sb_len := 0\<rparr>) []
     else Spin (sb\<lparr>sb_code := code, sb_qbuf := sb_qbuf sb @ q, sb_len := sb_len sb + n\<rparr>))"
proof -
  have "segment_end sb (data_read code us beg fin c0) = Some fin"
    using assms(1) data_read_enclose [of us code beg fin c0] by (cases "us = 0") (auto simp: segment_end_def split: if_splits)
  with assms(2,3) show ?thesis by (auto simp: on_DT_def Let_def sx_of_def)
qed

text \<open>The units of a transfer, for the pieces of its data.\<close>

fun segs :: "byte \<Rightarrow> int \<Rightarrow> bool \<Rightarrow> byte list list \<Rightarrow> byte list list" where
  "segs code us beg [] = []"
| "segs code us beg (d # ds) = unit_octets code us beg (ds = []) d # segs code us False ds"

text \<open>Units as they arrive: each in its own buffers.\<close>

definition arrives :: "incoming \<Rightarrow> byte list \<Rightarrow> bool" where
  "arrives r bs \<longleftrightarrow> (\<exists>q. r = Arrive False q \<and> concat q = bs)"

lemma read_segs:
  assumes "list_all2 arrives rx (segs code us beg ds)" "ds \<noteq> []" "[] \<notin> set ds" "data_code code" "quiet sb" "typed_ok sb code"
    "sb_len sb = int (length (concat (sb_qbuf sb)))" "sb_len sb > 0 \<longrightarrow> sb_code sb = code"
    "us = 0 \<and> sb_tsdu_them sb = 0 \<and> beg \<and> length ds = 1 \<or> us \<noteq> 0 \<and> sb_tsdu_them sb \<noteq> 0 \<and> (if beg then sb_len sb = 0 else sb_len sb > 0)"
  shows "\<exists>q. SReadRequestAux mem tw False sb (rx @ rest) =
      \<lparr>ro_res = R_IND (SI_DATA (sx_of code) q (int (length (concat q)))), ro_sb = Some (sb\<lparr>sb_code := code, sb_qbuf := [], sb_len := 0\<rparr>),
       ro_out = [], ro_rx = rest\<rparr>
    \<and> concat q = concat (sb_qbuf sb) @ concat ds"
  using assms
proof (induction ds arbitrary: rx beg sb)
  case (Cons d ds)
  obtain q rx' where rx: "rx = Arrive False q # rx'" "concat q = unit_octets code us beg (ds = []) d" "list_all2 arrives rx' (segs code us False ds)"
    using Cons.prems(1) unfolding segs.simps list_all2_Cons2 by (metis arrives_def)
  have d: "d \<noteq> []" "[] \<notin> set ds" using Cons.prems(3) by auto
  have sp: "sb_spdu sb = None" "take_buffered sb = None" using Cons.prems(5) by (auto simp: quiet_def take_buffered_def)
  obtain q' where q': "concat q' = d" "q' \<noteq> []" "tsdu2sb mem tw sb False q =
      (Got \<lparr>qs_pkt = data_read code us beg (ds = []) (code = SPDU_TD), qs_qbuf = q', qs_qlen = int (length d)\<rparr>, sb, [])"
    using tsdu2sb_data [OF rx(2) d(1) Cons.prems(4) sp(1)] by blast
  have on: "body mem tw sb \<lparr>qs_pkt = data_read code us beg (ds = []) (code = SPDU_TD), qs_qbuf = q', qs_qlen = int (length d)\<rparr> =
      (if ds = [] then Ind (SI_DATA (sx_of code) (sb_qbuf sb @ q') (sb_len sb + int (length d))) (sb\<lparr>sb_code := code, sb_qbuf := [], sb_len := 0\<rparr>) []
       else Spin (sb\<lparr>sb_code := code, sb_qbuf := sb_qbuf sb @ q', sb_len := sb_len sb + int (length d)\<rparr>))"
    unfolding body_data [OF Cons.prems(5,6,8)]
    by (rule on_DT_data) (use Cons.prems(9) q'(2) sp(1) in \<open>auto split: if_splits\<close>)
  show ?case
  proof (cases "ds = []")
    case True
    with rx(1,3) have "rx' = []" by simp
    with True on q' sp rx(1) Cons.prems(7) show ?thesis
      by (intro exI [of _ "sb_qbuf sb @ q'"]) (simp add: SReadRequestAux.simps [of _ _ _ sb] sb2spkt_def)
  next
    case False
    have pos: "0 < sb_len sb + int (length d)" using Cons.prems(7) d(1) by (cases d) simp_all
    let ?sb = "sb\<lparr>sb_code := code, sb_qbuf := sb_qbuf sb @ q', sb_len := sb_len sb + int (length d)\<rparr>"
    have "\<exists>q. SReadRequestAux mem tw False ?sb (rx' @ rest) =
        \<lparr>ro_res = R_IND (SI_DATA (sx_of code) q (int (length (concat q)))), ro_sb = Some (?sb\<lparr>sb_code := code, sb_qbuf := [], sb_len := 0\<rparr>),
         ro_out = [], ro_rx = rest\<rparr> \<and> concat q = concat (sb_qbuf ?sb) @ concat ds"
    proof (rule Cons.IH [OF rx(3) False d(2) Cons.prems(4)])
      show "quiet ?sb" using Cons.prems(5) by (simp add: quiet_def)
      show "typed_ok ?sb code" using Cons.prems(6) by (simp add: typed_ok_def requires_def)
      show "us = 0 \<and> sb_tsdu_them ?sb = 0 \<and> False \<and> length ds = 1 \<or> us \<noteq> 0 \<and> sb_tsdu_them ?sb \<noteq> 0 \<and> (if False then sb_len ?sb = 0 else sb_len ?sb > 0)"
        using Cons.prems(9) False pos by (auto split: if_splits)
    qed (use Cons.prems(7) q'(1) in simp_all)
    with False on q' sp rx(1) show ?thesis by (auto simp: SReadRequestAux.simps [of _ _ _ sb] sb2spkt_def)
  qed
qed simp

section \<open>Segmentation\<close>

lemma slots_pos: "0 < slots code"
  by (simp add: slots_def)

text \<open>One turn of the loop, when the transport takes the unit.\<close>

lemma send_segments_step:
  assumes "\<forall>n. mem n" "\<forall>t. tw t = None" "data_code code" "vs \<noteq> []" "len = (if us \<noteq> 0 then min n (us - 7) else n)"
    "fill (slots code) len vs = (cs, vs')" "us = 0 \<longrightarrow> vs' = []"
  shows "send_segments mem tw code us beg fin n vs =
    Option.bind (send_segments mem tw code us (beg \<and> us = 0) fin (n - int (length (concat cs))) vs')
      (\<lambda>r. Some (fst r, Normal (unit_octets code us beg (fin \<and> vs' = []) (concat cs)) # snd r))"
proof -
  obtain s where "data_lead mem code = (Done (lead_octets code), s)" using data_lead_octets [OF assms(1,3)] by blast
  moreover have "write_segment mem tw (lead_octets code) (data_spkt code us beg (fin \<and> vs' = [])) cs =
      (S_OK, [Normal (unit_octets code us beg (fin \<and> vs' = []) (concat cs))])"
    by (rule write_segment_octets) (use assms(1-3) in auto)
  ultimately show ?thesis using assms(4-7) by (subst send_segments.simps) (auto simp: Let_def)
qed

lemma send_segments_Nil [simp]: "send_segments mem tw code us beg fin n [] = Some (S_OK, [])"
  by (subst send_segments.simps) simp

lemma send_segments_pieces:
  assumes "\<forall>n. mem n" "\<forall>t. tw t = None" "data_code code" "vs \<noteq> []" "[] \<notin> set vs" "7 < us"
  shows "\<exists>ds. send_segments mem tw code us beg True (int (length (concat vs))) vs = Some (S_OK, map Normal (segs code us beg ds))
    \<and> concat ds = concat vs \<and> ds \<noteq> [] \<and> [] \<notin> set ds \<and> (\<forall>d \<in> set ds. int (length d) \<le> us - 7)"
  using assms(4,5)
proof (induction "load vs" arbitrary: vs beg rule: less_induct)
  case less
  let ?len = "min (int (length (concat vs))) (us - 7)"
  obtain cs vs' where f: "fill (slots code) ?len vs = (cs, vs')" by fastforce
  have "concat vs \<noteq> []" using less.prems by (cases vs) auto
  then have "0 < length (concat vs)" by blast
  then have len: "0 < ?len" using assms(6) by linarith
  have c: "concat vs = concat cs @ concat vs'" using fill_concat [OF f] by simp
  have ne: "concat cs \<noteq> []" by (rule fill_nonempty [OF f slots_pos len less.prems])
  have short: "int (length (concat cs)) \<le> us - 7" using fill_length [OF f] len by simp
  have st: "send_segments mem tw code us beg True (int (length (concat vs))) vs =
      Option.bind (send_segments mem tw code us False True (int (length (concat vs'))) vs')
        (\<lambda>r. Some (fst r, Normal (unit_octets code us beg (vs' = []) (concat cs)) # snd r))"
    using send_segments_step [OF assms(1-3) less.prems(1) _ f, of us "int (length (concat vs))" beg True] assms(6) by (simp add: c)
  show ?case
  proof (cases "vs' = []")
    case True
    with st ne short c show ?thesis by (intro exI [of _ "[concat cs]"]) simp
  next
    case False
    have "load vs' < load vs" by (rule fill_progress [OF f slots_pos len less.prems(1)])
    moreover have "[] \<notin> set vs'" using fill_rest [OF f] less.prems False by (simp add: rest_of_def)
    ultimately obtain ds where ds: "send_segments mem tw code us False True (int (length (concat vs'))) vs' = Some (S_OK, map Normal (segs code us False ds))"
      "concat ds = concat vs'" "ds \<noteq> []" "[] \<notin> set ds" "\<forall>d \<in> set ds. int (length d) \<le> us - 7" using less.hyps False by blast
    with st ne short c False show ?thesis by (intro exI [of _ "concat cs # ds"]) simp
  qed
qed

lemma fill_all:
  "vs \<noteq> [] \<Longrightarrow> [] \<notin> set vs \<Longrightarrow> length vs \<le> k \<Longrightarrow> int (length (concat vs)) \<le> len \<Longrightarrow> fill k len vs = (vs, [])"
proof (induction vs arbitrary: k len)
  case (Cons v vs)
  then obtain m where k: "k = Suc m" by (cases k) auto
  have v: "v \<noteq> []" using Cons.prems(2) by auto
  have le: "int (length v) \<le> len" using Cons.prems(4) by simp
  with length_greater_0_conv [of v] v have "0 < len" by linarith
  then have len: "\<not> len \<le> 0" "min (length v) (nat len) = length v" using le by auto
  show ?case
  proof (cases "vs = []")
    case False
    then have "fill m (len - int (length v)) vs = (vs, [])" using Cons k by (intro Cons.IH) auto
    with k len False show ?thesis by (simp add: Let_def move_on_def)
  qed (use k len in \<open>simp add: Let_def move_on_def\<close>)
qed simp

lemma send_segments_single:
  assumes "\<forall>n. mem n" "\<forall>t. tw t = None" "data_code code" "vs \<noteq> []" "[] \<notin> set vs" "length vs \<le> slots code"
  shows "send_segments mem tw code 0 beg True (int (length (concat vs))) vs = Some (S_OK, map Normal (segs code 0 beg [concat vs]))"
  using send_segments_step [OF assms(1-4) refl, of 0 "int (length (concat vs))" vs "[]" beg True] fill_all [OF assms(4-6) order_refl] by simp

lemma length_segs:
  assumes "\<forall>d \<in> set ds. int (length d) \<le> us - 7" "0 < us" "bs \<in> set (segs code us beg ds)"
  shows "int (length bs) \<le> us"
  using assms(1,3)
proof (induction ds arbitrary: beg)
  case (Cons d ds)
  have "int (length (unit_octets code us beg (ds = []) d)) \<le> us"
    using Cons.prems(1) assms(2) by (simp add: unit_octets_def lead_octets_def spdu_def encl_def li_octets_def)
  with Cons show ?case by auto
qed simp


definition sender_example :: ssapblk where
  "sender_example = newsblk\<lparr>sb_flags := {SB_CONN, SB_INIT}, sb_tsdu_us := 64, sb_owned := 1, sb_requirements := SR_HALFDUPLEX\<rparr>"

definition receiver_example :: ssapblk where
  "receiver_example = newsblk\<lparr>sb_flags := {SB_CONN}, sb_tsdu_them := 64, sb_requirements := SR_HALFDUPLEX\<rparr>"


section \<open>The end of the loop\<close>

lemma fill_keeps_last:
  "fill k len vs = (cs, r) \<Longrightarrow> vs \<noteq> [] \<Longrightarrow> last vs = [] \<Longrightarrow> len \<le> int (length (concat vs)) \<Longrightarrow> r \<noteq> []"
proof (induction k arbitrary: len vs cs r)
  case (Suc k)
  show ?case
  proof (cases "len \<le> 0")
    case False
    obtain v vs' where vs: "vs = v # vs'" using Suc.prems(2) by (cases vs) auto
    let ?j = "min (length v) (nat len)"
    have ne: "vs' \<noteq> []" using Suc.prems(3,4) vs False by auto
    then have m: "move_on ?j v vs' \<noteq> []" "last (move_on ?j v vs') = []" using Suc.prems(3) vs by (auto simp: move_on_def)
    have "length (concat (move_on ?j v vs')) + ?j = length (concat vs)"
      using arg_cong [OF concat_move_on [of ?j v vs'], of length] vs by simp
    then have l: "len - int ?j \<le> int (length (concat (move_on ?j v vs')))" using Suc.prems(4) by linarith
    from fill_step [OF Suc.prems(1) [unfolded vs]] False m(1) obtain cs' where "fill k (len - int ?j) (move_on ?j v vs') = (cs', r)"
      by (metis not_le)
    from Suc.IH [OF this m l] show ?thesis .
  next
    case True
    with Suc.prems show ?thesis by (cases vs) auto
  qed
qed simp

lemma send_segments_ends:
  assumes "\<forall>n. mem n" "\<forall>t. tw t = None" "data_code code" "7 < us" "vs = [] \<or> last vs \<noteq> []"
  shows "\<exists>r. send_segments mem tw code us beg fin (int (length (concat vs))) vs = Some r"
  using assms(5)
proof (induction "load vs" arbitrary: vs beg rule: less_induct)
  case less
  show ?case
  proof (cases "vs = []")
    case False
    let ?len = "min (int (length (concat vs))) (us - 7)"
    obtain cs vs' where f: "fill (slots code) ?len vs = (cs, vs')" by fastforce
    have "last vs \<in> set vs" "last vs \<noteq> []" using False less.prems by auto
    then have "concat vs \<noteq> []" by auto
    then have "0 < length (concat vs)" by blast
    then have len: "0 < ?len" using assms(4) by linarith
    have "load vs' < load vs" by (rule fill_progress [OF f slots_pos len False])
    moreover have "vs' = [] \<or> last vs' \<noteq> []" using fill_rest [OF f] less.prems by (auto simp: rest_of_def)
    ultimately obtain r where "send_segments mem tw code us False fin (int (length (concat vs'))) vs' = Some r" using less.hyps by blast
    moreover have "int (length (concat vs)) - int (length (concat cs)) = int (length (concat vs'))"
      using fill_concat [OF f] by (metis add_diff_cancel_left' length_append of_nat_add)
    ultimately show ?thesis
      using send_segments_step [OF assms(1-3) False _ f, of us "int (length (concat vs))" beg fin] assms(4) by simp
  qed simp
qed

definition endless :: "(int \<Rightarrow> bool) \<Rightarrow> (tsdu \<Rightarrow> td_reason option) \<Rightarrow> byte \<Rightarrow> int \<Rightarrow> int \<Rightarrow> byte list list \<Rightarrow> bool" where
  "endless mem tw code us n vs \<longleftrightarrow> (\<forall>n. mem n) \<and> (\<forall>t. tw t = None) \<and> data_code code \<and> 7 < us \<and> n = int (length (concat vs))
     \<and> vs \<noteq> [] \<and> last vs = []"

lemma send_segments_runs_on:
  assumes "send_segments mem tw code us beg fin n vs = Some r"
  shows "\<not> endless mem tw code us n vs"
proof (rule send_segments.raw_induct [where P = "\<lambda>mem tw code us beg fin n vs r. \<not> endless mem tw code us n vs", OF _ assms])
  fix send mem tw code us beg fin n vs r
  assume IH: "\<And>mem tw code us beg fin n vs r. send mem tw code us beg fin n vs = Some r \<Longrightarrow> \<not> endless mem tw code us n vs"
    and st: "(if vs = [] then Some (S_OK, [])
      else let len = (if us \<noteq> 0 then min n (us - SSDU_MAGIC) else n);
               cs = fst (fill (slots code) len vs);
               vs' = snd (fill (slots code) len vs) in
        case data_lead mem code of
          (Done lead, _) \<Rightarrow>
            if us = 0 \<and> vs' \<noteq> [] then Some (S_NOTOK SC_PARAMETER, [])
            else let w = write_segment mem tw lead (data_spkt code us beg (fin \<and> vs' = [])) cs in
              if fst w = S_OK
              then Option.bind (send mem tw code us (beg \<and> us = 0) fin (n - int (length (concat cs))) vs')
                     (\<lambda>r. Some (fst r, snd w @ snd r))
              else Some w
        | (Notok, s1) \<Rightarrow> Some (S_NOTOK (Errno (s_errno s1)), [])
        | (Fault, _) \<Rightarrow> Some (S_FAULT, [])
        | (Spent, s1) \<Rightarrow> Some (S_NOTOK (Errno (s_errno s1)), [])) = Some r"
  show "\<not> endless mem tw code us n vs"
  proof
    assume "endless mem tw code us n vs"
    then have e: "\<forall>n. mem n" "\<forall>t. tw t = None" "data_code code" "7 < us" "n = int (length (concat vs))" "vs \<noteq> []" "last vs = []"
      by (auto simp: endless_def)
    obtain cs vs' where f: "fill (slots code) (min n (us - 7)) vs = (cs, vs')" by fastforce
    have r: "vs' \<noteq> []" using fill_keeps_last [OF f e(6,7)] e(5) by simp
    have l: "last vs' = []" using fill_rest [OF f] e(7) r by (simp add: rest_of_def)
    have c: "n - int (length (concat cs)) = int (length (concat vs'))"
      using fill_concat [OF f] e(5) by (metis add_diff_cancel_left' length_append of_nat_add)
    obtain s where d: "data_lead mem code = (Done (lead_octets code), s)" using data_lead_octets [OF e(1,3)] by blast
    have w: "write_segment mem tw (lead_octets code) (data_spkt code us beg False) cs = (S_OK, [Normal (unit_octets code us beg False (concat cs))])"
      by (rule write_segment_octets) (use e(1-3) in auto)
    from st e(4,6) f d w r obtain r' where "send mem tw code us False fin (n - int (length (concat cs))) vs' = Some r'"
      by (auto simp: Let_def Option.bind_eq_Some_conv)
    from IH [OF this] e(1-4) c r l show False by (simp add: endless_def)
  qed
qed



end
