(* ===== verification/Spm_Release.thy ===== *)
theory Spm_Release
  imports Spm_Data
begin

text \<open>
  The session protocol machine, release: \<^verbatim>\<open>ssap/ssaprelease1.c\<close> and \<^verbatim>\<open>ssap/ssaprelease2.c\<close>. The request
  waits for the answer of the peer itself, and answers in turn when the peer wants to finish, too.
\<close>

section \<open>Release request\<close>

datatype rel_result = REL_OK bool "byte list option" | REL_ABORT bool "byte list option" | REL_NOTOK sres

record rel_reply =
  rl_res :: rel_result
  rl_sb :: "ssapblk option"
  rl_out :: "tsdu list"
  rl_rx :: "incoming list"

lemma sb2spkt_backlog:
  assumes "sb2spkt mem tw sb rx = (Got qs, sb1, out, rx1)"
  shows "backlog sb1 rx1 < backlog sb rx"
proof (cases "take_buffered sb")
  case None
  with assms obtain expd q where r: "rx = Arrive expd q # rx1" "tsdu2sb mem tw sb expd q = (Got qs, sb1, out)"
    by (auto simp: sb2spkt_def split: list.splits incoming.splits prod.splits)
  from tsdu2sb_xspdu [OF r(2)] r(1) show ?thesis by (auto simp: backlog_def)
next
  case (Some p)
  with assms show ?thesis
    by (auto simp: sb2spkt_def take_buffered_def backlog_def split: option.splits if_splits)
qed

text \<open>
  The wait: a finish of the peer is answered by a disconnect, for which the packet of the request is used
  again, and the wait goes on.
\<close>

function rel_wait :: "(int \<Rightarrow> bool) \<Rightarrow> (tsdu \<Rightarrow> td_reason option) \<Rightarrow> ssapblk \<Rightarrow> incoming list \<Rightarrow> rel_reply" where
  "rel_wait mem tw sb rx =
     (case sb2spkt mem tw sb rx of
        (GotNone r, sb1, out, rx1) \<Rightarrow>
          \<lparr>rl_res = REL_NOTOK r, rl_sb = (if r = S_NOTOK SC_TIMER then Some (set_flags {SB_RELEASE} {} sb1) else None),
           rl_out = out, rl_rx = rx1\<rparr>
      | (Got qs, sb1, out, rx1) \<Rightarrow>
          (let s = qs_pkt qs in
           if s_code s = SPDU_FN
           then (case sb_retry sb1 of
                   None \<Rightarrow> \<lparr>rl_res = REL_NOTOK S_FAULT, rl_sb = None, rl_out = out, rl_rx = rx1\<rparr>
                 | Some p \<Rightarrow>
                     (let p1 = p\<lparr>s_code := SPDU_DN\<rparr>; sb2 = sb1\<lparr>sb_retry := Some p1\<rparr> in
                      case spkt2sd mem tw p1 False of
                        (S_OK, out2) \<Rightarrow> (let r = rel_wait mem tw sb2 rx1 in r\<lparr>rl_out := out @ out2 @ rl_out r\<rparr>)
                      | (e, out2) \<Rightarrow> \<lparr>rl_res = REL_NOTOK e, rl_sb = None, rl_out = out @ out2, rl_rx = rx1\<rparr>))
           else if s_code s = SPDU_DN then \<lparr>rl_res = REL_OK True (s_udata s), rl_sb = None, rl_out = out, rl_rx = rx1\<rparr>
           else if s_code s = SPDU_NF \<and> requires sb1 SR_NEGOTIATED \<and> owns sb1 ST_RLS_SHIFT
           then \<lparr>rl_res = REL_OK False (s_udata s), rl_sb = Some sb1, rl_out = out, rl_rx = rx1\<rparr>
           else if s_code s = SPDU_RS
           then \<lparr>rl_res = REL_NOTOK (S_NOTOK SC_WAITING), rl_sb = Some (sb1\<lparr>sb_spdu := Some qs\<rparr>), rl_out = out, rl_rx = rx1\<rparr>
           else if s_code s = SPDU_AB then \<lparr>rl_res = REL_ABORT (bit (s_disconnect s) 1) (s_udata s), rl_sb = None, rl_out = out, rl_rx = rx1\<rparr>
           else case spktlose mem tw sb1 SC_PROTOCOL of
             (r, out2) \<Rightarrow> \<lparr>rl_res = REL_NOTOK r, rl_sb = None, rl_out = out @ out2, rl_rx = rx1\<rparr>))"
  by pat_completeness auto
termination
proof (relation "measure (\<lambda>(mem, tw, sb, rx). backlog sb rx)", goal_cases)
  case (2 mem tw sb rx x a g aa b sb1 s p p1 sb2)
  then show ?case using sb2spkt_backlog [of mem tw sb rx] by (auto simp: backlog_def dest: sym)
qed simp

declare rel_wait.simps [simp del]

definition rel_lose :: "sres \<Rightarrow> ssapblk option \<Rightarrow> incoming list \<Rightarrow> rel_reply" where
  "rel_lose r sb rx = \<lparr>rl_res = REL_NOTOK r, rl_sb = sb, rl_out = [], rl_rx = rx\<rparr>"

text \<open>Unless the finish has been sent by an earlier call, it is sent first; its packet stays in the block, stripped.\<close>

definition SRelRetryRequestAux :: "(int \<Rightarrow> bool) \<Rightarrow> (tsdu \<Rightarrow> td_reason option) \<Rightarrow> ssapblk \<Rightarrow> incoming list \<Rightarrow> rel_reply" where
  "SRelRetryRequestAux mem tw sb rx =
     (if SB_RELEASE \<in> sb_flags sb then rel_wait mem tw sb rx
      else case sb_retry sb of
        None \<Rightarrow> rel_lose S_FAULT None rx
      | Some s \<Rightarrow>
          (let s1 = Set SMASK_FN_DISC (s\<lparr>s_code := SPDU_FN, s_disconnect := 1\<rparr>);
               s2 = s1\<lparr>s_mask := s_mask s1 - {SMASK_UDATA_PGI, SMASK_FN_DISC}, s_udata := None, s_disconnect := 0\<rparr> in
           case spkt2sd mem tw s1 False of
             (S_OK, out) \<Rightarrow> (let r = rel_wait mem tw (sb\<lparr>sb_retry := Some s2\<rparr>) rx in r\<lparr>rl_out := out @ rl_out r\<rparr>)
           | (e, out) \<Rightarrow> (rel_lose e None rx)\<lparr>rl_out := out\<rparr>))"

definition SRelRequestAux :: "(int \<Rightarrow> bool) \<Rightarrow> (tsdu \<Rightarrow> td_reason option) \<Rightarrow> ssapblk \<Rightarrow> byte list \<Rightarrow> incoming list \<Rightarrow> rel_reply" where
  "SRelRequestAux mem tw sb d rx =
     (if list_ex (\<lambda>n. token_exists sb n \<and> \<not> owns sb n) tokens \<or> sb_flags sb \<inter> {SB_CD, SB_CDA, SB_GTC, SB_MAA, SB_RELEASE} \<noteq> {}
      then rel_lose (S_NOTOK SC_OPERATION) (Some sb) rx
      else if sb_xspdu sb \<noteq> None \<or> sb_spdu sb \<noteq> None then rel_lose (S_NOTOK SC_WAITING) (Some sb) rx
      else SRelRetryRequestAux mem tw (sb\<lparr>sb_retry := Some (add_udata d (newspkt SPDU_FN))\<rparr>) rx)"

definition SRelRequest :: "(int \<Rightarrow> bool) \<Rightarrow> (tsdu \<Rightarrow> td_reason option) \<Rightarrow> ssapblk \<Rightarrow> byte list \<Rightarrow> incoming list \<Rightarrow> rel_reply" where
  "SRelRequest mem tw sb d rx =
     (case ssapPsig sb of
        Some e \<Rightarrow> rel_lose (S_NOTOK e) (Some sb) rx
      | None \<Rightarrow> if toomuchP sb d 512 then rel_lose (S_NOTOK SC_PARAMETER) (Some sb) rx else SRelRequestAux mem tw sb d rx)"

definition SRelRetryRequest :: "(int \<Rightarrow> bool) \<Rightarrow> (tsdu \<Rightarrow> td_reason option) \<Rightarrow> ssapblk \<Rightarrow> incoming list \<Rightarrow> rel_reply" where
  "SRelRetryRequest mem tw sb rx =
     (if SB_RELEASE \<notin> sb_flags sb then rel_lose (S_NOTOK SC_OPERATION) (Some sb) rx else SRelRetryRequestAux mem tw sb rx)"

section \<open>Release response\<close>

text \<open>The status of a response: accepting, rejecting, or neither.\<close>

datatype rel_status = REL_ACCEPT | REL_REJECT | REL_OTHER

definition SRelResponseAux :: "(int \<Rightarrow> bool) \<Rightarrow> (tsdu \<Rightarrow> td_reason option) \<Rightarrow> ssapblk \<Rightarrow> rel_status \<Rightarrow> byte list \<Rightarrow> reply" where
  "SRelResponseAux mem tw sb status d =
     (if status = REL_OTHER then refuse SC_PARAMETER sb
      else if status = REL_REJECT \<and> (\<not> requires sb SR_NEGOTIATED \<or> owns sb ST_RLS_SHIFT) then refuse SC_OPERATION sb
      else let code = (if status = REL_ACCEPT then SPDU_DN else SPDU_NF);
               r = settle (spkt2sd mem tw (add_udata d (newspkt code)) False) (set_flags {} {SB_FINN} sb) in
        if code = SPDU_DN then r\<lparr>rp_sb := None\<rparr> else r)"

definition SRelResponse :: "(int \<Rightarrow> bool) \<Rightarrow> (tsdu \<Rightarrow> td_reason option) \<Rightarrow> ssapblk \<Rightarrow> rel_status \<Rightarrow> byte list \<Rightarrow> reply" where
  "SRelResponse mem tw sb status d = guarded (ssapFsig sb) (toomuchP sb d 512) sb (SRelResponseAux mem tw sb status d)"

end
