(* ===== verification/Spm_System.thy ===== *)
theory Spm_System
  imports Spm_Segment Spm_Release
begin

text \<open>
  Two session protocol machines over a transport connection: every call of the service on either side, and
  every read, in any order.
\<close>

section \<open>The code of a packet that is read\<close>

lemma octet_code: "octet f b = Some (s', b') \<Longrightarrow> (\<And>x. s_code (f x) = c) \<Longrightarrow> s_code s' = c"
  by (auto simp: octet_def split: list.splits)

lemma octets_code: "octets n f b = Some (s', b') \<Longrightarrow> (\<And>x. s_code (f x) = c) \<Longrightarrow> s_code s' = c"
  by (auto simp: octets_def split: if_splits)

lemma s_code_upd [simp]: "s_code (Set n s) = s_code s" "s_code (protocol_error s) = s_code s"
  by (simp_all add: Set_def protocol_error_def)

lemmas handler_defs = read_user_ref_def read_common_ref_def read_add_info_def read_protocol_opt_def read_tsdu_maxsiz_def
  read_version_def read_sync_def read_token_set_def read_token_def read_tdisc_def read_user_req_def read_isn_def
  read_enclose_def read_resync_def read_act_id_def read_serial_def read_udata_def read_reason_def read_reflect_def
  read_address_def read_prepare_def

lemma read_param_code: "read_param mem si code li s b = Some (s', b') \<Longrightarrow> s_code s' = s_code s"
  unfolding read_param_def handler_defs Let_def
  by (auto split: if_splits elim!: octet_code octets_code)

lemma advance_packet: "advance n r = (r', ok) \<Longrightarrow> s_code (r_s r') = s_code (r_s r)"
  by (auto simp: advance_def lose_def split: if_splits prod.splits option.splits)

lemma read_head_code:
  "read_head r = Head x r' \<Longrightarrow> s_code (r_s r') = s_code (r_s r)" "read_head r = Stop r' \<Longrightarrow> s_code (r_s r') = s_code (r_s r)"
  by (auto simp: read_head_def Let_def lose_def split: prod.splits if_splits list.splits dest!: advance_packet)

lemma read_step_code:
  assumes "read_step mem si pmask r = (Some r', go)"
  shows "s_code (r_s r') = s_code (r_s r)"
proof (cases "read_head r")
  case (Head x r1)
  obtain code li xlen where x: "x = (code, li, xlen)" by (cases x)
  let ?r2 = "r1\<lparr>r_pktlen := r_pktlen r1 - (xlen + int li), r_pgilen := (if r_pgilen r1 = 0 then r_pktlen r1 else r_pgilen r1) - xlen - int li\<rparr>"
  obtain r3 ok where a: "(if li > 0 then advance li ?r2 else (?r2, True)) = (r3, ok)" by fastforce
  then have "s_code (r_s r3) = s_code (r_s r1)" by (auto split: if_splits dest!: advance_packet)
  with assms a read_head_code(1) [OF Head] show ?thesis unfolding read_step_def Head x
    by (auto simp: Let_def lose_def split: if_splits prod.splits option.splits dest!: read_param_code)
next
  case (Stop r1)
  with assms read_head_code(2) [OF Stop] show ?thesis by (simp add: read_step_def)
qed (use assms in \<open>simp add: read_step_def\<close>)

lemma read_loop_code: "read_loop mem si pmask r = Some r' \<Longrightarrow> s_code (r_s r') = s_code (r_s r)"
proof (induction mem si pmask r arbitrary: r' rule: read_loop.induct)
  case (1 mem si pmask r)
  show ?case
  proof (cases "r_pktlen r \<noteq> 0 \<and> s_errno (r_s r) = SC_ACCEPT")
    case True
    with "1.prems" obtain r1 go where s: "read_step mem si pmask r = (Some r1, go)"
      "(if go then read_loop mem si pmask r1 else Some r1) = Some r'"
      by (auto simp: read_loop.simps [of _ _ _ r] split: prod.splits option.splits)
    have c: "s_code (r_s r1) = s_code (r_s r)" by (rule read_step_code [OF s(1)])
    show ?thesis
    proof (cases go)
      case g: True
      with s(2) have "read_loop mem si pmask r1 = Some r'" by simp
      from "1.IH" [OF True s(1) [symmetric] refl g this] c show ?thesis by (rule trans)
    next
      case False
      with s(2) c show ?thesis by simp
    qed
  qed (use "1.prems" in \<open>auto simp: read_loop.simps [of _ _ _ r] split: if_splits\<close>)
qed

lemma set_category_code [simp]: "s_code (set_category cat0 si s) = s_code s"
  by (simp add: set_category_def)

lemma tsdu2spkt_code:
  assumes "tsdu2spkt mem qb len cat0 = Done (s, n, q)"
  shows "\<exists>r. concat qb = s_code s # r"
proof -
  obtain p q1 where p: "pullqb 2 qb = (p, q1)" by fastforce
  with assms obtain si l where si: "p = Some [si, l]" by (auto simp: tsdu2spkt_def split: option.splits list.splits)
  have "s_code s = si"
    using assms unfolding tsdu2spkt_def p si
    by (auto simp: Let_def newspkt_def protocol_error_def split: if_splits option.splits prod.splits list.splits dest!: read_loop_code)
  with pullqb_Some [of 2 qb "[si, l]" q1] p si show ?thesis by (metis append_Cons)
qed

section \<open>The first octet of what is written\<close>

definition begun :: "local_buf \<Rightarrow> bool" where
  "begun c \<longleftrightarrow> (c_len c \<noteq> 0 \<longrightarrow> 0 < c_ptr c)"

lemma put2spdu_begun: "put2spdu mem code v c = Enc c' \<Longrightarrow> begun c \<Longrightarrow> begun c'"
  by (auto simp: put2spdu_def begun_def Let_def split: if_splits option.splits enc.splits)

lemma start_pgi_begun: "start_pgi mem code c = Enc c' \<Longrightarrow> begun c \<Longrightarrow> begun c'"
  unfolding start_pgi_def using put2spdu_begun [of mem code "[]" c] by (auto simp: begun_def split: if_splits enc.splits)

lemma end_pgi_begun: "end_pgi c = Enc c' \<Longrightarrow> begun c \<Longrightarrow> begun c'"
  by (auto simp: end_pgi_def begun_def Let_def split: if_splits option.splits enc.splits)

lemma put_params_begun: "put_params mem ps c = Enc c' \<Longrightarrow> begun c \<Longrightarrow> begun c'"
proof (induction mem ps c arbitrary: c' rule: put_params.induct)
  case (2 mem code v ps c)
  then show ?case by (auto split: enc.splits dest: put2spdu_begun)
next
  case (3 mem code qs ps c)
  from "3.prems"(1) obtain c1 c2 c3 where e: "start_pgi mem code c = Enc c1" "put_params mem qs c1 = Enc c2" "end_pgi c2 = Enc c3"
    "put_params mem ps c3 = Enc c'" by (auto split: enc.splits)
  have "begun c2" by (rule "3.IH"(1) [OF e(1,2) start_pgi_begun [OF e(1) "3.prems"(2)]])
  from "3.IH"(2) [OF e(1-4) end_pgi_begun [OF e(3) this]] show ?case .
qed auto

lemma spkt2tsdu_head:
  assumes "spkt2tsdu mem s = (Done bs, s')"
  shows "\<exists>r. bs = s_code s # r"
proof -
  obtain b ps c s1 c1 where p: "spdu_case s = Some (b, ps)" "start_spdu mem s b = (c, s1)" "put_params mem ps c = Enc c1"
    "end_spdu (s_code s) c1 = Done bs" "0 \<le> c_li c1"
    using assms by (auto simp: spkt2tsdu_def Let_def split: option.splits prod.splits enc.splits outcome.splits if_splits)
  have "begun c" using p(2) by (auto simp: start_spdu_def begun_def Let_def)
  then have "begun c1" using put_params_begun [OF p(3)] by simp
  moreover have "c_len c1 \<noteq> 0" using p(4) by (auto simp: end_spdu_def)
  ultimately obtain k where "c_ptr c1 = Suc k" by (cases "c_ptr c1") (auto simp: begun_def)
  with p(4,5) show ?thesis
    by (auto simp: end_spdu_def Let_def nat_add_distrib numeral_2_eq_2 numeral_eq_Suc split: if_splits option.splits)
qed

section \<open>Calls\<close>

text \<open>The calls of the session service, and what each runs.\<close>

datatype call =
    C_DATA bool "byte list list" | C_EXPD "byte list" | C_GIVE int | C_PLEASE int "byte list"
  | C_MINOR int "byte list" | C_MINOR_RSP int "byte list" | C_MAJOR "byte list" | C_MAJOR_RSP "byte list"
  | C_RESYNC int int int "byte list" | C_RESYNC_RSP int int "byte list"
  | C_CONTROL | C_START "byte list" "byte list" | C_RESUME "byte list" "byte list" int "SSAPref option" "byte list"
  | C_INTR int | C_INTR_RSP | C_DISC int | C_DISC_RSP | C_END "byte list" | C_END_RSP "byte list"
  | C_CAPD "byte list" | C_CAPD_RSP "byte list" | C_REPORT int "byte list" | C_ABORT "byte list" | C_FINISH_RSP rel_status "byte list"

fun perform :: "(int \<Rightarrow> bool) \<Rightarrow> (tsdu \<Rightarrow> td_reason option) \<Rightarrow> ssapblk \<Rightarrow> call \<Rightarrow> reply option" where
  "perform mem tw sb (C_DATA typed vs) =
     map_option (\<lambda>(r, out). \<lparr>rp_res = r, rp_sb = Some sb, rp_out = out, rp_ssn = None\<rparr>) (SWriteRequest mem tw sb typed vs)"
| "perform mem tw sb (C_EXPD d) = Some (SExpdRequest mem tw sb d)"
| "perform mem tw sb (C_GIVE w) = Some (SGTokenRequest mem tw sb w)"
| "perform mem tw sb (C_PLEASE w d) = Some (SPTokenRequest mem tw sb w d)"
| "perform mem tw sb (C_MINOR t d) = Some (SMinSyncRequest mem tw sb t d)"
| "perform mem tw sb (C_MINOR_RSP n d) = Some (SMinSyncResponse mem tw sb n d)"
| "perform mem tw sb (C_MAJOR d) = Some (SMajSyncRequest mem tw sb d)"
| "perform mem tw sb (C_MAJOR_RSP d) = Some (SMajSyncResponse mem tw sb d)"
| "perform mem tw sb (C_RESYNC t n w d) = Some (SReSyncRequest mem tw sb t n w d)"
| "perform mem tw sb (C_RESYNC_RSP n w d) = Some (SReSyncResponse mem tw sb n w d)"
| "perform mem tw sb C_CONTROL = Some (SGControlRequest mem tw sb)"
| "perform mem tw sb (C_START i d) = Some (SActStartRequest mem tw sb i d)"
| "perform mem tw sb (C_RESUME i oi n ref d) = Some (SActResumeRequest mem tw sb i oi n ref d)"
| "perform mem tw sb (C_INTR r) = Some (SActIntrRequest mem tw sb r)"
| "perform mem tw sb C_INTR_RSP = Some (SActIntrResponse mem tw sb)"
| "perform mem tw sb (C_DISC r) = Some (SActDiscRequest mem tw sb r)"
| "perform mem tw sb C_DISC_RSP = Some (SActDiscResponse mem tw sb)"
| "perform mem tw sb (C_END d) = Some (SActEndRequest mem tw sb d)"
| "perform mem tw sb (C_END_RSP d) = Some (SActEndResponse mem tw sb d)"
| "perform mem tw sb (C_CAPD d) = Some (SCapdRequest mem tw sb d)"
| "perform mem tw sb (C_CAPD_RSP d) = Some (SCapdResponse mem tw sb d)"
| "perform mem tw sb (C_REPORT r d) = Some (SUReportRequest mem tw sb r d)"
| "perform mem tw sb (C_ABORT d) = Some (SUAbortRequest mem tw sb d)"
| "perform mem tw sb (C_FINISH_RSP st d) = Some (SRelResponse mem tw sb st d)"

section \<open>The two machines\<close>

record world =
  w_a :: "ssapblk option"
  w_b :: "ssapblk option"
  w_ab :: "incoming list"
  w_ba :: "incoming list"

fun deliver :: "tsdu \<Rightarrow> incoming" where
  "deliver (Normal bs) = Arrive False [bs]"
| "deliver (Expedited bs) = Arrive True [bs]"

text \<open>
  A step: one side makes a call, asks for release or reads, with a memory and a transport that may refuse at
  any time; or an expedited unit overtakes the one in front of it.
\<close>

inductive step :: "world \<Rightarrow> world \<Rightarrow> bool" where
  call_a: "w_a w = Some sb \<Longrightarrow> perform mem tw sb c = Some r \<Longrightarrow>
    step w (w\<lparr>w_a := rp_sb r, w_ab := w_ab w @ map deliver (rp_out r)\<rparr>)"
| call_b: "w_b w = Some sb \<Longrightarrow> perform mem tw sb c = Some r \<Longrightarrow>
    step w (w\<lparr>w_b := rp_sb r, w_ba := w_ba w @ map deliver (rp_out r)\<rparr>)"
| read_a: "w_a w = Some sb \<Longrightarrow> SReadRequest mem tw sb (w_ba w) = r \<Longrightarrow>
    step w (w\<lparr>w_a := ro_sb r, w_ab := w_ab w @ map deliver (ro_out r), w_ba := ro_rx r\<rparr>)"
| read_b: "w_b w = Some sb \<Longrightarrow> SReadRequest mem tw sb (w_ab w) = r \<Longrightarrow>
    step w (w\<lparr>w_b := ro_sb r, w_ba := w_ba w @ map deliver (ro_out r), w_ab := ro_rx r\<rparr>)"
| release_a: "w_a w = Some sb \<Longrightarrow> SRelRequest mem tw sb d (w_ba w) = r \<or> SRelRetryRequest mem tw sb (w_ba w) = r \<Longrightarrow>
    step w (w\<lparr>w_a := rl_sb r, w_ab := w_ab w @ map deliver (rl_out r), w_ba := rl_rx r\<rparr>)"
| release_b: "w_b w = Some sb \<Longrightarrow> SRelRequest mem tw sb d (w_ab w) = r \<or> SRelRetryRequest mem tw sb (w_ab w) = r \<Longrightarrow>
    step w (w\<lparr>w_b := rl_sb r, w_ba := w_ba w @ map deliver (rl_out r), w_ab := rl_rx r\<rparr>)"
| overtake_a: "w_ab w = xs @ n # Arrive True q # ys \<Longrightarrow> step w (w\<lparr>w_ab := xs @ Arrive True q # n # ys\<rparr>)"
| overtake_b: "w_ba w = xs @ n # Arrive True q # ys \<Longrightarrow> step w (w\<lparr>w_ba := xs @ Arrive True q # n # ys\<rparr>)"

inductive reachable :: "world \<Rightarrow> world \<Rightarrow> bool" for w0 where
  start: "reachable w0 w0"
| step: "reachable w0 w \<Longrightarrow> step w w' \<Longrightarrow> reachable w0 w'"

end
