(* ===== verification/Spm_Sync.thy ===== *)
theory Spm_Sync
  imports Spm_System
begin

text \<open>
  Synchronization between two machines, end to end: what \<^verbatim>\<open>SWriteRequestAux\<close> writes for a request or a
  response is the packet that the peer's \<^verbatim>\<open>sb2spkt\<close> reads, and a major synchronization runs to its end.
\<close>

section \<open>A written packet is the packet that is read\<close>

lemma tsdu2spkt_category:
  assumes "concat qb = c # r" "c \<noteq> SPDU_GT" "c \<noteq> SPDU_AB" "c \<noteq> SPDU_AA"
  shows "tsdu2spkt mem qb len False = tsdu2spkt mem qb len True"
proof -
  obtain p q where p: "pullqb 2 qb = (p, q)" by fastforce
  show ?thesis
  proof (cases "\<exists>si l. p = Some [si, l]")
    case True
    then obtain si l where s: "p = Some [si, l]" by blast
    with pullqb_Some [of 2 qb "[si, l]" q] p assms(1) have "si = c" by simp
    with assms(2-4) have "set_category b si x = x" for b x by (simp add: set_category_def)
    then show ?thesis unfolding tsdu2spkt_def p s by simp
  qed (auto simp: tsdu2spkt_def p split: option.splits list.splits)
qed

lemma lead_spkt_octets:
  assumes "\<forall>n. mem n"
  shows "\<exists>x. spkt2tsdu mem (lead_spkt code) = (Done [s_code (lead_spkt code), 0], x)"
proof (cases "s_code (lead_spkt code) = SPDU_GT")
  case True
  then have "spdu_case (lead_spkt code) = Some (3, [])"
    by (auto simp: lead_spkt_def spdu_case_def params_GT_def If_Set_def newspkt_def Set_def split: if_splits)
  from spkt2tsdu_short [OF this _ _ assms] show ?thesis by (simp add: spdu_def li_octets_def)
next
  case False
  then have "lead_spkt code = newspkt SPDU_PT" by (auto simp: lead_spkt_def newspkt_def Set_def split: if_splits)
  then have "spdu_case (lead_spkt code) = Some (6, [])"
    by (simp add: spdu_case_def params_PT_def Put_Enclose_def Put_UData_def If_Set_def newspkt_def)
  from spkt2tsdu_short [OF this _ _ assms] show ?thesis by (simp add: spdu_def li_octets_def)
qed

lemma tsdu2spkt_lead:
  assumes "concat qb = [s_code (lead_spkt code), 0] @ rest" "2 \<le> len"
  shows "\<exists>p q. tsdu2spkt mem qb len True = Done (p, 2, q) \<and> concat q = rest \<and> s_errno p = SC_ACCEPT \<and> s_code p = s_code (lead_spkt code)
    \<and> (\<forall>s. \<not> keeps_cat0 p s)"
proof -
  let ?c = "s_code (lead_spkt code)" and ?p = "start_packet True (s_code (lead_spkt code)) 0"
  have c: "?c = SPDU_GT \<or> ?c = SPDU_PT" by (auto simp: lead_spkt_def newspkt_def Set_def)
  then have "mandatory ?p" "unat ?c < length si_table" "si_table ! unat ?c \<noteq> PMASK_NOTSUPPORTED" "s_errno ?p = SC_ACCEPT" "s_code ?p = ?c"
    "\<forall>s. \<not> keeps_cat0 ?p s"
    by (auto simp: tables_at mandatory_def start_packet_def set_category_def newspkt_def Set_def keeps_cat0_def)
  with tsdu2spkt_takes [of mem ?c "[]" True ?p qb rest len] assms show ?thesis by (auto simp: spdu_def li_octets_def)
qed

text \<open>
  A packet of category 2, with the parameters that its code may have: what the writer hands over, the reader
  takes as that packet, whatever the buffers, and nothing is left to wait in its block.
\<close>

lemma written_travels:
  assumes "\<forall>n. mem n" "\<forall>t. tw t = None" "write_fields a code type ssn settings aid oid ref = Some s0" "s = add_udata d s0"
    "spkt_ok s" "clear_of_window s" "SB_EXPD \<notin> sb_flags a" "(s_code (lead_spkt code), code) \<in> set CAT2"
    "code \<noteq> SPDU_AB" "code \<noteq> SPDU_AA" "s_code s = code"
  shows "\<exists>bs. SWriteRequestAux mem tw a code d type ssn settings aid oid ref = (S_OK, [Normal bs])
    \<and> (\<forall>q b. concat q = bs \<and> sb_spdu b = None \<longrightarrow>
        (\<exists>u. tsdu2sb mem tw b False q = (Got (plain_spkt u), b, []) \<and> s_code u = code \<and> s_mask u = s_mask s \<and> spdu_case u = spdu_case s))"
proof -
  obtain bz ps where c: "spdu_case s = Some (bz, ps)" by (rule spkt_ok_case [OF assms(5)])
  let ?b1 = "spdu code (render ps)" and ?b0 = "[s_code (lead_spkt code), 0]"
  obtain x where x: "spkt2tsdu mem (lead_spkt code) = (Done ?b0, x)" using lead_spkt_octets [OF assms(1)] by blast
  have y: "spkt2tsdu mem s = (Done ?b1, s\<lparr>s_errno := SC_ACCEPT, s_li := int (length (render ps))\<rparr>)"
    using spdu_travels(1) [OF assms(5,6,1) c] assms(11) by simp
  have w: "SWriteRequestAux mem tw a code d type ssn settings aid oid ref = (S_OK, [Normal (?b0 @ ?b1)])"
    using x y assms(2-4,7) by (simp add: SWriteRequestAux_def Let_def write_two_def hand_over_def)
  have ng: "code \<noteq> SPDU_GT" using assms(8) by (auto simp: CAT2_def)
  then have cat: "category s = True" using assms(9-11) by (simp add: category_def)
  have "\<exists>u. tsdu2sb mem tw b False q = (Got (plain_spkt u), b, []) \<and> s_code u = code \<and> s_mask u = s_mask s \<and> spdu_case u = spdu_case s"
    if q: "concat q = ?b0 @ ?b1" "sb_spdu b = None" for q b
  proof -
    obtain p q1 where p: "tsdu2spkt mem q (int (length (concat q))) True = Done (p, 2, q1)" "concat q1 = ?b1" "s_errno p = SC_ACCEPT"
      "s_code p = s_code (lead_spkt code)" "\<And>s. \<not> keeps_cat0 p s"
      using tsdu2spkt_lead [OF q(1), of "int (length (concat q))" mem] q(1) by fastforce
    obtain r where r: "concat q1 = code # r" using p(2) by (simp add: spdu_def)
    obtain u q2 where u: "tsdu2spkt mem q1 (int (length ?b1)) True = Done (u, int (length ?b1), q2)" "s_errno u = SC_ACCEPT" "s_code u = code"
      "s_mask u = s_mask s" "spdu_case u = spdu_case s"
      using spdu_travels(2) [OF assms(5,6,1) c, of q1 "[]" "int (length ?b1)"] p(2) cat assms(11) by auto
    have n1: "next_spkt mem q (int (length (concat q))) True False = Inl (p, q1, int (length ?b1))"
      using p(1,3) q(1) by (simp add: next_spkt_def)
    have n2: "next_spkt mem q1 (int (length ?b1)) False False = Inl (u, q2, 0)"
      using u(1,2) tsdu2spkt_category [OF r ng assms(9,10)] by (simp add: next_spkt_def)
    have b1: "\<not> int (length ?b1) \<le> 0" by (simp add: spdu_def)
    have l: "s_code p = SPDU_GT \<or> s_code p = SPDU_PT" using p(4) by (auto simp: lead_spkt_def newspkt_def Set_def)
    have "concatenated mem tw b p q1 (int (length ?b1)) False = (Got (plain_spkt u), b, [])"
      using n2 p(4,5) u(3) ng assms(8) q(2) by (simp add: concatenated_def Let_def)
    with n1 b1 l have "tsdu2sb mem tw b False q = (Got (plain_spkt u), b, [])" by (auto simp: tsdu2sb_def CAT0_def)
    with u(3-5) show ?thesis by blast
  qed
  with w show ?thesis by blast
qed

section \<open>The fields of a packet\<close>

lemma decimal_inj: "decimal m = decimal n \<longleftrightarrow> m = n"
  using decimal_value by metis

lemma Put_SSN_inj: "m \<le> 999999 \<Longrightarrow> n \<le> 999999 \<Longrightarrow> Put_SSN c m @ xs = Put_SSN c n @ ys \<longleftrightarrow> m = n \<and> xs = ys"
  by (auto simp: Put_SSN_def SERIAL_MAX_def decimal_inj)

lemma Put_SSN_same: "n \<le> 999999 \<Longrightarrow> Put_SSN c m @ xs = Put_SSN c n @ ys \<Longrightarrow> m = n \<and> xs = ys"
  by (auto simp: Put_SSN_def SERIAL_MAX_def decimal_inj split: if_splits)

lemma Put_UData_inj: "Put_UData u = Put_UData s \<longleftrightarrow> s_udata u = s_udata s"
  by (simp add: Put_UData_def split: option.splits)

lemma MAP_fields:
  assumes "s_code u = SPDU_MAP" "s_code s = SPDU_MAP" "s_mask u = s_mask s" "spdu_case u = spdu_case s" "{0, 1} \<subseteq> s_mask s"
    "13 \<notin> s_mask s" "s_serial s \<le> 999999"
  shows "s_sync u = s_sync s \<and> s_serial u = s_serial s \<and> s_udata u = s_udata s"
proof -
  have "params_MAP u = params_MAP s" using assms(1,2,4) by (simp add: spdu_case_def)
  then have "s_sync u = s_sync s \<and> Put_SSN 42 (s_serial u) @ Put_UData u = Put_SSN 42 (s_serial s) @ Put_UData s"
    using assms(3,5,6) by (auto simp: params_MAP_def If_Set_def Put_Enclose_def)
  with Put_SSN_same [OF assms(7)] Put_UData_inj show ?thesis by blast
qed

lemma MAA_fields:
  assumes "s_code u = SPDU_MAA" "s_code s = SPDU_MAA" "s_mask u = s_mask s" "spdu_case u = spdu_case s" "0 \<in> s_mask s"
    "13 \<notin> s_mask s" "s_serial s \<le> 999999"
  shows "s_serial u = s_serial s \<and> s_udata u = s_udata s"
proof -
  have "params_MAA u = params_MAA s" using assms(1,2,4) by (simp add: spdu_case_def)
  then have "Put_SSN 42 (s_serial u) @ Put_UData u = Put_SSN 42 (s_serial s) @ Put_UData s"
    using assms(3,5,6) by (auto simp: params_MAA_def If_Set_def Put_Enclose_def)
  with Put_SSN_same [OF assms(7)] Put_UData_inj show ?thesis by blast
qed

definition opt_data :: "byte list \<Rightarrow> byte list option" where
  "opt_data d = (if d = [] then None else Some d)"

text \<open>A major synchronization point, and its confirmation.\<close>

definition map_packet :: "int \<Rightarrow> byte list \<Rightarrow> ssapkt" where
  "map_packet n d = add_udata d (Set SMASK_MAP_SERIAL (Set SMASK_MAP_SYNC ((newspkt SPDU_MAP)\<lparr>s_sync := 1, s_serial := nat n\<rparr>)))"

definition maa_packet :: "int \<Rightarrow> byte list \<Rightarrow> ssapkt" where
  "maa_packet n d = add_udata d (Set SMASK_MAA_SERIAL ((newspkt SPDU_MAA)\<lparr>s_serial := nat n\<rparr>))"

lemma major_packets_ok:
  assumes "0 \<le> n" "n \<le> 999999" "length d \<le> 200"
  shows "spkt_ok (map_packet n d)" "clear_of_window (map_packet n d)" "spkt_ok (maa_packet n d)" "clear_of_window (maa_packet n d)"
  using assms
  by (auto simp: map_packet_def maa_packet_def add_udata_def spkt_ok_def clear_of_window_def spdu_case_def spdu_size_def udata_size_def
    udata_ok_def enclose_ok_def newspkt_def Set_def split: if_splits)

lemma write_map:
  assumes "0 \<le> n" "n \<le> 999999"
  shows "write_fields sb SPDU_MAP 1 n 0 [] [] None = Some (Set SMASK_MAP_SERIAL (Set SMASK_MAP_SYNC ((newspkt SPDU_MAP)\<lparr>s_sync := 1, s_serial := nat n\<rparr>)))"
    "write_fields sb SPDU_MAA 0 n 0 [] [] None = Some (Set SMASK_MAA_SERIAL ((newspkt SPDU_MAA)\<lparr>s_serial := nat n\<rparr>))"
  using assms by (simp_all add: write_fields_def with_octet_def with_ssn_def int2u8_def long2u32_def Let_def)

section \<open>Reading one packet\<close>

lemma filters_quiet:
  assumes "quiet b" "sb_len b \<le> 0" "15 \<notin> s_mask s" "13 \<notin> s_mask s" "s_code s \<noteq> SPDU_PR" "s_code s \<noteq> SPDU_EX"
    "length (octs (s_udata s)) \<le> 512" "\<And>u. units (s_code s) = Some u \<Longrightarrow> requires b u"
  shows "filters all_filters b s = Pass b"
  using assms quiet_filters [OF assms(1)]
  by (auto simp: all_filters_def segment_filter_def size_filter_def unit_filter_def split: option.splits)

lemma read_packet:
  assumes "quiet b" "tsdu2sb mem tw b False q = (Got (plain_spkt u), b, [])" "filters all_filters b u = Pass b"
    "dispatch mem tw b (plain_spkt u) = Ind i b' out"
  shows "SReadRequestAux mem tw False b (Arrive False q # rest) = \<lparr>ro_res = R_IND i, ro_sb = Some b', ro_out = out, ro_rx = rest\<rparr>"
proof -
  have "take_buffered b = None" using assms(1) by (simp add: quiet_def take_buffered_def)
  then have "sb2spkt mem tw b (Arrive False q # rest) = (Got (plain_spkt u), b, [], rest)" using assms(2) by (simp add: sb2spkt_def)
  moreover have "body mem tw b (plain_spkt u) = Ind i b' out" using assms(3,4) by (simp add: body_def plain_spkt_def)
  ultimately show ?thesis by (simp add: SReadRequestAux.simps)
qed

section \<open>Major synchronization\<close>

text \<open>The sides of a connection without expedited service, between two requests.\<close>

definition idle :: "ssapblk \<Rightarrow> bool" where
  "idle sb \<longleftrightarrow> quiet sb \<and> sb_len sb = 0 \<and> ssapPsig sb = None \<and> sb_flags sb \<inter> {SB_EXPD, SB_MAA, SB_AE} = {}
     \<and> (requires sb SR_ACTIVITY \<longrightarrow> SB_Vact \<in> sb_flags sb)"

lemma Psig_flags: "ssapPsig sb = None \<longleftrightarrow> SB_CONN \<in> sb_flags sb
    \<and> sb_flags sb \<inter> {SB_FINN, SB_RELEASE, SB_MAP, SB_RS, SB_RA, SB_AI, SB_AIA, SB_ED, SB_EDACK, SB_ERACK} = {}"
  by (auto simp: ssapPsig_def flags_clear_def)

definition map_sent :: "ssapblk \<Rightarrow> ssapblk" where
  "map_sent sb = next_point (if requires sb SR_ACTIVITY then set_flags {SB_Vnextact} {} (set_flags {SB_MAP} {} sb) else set_flags {SB_MAP} {} sb)"

lemma requires_or: "requires sb (u OR v) \<longleftrightarrow> requires sb u \<or> requires sb v"
  by (simp add: requires_def bit.conj_disj_distrib or_eq_0_iff)

lemma requires_major: "requires sb SR_MAJ_EXISTS \<longleftrightarrow> requires sb SR_MAJORSYNC \<or> requires sb SR_ACTIVITY"
  using requires_or [of sb SR_MAJORSYNC SR_ACTIVITY] by simp

lemma major_request:
  assumes "\<forall>n. mem n" "\<forall>t. tw t = None" "idle a" "SDoActivityAux a False False" "0 \<le> sb_V_M a" "sb_V_M a \<le> 999999" "length d \<le> 200"
  shows "\<exists>bs. SMajSyncRequest mem tw a d = \<lparr>rp_res = S_OK, rp_sb = Some (map_sent a), rp_out = [Normal bs], rp_ssn = Some (sb_V_M a)\<rparr>
    \<and> (\<forall>q b. concat q = bs \<and> sb_spdu b = None \<longrightarrow> (\<exists>u. tsdu2sb mem tw b False q = (Got (plain_spkt u), b, []) \<and> s_code u = SPDU_MAP
        \<and> s_mask u = s_mask (map_packet (sb_V_M a) d) \<and> s_sync u = 1 \<and> s_serial u = nat (sb_V_M a) \<and> s_udata u = opt_data d))"
proof -
  let ?s = "map_packet (sb_V_M a) d"
  have f: "s_code ?s = SPDU_MAP" "{0, 1} \<subseteq> s_mask ?s" "13 \<notin> s_mask ?s" "s_serial ?s \<le> 999999" "s_sync ?s = 1"
    "s_serial ?s = nat (sb_V_M a)" "s_udata ?s = opt_data d"
    using assms(6) by (auto simp: map_packet_def add_udata_def newspkt_def Set_def opt_data_def)
  have i: "SB_EXPD \<notin> sb_flags a" "SB_MAA \<notin> sb_flags a" "ssapPsig a = None" "requires a SR_ACTIVITY \<longrightarrow> SB_Vact \<in> sb_flags a"
    using assms(3) by (auto simp: idle_def)
  obtain bs where bs: "SWriteRequestAux mem tw a SPDU_MAP d 1 (sb_V_M a) 0 [] [] None = (S_OK, [Normal bs])"
    "\<And>q b. concat q = bs \<Longrightarrow> sb_spdu b = None \<Longrightarrow> \<exists>u. tsdu2sb mem tw b False q = (Got (plain_spkt u), b, []) \<and> s_code u = SPDU_MAP
       \<and> s_mask u = s_mask ?s \<and> spdu_case u = spdu_case ?s"
    using written_travels [OF assms(1,2) write_map(1) [OF assms(5,6)] map_packet_def major_packets_ok(1,2) [OF assms(5-7)] i(1)] f(1)
    by (auto simp: lead_spkt_def CAT2_def newspkt_def Set_def)
  have "SMajSyncRequest mem tw a d = \<lparr>rp_res = S_OK, rp_sb = Some (map_sent a), rp_out = [Normal bs], rp_ssn = Some (sb_V_M a)\<rparr>"
    using bs(1) i(2-4) assms(4,7) by (auto simp: SMajSyncRequest_def guarded_def toomuchP_def SMajSyncRequestAux_def Let_def settle_def map_sent_def)
  with bs(2) MAP_fields [OF _ f(1) _ _ f(2-4)] f(5-7) show ?thesis by metis
qed

definition map_received :: "ssapblk \<Rightarrow> ssapblk" where
  "map_received sb = set_flags (if requires sb SR_ACTIVITY then {SB_Vnextact, SB_MAA} else {SB_MAA}) {} (their_point {} sb)"

lemma major_indication:
  assumes "idle b" "tsdu2sb mem tw b False q = (Got (plain_spkt u), b, [])" "s_code u = SPDU_MAP" "s_mask u = s_mask (map_packet n d)"
    "s_sync u = 1" "s_serial u = nat n" "s_udata u = opt_data d" "length d \<le> 200" "0 \<le> n" "sb_V_M b = n" "requires b SR_MAJ_EXISTS"
  shows "SReadRequestAux mem tw False b (Arrive False q # rest) =
    \<lparr>ro_res = R_IND (SI_SYNC ((null_sync SN_MAJORIND)\<lparr>sn_ssn := n, sn_data := opt_data d\<rparr>)), ro_sb = Some (map_received b), ro_out = [], ro_rx = rest\<rparr>"
proof (rule read_packet [OF _ assms(2)])
  have m: "15 \<notin> s_mask u" "13 \<notin> s_mask u" "0 \<in> s_mask u" using assms(4) by (auto simp: map_packet_def add_udata_def newspkt_def Set_def)
  show q: "quiet b" using assms(1) by (simp add: idle_def)
  show "filters all_filters b u = Pass b"
    by (rule filters_quiet [OF q _ m(1,2)]) (use assms in \<open>auto simp: idle_def units_def opt_data_def octs_def\<close>)
  have "sb_flags b \<inter> {SB_ED, SB_ERACK} = {}" using q by (auto simp: quiet_def)
  then show "dispatch mem tw b (plain_spkt u) = Ind (SI_SYNC ((null_sync SN_MAJORIND)\<lparr>sn_ssn := n, sn_data := opt_data d\<rparr>)) (map_received b) []"
    using assms(3,5-7,9,10) m(3) by (simp add: dispatch_def plain_spkt_def on_MAP_def map_received_def Let_def)
qed

definition maa_sent :: "ssapblk \<Rightarrow> ssapblk" where
  "maa_sent sb = set_flags {} {SB_MAA, SB_AE} (major_done sb)"

lemma major_response:
  assumes "\<forall>n. mem n" "\<forall>t. tw t = None" "ssapPsig b = None" "SB_EXPD \<notin> sb_flags b" "SB_MAA \<in> sb_flags b" "requires b SR_MAJ_EXISTS"
    "1 \<le> sb_V_M b" "sb_V_M b \<le> 1000000" "length d \<le> 200"
  shows "\<exists>bs. SMajSyncResponse mem tw b d = \<lparr>rp_res = S_OK, rp_sb = Some (maa_sent b), rp_out = [Normal bs], rp_ssn = None\<rparr>
    \<and> (\<forall>q b'. concat q = bs \<and> sb_spdu b' = None \<longrightarrow> (\<exists>u. tsdu2sb mem tw b' False q = (Got (plain_spkt u), b', []) \<and> s_code u = SPDU_MAA
        \<and> s_mask u = s_mask (maa_packet (sb_V_M b - 1) d) \<and> s_serial u = nat (sb_V_M b - 1) \<and> s_udata u = opt_data d))"
proof -
  let ?n = "sb_V_M b - 1" let ?s = "maa_packet ?n d"
  have n: "0 \<le> ?n" "?n \<le> 999999" using assms(7,8) by simp_all
  have f: "s_code ?s = SPDU_MAA" "0 \<in> s_mask ?s" "13 \<notin> s_mask ?s" "s_serial ?s \<le> 999999" "s_serial ?s = nat ?n" "s_udata ?s = opt_data d"
    using n(2) by (auto simp: maa_packet_def add_udata_def newspkt_def Set_def opt_data_def)
  have u: "requires b SR_MAJORSYNC \<or> requires b SR_ACTIVITY"
    using assms(6) requires_major by blast
  obtain bs where bs: "SWriteRequestAux mem tw b SPDU_MAA d 0 ?n 0 [] [] None = (S_OK, [Normal bs])"
    "\<And>q b'. concat q = bs \<Longrightarrow> sb_spdu b' = None \<Longrightarrow> \<exists>u. tsdu2sb mem tw b' False q = (Got (plain_spkt u), b', []) \<and> s_code u = SPDU_MAA
       \<and> s_mask u = s_mask ?s \<and> spdu_case u = spdu_case ?s"
    using written_travels [OF assms(1,2) write_map(2) [OF n] maa_packet_def major_packets_ok(3,4) [OF n assms(9)] assms(4)] f(1)
    by (auto simp: lead_spkt_def CAT2_def newspkt_def Set_def)
  have "SMajSyncResponse mem tw b d = \<lparr>rp_res = S_OK, rp_sb = Some (maa_sent b), rp_out = [Normal bs], rp_ssn = None\<rparr>"
    using bs(1) u assms(3,5,9) by (auto simp: SMajSyncResponse_def guarded_def toomuchP_def SMajSyncResponseAux_def settle_def maa_sent_def)
  with bs(2) MAA_fields [OF _ f(1) _ _ f(2-4)] f(5,6) show ?thesis by metis
qed

definition maa_received :: "ssapblk \<Rightarrow> ssapblk" where
  "maa_received sb = set_flags {} {SB_MAP} (major_done sb)"

lemma major_confirmation:
  assumes "quiet a" "sb_len a = 0" "SB_AE \<notin> sb_flags a" "tsdu2sb mem tw a False q = (Got (plain_spkt u), a, [])" "s_code u = SPDU_MAA"
    "s_mask u = s_mask (maa_packet n d)" "s_serial u = nat n" "s_udata u = opt_data d" "length d \<le> 200" "0 \<le> n" "n \<le> 999999"
    "sb_V_M a = n + 1" "requires a SR_MAJ_EXISTS"
  shows "SReadRequestAux mem tw False a (Arrive False q # rest) =
    \<lparr>ro_res = R_IND (SI_SYNC ((null_sync SN_MAJORCNF)\<lparr>sn_ssn := n, sn_data := opt_data d\<rparr>)), ro_sb = Some (maa_received a), ro_out = [], ro_rx = rest\<rparr>"
proof (rule read_packet [OF assms(1,4)])
  have m: "15 \<notin> s_mask u" "13 \<notin> s_mask u" using assms(6) by (auto simp: maa_packet_def add_udata_def newspkt_def Set_def)
  show "filters all_filters a u = Pass a"
    by (rule filters_quiet [OF assms(1) _ m]) (use assms in \<open>auto simp: units_def opt_data_def octs_def\<close>)
  have "u32_succ (nat n) = n + 1" using assms(10,11) by (simp add: u32_succ_def)
  then show "dispatch mem tw a (plain_spkt u) = Ind (SI_SYNC ((null_sync SN_MAJORCNF)\<lparr>sn_ssn := n, sn_data := opt_data d\<rparr>)) (maa_received a) []"
    using assms(3,5,7,8,10,12) by (simp add: dispatch_def plain_spkt_def on_MAA_def maa_received_def Let_def)
qed

text \<open>The blocks between the steps.\<close>

lemma map_sent_block:
  assumes "idle a"
  shows "quiet (map_sent a)" "sb_len (map_sent a) = 0" "SB_AE \<notin> sb_flags (map_sent a)" "sb_V_M (map_sent a) = sb_V_M a + 1"
    "requires (map_sent a) = requires a" "sb_spdu (map_sent a) = None"
  using assms by (auto simp: idle_def map_sent_def next_point_def set_flags_def Let_def quiet_def requires_def fun_eq_iff)

lemma map_received_block:
  assumes "idle b"
  shows "ssapPsig (map_received b) = None" "SB_EXPD \<notin> sb_flags (map_received b)" "SB_MAA \<in> sb_flags (map_received b)"
    "sb_V_M (map_received b) = sb_V_M b + 1" "requires (map_received b) = requires b"
  using assms by (auto simp: idle_def map_received_def their_point_def set_flags_def Let_def Psig_flags requires_def fun_eq_iff)

lemma major_done_points [simp]:
  "sb_V_A (major_done sb) = sb_V_M sb" "sb_V_M (major_done sb) = sb_V_M sb" "sb_V_R (major_done sb) = sb_V_M sb"
  by (simp_all add: major_done_def set_flags_def Let_def)

lemma set_flags_points [simp]:
  "sb_V_A (set_flags x y sb) = sb_V_A sb" "sb_V_M (set_flags x y sb) = sb_V_M sb" "sb_V_R (set_flags x y sb) = sb_V_R sb"
  "sb_flags (set_flags x y sb) = sb_flags sb - y \<union> x"
  by (simp_all add: set_flags_def)

text \<open>
  C9: A major synchronization completes. When both sides are idle at the same serial number and the
  requestor holds the tokens, the four steps follow from each other: the request is accepted and sent; the
  peer, reading what was sent in any buffers, indicates a major synchronization with that serial number and
  the user data; its response is accepted and sent; and the requestor, reading it, gets the confirmation
  with the serial number and the data of the response. Both sides then agree that everything before the
  next serial number is confirmed and out of reach of a resynchronization, and neither waits for the other.
\<close>

theorem major_sync_completes:
  assumes "\<forall>n. mem n" "\<forall>t. tw t = None" "idle a" "idle b" "SDoActivityAux a False False" "requires b = requires a"
    "sb_V_M a = n" "sb_V_M b = n" "0 \<le> n" "n \<le> 999999" "length d \<le> 200" "length e \<le> 200"
  shows "\<exists>bs bs' a1 b1 a2 b2.
      SMajSyncRequest mem tw a d = \<lparr>rp_res = S_OK, rp_sb = Some a1, rp_out = [Normal bs], rp_ssn = Some n\<rparr>
    \<and> (\<forall>q rest. concat q = bs \<longrightarrow> SReadRequestAux mem tw False b (Arrive False q # rest) =
        \<lparr>ro_res = R_IND (SI_SYNC ((null_sync SN_MAJORIND)\<lparr>sn_ssn := n, sn_data := opt_data d\<rparr>)), ro_sb = Some b1, ro_out = [], ro_rx = rest\<rparr>)
    \<and> SMajSyncResponse mem tw b1 e = \<lparr>rp_res = S_OK, rp_sb = Some b2, rp_out = [Normal bs'], rp_ssn = None\<rparr>
    \<and> (\<forall>q rest. concat q = bs' \<longrightarrow> SReadRequestAux mem tw False a1 (Arrive False q # rest) =
        \<lparr>ro_res = R_IND (SI_SYNC ((null_sync SN_MAJORCNF)\<lparr>sn_ssn := n, sn_data := opt_data e\<rparr>)), ro_sb = Some a2, ro_out = [], ro_rx = rest\<rparr>)
    \<and> (\<forall>sb \<in> {a2, b2}. sb_V_A sb = n + 1 \<and> sb_V_M sb = n + 1 \<and> sb_V_R sb = n + 1) \<and> SB_MAP \<notin> sb_flags a2 \<and> SB_MAA \<notin> sb_flags b2"
proof -
  have r: "requires a SR_MAJ_EXISTS" using assms(5) by (simp add: SDoActivityAux_def)
  have sp: "sb_spdu b = None" using assms(4) by (simp add: idle_def quiet_def)
  note ms = map_sent_block [OF assms(3)] and mr = map_received_block [OF assms(4)]
  obtain bs where bs: "SMajSyncRequest mem tw a d = \<lparr>rp_res = S_OK, rp_sb = Some (map_sent a), rp_out = [Normal bs], rp_ssn = Some n\<rparr>"
    "\<And>q. concat q = bs \<Longrightarrow> \<exists>u. tsdu2sb mem tw b False q = (Got (plain_spkt u), b, []) \<and> s_code u = SPDU_MAP
        \<and> s_mask u = s_mask (map_packet n d) \<and> s_sync u = 1 \<and> s_serial u = nat n \<and> s_udata u = opt_data d"
    using major_request [OF assms(1-3,5)] assms(7,9-11) sp by metis
  obtain bs' where bs': "SMajSyncResponse mem tw (map_received b) e =
      \<lparr>rp_res = S_OK, rp_sb = Some (maa_sent (map_received b)), rp_out = [Normal bs'], rp_ssn = None\<rparr>"
    "\<And>q. concat q = bs' \<Longrightarrow> \<exists>u. tsdu2sb mem tw (map_sent a) False q = (Got (plain_spkt u), map_sent a, []) \<and> s_code u = SPDU_MAA
        \<and> s_mask u = s_mask (maa_packet n e) \<and> s_serial u = nat n \<and> s_udata u = opt_data e"
    using major_response [OF assms(1,2) mr(1-3), of e] mr(4,5) ms(6) assms(6,8-10,12) r by auto
  have "SReadRequestAux mem tw False b (Arrive False q # rest) =
      \<lparr>ro_res = R_IND (SI_SYNC ((null_sync SN_MAJORIND)\<lparr>sn_ssn := n, sn_data := opt_data d\<rparr>)), ro_sb = Some (map_received b), ro_out = [], ro_rx = rest\<rparr>"
    if "concat q = bs" for q rest
    using bs(2) [OF that] major_indication [OF assms(4)] assms(6,8,9,11) r by metis
  moreover have "SReadRequestAux mem tw False (map_sent a) (Arrive False q # rest) =
      \<lparr>ro_res = R_IND (SI_SYNC ((null_sync SN_MAJORCNF)\<lparr>sn_ssn := n, sn_data := opt_data e\<rparr>)), ro_sb = Some (maa_received (map_sent a)), ro_out = [], ro_rx = rest\<rparr>"
    if "concat q = bs'" for q rest
    using bs'(2) [OF that] major_confirmation [OF ms(1-3)] ms(4,5) assms(7,9,10,12) r by metis
  moreover have "sb_V_A sb = n + 1 \<and> sb_V_M sb = n + 1 \<and> sb_V_R sb = n + 1" if "sb \<in> {maa_received (map_sent a), maa_sent (map_received b)}" for sb
    using that ms(4) mr(4) assms(7,8) by (auto simp: maa_received_def maa_sent_def)
  moreover have "SB_MAP \<notin> sb_flags (maa_received (map_sent a))" "SB_MAA \<notin> sb_flags (maa_sent (map_received b))"
    by (simp_all add: maa_received_def maa_sent_def)
  ultimately show ?thesis using bs(1) bs'(1) by blast
qed

definition major_a :: ssapblk where
  "major_a = newsblk\<lparr>sb_flags := {SB_CONN, SB_INIT}, sb_V_A := 4, sb_V_M := 7, sb_owned := 0x10, sb_requirements := SR_MAJORSYNC\<rparr>"

definition major_b :: ssapblk where
  "major_b = newsblk\<lparr>sb_flags := {SB_CONN}, sb_V_A := 4, sb_V_M := 7, sb_requirements := SR_MAJORSYNC\<rparr>"

theorem major_sync_completes_witness:
  "\<exists>bs bs' a1 b1 a2 b2.
      SMajSyncRequest (\<lambda>_. True) (\<lambda>_. None) major_a [1, 2] = \<lparr>rp_res = S_OK, rp_sb = Some a1, rp_out = [Normal bs], rp_ssn = Some 7\<rparr>
    \<and> (\<forall>q rest. concat q = bs \<longrightarrow> SReadRequestAux (\<lambda>_. True) (\<lambda>_. None) False major_b (Arrive False q # rest) =
        \<lparr>ro_res = R_IND (SI_SYNC ((null_sync SN_MAJORIND)\<lparr>sn_ssn := 7, sn_data := opt_data [1, 2]\<rparr>)), ro_sb = Some b1, ro_out = [], ro_rx = rest\<rparr>)
    \<and> SMajSyncResponse (\<lambda>_. True) (\<lambda>_. None) b1 [] = \<lparr>rp_res = S_OK, rp_sb = Some b2, rp_out = [Normal bs'], rp_ssn = None\<rparr>
    \<and> (\<forall>q rest. concat q = bs' \<longrightarrow> SReadRequestAux (\<lambda>_. True) (\<lambda>_. None) False a1 (Arrive False q # rest) =
        \<lparr>ro_res = R_IND (SI_SYNC ((null_sync SN_MAJORCNF)\<lparr>sn_ssn := 7, sn_data := opt_data []\<rparr>)), ro_sb = Some a2, ro_out = [], ro_rx = rest\<rparr>)
    \<and> (\<forall>sb \<in> {a2, b2}. sb_V_A sb = 7 + 1 \<and> sb_V_M sb = 7 + 1 \<and> sb_V_R sb = 7 + 1) \<and> SB_MAP \<notin> sb_flags a2 \<and> SB_MAA \<notin> sb_flags b2"
  by (rule major_sync_completes)
    (simp_all add: major_a_def major_b_def newsblk_def idle_def quiet_def Psig_flags SDoActivityAux_def requires_def owns_def
      bit_numeral_rec fun_eq_iff)

end
