(* ===== verification/Spm_Cases.thy ===== *)
theory Spm_Cases
  imports Spm_Sync
begin

text \<open>
  Single decisions of the session protocol machine: colliding resynchronizations, and the places where what
  it does is not what the two sides need.
\<close>

section \<open>Collisions\<close>

lemma collide_sym:
  assumes "x \<in> {SYNC_RESTART, SYNC_ABANDON, SYNC_SET, SYNC_INTR, SYNC_DISC}" "y \<in> {SYNC_RESTART, SYNC_ABANDON, SYNC_SET, SYNC_INTR, SYNC_DISC}"
    "\<not> (x = y \<and> y \<in> {SYNC_INTR, SYNC_DISC})"
  shows "SDoCollideAux True x m y n \<longleftrightarrow> \<not> SDoCollideAux False y n x m"
  using assms by (auto simp: SDoCollideAux_def)

text \<open>
  C17: Colliding resynchronizations are decided the same way on both sides. When each side has asked for a
  resynchronization and then reads the request of the other, exactly one of them discards what it reads and
  the other goes on with it.
\<close>

theorem resync_collision_decided:
  assumes "SB_RS \<in> sb_flags a" "SB_RS \<in> sb_flags b" "SB_INIT \<in> sb_flags a" "SB_INIT \<notin> sb_flags b"
    "s_code pa = SPDU_RS" "uint (s_rs_type pa) = sb_rs a" "int (s_serial pa) = sb_rsn a" "s_rs_type pa \<le> 2"
    "s_code pb = SPDU_RS" "uint (s_rs_type pb) = sb_rs b" "int (s_serial pb) = sb_rsn b" "s_rs_type pb \<le> 2"
  shows "collide_filter a pb = Discard a \<and> collide_filter b pa = Pass b \<or> collide_filter a pb = Pass a \<and> collide_filter b pa = Discard b"
proof -
  have t: "sb_rs a \<in> {0, 1, 2}" "sb_rs b \<in> {0, 1, 2}"
    using assms(6,8,10,12) by (auto simp: word_le_def) (smt (verit) uint_nonnegative)+
  have "SDoCollideAux True (sb_rs a) (sb_rsn a) (sb_rs b) (sb_rsn b) \<longleftrightarrow> \<not> SDoCollideAux False (sb_rs b) (sb_rsn b) (sb_rs a) (sb_rsn a)"
    using t by (intro collide_sym) auto
  then show ?thesis using assms by (auto simp: collide_filter_def Let_def)
qed

definition resync_packet :: "byte \<Rightarrow> nat \<Rightarrow> ssapkt" where
  "resync_packet t n = Set SMASK_RS_SSN (Set SMASK_RS_TYPE ((newspkt SPDU_RS)\<lparr>s_rs_type := t, s_serial := n\<rparr>))"

theorem resync_collision_decided_witness:
  "collide_filter (newsblk\<lparr>sb_flags := {SB_CONN, SB_INIT, SB_RS}, sb_rs := 2, sb_rsn := 7\<rparr>) (resync_packet 0 3) =
     Discard (newsblk\<lparr>sb_flags := {SB_CONN, SB_INIT, SB_RS}, sb_rs := 2, sb_rsn := 7\<rparr>)
   \<and> collide_filter (newsblk\<lparr>sb_flags := {SB_CONN, SB_RS}, sb_rs := 0, sb_rsn := 3\<rparr>) (resync_packet 2 7) =
     Pass (newsblk\<lparr>sb_flags := {SB_CONN, SB_RS}, sb_rs := 0, sb_rsn := 3\<rparr>)"
  using resync_collision_decided [of "newsblk\<lparr>sb_flags := {SB_CONN, SB_INIT, SB_RS}, sb_rs := 2, sb_rsn := 7\<rparr>"
      "newsblk\<lparr>sb_flags := {SB_CONN, SB_RS}, sb_rs := 0, sb_rsn := 3\<rparr>" "resync_packet 2 7" "resync_packet 0 3"]
  by (auto simp: resync_packet_def newspkt_def Set_def newsblk_def collide_filter_def SDoCollideAux_def)

section \<open>Minor synchronization points\<close>

definition responder_example :: ssapblk where
  "responder_example = newsblk\<lparr>sb_flags := {SB_CONN, SB_Vsc}, sb_V_A := 3, sb_V_M := 5, sb_requirements := SR_MINORSYNC\<rparr>"

lemma mia_written:
  assumes "n \<le> 9"
  shows "fst (SWriteRequestAux (\<lambda>_. True) (\<lambda>_. None) responder_example SPDU_MIA [] 0 (int n) 0 [] [] None) = S_OK"
proof -
  let ?s = "add_udata [] (Set SMASK_MIA_SERIAL ((newspkt SPDU_MIA)\<lparr>s_serial := n\<rparr>))"
  have w: "write_fields responder_example SPDU_MIA 0 (int n) 0 [] [] None = Some (Set SMASK_MIA_SERIAL ((newspkt SPDU_MIA)\<lparr>s_serial := n\<rparr>))"
    using assms by (simp add: write_fields_def with_ssn_def long2u32_def)
  have d: "decimal n = [word_of_nat (48 + n)]" using assms by (subst decimal.simps) simp
  have "spdu_case ?s = Some (11, [PI 42 [word_of_nat (48 + n)]])"
    using assms by (simp add: d spdu_case_def params_MIA_def Put_SSN_def SERIAL_MAX_def Put_Enclose_def Put_MData_def If_Set_def add_udata_def newspkt_def Set_def)
  moreover have "plain [PI 42 [word_of_nat (48 + n)]]" "length (render [PI 42 [word_of_nat (48 + n)]]) \<le> 252"
    by (simp_all del: of_nat_add add: li_octets_def)
  ultimately have y: "spkt2tsdu (\<lambda>_. True) ?s = (Done (spdu (s_code ?s) (render [PI 42 [word_of_nat (48 + n)]])),
      ?s\<lparr>s_errno := SC_ACCEPT, s_li := int (length (render [PI 42 [word_of_nat (48 + n)]]))\<rparr>)"
    by (rule spkt2tsdu_short) simp
  have "\<exists>x. spkt2tsdu (\<lambda>_. True) (lead_spkt SPDU_MIA) = (Done [s_code (lead_spkt SPDU_MIA), 0], x)" by (rule lead_spkt_octets) simp
  then obtain z where z: "spkt2tsdu (\<lambda>_. True) (lead_spkt SPDU_MIA) = (Done [s_code (lead_spkt SPDU_MIA), 0], z)" ..
  show ?thesis unfolding SWriteRequestAux_def Let_def w option.map write_two_def z
    by (simp add: y hand_over_def responder_example_def)
qed

text \<open>
  A confirmation of a minor synchronization point does not confirm it. The responder goes on to the serial
  number behind the one it confirms, but the requestor, who reads the confirmation, only up to the number
  itself: the same confirmation read once more is indicated once more.
\<close>

theorem minor_confirmed_twice:
  assumes "SB_Vsc \<notin> sb_flags a" "sb_V_A a \<le> int (s_serial u)" "int (s_serial u) < sb_V_M a" "s_code u = SPDU_MIA"
    "rp_sb (SMinSyncResponseAux mem tw b (int (s_serial u)) d) = Some b'" "rp_res (SMinSyncResponseAux mem tw b (int (s_serial u)) d) = S_OK"
  shows "\<exists>i a'. on_MIA a u = Ind i a' [] \<and> on_MIA a' u = Ind i a' [] \<and> sb_V_A a' = int (s_serial u) \<and> sb_V_A b' = int (s_serial u) + 1"
proof -
  have "sb_V_A b' = int (s_serial u) + 1"
    using assms(5,6) by (auto simp: SMinSyncResponseAux_def refuse_def settle_def split: if_splits)
  with assms(1-3) show ?thesis by (simp add: on_MIA_def)
qed

theorem minor_confirmed_twice_witness:
  "\<exists>i a'. on_MIA (newsblk\<lparr>sb_V_A := 3, sb_V_M := 5\<rparr>) ((newspkt SPDU_MIA)\<lparr>s_serial := 4\<rparr>) = Ind i a' []
    \<and> on_MIA a' ((newspkt SPDU_MIA)\<lparr>s_serial := 4\<rparr>) = Ind i a' [] \<and> sb_V_A a' = int 4
    \<and> sb_V_A (the (rp_sb (SMinSyncResponseAux (\<lambda>_. True) (\<lambda>_. None) responder_example (int 4) []))) = int 4 + 1"
proof -
  let ?u = "(newspkt SPDU_MIA)\<lparr>s_serial := 4\<rparr>"
  have w: "fst (SWriteRequestAux (\<lambda>_. True) (\<lambda>_. None) responder_example SPDU_MIA [] 0 4 0 [] [] None) = S_OK"
    using mia_written [of 4] by simp
  have r: "rp_res (SMinSyncResponseAux (\<lambda>_. True) (\<lambda>_. None) responder_example 4 []) = S_OK"
    "\<exists>b'. rp_sb (SMinSyncResponseAux (\<lambda>_. True) (\<lambda>_. None) responder_example 4 []) = Some b'"
    using w by (simp_all add: SMinSyncResponseAux_def settle_def responder_example_def requires_def)
  then obtain b' where b: "rp_sb (SMinSyncResponseAux (\<lambda>_. True) (\<lambda>_. None) responder_example 4 []) = Some b'" by blast
  from minor_confirmed_twice [of "newsblk\<lparr>sb_V_A := 3, sb_V_M := 5\<rparr>" ?u "\<lambda>_. True" "\<lambda>_. None" responder_example "[]" b'] r(1) b
  show ?thesis by (simp add: newsblk_def newspkt_def)
qed

text \<open>
  A response to a minor synchronization is not bounded by the points that were set. A serial number that
  the peer has not reached is accepted, and the responder's V(A) then lies beyond its V(M).
\<close>

theorem minor_response_beyond:
  assumes "requires b SR_MINORSYNC" "SB_Vsc \<in> sb_flags b" "ssapPsig b = None" "sb_V_A b \<le> n" "sb_V_M b \<le> n" "n \<le> 999998" "0 \<le> n" "\<not> toomuchP b d 512"
    "fst (SWriteRequestAux mem tw b SPDU_MIA d 0 n 0 [] [] None) = S_OK"
  shows "\<exists>b'. rp_sb (SMinSyncResponse mem tw b n d) = Some b' \<and> rp_res (SMinSyncResponse mem tw b n d) = S_OK \<and> sb_V_A b' > sb_V_M b'"
  using assms by (simp add: SMinSyncResponse_def serial_range_def SERIAL_MAX_def guarded_def SMinSyncResponseAux_def settle_def)

theorem minor_response_beyond_witness:
  "\<exists>b'. rp_sb (SMinSyncResponse (\<lambda>_. True) (\<lambda>_. None) responder_example 9 []) = Some b'
    \<and> rp_res (SMinSyncResponse (\<lambda>_. True) (\<lambda>_. None) responder_example 9 []) = S_OK \<and> sb_V_A b' > sb_V_M b'"
proof (rule minor_response_beyond)
  show "fst (SWriteRequestAux (\<lambda>_. True) (\<lambda>_. None) responder_example SPDU_MIA [] 0 9 0 [] [] None) = S_OK" using mia_written [of 9] by simp
qed (simp_all add: responder_example_def requires_def newsblk_def Psig_flags toomuchP_def)

section \<open>Reasons\<close>

lemma write_fields_negative:
  "r < 0 \<Longrightarrow> c \<in> {SPDU_AI, SPDU_AD, SPDU_ED} \<Longrightarrow> write_fields sb c r ssn settings aid oid ref = None"
  by (auto simp: write_fields_def with_octet_def int2u8_def)

text \<open>
  A negative reason ends the session. The check of the reason of an activity interrupt lets every
  negative number pass; the write then fails for it, and the failure frees the session block, where any
  other bad reason is refused and leaves the session as it is.
\<close>

theorem negative_reason_frees_session:
  assumes "ssapXsig sb = None" "SB_MAP \<notin> sb_flags sb" "requires sb SR_ACTIVITY" "owns sb ST_MAJ_SHIFT" "SB_Vact \<in> sb_flags sb"
    "SB_EXPD \<notin> sb_flags sb" "\<forall>n. mem n" "r < 0"
  shows "SActIntrRequest mem tw sb r = \<lparr>rp_res = S_NOTOK SC_PARAMETER, rp_sb = None, rp_out = [], rp_ssn = None\<rparr>
    \<and> SActIntrRequest mem tw sb 2 = refuse SC_PARAMETER sb"
proof -
  have "spdu_case (lead_spkt SPDU_AI) = Some (3, [])"
    by (simp add: lead_spkt_def spdu_case_def params_GT_def If_Set_def newspkt_def Set_def)
  from spkt2tsdu_short [OF this _ _ assms(7)] obtain b x where "spkt2tsdu mem (lead_spkt SPDU_AI) = (Done b, x)" by simp
  moreover have "write_fields sb SPDU_AI r 0 0 [] [] None = None" using assms(8) by (simp add: write_fields_negative)
  ultimately have "SWriteRequestAux mem tw sb SPDU_AI [] r 0 0 [] [] None = (S_NOTOK SC_PARAMETER, [])"
    using assms(6) by (simp add: SWriteRequestAux_def write_two_def Let_def)
  moreover have "SB_RA \<notin> sb_flags sb" using assms(1) by (auto simp: ssapXsig_def flags_clear_def split: if_splits)
  ultimately show ?thesis using assms(1-5,8)
    by (simp add: SActIntrRequest_def act_intr_request_def SP_OK_int_def guarded_def SActIntrRequestAux_def settle_def)
qed

definition activity_example :: ssapblk where
  "activity_example = newsblk\<lparr>sb_flags := {SB_CONN, SB_INIT, SB_Vact}, sb_owned := 0x10, sb_requirements := SR_ACTIVITY\<rparr>"

theorem negative_reason_frees_session_witness:
  "SActIntrRequest (\<lambda>_. True) (\<lambda>_. None) activity_example (-1) = \<lparr>rp_res = S_NOTOK SC_PARAMETER, rp_sb = None, rp_out = [], rp_ssn = None\<rparr>
    \<and> SActIntrRequest (\<lambda>_. True) (\<lambda>_. None) activity_example 2 = refuse SC_PARAMETER activity_example"
  by (rule negative_reason_frees_session)
    (simp_all add: activity_example_def newsblk_def ssapXsig_def flags_clear_def requires_def owns_def bit_numeral_rec)

end
