(* ===== verification/Spm_Tokens.thy ===== *)
theory Spm_Tokens
  imports Spm_System
begin

text \<open>
  The tokens of a session between two machines: in a session without activities and resynchronization, no
  token is ever with both sides, or with one of them and on its way, or twice on its way.
\<close>

section \<open>What a unit carries\<close>

fun carried :: "byte list \<Rightarrow> byte" where
  "carried [a, b, c, d, w] = (if [a, b, c, d] = [SPDU_GT, 3, 16, 1] then w else 0)"
| "carried bs = 0"

text \<open>The units that go over the wire in such a session, by their first octets.\<close>

definition fine :: "byte list \<Rightarrow> bool" where
  "fine bs \<longleftrightarrow> (\<exists>w. bs = [SPDU_GT, 3, 16, 1, w]) \<or> (\<exists>us beg fin d. bs = unit_octets SPDU_GT us beg fin d)
     \<or> (\<exists>c r. bs = SPDU_GT # 0 # c # r \<and> c \<noteq> SPDU_GT) \<or> (\<exists>c r. bs = c # r \<and> c \<noteq> SPDU_GT \<and> c \<noteq> SPDU_GTC)"

definition plain_unit :: "byte list \<Rightarrow> bool" where
  "plain_unit bs \<longleftrightarrow> fine bs \<and> carried bs = 0"

lemma plain_unitI:
  "c \<noteq> SPDU_GT \<Longrightarrow> c \<noteq> SPDU_GTC \<Longrightarrow> plain_unit (c # r)"
  "c \<noteq> SPDU_GT \<Longrightarrow> plain_unit (SPDU_GT # 0 # c # r)"
  "plain_unit (unit_octets SPDU_GT us beg fin d)"
proof -
  show "plain_unit (c # r)" if "c \<noteq> SPDU_GT" "c \<noteq> SPDU_GTC"
    using that unfolding plain_unit_def fine_def by (cases "c # r" rule: carried.cases) auto
  show "plain_unit (SPDU_GT # 0 # c # r)" if "c \<noteq> SPDU_GT"
    using that unfolding plain_unit_def fine_def by (cases "SPDU_GT # 0 # c # r" rule: carried.cases) auto
  have "carried (unit_octets SPDU_GT us beg fin d) = 0"
    by (cases "unit_octets SPDU_GT us beg fin d" rule: carried.cases) (auto simp: unit_octets_def lead_octets_def)
  then show "plain_unit (unit_octets SPDU_GT us beg fin d)" unfolding plain_unit_def fine_def by blast
qed

fun octets_of :: "incoming \<Rightarrow> byte list" where
  "octets_of (Arrive expd q) = concat q"
| "octets_of (Gone r) = []"

definition fine_in :: "incoming \<Rightarrow> bool" where
  "fine_in r \<longleftrightarrow> (case r of Arrive expd q \<Rightarrow> fine (concat q) | Gone _ \<Rightarrow> True)"

definition on_way :: "incoming list \<Rightarrow> nat \<Rightarrow> nat" where
  "on_way rx n = length (filter (\<lambda>r. bit (carried (octets_of r)) n) rx)"

lemma on_way_simps [simp]:
  "on_way [] n = 0" "on_way (xs @ ys) n = on_way xs n + on_way ys n"
  "on_way (r # rx) n = of_bool (bit (carried (octets_of r)) n) + on_way rx n"
  by (simp_all add: on_way_def)

definition plain_out :: "tsdu list \<Rightarrow> bool" where
  "plain_out out \<longleftrightarrow> (\<forall>r \<in> set (map deliver out). plain_unit (octets_of r))"

lemma plain_out_simps [simp]:
  "plain_out []" "plain_out (xs @ ys) \<longleftrightarrow> plain_out xs \<and> plain_out ys"
  "plain_out (Normal bs # xs) \<longleftrightarrow> plain_unit bs \<and> plain_out xs" "plain_out (Expedited bs # xs) \<longleftrightarrow> plain_unit bs \<and> plain_out xs"
  by (auto simp: plain_out_def)

lemma fine_in_deliver: "fine_in (deliver t) \<longleftrightarrow> fine (octets_of (deliver t))"
  by (cases t) (simp_all add: fine_in_def)

lemma deliver_fine: "plain_out out \<Longrightarrow> r \<in> set (map deliver out) \<Longrightarrow> fine_in r"
  by (auto simp: fine_in_deliver plain_out_def plain_unit_def)

lemma deliver_empty: "plain_out out \<Longrightarrow> on_way (map deliver out) n = 0"
  by (induction out) (auto simp: plain_out_def plain_unit_def)

section \<open>Writing\<close>

lemma hand_over_out: "snd (hand_over tw t) = [] \<or> snd (hand_over tw t) = [t]"
  by (simp add: hand_over_def split: option.splits)

lemma plain_hand_over [simp]:
  "plain_unit bs \<Longrightarrow> plain_out (snd (hand_over tw (Normal bs)))" "plain_unit bs \<Longrightarrow> plain_out (snd (hand_over tw (Expedited bs)))"
  using hand_over_out [of tw "Normal bs"] hand_over_out [of tw "Expedited bs"] by auto

lemma plain_spkt2sd:
  assumes "s_code s \<noteq> SPDU_GT" "s_code s \<noteq> SPDU_GTC"
  shows "plain_out (snd (spkt2sd mem tw s expd))"
proof -
  let ?s = "if expd then Set 15 s else s"
  have c: "s_code ?s = s_code s" by simp
  show ?thesis
  proof (cases "spkt2tsdu mem ?s")
    case (Pair x s2)
    show ?thesis
    proof (cases x)
      case (Done bs)
      then obtain r where r: "bs = s_code s # r" using spkt2tsdu_head [of mem ?s bs s2] Pair c by auto
      then have "plain_unit bs" "plain_unit (bs @ d)" for d using plain_unitI(1) [OF assms] by auto
      with Pair Done show ?thesis by (simp add: spkt2sd_def Let_def)
    qed (use Pair in \<open>simp_all add: spkt2sd_def\<close>)
  qed
qed

lemma abort_spkt_code: "s_code (abort_spkt disc) = SPDU_AB"
  by (simp add: abort_spkt_def newspkt_def)

lemma plain_spktlose: "plain_out (snd (spktlose mem tw sb e))"
proof -
  define disc where "disc = (if e = SC_PROTOCOL then u8_bis AB_DISC_RELEASE AB_DISC_PROTO
    else if e = SC_CONGEST then AB_DISC_RELEASE else u8_bis AB_DISC_RELEASE AB_DISC_UNKNOWN)"
  have "plain_out (snd (spkt2sd mem tw (abort_spkt disc) (SB_EXPD \<in> sb_flags sb)))"
    by (rule plain_spkt2sd) (simp_all add: abort_spkt_code)
  then show ?thesis unfolding spktlose_def Let_def disc_def [symmetric] by (auto split: prod.splits sres.splits)
qed

lemma write_fields_code: "write_fields sb code type ssn settings aid oid ref = Some s \<Longrightarrow> s_code s = code"
  by (auto simp: write_fields_def with_ssn_def with_octet_def Let_def newspkt_def Set_def split: if_splits option.splits)

lemma start_spdu_refused: "\<not> mem (spdu_size s b + (if spdu_size s b > 254 then 4 else 2)) \<Longrightarrow> s_errno (snd (start_spdu mem s b)) = SC_CONGEST"
  by (simp add: start_spdu_def Let_def)

text \<open>A short packet is written as it should be, or not at all.\<close>

lemma spkt2tsdu_short_only:
  assumes "spkt2tsdu mem s = (Done bs, s')" "spdu_case s = Some (b, ps)" "plain ps" "length (render ps) \<le> 252"
  shows "bs = spdu (s_code s) (render ps)"
proof (cases "mem (spdu_size s b + (if spdu_size s b > 254 then 4 else 2))")
  case True
  then have "writable mem s b ps" using assms(3,4) spdu_size_small [of s b] by (simp add: writable_def)
  from spkt2tsdu_renders [OF assms(2) this] assms(1) show ?thesis by simp
next
  case False
  from start_spdu_refused [of mem s b, OF False] assms(1,2) show ?thesis
    by (auto simp: spkt2tsdu_def Let_def split: prod.splits enc.splits outcome.splits if_splits)
qed

lemma lead_octets_only:
  assumes "spkt2tsdu mem (lead_spkt code) = (Done bs, s')"
  shows "bs = [SPDU_GT, 0] \<or> bs = [SPDU_PT, 0]"
proof (cases "s_code (lead_spkt code) = SPDU_GT")
  case True
  then have "spdu_case (lead_spkt code) = Some (3, [])"
    by (auto simp: lead_spkt_def spdu_case_def params_GT_def If_Set_def newspkt_def Set_def split: if_splits)
  from spkt2tsdu_short_only [OF assms this] True show ?thesis by (simp add: spdu_def li_octets_def)
next
  case False
  then have "lead_spkt code = newspkt SPDU_PT" by (auto simp: lead_spkt_def newspkt_def Set_def split: if_splits)
  then have "spdu_case (lead_spkt code) = Some (6, [])" "s_code (lead_spkt code) = SPDU_PT"
    by (simp_all add: spdu_case_def params_PT_def Put_Enclose_def Put_UData_def If_Set_def newspkt_def)
  from spkt2tsdu_short_only [OF assms this(1)] this(2) show ?thesis by (simp add: spdu_def li_octets_def)
qed

lemma plain_write_two:
  assumes "\<And>s. x = Some s \<Longrightarrow> s_code s \<noteq> SPDU_GT"
  shows "plain_out (snd (write_two mem tw (lead_spkt code) x))"
proof (cases "\<exists>b0 p b1 s s1. spkt2tsdu mem (lead_spkt code) = (Done b0, p) \<and> x = Some s \<and> spkt2tsdu mem s = (Done b1, s1)")
  case True
  then obtain b0 p b1 s s1 where e: "spkt2tsdu mem (lead_spkt code) = (Done b0, p)" "x = Some s" "spkt2tsdu mem s = (Done b1, s1)" by blast
  obtain r where r: "b1 = s_code s # r" using spkt2tsdu_head [OF e(3)] by blast
  have "plain_unit (b0 @ b1)" using lead_octets_only [OF e(1)] assms [OF e(2)] r plain_unitI(1) [of 2] plain_unitI(2) [of "s_code s" r] by auto
  with e show ?thesis by (simp add: write_two_def)
qed (auto simp: write_two_def split: prod.splits outcome.splits option.splits)

lemma plain_SWriteRequestAux:
  assumes "code \<noteq> SPDU_GT"
  shows "plain_out (snd (SWriteRequestAux mem tw sb code d type ssn settings aid oid ref))"
proof -
  define w where "w = write_two mem tw (lead_spkt code) (map_option (add_udata d) (write_fields sb code type ssn settings aid oid ref))"
  have w: "plain_out (snd w)" unfolding w_def
    by (rule plain_write_two) (use assms in \<open>auto simp: add_udata_def Set_def split: if_splits dest!: write_fields_code\<close>)
  have p: "plain_out (snd (spkt2sd mem tw (Set SMASK_PR_TYPE ((newspkt SPDU_PR)\<lparr>s_pr_type := t\<rparr>)) True))" for t
    by (rule plain_spkt2sd) (simp_all add: newspkt_def)
  show ?thesis unfolding SWriteRequestAux_def Let_def w_def [symmetric]
    using w p by (auto split: option.splits prod.splits sres.splits) (metis snd_conv)+
qed

section \<open>Calls\<close>

text \<open>A packet that hands over no token when it is read, and a block in a session without the two units.\<close>

definition inert :: "ssapkt \<Rightarrow> bool" where
  "inert s \<longleftrightarrow> s_code s \<noteq> SPDU_GTC \<and> (s_code s = SPDU_GT \<longrightarrow> SMASK_SPDU_GT \<notin> s_mask s \<or> SMASK_GT_TOKEN \<notin> s_mask s)"

definition calm :: "ssapblk \<Rightarrow> bool" where
  "calm sb \<longleftrightarrow> \<not> requires sb SR_ACTIVITY \<and> \<not> requires sb SR_RESYNC \<and> sb_flags sb \<inter> {SB_Vact, SB_GTC} = {}
     \<and> (\<forall>qs. sb_spdu sb = Some qs \<or> sb_xspdu sb = Some qs \<longrightarrow> inert (qs_pkt qs))"

definition held :: "ssapblk option \<Rightarrow> nat \<Rightarrow> nat" where
  "held x n = (case x of None \<Rightarrow> 0 | Some sb \<Rightarrow> of_bool (owns sb n))"

lemma held_simps [simp]: "held None n = 0" "held (Some sb) n = of_bool (owns sb n)"
  by (simp_all add: held_def)

text \<open>What a block and the units that it sends are together, is no more than before.\<close>

definition keeps :: "ssapblk \<Rightarrow> ssapblk option \<Rightarrow> tsdu list \<Rightarrow> bool" where
  "keeps sb x out \<longleftrightarrow> (\<forall>sb'. x = Some sb' \<longrightarrow> calm sb') \<and> (\<forall>r \<in> set (map deliver out). fine_in r)
     \<and> (\<forall>n. held x n + on_way (map deliver out) n \<le> held (Some sb) n)"

lemma keeps_plain: "plain_out out \<Longrightarrow> x = None \<or> x = Some sb' \<and> calm sb' \<and> sb_owned sb' = sb_owned sb \<Longrightarrow> keeps sb x out"
  using deliver_fine [of out] deliver_empty [of out] by (auto simp: keeps_def owns_def)

definition keeps_reply :: "ssapblk \<Rightarrow> reply \<Rightarrow> bool" where
  "keeps_reply sb r \<longleftrightarrow> keeps sb (rp_sb r) (rp_out r)"

lemma keeps_refuse: "calm sb \<Longrightarrow> keeps_reply sb (refuse e sb)"
  by (auto simp: keeps_reply_def refuse_def intro: keeps_plain)

lemma keeps_guarded: "calm sb \<Longrightarrow> keeps_reply sb k \<Longrightarrow> keeps_reply sb (guarded g m sb k)"
  by (auto simp: guarded_def keeps_refuse split: option.splits)

lemma keeps_settle: "plain_out (snd w) \<Longrightarrow> calm sb' \<Longrightarrow> sb_owned sb' = sb_owned sb \<Longrightarrow> keeps_reply sb (settle w sb')"
  by (auto simp: keeps_reply_def settle_def intro!: keeps_plain)

lemma keeps_ssn: "keeps_reply sb (r\<lparr>rp_ssn := x\<rparr>) \<longleftrightarrow> keeps_reply sb r"
  by (simp add: keeps_reply_def)

lemma calm_flags: "calm sb \<Longrightarrow> on \<inter> {SB_Vact, SB_GTC} = {} \<Longrightarrow> calm (set_flags on off sb)"
  by (auto simp: calm_def set_flags_def requires_def)

lemma calm_simps [simp]:
  "calm (sb\<lparr>sb_owned := w\<rparr>) = calm sb" "calm (sb\<lparr>sb_V_A := i\<rparr>) = calm sb" "calm (sb\<lparr>sb_V_M := i\<rparr>) = calm sb"
  "calm (sb\<lparr>sb_V_R := i\<rparr>) = calm sb" "calm (sb\<lparr>sb_rs := i\<rparr>) = calm sb" "calm (sb\<lparr>sb_rsn := i\<rparr>) = calm sb"
  "calm (sb\<lparr>sb_rsettings := w\<rparr>) = calm sb" "calm (sb\<lparr>sb_pr := w\<rparr>) = calm sb" "calm (sb\<lparr>sb_code := w\<rparr>) = calm sb"
  "calm (sb\<lparr>sb_qbuf := q\<rparr>) = calm sb" "calm (sb\<lparr>sb_len := i\<rparr>) = calm sb" "calm (sb\<lparr>sb_retry := p\<rparr>) = calm sb"
  by (simp_all add: calm_def requires_def)

lemma calm_next_point: "calm sb \<Longrightarrow> calm (next_point sb)"
  by (auto simp: next_point_def Let_def set_flags_def calm_def requires_def)

lemma owned_set_flags [simp]: "sb_owned (set_flags on off sb) = sb_owned sb"
  by (simp add: set_flags_def)

lemma owned_next_point [simp]: "sb_owned (next_point sb) = sb_owned sb"
  by (simp add: next_point_def Let_def)

lemma major_done_calm: "calm sb \<Longrightarrow> calm (major_done sb)" "sb_owned (major_done sb) = sb_owned sb"
  by (auto simp: major_done_def Let_def calm_def requires_def set_flags_def)

text \<open>The services that the two units carry refuse.\<close>

lemma calm_SDoActivityAux: "calm sb \<Longrightarrow> \<not> SDoActivityAux sb True rls"
  by (simp add: calm_def SDoActivityAux_def)

lemma name_tokens_owned:
  "name_tokens sb True w ns s0 = Some s \<Longrightarrow> bit s n \<Longrightarrow> bit s0 n \<or> owns sb n"
proof (induction ns arbitrary: s0)
  case (Cons m ns)
  show ?case
  proof (cases "bit w m")
    case True
    with Cons.prems(1) have m: "owns sb m" "name_tokens sb True w ns (set_bit m s0) = Some s" by (auto split: if_splits)
    from Cons.IH [OF m(2) Cons.prems(2)] m(1) show ?thesis by (auto simp: bit_set_bit_iff)
  qed (use Cons in auto)
qed simp

lemma keeps_give:
  assumes "calm sb" "\<And>n. bit s n \<Longrightarrow> owns sb n" "calm sb'" "sb_owned sb' = u8_bic (sb_owned sb) s"
  shows "keeps_reply sb (settle (spkt2sd mem tw (gt_spkt s) False) sb')"
proof -
  have c: "spdu_case (gt_spkt s) = Some (3, [PI 16 [s]])" "s_code (gt_spkt s) = SPDU_GT" "s_udata (gt_spkt s) = None"
    by (auto simp: spdu_case_def gt_spkt_def params_GT_def If_Set_def newspkt_def Set_def)
  have o: "snd (spkt2sd mem tw (gt_spkt s) False) = [] \<and> fst (spkt2sd mem tw (gt_spkt s) False) \<noteq> S_OK
      \<or> spkt2sd mem tw (gt_spkt s) False = (S_OK, [Normal [SPDU_GT, 3, 16, 1, s]])"
  proof (cases "\<exists>bs x. spkt2tsdu mem (gt_spkt s) = (Done bs, x)")
    case True
    then obtain bs x where w: "spkt2tsdu mem (gt_spkt s) = (Done bs, x)" by blast
    have "bs = [SPDU_GT, 3, 16, 1, s]" using spkt2tsdu_short_only [OF w c(1)] c(2) by (simp add: spdu_def li_octets_def)
    with w c show ?thesis by (simp add: spkt2sd_def hand_over_def Let_def split: option.splits)
  qed (auto simp: spkt2sd_def split: prod.splits outcome.splits)
  have n: "owns sb' n \<longrightarrow> owns sb n \<and> \<not> bit s n" "bit s n \<longrightarrow> owns sb n" for n
    using assms(2) [of n] assms(4) by (auto simp: owns_def u8_bic_def bit_and_iff bit_not_iff)
  have "fine [SPDU_GT, 3, 16, 1, s]" by (auto simp: fine_def)
  with o n assms(3) show ?thesis
    by (auto simp: keeps_reply_def settle_def keeps_def fine_in_def)
qed

lemma keeps_GIVE: "calm sb \<Longrightarrow> keeps_reply sb (SGTokenRequest mem tw sb w)"
  unfolding SGTokenRequest_def
proof (rule keeps_guarded)
  assume c: "calm sb"
  show "keeps_reply sb (SGTokenRequestAux mem tw sb w)"
  proof (cases "name_tokens sb True w tokens 0")
    case (Some s)
    have o: "owns sb n" if "bit s n" for n using name_tokens_owned [OF Some that] by simp
    show ?thesis unfolding SGTokenRequestAux_def Some
      by (auto simp: Let_def keeps_refuse c intro!: keeps_give o c calm_flags)
  qed (simp add: SGTokenRequestAux_def keeps_refuse c)
qed simp

lemma keeps_written:
  "calm sb' \<Longrightarrow> sb_owned sb' = sb_owned sb \<Longrightarrow> code \<noteq> SPDU_GT \<Longrightarrow>
    keeps_reply sb (settle (SWriteRequestAux mem tw sb1 code d type ssn settings aid oid ref) sb')"
  by (rule keeps_settle) (simp_all add: plain_SWriteRequestAux)

lemma keeps_sent:
  "calm sb' \<Longrightarrow> sb_owned sb' = sb_owned sb \<Longrightarrow> s_code s \<noteq> SPDU_GT \<Longrightarrow> s_code s \<noteq> SPDU_GTC \<Longrightarrow>
    keeps_reply sb (settle (spkt2sd mem tw s expd) sb')"
  by (rule keeps_settle) (simp_all add: plain_spkt2sd)

lemma add_udata_code [simp]: "s_code (add_udata d s) = s_code s"
  by (simp add: add_udata_def)

lemma newspkt_code [simp]: "s_code (newspkt c) = c"
  by (simp add: newspkt_def)

lemmas keeps_intros = keeps_guarded keeps_refuse keeps_written keeps_sent calm_flags calm_next_point major_done_calm(1)

lemma keeps_services:
  assumes "calm sb"
  shows "keeps_reply sb (SExpdRequest mem tw sb d)" "keeps_reply sb (SPTokenRequest mem tw sb w d)"
    "keeps_reply sb (SMinSyncRequest mem tw sb type d)" "keeps_reply sb (SMinSyncResponse mem tw sb ssn d)"
    "keeps_reply sb (SMajSyncRequest mem tw sb d)" "keeps_reply sb (SMajSyncResponse mem tw sb d)"
    "keeps_reply sb (SActEndRequest mem tw sb d)" "keeps_reply sb (SActEndResponse mem tw sb d)"
    "keeps_reply sb (SCapdResponse mem tw sb d)" "keeps_reply sb (SUReportRequest mem tw sb reason d)"
  using assms
  by (auto simp: SExpdRequest_def SExpdRequestAux_def SPTokenRequest_def SPTokenRequestAux_def SMinSyncRequest_def SMinSyncRequestAux_def
      SMinSyncResponse_def SMinSyncResponseAux_def SMajSyncRequest_def SMajSyncRequestAux_def SMajSyncResponse_def SMajSyncResponseAux_def
      SActEndRequest_def SActEndResponse_def SCapdResponse_def SCapdResponseAux_def SUReportRequest_def SUReportRequestAux_def
      Let_def keeps_ssn major_done_calm(2) split: option.splits intro!: keeps_intros)

lemma keeps_unavailable:
  assumes "calm sb"
  shows "keeps_reply sb (SReSyncRequest mem tw sb type ssn settings d)" "keeps_reply sb (SReSyncResponse mem tw sb ssn settings d)"
    "keeps_reply sb (SGControlRequest mem tw sb)" "keeps_reply sb (SActStartRequest mem tw sb aid d)"
    "keeps_reply sb (SActResumeRequest mem tw sb aid oid ssn ref d)" "keeps_reply sb (SActIntrRequest mem tw sb reason)"
    "keeps_reply sb (SActDiscRequest mem tw sb reason)" "keeps_reply sb (SActIntrResponse mem tw sb)"
    "keeps_reply sb (SActDiscResponse mem tw sb)" "keeps_reply sb (SCapdRequest mem tw sb d)"
proof -
  have u: "\<not> requires sb SR_ACTIVITY" "\<not> requires sb SR_RESYNC" using assms by (simp_all add: calm_def)
  show "keeps_reply sb (SReSyncRequest mem tw sb type ssn settings d)" "keeps_reply sb (SReSyncResponse mem tw sb ssn settings d)"
    "keeps_reply sb (SGControlRequest mem tw sb)" "keeps_reply sb (SActStartRequest mem tw sb aid d)"
    "keeps_reply sb (SActResumeRequest mem tw sb aid oid ssn ref d)" "keeps_reply sb (SActIntrRequest mem tw sb reason)"
    "keeps_reply sb (SActDiscRequest mem tw sb reason)" "keeps_reply sb (SActIntrResponse mem tw sb)"
    "keeps_reply sb (SActDiscResponse mem tw sb)" "keeps_reply sb (SCapdRequest mem tw sb d)"
    using assms u calm_SDoActivityAux [OF assms]
    by (auto simp: SReSyncRequest_def SReSyncRequestAux_def SReSyncResponse_def SReSyncResponseAux_def SGControlRequest_def
        SActStartRequest_def SActStartRequestAux_def SActResumeRequest_def SActResumeRequestAux_def SActIntrRequest_def
        SActDiscRequest_def act_intr_request_def SActIntrRequestAux_def SActIntrResponse_def SActDiscResponse_def
        SActIntrResponseAux_def SCapdRequest_def SCapdRequestAux_def Let_def intro!: keeps_guarded keeps_refuse)
qed

lemma keeps_ABORT:
  assumes "calm sb"
  shows "keeps_reply sb (SUAbortRequest mem tw sb d)"
proof -
  have p: "plain_out (snd (spkt2sd mem tw (Set SMASK_PR_TYPE ((newspkt SPDU_PR)\<lparr>s_pr_type := PR_AB\<rparr>)) True))"
    "plain_out (snd (spkt2sd mem tw (add_udata d (abort_spkt x)) e))" for x e
    by (rule plain_spkt2sd; simp add: abort_spkt_code)+
  obtain r0 o0 where a: "prepare_abort mem tw sb d = (r0, o0)" by fastforce
  obtain r1 o1 where b: "spkt2sd mem tw (add_udata d (abort_spkt 3)) (SB_EXPD \<in> sb_flags sb) = (r1, o1)" by fastforce
  have "plain_out o0" "plain_out o1" using p(1) p(2) [of 3 "SB_EXPD \<in> sb_flags sb"] a b
    by (auto simp: prepare_abort_def split: if_splits)
  then show ?thesis using assms
    by (auto simp: SUAbortRequest_def SUAbortRequestAux_def Let_def a b keeps_reply_def refuse_def intro!: keeps_plain)
qed

lemma keeps_FINISH: "calm sb \<Longrightarrow> keeps_reply sb (SRelResponse mem tw sb status d)"
  unfolding SRelResponse_def
proof (rule keeps_guarded)
  assume c: "calm sb"
  have "keeps_reply sb (settle (spkt2sd mem tw (add_udata d (newspkt code)) False) (set_flags {} {SB_FINN} sb))" if "code = SPDU_DN \<or> code = SPDU_NF" for code
    using that by (auto intro!: keeps_intros c)
  moreover have "keeps_reply sb (r\<lparr>rp_sb := None\<rparr>)" if "keeps_reply sb r" for r
    using that by (simp add: keeps_reply_def keeps_def del: held_simps(2)) (meson add_leD2)
  ultimately show "keeps_reply sb (SRelResponseAux mem tw sb status d)"
    by (auto simp: SRelResponseAux_def Let_def c intro!: keeps_refuse)
qed simp

lemma data_lead_only:
  assumes "data_lead mem code = (Done bs, s')"
  shows "bs = lead_octets code"
proof (cases "code = SPDU_GT")
  case True
  have "spdu_case (Set SMASK_SPDU_GT (newspkt SPDU_GT)) = Some (3, [])"
    by (simp add: spdu_case_def params_GT_def If_Set_def newspkt_def Set_def)
  from spkt2tsdu_short_only [OF _ this] assms True show ?thesis by (auto simp: data_lead_def lead_octets_def spdu_def li_octets_def)
qed (use assms in \<open>simp add: data_lead_def lead_octets_def\<close>)

lemma data_spkt_only:
  assumes "spkt2tsdu mem (data_spkt code us beg fin) = (Done bs, s')" "data_code code"
  shows "bs = spdu code (encl us beg fin)"
proof -
  let ?s = "data_spkt code us beg fin"
  have c: "spdu_case ?s = Some (3, Put_Enclose ?s)" "s_code ?s = code"
    using assms(2) by (auto simp: data_code_def data_spkt_def spdu_case_def params_GT_def newspkt_def Set_def)
  have r: "render (Put_Enclose ?s) = encl us beg fin" "plain (Put_Enclose ?s)"
    by (auto simp: Put_Enclose_def If_Set_def data_spkt_def newspkt_def Set_def encl_def li_octets_def u8_bis_def Let_def)
  then show ?thesis using spkt2tsdu_short_only [OF assms(1) c(1)] c(2) by (simp add: encl_def)
qed

lemma plain_write_segment:
  assumes "data_lead mem code = (Done bs, s')" "data_code code"
  shows "plain_out (snd (write_segment mem tw bs (data_spkt code us beg fin) cs))"
proof (cases "\<exists>h s1. spkt2tsdu mem (data_spkt code us beg fin) = (Done h, s1)")
  case True
  then obtain h s1 where h: "spkt2tsdu mem (data_spkt code us beg fin) = (Done h, s1)" by blast
  have "bs @ h @ concat cs = unit_octets code us beg fin (concat cs)"
    using data_lead_only [OF assms(1)] data_spkt_only [OF h assms(2)] by (simp add: unit_octets_def)
  moreover have "plain_unit (unit_octets code us beg fin d)" for d
  proof (cases "code = SPDU_GT")
    case False
    with assms(2) show ?thesis by (auto simp: data_code_def unit_octets_def lead_octets_def spdu_def intro: plain_unitI(1))
  qed (simp add: plain_unitI(3))
  ultimately show ?thesis using h by (simp add: write_segment_def)
qed (auto simp: write_segment_def split: prod.splits outcome.splits)

lemma plain_send_segments:
  assumes "send_segments mem tw code us beg fin n vs = Some r"
  shows "data_code code \<longrightarrow> plain_out (snd r)"
proof (rule send_segments.raw_induct [where P = "\<lambda>mem tw code us beg fin n vs r. data_code code \<longrightarrow> plain_out (snd r)", OF _ assms], goal_cases)
  case (1 send mem tw code us beg fin n vs r)
  then show ?case using plain_write_segment [of mem code _ _ tw us beg]
    by (fastforce simp: Let_def Option.bind_eq_Some_conv split: if_splits prod.splits outcome.splits)
qed

lemma keeps_DATA:
  assumes "calm sb" "SWriteRequest mem tw sb typed vs = Some (r, out)"
  shows "keeps sb (Some sb) out"
proof -
  have "plain_out out"
    using assms(2) plain_send_segments [of mem tw _ "sb_tsdu_us sb" True True "int (length (concat vs))" vs "(r, out)"]
    by (auto simp: SWriteRequest_def guarded_data_def SDataRequestAux_def Let_def data_code_def split: option.splits if_splits)
  with assms(1) show ?thesis by (auto intro: keeps_plain)
qed

lemma keeps_perform:
  assumes "calm sb" "perform mem tw sb c = Some r"
  shows "keeps sb (rp_sb r) (rp_out r)"
proof -
  have "keeps_reply sb r"
  proof (cases c)
    case (C_DATA typed vs)
    with assms keeps_DATA [OF assms(1)] show ?thesis by (auto simp: keeps_reply_def)
  qed (use assms keeps_services keeps_unavailable keeps_ABORT keeps_FINISH keeps_GIVE in auto)
  then show ?thesis by (simp add: keeps_reply_def)
qed

section \<open>The packet that is read next\<close>

definition hands_over :: "ssapkt \<Rightarrow> byte \<Rightarrow> bool" where
  "hands_over s w \<longleftrightarrow> s_code s = SPDU_GT \<and> s_token s = w"

lemma Set15 [simp]: "s_token (Set n s) = s_token s" "inert (Set 15 s) = inert s" "keeps_cat0 p (Set 15 s) = keeps_cat0 p s"
  by (auto simp: Set_def inert_def keeps_cat0_def)

lemma next_spkt_code:
  assumes "next_spkt mem q cc cat0 expd = Inl (s, q', cc')" "concat q = c # r"
  shows "s_code s = c"
  using assms tsdu2spkt_code [of mem q cc cat0] by (fastforce simp: next_spkt_def split: outcome.splits prod.splits if_splits)

lemma lost_out: "lost mem tw sb e = (g, sb', out) \<Longrightarrow> plain_out out \<and> sb' = sb \<and> (\<exists>r. g = GotNone r)"
  using plain_spktlose [of mem tw sb] by (auto simp: lost_def split: option.splits prod.splits) (metis snd_conv)

lemma calm_spdu: "calm sb \<Longrightarrow> x = None \<or> x = Some (plain_spkt p) \<and> inert p \<Longrightarrow> calm (sb\<lparr>sb_spdu := x\<rparr>)"
  by (auto simp: calm_def requires_def plain_spkt_def)

lemma CAT2_code: "(p, c) \<in> set CAT2 \<Longrightarrow> c \<noteq> SPDU_GT \<and> c \<noteq> SPDU_GTC"
  by (auto simp: CAT2_def)

lemma with_rest_pkt [simp]: "qs_pkt (with_rest s q cc) = s" "qs_pkt (plain_spkt s) = s"
  by (simp_all add: with_rest_def plain_spkt_def)

text \<open>After a category 0 packet that gives nothing, whatever is read gives nothing.\<close>

lemma concatenated_inert:
  assumes "concatenated mem tw sb p q cc expd = (g, sb', out)" "calm sb" "inert p"
    "\<And>s q' cc'. next_spkt mem q cc False expd = Inl (s, q', cc') \<Longrightarrow> s_code p = SPDU_GT \<Longrightarrow> s_code s = SPDU_GT \<Longrightarrow> inert s"
  shows "calm sb' \<and> sb_owned sb' = sb_owned sb \<and> plain_out out \<and> (\<forall>qs. g = Got qs \<longrightarrow> inert (qs_pkt qs))"
proof (cases "next_spkt mem q cc False expd")
  case (Inl x)
  obtain s q' cc' where x: "x = (s, q', cc')" by (cases x)
  have c: "calm (sb\<lparr>sb_spdu := (if keeps_cat0 p s then Some (plain_spkt p) else None)\<rparr>)" "calm (sb\<lparr>sb_spdu := None\<rparr>)"
    using assms(2,3) by (auto intro!: calm_spdu)
  have i: "(s_code p, s_code s) \<in> set CAT2 \<Longrightarrow> inert s" using CAT2_code by (auto simp: inert_def)
  show ?thesis
    using assms(1) c i assms(4) [OF Inl [unfolded x]] unfolding concatenated_def Inl x Let_def
    by (auto split: if_splits dest!: lost_out)
next
  case (Inr e)
  have "calm (sb\<lparr>sb_spdu := None\<rparr>)" using assms(2) by (auto intro!: calm_spdu)
  with assms(1) Inr show ?thesis by (auto simp: concatenated_def dest!: lost_out)
qed

lemma tsdu2spkt_give:
  assumes "concat qb = [SPDU_GT, 3, 16, 1, w]"
  shows "\<exists>u q. tsdu2spkt mem qb 5 True = Done (u, 5, q) \<and> s_errno u = SC_ACCEPT \<and> hands_over u w"
proof -
  let ?u = "Set 0 ((start_packet True 1 3)\<lparr>s_token := w\<rparr>)"
  have "take_params mem 1 (si_table ! unat (1 :: byte)) [PI 16 [w]] (start_packet True 1 3) = Some ?u"
    by (simp add: reads read_token_def start_packet_def set_category_def newspkt_def Set_def)
  moreover have "mandatory ?u" "hands_over ?u w" "s_errno ?u = SC_ACCEPT"
    by (simp_all add: mandatory_def hands_over_def start_packet_def set_category_def newspkt_def Set_def)
  ultimately show ?thesis
    using tsdu2spkt_takes [of mem 1 "[PI 16 [w]]" True ?u qb "[]" 5] assms
    by (fastforce simp: tables_at spdu_def li_octets_def)
qed

definition reads_fine :: "ssapblk \<Rightarrow> byte \<Rightarrow> got \<times> ssapblk \<times> tsdu list \<Rightarrow> bool" where
  "reads_fine sb w x \<longleftrightarrow> (case x of (g, sb', out) \<Rightarrow> calm sb' \<and> sb_owned sb' = sb_owned sb \<and> plain_out out
     \<and> (\<forall>qs. g = Got qs \<longrightarrow> inert (qs_pkt qs) \<or> hands_over (qs_pkt qs) w))"

lemma reads_fine_lost: "calm sb \<Longrightarrow> reads_fine sb w (lost mem tw sb e)"
  using lost_out [of mem tw sb e] by (cases "lost mem tw sb e") (auto simp: reads_fine_def)

lemma reads_fine_concatenated:
  assumes "calm sb" "inert p" "\<And>s q' cc'. next_spkt mem q cc False expd = Inl (s, q', cc') \<Longrightarrow> s_code p = SPDU_GT \<Longrightarrow> s_code s = SPDU_GT \<Longrightarrow> inert s"
  shows "reads_fine sb w (concatenated mem tw sb p q cc expd)"
proof (cases "concatenated mem tw sb p q cc expd")
  case (fields g sb' out)
  with concatenated_inert [OF fields assms] show ?thesis by (simp add: reads_fine_def)
qed

lemma start_packet_GT: "inert (start_packet True 1 li)" "s_code (start_packet True 1 li) = 1" "s_errno (start_packet True 1 li) = SC_ACCEPT"
  by (auto simp: inert_def start_packet_def set_category_def newspkt_def Set_def)

lemma tsdu2sb_lead:
  assumes "concat q = [1, 0] @ r" "r \<noteq> []" "calm sb"
    "\<And>q1 s q' cc'. concat q1 = r \<Longrightarrow> next_spkt mem q1 (int (length r)) False expd = Inl (s, q', cc') \<Longrightarrow> s_code s = SPDU_GT \<Longrightarrow> inert s"
  shows "reads_fine sb w (tsdu2sb mem tw sb expd q)"
proof -
  obtain q1 where q1: "tsdu2spkt mem q (int (length (concat q))) True = Done (start_packet True 1 0, 2, q1)" "concat q1 = r"
    using tsdu2spkt_GT [OF assms(1), of "int (length (concat q))"] assms(1) by auto
  have n: "next_spkt mem q (int (length (concat q))) True expd = Inl (if expd then Set 15 (start_packet True 1 0) else start_packet True 1 0, q1, int (length r))"
    using q1 assms(1) by (simp add: next_spkt_def start_packet_GT)
  have "reads_fine sb w (concatenated mem tw sb (if expd then Set 15 (start_packet True 1 0) else start_packet True 1 0) q1 (int (length r)) expd)"
    by (rule reads_fine_concatenated [OF assms(3) _ assms(4) [OF q1(2)]]) (simp_all add: start_packet_GT)
  with n assms(2) show ?thesis by (simp add: tsdu2sb_def CAT0_def start_packet_GT)
qed

lemma next_spkt_data:
  assumes "concat q = spdu SPDU_GT (encl us beg fin) @ d" "next_spkt mem q (int (length (concat q))) False expd = Inl (s, q', cc')"
  shows "inert s"
proof -
  obtain q2 where "tsdu2spkt mem q (int (length (concat q))) False = Done (data_read 1 us beg fin False, int (length (spdu 1 (encl us beg fin))), q2)"
    using tsdu2spkt_data [OF assms(1), of "int (length (concat q))" False] assms(1) by auto
  then have "s = (if expd then Set 15 (data_read 1 us beg fin False) else data_read 1 us beg fin False)"
    using assms(2) by (auto simp: next_spkt_def)
  moreover have "inert (data_read 1 us beg fin False)" by (simp add: inert_def)
  ultimately show ?thesis by simp
qed

lemma tsdu2sb_other:
  assumes "concat q = c # r" "c \<noteq> SPDU_GT" "c \<noteq> SPDU_GTC" "calm sb"
  shows "reads_fine sb w (tsdu2sb mem tw sb expd q)"
proof (cases "next_spkt mem q (int (length (concat q))) True expd")
  case (Inl x)
  obtain s q' cc where x: "x = (s, q', cc)" by (cases x)
  have s: "s_code s = c" by (rule next_spkt_code [OF Inl [unfolded x] assms(1)])
  then have i: "inert s" using assms(2,3) by (simp add: inert_def)
  show ?thesis
  proof (cases "c = SPDU_PT \<and> \<not> cc \<le> 0")
    case True
    have "reads_fine sb w (concatenated mem tw sb s q' cc expd)"
      by (rule reads_fine_concatenated [OF assms(4) i]) (use s assms(2) in simp)
    with Inl x s True show ?thesis by (simp add: tsdu2sb_def CAT0_def)
  next
    case False
    with Inl x s i assms(2,4) reads_fine_lost [OF assms(4)] show ?thesis
      by (auto simp: tsdu2sb_def CAT0_def reads_fine_def)
  qed
next
  case (Inr e)
  with assms(4) show ?thesis by (simp add: tsdu2sb_def reads_fine_lost)
qed

lemma tsdu2sb_give:
  assumes "concat q = [SPDU_GT, 3, 16, 1, w]" "calm sb"
  shows "reads_fine sb w (tsdu2sb mem tw sb expd q)"
proof -
  obtain u q' where u: "tsdu2spkt mem q 5 True = Done (u, 5, q')" "s_errno u = SC_ACCEPT" "hands_over u w"
    using tsdu2spkt_give [OF assms(1)] by blast
  have "next_spkt mem q (int (length (concat q))) True expd = Inl (if expd then Set 15 u else u, q', 0)"
    using u assms(1) by (simp add: next_spkt_def)
  with u(3) assms(2) show ?thesis by (simp add: tsdu2sb_def CAT0_def reads_fine_def hands_over_def)
qed

lemma tsdu2sb_fine:
  assumes "fine (concat q)" "calm sb"
  shows "reads_fine sb (carried (concat q)) (tsdu2sb mem tw sb expd q)"
  using assms(1) unfolding fine_def
proof (elim disjE exE conjE)
  fix w assume "concat q = [SPDU_GT, 3, 16, 1, w]"
  with tsdu2sb_give [OF this assms(2)] show ?thesis by simp
next
  fix us beg fin d assume u: "concat q = unit_octets SPDU_GT us beg fin d"
  show ?thesis
  proof (rule tsdu2sb_lead [OF _ _ assms(2)])
    show "concat q = [1, 0] @ (spdu SPDU_GT (encl us beg fin) @ d)" using u by (simp add: unit_octets_def lead_octets_def)
    show "spdu SPDU_GT (encl us beg fin) @ d \<noteq> []" by (simp add: spdu_def)
    fix q1 s q' cc'
    assume q1: "concat q1 = spdu SPDU_GT (encl us beg fin) @ d"
      and n: "next_spkt mem q1 (int (length (spdu SPDU_GT (encl us beg fin) @ d))) False expd = Inl (s, q', cc')"
    show "inert s" by (rule next_spkt_data [OF q1 n [folded q1]])
  qed
next
  fix c r assume c: "concat q = SPDU_GT # 0 # c # r" "c \<noteq> SPDU_GT"
  show ?thesis by (rule tsdu2sb_lead [of q "c # r", OF _ _ assms(2)]) (use c in \<open>auto dest: next_spkt_code\<close>)
next
  fix c r assume "concat q = c # r" "c \<noteq> SPDU_GT" "c \<noteq> SPDU_GTC"
  from tsdu2sb_other [OF this assms(2)] show ?thesis .
qed

section \<open>What a packet does\<close>

text \<open>The ownership after a packet comes from the one before and from the tokens of the packet.\<close>

definition grows :: "ssapblk \<Rightarrow> byte \<Rightarrow> ssapblk \<Rightarrow> bool" where
  "grows sb w sb' \<longleftrightarrow> calm sb' \<and> (\<forall>n. owns sb' n \<longrightarrow> owns sb n \<or> bit w n)"

fun step_fine :: "ssapblk \<Rightarrow> byte \<Rightarrow> step \<Rightarrow> bool" where
  "step_fine sb w (Spin sb') = grows sb w sb'"
| "step_fine sb w (Ind i sb' out) = (grows sb w sb' \<and> plain_out out)"
| "step_fine sb w (Over r out) = plain_out out"
| "step_fine sb w (Aborted peer info) = True"

lemma grows_same: "calm sb' \<Longrightarrow> sb_owned sb' = sb_owned sb \<Longrightarrow> grows sb w sb'"
  by (simp add: grows_def owns_def)

lemma step_fine_mangled: "step_fine sb w (mangled mem tw sb' e)"
  using plain_spktlose [of mem tw sb' e] by (auto simp: mangled_def split: prod.splits)

text \<open>The changes that filters make.\<close>

lemma filter_result:
  assumes "f sb s = Pass sb' \<or> f sb s = Discard sb'" "f \<in> set all_filters"
  shows "sb' = sb \<or> sb' = sb\<lparr>sb_pr := SPDU_PR\<rparr> \<or> sb' = sb\<lparr>sb_qbuf := [], sb_len := 0\<rparr>"
proof -
  have p: "prepare_filter sb s = Pass sb' \<or> prepare_filter sb s = Discard sb' \<Longrightarrow> sb' = sb \<or> sb' = sb\<lparr>sb_pr := SPDU_PR\<rparr>"
    unfolding prepare_filter_def normal_flow_def Let_def by (simp split: if_splits; blast)
  have q: "collide_filter sb s = Pass sb' \<or> collide_filter sb s = Discard sb' \<Longrightarrow> sb' = sb"
    "exception_filter sb s = Pass sb' \<or> exception_filter sb s = Discard sb' \<Longrightarrow> sb' = sb"
    "size_filter sb s = Pass sb' \<or> size_filter sb s = Discard sb' \<Longrightarrow> sb' = sb"
    "unit_filter sb s = Pass sb' \<or> unit_filter sb s = Discard sb' \<Longrightarrow> sb' = sb"
    "segment_filter sb s = Pass sb' \<or> segment_filter sb s = Discard sb' \<Longrightarrow> sb' = sb \<or> sb' = sb\<lparr>sb_qbuf := [], sb_len := 0\<rparr>"
    by (auto simp: collide_filter_def exception_filter_def size_filter_def unit_filter_def segment_filter_def Let_def
      split: if_splits option.splits)
  from assms(2) have "f = prepare_filter \<or> f = collide_filter \<or> f = exception_filter \<or> f = segment_filter \<or> f = size_filter \<or> f = unit_filter"
    by (simp add: all_filters_def)
  with assms(1) p q show ?thesis by blast
qed

lemma filter_calm:
  assumes "f sb s = Pass sb' \<or> f sb s = Discard sb'" "f \<in> set all_filters"
  shows "sb_owned sb' = sb_owned sb" "calm sb' = calm sb" "requires sb' = requires sb"
  using filter_result [OF assms] by (auto simp: fun_eq_iff requires_def)

lemma filters_calm:
  "filters fs sb s = Pass sb' \<or> filters fs sb s = Discard sb' \<Longrightarrow> set fs \<subseteq> set all_filters \<Longrightarrow>
    sb_owned sb' = sb_owned sb \<and> calm sb' = calm sb \<and> requires sb' = requires sb"
proof (induction fs arbitrary: sb)
  case (Cons f fs)
  have f: "f \<in> set all_filters" "set fs \<subseteq> set all_filters" using Cons.prems(2) by auto
  show ?case
  proof (cases "f sb s")
    case (Pass sb1)
    then have "filters fs sb1 s = Pass sb' \<or> filters fs sb1 s = Discard sb'" using Cons.prems(1) by simp
    from Cons.IH [OF this f(2)] filter_calm [OF disjI1 [OF Pass] f(1)] show ?thesis by simp
  next
    case (Discard sb1)
    then have "sb' = sb1" using Cons.prems(1) by simp
    with filter_calm [OF disjI2 [OF Discard] f(1)] show ?thesis by simp
  qed (use Cons.prems(1) in simp)
qed simp

lemma filters_units:
  assumes "filters all_filters sb s = Pass sb'" "units (s_code s) = Some u"
  shows "requires sb' u"
proof -
  have "filters [prepare_filter, collide_filter, exception_filter, segment_filter, size_filter] sb s = Pass sb'"
    and "unit_filter sb' s = Pass sb'"
    using assms(1) by (auto simp: all_filters_def unit_filter_def split: verdict.splits option.splits if_splits)
  then show ?thesis using assms(2) by (simp add: unit_filter_def split: if_splits)
qed

lemma set_bits_bit:
  fixes w :: byte
  shows "bit (foldl (\<lambda>u n. if P n \<and> bit w n then set_bit n u else u) u ns) m \<Longrightarrow> bit u m \<or> bit w m"
proof (induction ns arbitrary: u)
  case (Cons n ns)
  then have "bit (if P n \<and> bit w n then set_bit n u else u) m \<or> bit w m" by simp
  then show ?case by (auto simp: bit_set_bit_iff split: if_splits)
qed simp

lemma shared_tokens_bit: "bit (shared_tokens sb w) n \<Longrightarrow> bit w n"
  using set_bits_bit [of "token_exists sb" w 0 tokens n] by (simp add: shared_tokens_def)

lemma on_GT_fine: "calm sb \<Longrightarrow> step_fine sb (if inert s then 0 else s_token s) (on_GT mem tw sb s)" if "SMASK_SPDU_GT \<in> s_mask s" "s_code s = SPDU_GT"
  using that
  by (auto simp: on_GT_def Let_def step_fine_mangled grows_def owns_def inert_def bit_or_iff intro!: calm_flags dest: shared_tokens_bit)

lemma their_point_calm: "calm sb \<Longrightarrow> on \<inter> {SB_Vact, SB_GTC} = {} \<Longrightarrow> calm (their_point on sb)" "sb_owned (their_point on sb) = sb_owned sb"
  by (auto simp: their_point_def Let_def intro!: calm_flags)

lemma calm_xspdu: "calm sb \<Longrightarrow> inert (qs_pkt qs) \<Longrightarrow> calm (sb\<lparr>sb_xspdu := Some qs\<rparr>)"
  by (auto simp: calm_def requires_def)

lemma calm_spdu_None: "calm sb \<Longrightarrow> calm (sb\<lparr>sb_spdu := None\<rparr>)"
  by (rule calm_spdu) simp_all

lemma arms_fine:
  assumes "calm sb"
  shows "step_fine sb w (on_PT sb s)" "step_fine sb w (on_DT mem tw sb qs)" "step_fine sb w (on_CD mem tw sb s)"
    "step_fine sb w (on_MAP sb s)" "step_fine sb w (on_MAA sb s)" "step_fine sb w (on_MIP sb s)" "step_fine sb w (on_MIA sb s)"
    "step_fine sb w (on_PR sb s)" "step_fine sb w (on_ER sb)" "step_fine sb w (on_ED sb s)" "step_fine sb w (on_FN sb s)"
    "step_fine sb w (on_AB s)" "step_fine sb w (on_GTA sb)" "step_fine sb w (on_AIA sb s)" "step_fine sb w (on_AI sb s)"
    "s_code (qs_pkt qs) = SPDU_EX \<Longrightarrow> step_fine sb w (on_EX mem tw sb qs)"
proof -
  have v: "SB_Vact \<notin> sb_flags sb" "\<not> requires sb SR_ACTIVITY" using assms by (auto simp: calm_def)
  note facts = assms step_fine_mangled grows_same calm_flags calm_spdu_None calm_xspdu their_point_calm major_done_calm
  show "step_fine sb w (on_PT sb s)" "step_fine sb w (on_CD mem tw sb s)"
    "step_fine sb w (on_MAP sb s)" "step_fine sb w (on_MAA sb s)" "step_fine sb w (on_MIP sb s)" "step_fine sb w (on_MIA sb s)"
    "step_fine sb w (on_PR sb s)" "step_fine sb w (on_ER sb)" "step_fine sb w (on_ED sb s)" "step_fine sb w (on_FN sb s)"
    "step_fine sb w (on_AB s)" "step_fine sb w (on_GTA sb)" "step_fine sb w (on_AIA sb s)" "step_fine sb w (on_AI sb s)"
    using v by (auto simp: arm_defs Let_def facts split: option.splits)
  show "step_fine sb w (on_DT mem tw sb qs)" by (auto simp: on_DT_def Let_def facts split: option.splits)
  show "step_fine sb w (on_EX mem tw sb qs)" if "s_code (qs_pkt qs) = SPDU_EX" using that by (auto simp: on_EX_def inert_def facts)
qed

lemma dispatch_fine:
  assumes "calm sb" "\<And>u. units (s_code (qs_pkt qs)) = Some u \<Longrightarrow> requires sb u" "s_code (qs_pkt qs) \<noteq> SPDU_GTC"
  shows "step_fine sb (if inert (qs_pkt qs) then 0 else s_token (qs_pkt qs)) (dispatch mem tw sb qs)"
proof -
  let ?c = "s_code (qs_pkt qs)"
  have "?c \<noteq> SPDU_RS" "?c \<noteq> SPDU_RA" "?c \<noteq> SPDU_AS" "?c \<noteq> SPDU_AR"
    using assms(1,2) by (auto simp: units_def calm_def)
  with assms(1,3) arms_fine [OF assms(1)] on_GT_fine [OF _ _ assms(1), of "qs_pkt qs" mem tw] show ?thesis
    unfolding dispatch_def Let_def by (simp add: step_fine_mangled grows_same)
qed

lemma body_fine:
  assumes "calm sb" "s_code (qs_pkt qs) \<noteq> SPDU_GTC"
  shows "step_fine sb (if inert (qs_pkt qs) then 0 else s_token (qs_pkt qs)) (body mem tw sb qs)"
proof (cases "filters all_filters sb (qs_pkt qs)")
  case (Pass sb1)
  have s: "sb_owned sb1 = sb_owned sb" "calm sb1" "requires sb1 = requires sb" using filters_calm [OF disjI1 [OF Pass]] assms(1) by auto
  have "step_fine sb1 (if inert (qs_pkt qs) then 0 else s_token (qs_pkt qs)) (dispatch mem tw sb1 qs)"
    by (rule dispatch_fine [OF s(2) filters_units [OF Pass] assms(2)])
  moreover have "step_fine sb1 w x \<Longrightarrow> step_fine sb w x" for w x using s(1) by (cases x) (auto simp: grows_def owns_def)
  ultimately show ?thesis using Pass by (simp add: body_def)
next
  case (Discard sb1)
  with filters_calm [OF disjI2 [OF Discard]] assms(1) show ?thesis by (simp add: body_def grows_same)
qed (simp add: body_def step_fine_mangled)

section \<open>Reads\<close>

definition keeps_rx :: "ssapblk \<Rightarrow> incoming list \<Rightarrow> ssapblk option \<Rightarrow> tsdu list \<Rightarrow> incoming list \<Rightarrow> bool" where
  "keeps_rx sb rx x out rx' \<longleftrightarrow> (\<forall>sb'. x = Some sb' \<longrightarrow> calm sb') \<and> plain_out out \<and> set rx' \<subseteq> set rx
     \<and> (\<forall>n. held x n + on_way rx' n \<le> held (Some sb) n + on_way rx n)"

lemma keeps_rx_trans:
  assumes "keeps_rx sb2 rx1 x out2 rx2" "plain_out out" "set rx1 \<subseteq> set rx"
    "\<And>n. held (Some sb2) n + on_way rx1 n \<le> held (Some sb) n + on_way rx n"
  shows "keeps_rx sb rx x (out @ out2) rx2"
  using assms unfolding keeps_rx_def plain_out_simps by (meson order_trans)

lemma keeps_rx_None:
  assumes "plain_out out" "set rx1 \<subseteq> set rx" "\<And>n. on_way rx1 n \<le> on_way rx n"
  shows "keeps_rx sb rx None out rx1"
  using assms by (simp add: keeps_rx_def trans_le_add2)

text \<open>Taking the next packet.\<close>

lemma take_buffered_fine:
  assumes "take_buffered sb = Some (qs, sb')" "calm sb"
  shows "calm sb'" "sb_owned sb' = sb_owned sb" "inert (qs_pkt qs)"
  using assms by (auto simp: take_buffered_def calm_def requires_def split: option.splits if_splits)

definition weight :: "got \<Rightarrow> byte" where
  "weight g = (case g of Got qs \<Rightarrow> if inert (qs_pkt qs) then 0 else s_token (qs_pkt qs) | _ \<Rightarrow> 0)"

lemma sb2spkt_fine:
  assumes "sb2spkt mem tw sb rx = (g, sb', out, rx')" "calm sb" "\<forall>r \<in> set rx. fine_in r"
  shows "calm sb'" "sb_owned sb' = sb_owned sb" "plain_out out" "set rx' \<subseteq> set rx"
    "\<And>qs. g = Got qs \<Longrightarrow> s_code (qs_pkt qs) \<noteq> SPDU_GTC" "\<And>n. of_bool (bit (weight g) n) + on_way rx' n \<le> on_way rx n"
proof -
  have "calm sb' \<and> sb_owned sb' = sb_owned sb \<and> plain_out out \<and> set rx' \<subseteq> set rx \<and> (\<forall>qs. g = Got qs \<longrightarrow> s_code (qs_pkt qs) \<noteq> SPDU_GTC)
    \<and> (\<forall>n. of_bool (bit (weight g) n) + on_way rx' n \<le> on_way rx n)"
  proof (cases "take_buffered sb")
    case (Some p)
    obtain qs sb1 where p: "p = (qs, sb1)" by (cases p)
    with assms(1) Some take_buffered_fine [OF Some [unfolded p] assms(2)] show ?thesis
      by (auto simp: sb2spkt_def weight_def inert_def)
  next
    case None
    show ?thesis
    proof (cases "\<exists>expd q rx1. rx = Arrive expd q # rx1")
      case True
      then obtain expd q rx1 where rx: "rx = Arrive expd q # rx1" by blast
      then have f: "fine (concat q)" using assms(3) by (simp add: fine_in_def)
      from tsdu2sb_fine [OF f assms(2), of mem tw expd] assms(1) None rx show ?thesis
        by (auto simp: sb2spkt_def reads_fine_def weight_def inert_def hands_over_def split: prod.splits got.splits)
    next
      case False
      with assms(1,2) None show ?thesis
        by (auto simp: sb2spkt_def weight_def split: list.splits incoming.splits)
    qed
  qed
  then show "calm sb'" "sb_owned sb' = sb_owned sb" "plain_out out" "set rx' \<subseteq> set rx"
    "\<And>qs. g = Got qs \<Longrightarrow> s_code (qs_pkt qs) \<noteq> SPDU_GTC" "\<And>n. of_bool (bit (weight g) n) + on_way rx' n \<le> on_way rx n" by auto
qed

lemma grows_held:
  assumes "grows sb1 (weight g) sb2" "sb_owned sb1 = sb_owned sb" "of_bool (bit (weight g) n) + on_way rx1 n \<le> on_way rx n"
  shows "held (Some sb2) n + on_way rx1 n \<le> held (Some sb) n + on_way rx n"
  using assms by (auto simp: grows_def owns_def)

lemma read_keeps:
  assumes "calm sb" "\<forall>r \<in> set rx. fine_in r"
  shows "keeps_rx sb rx (ro_sb (SReadRequestAux mem tw async sb rx)) (ro_out (SReadRequestAux mem tw async sb rx)) (ro_rx (SReadRequestAux mem tw async sb rx))"
  using assms
proof (induction mem tw async sb rx rule: SReadRequestAux.induct)
  case (1 mem tw async sb rx)
  obtain g sb1 out rx1 where s: "sb2spkt mem tw sb rx = (g, sb1, out, rx1)" by (metis prod_cases4)
  note f = sb2spkt_fine [OF s "1.prems"]
  have le: "on_way rx1 n \<le> on_way rx n" for n using f(6) [of n] by simp
  show ?case
  proof (cases g)
    case (GotNone r)
    with s f(1-4) le show ?thesis by (subst (1 2 3) SReadRequestAux.simps) (auto simp: keeps_rx_def owns_def intro: add_mono le_SucI)
  next
    case (Got qs)
    have b: "step_fine sb1 (weight g) (body mem tw sb1 qs)" using body_fine [OF f(1) f(5) [OF Got]] Got by (simp add: weight_def)
    show ?thesis
    proof (cases "body mem tw sb1 qs")
      case (Spin sb2)
      with b have g2: "grows sb1 (weight g) sb2" by simp
      then have c2: "calm sb2" by (simp add: grows_def)
      note h = grows_held [OF g2 f(2) f(6)]
      show ?thesis
      proof (cases "async \<and> sb_spdu sb2 = None")
        case True
        with s Got Spin f(3,4) c2 h show ?thesis by (subst (1 2 3) SReadRequestAux.simps) (auto simp: keeps_rx_def)
      next
        case False
        have "keeps_rx sb2 rx1 (ro_sb (SReadRequestAux mem tw async sb2 rx1)) (ro_out (SReadRequestAux mem tw async sb2 rx1)) (ro_rx (SReadRequestAux mem tw async sb2 rx1))"
          by (rule "1.IH") (use s Got Spin False c2 f(4) "1.prems"(2) in auto)
        from keeps_rx_trans [OF this f(3,4) h] s Got Spin False show ?thesis
          unfolding SReadRequestAux.simps [of mem tw async sb rx] by (auto simp: Let_def)
      qed
    next
      case (Ind i sb2 out2)
      with b have g2: "grows sb1 (weight g) sb2" "plain_out out2" by simp_all
      then have "calm sb2" by (simp add: grows_def)
      with s Got Ind f(3,4) g2(2) grows_held [OF g2(1) f(2) f(6)] show ?thesis by (subst (1 2 3) SReadRequestAux.simps) (auto simp: keeps_rx_def)
    next
      case (Over r out2)
      with b s Got f(3,4) le show ?thesis by (subst (1 2 3) SReadRequestAux.simps) (auto intro!: keeps_rx_None)
    next
      case (Aborted peer info)
      with s Got f(3,4) le show ?thesis by (subst (1 2 3) SReadRequestAux.simps) (auto intro!: keeps_rx_None)
    qed
  qed
qed

lemma rel_wait_keeps:
  assumes "calm sb" "\<forall>r \<in> set rx. fine_in r"
  shows "keeps_rx sb rx (rl_sb (rel_wait mem tw sb rx)) (rl_out (rel_wait mem tw sb rx)) (rl_rx (rel_wait mem tw sb rx))"
  using assms
proof (induction mem tw sb rx rule: rel_wait.induct)
  case (1 mem tw sb rx)
  obtain g sb1 out rx1 where s: "sb2spkt mem tw sb rx = (g, sb1, out, rx1)" by (metis prod_cases4)
  note f = sb2spkt_fine [OF s "1.prems"]
  have le: "on_way rx1 n \<le> on_way rx n" for n using f(6) [of n] by simp
  have gone: "keeps_rx sb rx None (out @ out2) rx1" "keeps_rx sb rx None out rx1" if "plain_out out2" for out2
    using that f(3,4) le by (auto intro!: keeps_rx_None)
  have stays: "keeps_rx sb rx (Some sb2) out rx1" if "calm sb2" "sb_owned sb2 = sb_owned sb1" for sb2
    using that f(2,3,4) le by (auto simp: keeps_rx_def owns_def)
  show ?case
  proof (cases g)
    case (GotNone r)
    have "calm (set_flags {SB_RELEASE} {} sb1)" using f(1) by (rule calm_flags) simp
    with s GotNone gone(2) [of "[]"] stays show ?thesis by (subst (1 2 3) rel_wait.simps) simp
  next
    case (Got qs)
    let ?s = "qs_pkt qs"
    show ?thesis
    proof (cases "s_code ?s = SPDU_FN")
      case True
      show ?thesis
      proof (cases "sb_retry sb1")
        case None
        with s Got True gone(2) [of "[]"] show ?thesis by (subst (1 2 3) rel_wait.simps) simp
      next
        case (Some p)
        let ?p = "p\<lparr>s_code := SPDU_DN\<rparr>" and ?sb = "sb1\<lparr>sb_retry := Some (p\<lparr>s_code := SPDU_DN\<rparr>)\<rparr>"
        obtain e out2 where w: "spkt2sd mem tw ?p False = (e, out2)" by fastforce
        have o2: "plain_out out2" using plain_spkt2sd [of ?p mem tw False] w by simp
        show ?thesis
        proof (cases "e = S_OK")
          case ok: True
          have "keeps_rx ?sb rx1 (rl_sb (rel_wait mem tw ?sb rx1)) (rl_out (rel_wait mem tw ?sb rx1)) (rl_rx (rel_wait mem tw ?sb rx1))"
            by (rule "1.IH") (use s Got True Some w ok f(1,4) "1.prems"(2) in auto)
          then have "keeps_rx sb rx (rl_sb (rel_wait mem tw ?sb rx1)) ((out @ out2) @ rl_out (rel_wait mem tw ?sb rx1)) (rl_rx (rel_wait mem tw ?sb rx1))"
            by (rule keeps_rx_trans) (use f(2-4) o2 le in \<open>simp_all add: owns_def\<close>)
          with s Got True Some w ok show ?thesis unfolding rel_wait.simps [of mem tw sb rx] by (simp add: Let_def)
        next
          case False
          with s Got True Some w gone(1) [OF o2] show ?thesis by (subst (1 2 3) rel_wait.simps) (simp add: Let_def split: sres.splits)
        qed
      qed
    next
      case False
      obtain r out2 where l: "spktlose mem tw sb1 SC_PROTOCOL = (r, out2)" by fastforce
      have o2: "plain_out out2" using plain_spktlose [of mem tw sb1 SC_PROTOCOL] l by simp
      have "calm (sb1\<lparr>sb_spdu := Some qs\<rparr>)" if "s_code ?s = SPDU_RS"
        using that f(1) by (auto simp: calm_def requires_def inert_def)
      with s Got False l gone(1) [OF o2] gone(2) [OF o2] stays f(1) show ?thesis
        by (subst (1 2 3) rel_wait.simps) (simp add: Let_def)
    qed
  qed
qed

lemma keeps_rx_lose: "calm sb \<Longrightarrow> keeps_rx sb rx (rl_sb (rel_lose r x rx)) (rl_out (rel_lose r x rx)) (rl_rx (rel_lose r x rx))"
  if "x = None \<or> x = Some sb"
  using that by (auto simp: rel_lose_def keeps_rx_def)

lemma keeps_rx_owned: "keeps_rx sb1 rx x out rx' \<Longrightarrow> sb_owned sb1 = sb_owned sb \<Longrightarrow> keeps_rx sb rx x out rx'"
  by (simp add: keeps_rx_def owns_def)

lemma release_keeps:
  assumes "calm sb" "\<forall>r \<in> set rx. fine_in r" "SRelRequest mem tw sb d rx = x \<or> SRelRetryRequest mem tw sb rx = x"
  shows "keeps_rx sb rx (rl_sb x) (rl_out x) (rl_rx x)"
proof -
  have a: "keeps_rx sb1 rx (rl_sb (SRelRetryRequestAux mem tw sb1 rx)) (rl_out (SRelRetryRequestAux mem tw sb1 rx)) (rl_rx (SRelRetryRequestAux mem tw sb1 rx))"
    if c: "calm sb1" for sb1
  proof (cases "SB_RELEASE \<in> sb_flags sb1 \<or> sb_retry sb1 = None")
    case True
    then show ?thesis using rel_wait_keeps [OF c assms(2)] keeps_rx_lose [OF disjI1 [OF refl] c]
      by (auto simp: SRelRetryRequestAux_def)
  next
    case False
    then obtain s where s: "SB_RELEASE \<notin> sb_flags sb1" "sb_retry sb1 = Some s" by auto
    define s1 where "s1 = Set SMASK_FN_DISC (s\<lparr>s_code := SPDU_FN, s_disconnect := 1\<rparr>)"
    define s2 where "s2 = s1\<lparr>s_mask := s_mask s1 - {SMASK_UDATA_PGI, SMASK_FN_DISC}, s_udata := None, s_disconnect := 0\<rparr>"
    obtain e out where w: "spkt2sd mem tw s1 False = (e, out)" by fastforce
    have o: "plain_out out" using plain_spkt2sd [of s1 mem tw False] w by (simp add: s1_def)
    let ?w = "rel_wait mem tw (sb1\<lparr>sb_retry := Some s2\<rparr>) rx"
    have "keeps_rx (sb1\<lparr>sb_retry := Some s2\<rparr>) rx (rl_sb ?w) (rl_out ?w) (rl_rx ?w)"
      by (rule rel_wait_keeps) (use c assms(2) in simp_all)
    then have k: "keeps_rx sb1 rx (rl_sb ?w) (out @ rl_out ?w) (rl_rx ?w)"
      by (rule keeps_rx_trans) (use o in \<open>simp_all add: owns_def\<close>)
    have n: "keeps_rx sb1 rx None out rx" by (rule keeps_rx_None) (use o in simp_all)
    show ?thesis using s w k n by (cases e) (simp_all add: SRelRetryRequestAux_def rel_lose_def Let_def s2_def s1_def)
  qed
  have r: "keeps_rx sb rx (rl_sb (SRelRetryRequestAux mem tw (sb\<lparr>sb_retry := p\<rparr>) rx)) (rl_out (SRelRetryRequestAux mem tw (sb\<lparr>sb_retry := p\<rparr>) rx))
      (rl_rx (SRelRetryRequestAux mem tw (sb\<lparr>sb_retry := p\<rparr>) rx))" for p
    by (rule keeps_rx_owned [OF a]) (use assms(1) in simp_all)
  show ?thesis using assms(3) a [OF assms(1)] r keeps_rx_lose [OF disjI2 [OF refl] assms(1)]
    by (auto simp: SRelRequest_def SRelRetryRequest_def SRelRequestAux_def split: option.splits if_splits)
qed

section \<open>The invariant\<close>

definition tokens_unique :: "world \<Rightarrow> bool" where
  "tokens_unique w \<longleftrightarrow> (\<forall>sb. w_a w = Some sb \<or> w_b w = Some sb \<longrightarrow> calm sb) \<and> (\<forall>r \<in> set (w_ab w) \<union> set (w_ba w). fine_in r)
     \<and> (\<forall>n. held (w_a w) n + held (w_b w) n + on_way (w_ab w) n + on_way (w_ba w) n \<le> 1)"

lemma keeps_rx_refl: "calm sb \<Longrightarrow> keeps_rx sb rx (Some sb) [] rx"
  by (simp add: keeps_rx_def)

lemma SReadRequest_keeps:
  "calm sb \<Longrightarrow> \<forall>r \<in> set rx. fine_in r \<Longrightarrow> SReadRequest mem tw sb rx = r \<Longrightarrow> keeps_rx sb rx (ro_sb r) (ro_out r) (ro_rx r)"
  using read_keeps [of sb rx mem tw False] keeps_rx_refl [of sb rx] by (auto simp: SReadRequest_def split: if_splits)

text \<open>A call and a read of one side, seen from both.\<close>

lemma unique_keeps:
  assumes "calm sb" "keeps sb x out" "held (Some sb) n + k + on_way ab n + m \<le> (1 :: nat)"
  shows "held x n + k + on_way (ab @ map deliver out) n + m \<le> 1"
proof -
  have "held x n + on_way (map deliver out) n \<le> held (Some sb) n" using assms(2) unfolding keeps_def by blast
  with assms(3) show ?thesis unfolding on_way_simps by linarith
qed

lemma unique_keeps_rx:
  assumes "keeps_rx sb rx x out rx'" "held (Some sb) n + k + m + on_way rx n \<le> (1 :: nat)"
  shows "held x n + k + (m + on_way (map deliver out) n) + on_way rx' n \<le> 1"
proof -
  have "held x n + on_way rx' n \<le> held (Some sb) n + on_way rx n" "plain_out out" using assms(1) unfolding keeps_rx_def by blast+
  with assms(2) deliver_empty [of out n] show ?thesis by linarith
qed

lemma keeps_rx_fine: "keeps_rx sb rx x out rx' \<Longrightarrow> \<forall>r \<in> set rx. fine_in r \<Longrightarrow> (\<forall>r \<in> set rx'. fine_in r) \<and> (\<forall>r \<in> set (map deliver out). fine_in r)"
  unfolding keeps_rx_def using deliver_fine [of out] by blast

lemma tokens_unique_step:
  assumes "step w w'" "tokens_unique w"
  shows "tokens_unique w'"
  using assms
proof (induction rule: step.induct)
  case (call_a w sb mem tw c r)
  then have c: "calm sb" by (simp add: tokens_unique_def)
  note k = keeps_perform [OF c call_a(2)]
  have "held (rp_sb r) n + held (w_b w) n + on_way (w_ab w @ map deliver (rp_out r)) n + on_way (w_ba w) n \<le> 1" for n
    by (rule unique_keeps [OF c k]) (use call_a in \<open>simp add: tokens_unique_def\<close>)
  with k call_a show ?case by (auto simp: tokens_unique_def keeps_def simp del: on_way_simps)
next
  case (call_b w sb mem tw c r)
  then have c: "calm sb" by (simp add: tokens_unique_def)
  note k = keeps_perform [OF c call_b(2)]
  have "held (rp_sb r) n + held (w_a w) n + on_way (w_ba w @ map deliver (rp_out r)) n + on_way (w_ab w) n \<le> 1" for n
    by (rule unique_keeps [OF c k]) (use call_b in \<open>simp add: tokens_unique_def ac_simps\<close>)
  with k call_b show ?case by (auto simp: tokens_unique_def keeps_def ac_simps simp del: on_way_simps)
next
  case (read_a w sb mem tw r)
  then have k: "keeps_rx sb (w_ba w) (ro_sb r) (ro_out r) (ro_rx r)" by (intro SReadRequest_keeps) (auto simp: tokens_unique_def)
  have "held (ro_sb r) n + held (w_b w) n + (on_way (w_ab w) n + on_way (map deliver (ro_out r)) n) + on_way (ro_rx r) n \<le> 1" for n
    by (rule unique_keeps_rx [OF k]) (use read_a in \<open>simp add: tokens_unique_def\<close>)
  with k keeps_rx_fine [OF k] read_a show ?case by (auto simp: tokens_unique_def keeps_rx_def)
next
  case (read_b w sb mem tw r)
  then have k: "keeps_rx sb (w_ab w) (ro_sb r) (ro_out r) (ro_rx r)" by (intro SReadRequest_keeps) (auto simp: tokens_unique_def)
  have "held (ro_sb r) n + held (w_a w) n + (on_way (w_ba w) n + on_way (map deliver (ro_out r)) n) + on_way (ro_rx r) n \<le> 1" for n
    by (rule unique_keeps_rx [OF k]) (use read_b in \<open>simp add: tokens_unique_def ac_simps\<close>)
  with k keeps_rx_fine [OF k] read_b show ?case by (auto simp: tokens_unique_def keeps_rx_def ac_simps)
next
  case (release_a w sb mem tw d r)
  then have k: "keeps_rx sb (w_ba w) (rl_sb r) (rl_out r) (rl_rx r)" by (intro release_keeps) (auto simp: tokens_unique_def)
  have "held (rl_sb r) n + held (w_b w) n + (on_way (w_ab w) n + on_way (map deliver (rl_out r)) n) + on_way (rl_rx r) n \<le> 1" for n
    by (rule unique_keeps_rx [OF k]) (use release_a in \<open>simp add: tokens_unique_def\<close>)
  with k keeps_rx_fine [OF k] release_a show ?case by (auto simp: tokens_unique_def keeps_rx_def)
next
  case (release_b w sb mem tw d r)
  then have k: "keeps_rx sb (w_ab w) (rl_sb r) (rl_out r) (rl_rx r)" by (intro release_keeps) (auto simp: tokens_unique_def)
  have "held (rl_sb r) n + held (w_a w) n + (on_way (w_ba w) n + on_way (map deliver (rl_out r)) n) + on_way (rl_rx r) n \<le> 1" for n
    by (rule unique_keeps_rx [OF k]) (use release_b in \<open>simp add: tokens_unique_def ac_simps\<close>)
  with k keeps_rx_fine [OF k] release_b show ?case by (auto simp: tokens_unique_def keeps_rx_def ac_simps)
qed (auto simp: tokens_unique_def ac_simps)

lemma tokens_unique_reachable: "reachable w0 w \<Longrightarrow> tokens_unique w0 \<Longrightarrow> tokens_unique w"
  by (induction rule: reachable.induct) (auto intro: tokens_unique_step)

text \<open>
  C6: A token is in one place. Two machines of a session without activities and resynchronization, that do
  not start out with a common token, make any calls of the service, read, release and lose their memory or
  their transport in any order, while expedited units overtake others: at every moment no token belongs to
  both, or to one while it is on its way to either, or is on its way twice.
\<close>

theorem tokens_exclusive:
  assumes "\<not> requires a SR_ACTIVITY" "\<not> requires a SR_RESYNC" "\<not> requires b SR_ACTIVITY" "\<not> requires b SR_RESYNC"
    "sb_flags a \<inter> {SB_Vact, SB_GTC} = {}" "sb_flags b \<inter> {SB_Vact, SB_GTC} = {}"
    "sb_spdu a = None" "sb_xspdu a = None" "sb_spdu b = None" "sb_xspdu b = None" "sb_owned a AND sb_owned b = 0"
    "reachable \<lparr>w_a = Some a, w_b = Some b, w_ab = [], w_ba = []\<rparr> w"
  shows "held (w_a w) n + held (w_b w) n + on_way (w_ab w) n + on_way (w_ba w) n \<le> 1"
proof -
  have "\<not> (owns a n \<and> owns b n)" for n using assms(11) by (metis bit_0_eq bit_and_iff bot_apply bot_bool_def owns_def)
  then have "tokens_unique \<lparr>w_a = Some a, w_b = Some b, w_ab = [], w_ba = []\<rparr>"
    using assms(1-10) by (auto simp: tokens_unique_def calm_def)
  from tokens_unique_reachable [OF assms(12) this] show ?thesis by (simp add: tokens_unique_def)
qed

text \<open>The sender of the example gives its data token away; both then read.\<close>

definition given_example :: reply where
  "given_example = SGTokenRequest (\<lambda>_. True) (\<lambda>_. None) sender_example 1"

definition world_example :: world where
  "world_example = \<lparr>w_a = Some sender_example, w_b = Some receiver_example, w_ab = [], w_ba = []\<rparr>"

definition given_world :: world where
  "given_world = world_example\<lparr>w_a := rp_sb given_example, w_ab := w_ab world_example @ map deliver (rp_out given_example)\<rparr>"

lemma given_reachable: "reachable world_example given_world"
proof -
  have "w_a world_example = Some sender_example" by (simp add: world_example_def)
  moreover have "perform (\<lambda>_. True) (\<lambda>_. None) sender_example (C_GIVE 1) = Some given_example" by (simp add: given_example_def)
  ultimately have "step world_example given_world" unfolding given_world_def by (rule call_a)
  with reachable.start show ?thesis by (rule reachable.step)
qed

theorem tokens_exclusive_witness:
  "held (w_a given_world) 0 + held (w_b given_world) 0 + on_way (w_ab given_world) 0 + on_way (w_ba given_world) 0 \<le> 1"
proof (rule tokens_exclusive)
  show "reachable \<lparr>w_a = Some sender_example, w_b = Some receiver_example, w_ab = [], w_ba = []\<rparr> given_world"
    using given_reachable by (simp add: world_example_def)
qed (simp_all add: sender_example_def receiver_example_def newsblk_def requires_def)

end
