(* ===== verification/Spm_Connect.thy ===== *)
theory Spm_Connect
  imports Spm_Data
begin

text \<open>
  The session protocol machine, its connection: the initiator of \<^verbatim>\<open>ssap/ssapinitiate.c\<close> and the responder of
  \<^verbatim>\<open>ssap/ssaprespond.c\<close>, and the refusing half of \<^verbatim>\<open>spktlose\<close>.

  Opening the transport connection is an argument. Of an address the session selector is kept. The argument
  vector of a server that another program has started is left out: \<open>SInit\<close> gets the transport connection,
  and the first unit or the packet that the other program has read. The type \<^verbatim>\<open>char\<close> has a sign.
\<close>

section \<open>Types\<close>

abbreviation (input) SR_DUPLEX :: "16 word" where "SR_DUPLEX \<equiv> 0x0002"
abbreviation (input) SR_MYREQUIRE :: "16 word" where "SR_MYREQUIRE \<equiv> 0x07ff"
abbreviation (input) SR_DEFAULT :: "16 word" where "SR_DEFAULT \<equiv> 0x0349"
abbreviation (input) SR_SYNC :: "16 word" where "SR_SYNC \<equiv> 0x0038"
abbreviation (input) SB_ALLVRSNS :: byte where "SB_ALLVRSNS \<equiv> 3"
abbreviation (input) SERIAL_NONE :: int where "SERIAL_NONE \<equiv> -1"
abbreviation (input) CONNECT_MAX :: nat where "CONNECT_MAX \<equiv> 10240"
abbreviation (input) SS_SIZE :: nat where "SS_SIZE \<equiv> 512"
abbreviation (input) SSSIZE :: nat where "SSSIZE \<equiv> 64"
abbreviation (input) DT_MINSIZE :: int where "DT_MINSIZE \<equiv> 64"

definition u16_bic :: "16 word \<Rightarrow> 16 word \<Rightarrow> 16 word" where
  "u16_bic v bits = v AND NOT bits"

definition GET_TSDU_SIZE :: "int \<Rightarrow> int" where
  "GET_TSDU_SIZE s = (if s < DT_MINSIZE then 0 else s)"

definition BAD_TSDU_SIZE :: "int \<Rightarrow> bool" where
  "BAD_TSDU_SIZE s \<longleftrightarrow> s \<noteq> 0 \<and> s < DT_MINSIZE"

text \<open>The quality of service that is asked for, as far as the session looks at it.\<close>

record QOStype =
  qos_sversion :: int
  qos_extended :: bool

text \<open>What opening a transport connection comes to: it fails, goes on, or is there.\<close>

datatype tconn = T_LOSE td_reason | T_WAIT | T_OPEN TSAPconnect

record TSAPstart =
  ts_expedited :: bool
  ts_tsdusize :: int

text \<open>The confirmation and the indication of a connection.\<close>

record SSAPconnect =
  sc_open :: bool
  sc_connect :: SSAPref
  sc_responding :: "byte list"
  sc_result :: int
  sc_requirements :: "16 word"
  sc_settings :: byte
  sc_please :: byte
  sc_isn :: int
  sc_ssdusize :: int
  sc_qos :: QOStype
  sc_data :: "byte list"
  sc_cc :: int

record SSAPstart =
  ss_connect :: SSAPref
  ss_calling :: "byte list"
  ss_called :: "byte list"
  ss_requirements :: "16 word"
  ss_settings :: byte
  ss_isn :: int
  ss_ssdusize :: int
  ss_qos :: QOStype
  ss_data :: "byte list option"

definition null_connect :: SSAPconnect where
  "null_connect = \<lparr>sc_open = False, sc_connect = null_ref, sc_responding = [], sc_result = 0, sc_requirements = 0, sc_settings = 0,
     sc_please = 0, sc_isn = 0, sc_ssdusize = 0, sc_qos = \<lparr>qos_sversion = 0, qos_extended = False\<rparr>, sc_data = [], sc_cc = 0\<rparr>"

text \<open>The numbers of the error codes.\<close>

fun sc_number :: "sc \<Rightarrow> int" where
  "sc_number (Errno SC_ACCEPT) = -1"
| "sc_number (Errno SC_CONGEST) = 0x83"
| "sc_number (Errno SC_PROTOCOL) = 0x89"
| "sc_number (Errno SC_NONE) = 0"
| "sc_number SC_VERSION = 0x84"
| "sc_number SC_ADDRESS = 0x85"
| "sc_number SC_REFUSED = 0x86"
| "sc_number SC_TRANSPORT = 0x87"
| "sc_number SC_ABORT = 0x88"
| "sc_number SC_PARAMETER = 0x8a"
| "sc_number SC_OPERATION = 0x8b"
| "sc_number SC_TIMER = 0x8c"
| "sc_number SC_WAITING = 0x8d"
| "sc_number (SC_OTHER n) = n"

text \<open>
  The result of a call of the initiator. \<open>RET_UNDEF\<close> is the value of a variable that was never assigned; the
  block is gone when it is \<open>None\<close>.
\<close>

datatype conn_ret = RET_OK | RET_DONE | RET_CONNECTING | RET_NOTOK sres | RET_UNDEF

record conn_reply =
  cr_ret :: conn_ret
  cr_sb :: "ssapblk option"
  cr_sc :: "SSAPconnect option"
  cr_out :: "tsdu list"
  cr_rx :: "incoming list"

definition conn_lost :: "conn_ret \<Rightarrow> tsdu list \<Rightarrow> incoming list \<Rightarrow> conn_reply" where
  "conn_lost r out rx = \<lparr>cr_ret = r, cr_sb = None, cr_sc = None, cr_out = out, cr_rx = rx\<rparr>"

section \<open>The answer\<close>

text \<open>The tokens at the initiator: the ownership, and the settings and wishes that are reported.\<close>

definition confirmed_setting :: "ssapblk \<Rightarrow> ssapkt \<Rightarrow> nat \<Rightarrow> int" where
  "confirmed_setting sb s n =
     (let v = setting (uint (sb_settings sb)) n in
      if v = ST_CALL_VALUE
      then if SMASK_CN_SET \<in> s_mask s \<and> setting (uint (s_settings s)) n = ST_RESP_VALUE then ST_RESP_VALUE else ST_INIT_VALUE
      else v)"

definition confirm_owned :: "ssapblk \<Rightarrow> ssapkt \<Rightarrow> byte" where
  "confirm_owned sb s =
     foldl (\<lambda>w n. if token_exists sb n \<and> confirmed_setting sb s n = ST_INIT_VALUE then set_bit n w else w) (sb_owned sb) tokens"

definition confirm_settings :: "ssapblk \<Rightarrow> ssapkt \<Rightarrow> byte" where
  "confirm_settings sb s =
     foldl (\<lambda>w n. if token_exists sb n \<and> confirmed_setting sb s n = ST_RESP_VALUE then set_bit n w else w) 0 tokens"

definition confirm_please :: "ssapblk \<Rightarrow> ssapkt \<Rightarrow> byte" where
  "confirm_please sb s =
     foldl (\<lambda>w n. if token_exists sb n \<and> SMASK_AC_TOKEN \<in> s_mask s \<and> bit (s_token s) n then set_bit n w else w) 0 tokens"

text \<open>The negotiation: \<open>None\<close> is an error of the protocol.\<close>

definition proposed :: "ssapkt \<Rightarrow> 16 word" where
  "proposed s = (if SMASK_CN_REQ \<in> s_mask s then s_require s else SR_DEFAULT)"

definition confirm_block :: "ssapblk \<Rightarrow> ssapkt \<Rightarrow> ssapblk option" where
  "confirm_block sb s =
     (let init = (if SMASK_CN_TSDU \<in> s_mask s then uint (s_tsdu_init s) else 0);
          resp = (if SMASK_CN_TSDU \<in> s_mask s then uint (s_tsdu_resp s) else 0);
          us = (if init < sb_tsdu_us sb then init else sb_tsdu_us sb);
          them = (if resp < sb_tsdu_them sb then resp else sb_tsdu_them sb);
          vm = (if SMASK_CN_VRSN \<in> s_mask s then sb_vrsnmask sb AND s_version s else sb_vrsnmask sb);
          req = sb_requirements sb AND proposed s;
          sb1 = sb\<lparr>sb_options := (if SMASK_CN_OPT \<in> s_mask s then s_options s else sb_options sb),
            sb_tsdu_us := us, sb_tsdu_them := them, sb_vrsnmask := vm, sb_version := (if bit vm 1 then 1 else 0),
            sb_V_A := (if SMASK_CN_ISN \<in> s_mask s then int (s_isn s) else sb_V_A sb),
            sb_V_M := (if SMASK_CN_ISN \<in> s_mask s then int (s_isn s) else sb_V_M sb), sb_requirements := req\<rparr> in
      if BAD_TSDU_SIZE us \<or> BAD_TSDU_SIZE them \<or> SMASK_CN_VRSN \<in> s_mask s \<and> s_version s AND sb_vrsnmask sb = 0
         \<or> proposed s AND NOT (sb_requirements sb) \<noteq> 0
         \<or> (req AND (SR_HALFDUPLEX OR SR_DUPLEX) \<noteq> SR_HALFDUPLEX \<and> req AND (SR_HALFDUPLEX OR SR_DUPLEX) \<noteq> SR_DUPLEX)
         \<or> req AND SR_EXCEPTIONS \<noteq> 0 \<and> req AND SR_HALFDUPLEX = 0 \<or> req AND SR_CAPABILITY \<noteq> 0 \<and> req AND SR_ACTIVITY = 0
      then None
      else Some (set_flags {SB_CONN, SB_INIT} {} (sb1\<lparr>sb_owned := confirm_owned sb1 s,
             sb_responding := (if SMASK_CN_CALLED \<in> s_mask s then take SSSIZE (s_called s) else sb_responding sb)\<rparr>)))"

definition confirm_connect :: "ssapblk \<Rightarrow> ssapblk \<Rightarrow> TSAPconnect \<Rightarrow> ssapkt \<Rightarrow> SSAPconnect" where
  "confirm_connect sb sb1 tc s =
     null_connect\<lparr>sc_open := True, sc_result := -1,
       sc_connect := (if SMASK_CN_REF \<in> s_mask s then s_reference s else null_ref),
       sc_isn := (if SMASK_CN_ISN \<in> s_mask s then int (s_isn s) else SERIAL_NONE),
       sc_requirements := sb_requirements sb1,
       sc_settings := confirm_settings sb1 s, sc_please := confirm_please sb1 s,
       sc_responding := sb_responding sb1,
       sc_ssdusize := (if sb_tsdu_us sb1 - SSDU_MAGIC < 0 then tc_tsdusize tc else sb_tsdu_us sb1) - SSDU_MAGIC,
       sc_qos := \<lparr>qos_sversion = int (sb_version sb1) + 1, qos_extended = (SB_EXPD \<in> sb_flags sb1)\<rparr>,
       sc_data := octs (s_udata s), sc_cc := int (length (octs (s_udata s)))\<rparr>"

text \<open>A refusal: the first octet of the data is the reason, with the sign of a \<^verbatim>\<open>char\<close>.\<close>

definition refused_connect :: "ssapblk \<Rightarrow> ssapkt \<Rightarrow> SSAPconnect" where
  "refused_connect sb s =
     (let r = octs (s_rdata s); result = (if r = [] then 0 else sint (r ! 0)) in
      null_connect\<lparr>sc_result := result,
        sc_connect := (if SMASK_RF_REF \<in> s_mask s then s_reference s else null_ref),
        sc_requirements := (if result = 2 \<and> SMASK_RF_REQ \<in> s_mask s then s_require s else 0),
        sc_responding := (if SMASK_CN_CALLED \<in> s_mask s \<and> result AND 0x80 \<noteq> 0 then take SSSIZE (s_called s) else sb_responding sb),
        sc_data := drop 1 r, sc_cc := int (length r) - 1\<rparr>)"

definition SAsynRetryAux2 :: "(int \<Rightarrow> bool) \<Rightarrow> (tsdu \<Rightarrow> td_reason option) \<Rightarrow> ssapblk \<Rightarrow> TSAPconnect \<Rightarrow> incoming list \<Rightarrow> conn_reply" where
  "SAsynRetryAux2 mem tw sb tc rx =
     (case sb2spkt mem tw (sb\<lparr>sb_retry := None\<rparr>) rx of
        (GotNone r, sb1, out, rx1) \<Rightarrow> conn_lost (RET_NOTOK (if r = S_NOTOK SC_TIMER then S_NOTOK (Errno SC_CONGEST) else r)) out rx1
      | (Got qs, sb1, out, rx1) \<Rightarrow>
          (let s = qs_pkt qs; c = s_code s;
               lose = (case spktlose mem tw sb1 SC_PROTOCOL of (r, out2) \<Rightarrow> conn_lost (RET_NOTOK r) (out @ out2) rx1) in
           if c = SPDU_AC
           then (case confirm_block sb1 s of
                   None \<Rightarrow> lose
                 | Some sb2 \<Rightarrow> \<lparr>cr_ret = RET_DONE, cr_sb = Some sb2, cr_sc = Some (confirm_connect sb1 sb2 tc s), cr_out = out, cr_rx = rx1\<rparr>)
           else if c = SPDU_RF
           then (conn_lost RET_DONE out rx1)\<lparr>cr_sc := Some (refused_connect sb1 s)\<rparr>
           else if c = SPDU_AB
           then (conn_lost RET_DONE out rx1)\<lparr>cr_sc := Some (null_connect\<lparr>sc_result := sc_number SC_ABORT\<rparr>)\<rparr>
           else lose))"

section \<open>The request\<close>

text \<open>
  The transport connection is there: the packet is completed and sent. When the transport refuses it, the
  packet is freed, and then once more with the block, which still points to it.
\<close>

definition offer_sizes :: "ssapblk \<Rightarrow> ssapkt \<Rightarrow> ssapkt" where
  "offer_sizes sb s =
     (if sb_tsdu_us sb \<noteq> 0 \<or> sb_tsdu_them sb \<noteq> 0
      then Set SMASK_CN_TSDU (s\<lparr>s_tsdu_resp := word_of_int (GET_TSDU_SIZE (sb_tsdu_us sb)),
             s_tsdu_init := word_of_int (GET_TSDU_SIZE (sb_tsdu_them sb))\<rparr>)
      else s)"

definition offer_units :: "ssapblk \<Rightarrow> byte \<Rightarrow> ssapkt \<Rightarrow> ssapkt" where
  "offer_units sb w s =
     (let s1 = Set SMASK_CN_REQ (s\<lparr>s_require := sb_requirements sb\<rparr>) in
      if requires sb SR_TOKENS then Set SMASK_CN_SET (s1\<lparr>s_settings := w\<rparr>) else s1)"

definition transport_open :: "ssapblk \<Rightarrow> TSAPconnect \<Rightarrow> ssapblk" where
  "transport_open sb tc =
     (if tc_expedited tc then set_flags {SB_TS_CONN, SB_EXPD} {} sb
      else (set_flags {SB_TS_CONN} {} sb)\<lparr>sb_requirements := u16_bic (sb_requirements sb) SR_EXPEDITED\<rparr>)"

definition own_sizes :: "ssapblk \<Rightarrow> TSAPconnect \<Rightarrow> ssapblk option" where
  "own_sizes sb tc =
     (if sb_version sb < 1
      then map_option (\<lambda>z. sb\<lparr>sb_tsdu_us := uint z, sb_tsdu_them := uint z\<rparr>) (int2u16 (GET_TSDU_SIZE (tc_tsdusize tc)))
      else Some sb)"

definition SAsynRetryAux1 :: "(int \<Rightarrow> bool) \<Rightarrow> (tsdu \<Rightarrow> td_reason option) \<Rightarrow> ssapblk \<Rightarrow> TSAPconnect \<Rightarrow> incoming list \<Rightarrow> conn_reply" where
  "SAsynRetryAux1 mem tw sb tc rx =
     (let sb1 = transport_open sb tc in
      case own_sizes sb1 tc of
        None \<Rightarrow> \<lparr>cr_ret = RET_NOTOK (S_NOTOK (Errno SC_PROTOCOL)), cr_sb = Some sb1, cr_sc = None, cr_out = [], cr_rx = rx\<rparr>
      | Some sb2 \<Rightarrow>
          (case sb_retry sb2 of
             None \<Rightarrow> conn_lost (RET_NOTOK S_FAULT) [] rx
           | Some s \<Rightarrow>
               (let s1 = offer_units sb2 (sb_settings sb2) (offer_sizes sb2 s); sb3 = sb2\<lparr>sb_retry := Some s1\<rparr> in
                case spkt2sd mem tw s1 False of
                  (S_OK, out) \<Rightarrow>
                    if SB_ASYNC_CONN \<in> sb_flags sb3
                    then \<lparr>cr_ret = RET_CONNECTING, cr_sb = Some (sb3\<lparr>sb_tc := tc\<rparr>), cr_sc = None, cr_out = out, cr_rx = rx\<rparr>
                    else (let r = SAsynRetryAux2 mem tw sb3 tc rx in r\<lparr>cr_out := out @ cr_out r\<rparr>)
                | (_, out) \<Rightarrow> conn_lost (RET_NOTOK S_FAULT) out rx)))"

text \<open>The packet as the request leaves it, and the version of the protocol that it asks for.\<close>

definition wants_version2 :: "byte list \<Rightarrow> QOStype option \<Rightarrow> bool" where
  "wants_version2 d qos =
     (case qos of None \<Rightarrow> length d > SS_SIZE
      | Some q \<Rightarrow> 0 \<le> qos_sversion q \<and> (length d > SS_SIZE \<or> qos_sversion q > 1))"

definition connect_spkt :: "SSAPref \<Rightarrow> byte list option \<Rightarrow> byte list \<Rightarrow> byte \<Rightarrow> int \<Rightarrow> byte list \<Rightarrow> ssapkt" where
  "connect_spkt ref calling called vrsns isn d =
     (let s0 = newspkt SPDU_CN;
          s1 = (case calling of Some a \<Rightarrow> if a \<noteq> [] then Set SMASK_CN_CALLING (s0\<lparr>s_calling := a\<rparr>) else s0 | None \<Rightarrow> s0);
          s2 = (if called \<noteq> [] then Set SMASK_CN_CALLED (s1\<lparr>s_called := called\<rparr>) else s1);
          s3 = Set SMASK_CN_REF (Set SMASK_CN_OPT (Set SMASK_CN_VRSN (s2\<lparr>s_reference := ref, s_options := 0, s_version := vrsns\<rparr>)));
          s4 = (if isn \<noteq> SERIAL_NONE then Set SMASK_CN_ISN (s3\<lparr>s_isn := nat isn\<rparr>) else s3) in
      add_udata d s4)"

definition connect_block :: "byte list option \<Rightarrow> byte list \<Rightarrow> 16 word \<Rightarrow> byte \<Rightarrow> bool \<Rightarrow> bool \<Rightarrow> ssapkt \<Rightarrow> ssapblk" where
  "connect_block calling called req w async v2 s =
     newsblk\<lparr>sb_initiating := (case calling of Some a \<Rightarrow> a | None \<Rightarrow> []), sb_responding := called, sb_requirements := req, sb_settings := w,
       sb_flags := (if async then {SB_ASYNC_CONN} else {}), sb_version := (if v2 then 1 else 0),
       sb_vrsnmask := (if v2 then 2 else SB_ALLVRSNS), sb_retry := Some s\<rparr>"

definition wants_expedited :: "int \<Rightarrow> QOStype option \<Rightarrow> bool" where
  "wants_expedited requirements qos \<longleftrightarrow> (case qos of Some q \<Rightarrow> qos_extended q | None \<Rightarrow> False) \<or> bit requirements 2"

text \<open>
  The request itself. A selector that does not fit into its array is a fault. A transport that makes a request
  that waits go on without a connection leaves the structure unset that the code then reads.
\<close>

definition SConnRequestAux :: "(int \<Rightarrow> bool) \<Rightarrow> (tsdu \<Rightarrow> td_reason option) \<Rightarrow> (bool \<Rightarrow> bool \<Rightarrow> tconn) \<Rightarrow> SSAPref \<Rightarrow> byte list option \<Rightarrow>
    byte list \<Rightarrow> int \<Rightarrow> int \<Rightarrow> int \<Rightarrow> byte list \<Rightarrow> QOStype option \<Rightarrow> bool \<Rightarrow> incoming list \<Rightarrow> conn_reply" where
  "SConnRequestAux mem tw tcon ref calling called requirements settings isn d qos async rx =
     (if length called > SSSIZE \<or> (case calling of Some a \<Rightarrow> length a > SSSIZE | None \<Rightarrow> False) then conn_lost (RET_NOTOK S_FAULT) [] rx
      else case (int2u16 requirements, int2u8 settings) of
        (Some req, Some w) \<Rightarrow>
          (let v2 = wants_version2 d qos;
               sb = connect_block calling called req w async v2 (connect_spkt ref calling called (if v2 then 2 else SB_ALLVRSNS) isn d) in
           case tcon (wants_expedited requirements qos) async of
             T_LOSE r \<Rightarrow> (conn_lost RET_DONE [] rx)\<lparr>cr_sc := Some (null_connect\<lparr>sc_result := sc_number (ts2sslose r)\<rparr>)\<rparr>
           | T_WAIT \<Rightarrow>
               if async then \<lparr>cr_ret = RET_CONNECTING, cr_sb = Some sb, cr_sc = None, cr_out = [], cr_rx = rx\<rparr>
               else conn_lost RET_UNDEF [] rx
           | T_OPEN tc \<Rightarrow>
               (let r = SAsynRetryAux1 mem tw sb tc rx in
                if cr_ret r = RET_DONE \<and> \<not> async then r\<lparr>cr_ret := RET_OK\<rparr> else r))
      | _ \<Rightarrow> conn_lost RET_UNDEF [] rx)"

definition bad_serial :: "16 word \<Rightarrow> int \<Rightarrow> bool" where
  "bad_serial req isn \<longleftrightarrow>
     (if req AND SR_SYNC \<noteq> 0 then (req AND SR_ACTIVITY = 0 \<or> isn \<noteq> SERIAL_NONE) \<and> (isn < 0 \<or> isn > int SERIAL_MAX + 1)
      else isn \<noteq> SERIAL_NONE)"

text \<open>The requirements are an \<^verbatim>\<open>int\<close>: any bit outside of the supported ones is refused before they are looked at.\<close>

definition SAsynConnRequest :: "(int \<Rightarrow> bool) \<Rightarrow> (tsdu \<Rightarrow> td_reason option) \<Rightarrow> (bool \<Rightarrow> bool \<Rightarrow> tconn) \<Rightarrow> SSAPref \<Rightarrow> byte list option \<Rightarrow>
    byte list \<Rightarrow> int \<Rightarrow> int \<Rightarrow> int \<Rightarrow> byte list \<Rightarrow> QOStype option \<Rightarrow> bool \<Rightarrow> incoming list \<Rightarrow> conn_reply" where
  "SAsynConnRequest mem tw tcon ref calling called requirements settings isn d qos async rx =
     (let req = word_of_int requirements in
      if refmuchP ref \<or> sr_vdata ref \<noteq> [] \<or> requirements AND NOT (uint SR_MYREQUIRE) \<noteq> 0
         \<or> req AND SR_EXCEPTIONS \<noteq> 0 \<and> req AND SR_HALFDUPLEX = 0
         \<or> list_ex (\<lambda>n. token_exists (newsblk\<lparr>sb_requirements := req\<rparr>) n \<and> setting settings n = 3) tokens
         \<or> bad_serial req isn \<or> length d > CONNECT_MAX
      then conn_lost (RET_NOTOK (S_NOTOK SC_PARAMETER)) [] rx
      else SConnRequestAux mem tw tcon ref calling called requirements settings isn d qos async rx)"

text \<open>The two ways on for a connection that is asked for without waiting.\<close>

definition transport_next :: "(int \<Rightarrow> bool) \<Rightarrow> (tsdu \<Rightarrow> td_reason option) \<Rightarrow> tconn \<Rightarrow> ssapblk \<Rightarrow> incoming list \<Rightarrow> conn_reply" where
  "transport_next mem tw t sb rx =
     (case t of
        T_LOSE r \<Rightarrow> (conn_lost RET_DONE [] rx)\<lparr>cr_sc := Some (null_connect\<lparr>sc_result := sc_number (ts2sslose r)\<rparr>)\<rparr>
      | T_WAIT \<Rightarrow> \<lparr>cr_ret = RET_CONNECTING, cr_sb = Some sb, cr_sc = None, cr_out = [], cr_rx = rx\<rparr>
      | T_OPEN tc \<Rightarrow> SAsynRetryAux1 mem tw sb tc rx)"

definition SAsynRetryRequest :: "(int \<Rightarrow> bool) \<Rightarrow> (tsdu \<Rightarrow> td_reason option) \<Rightarrow> tconn \<Rightarrow> ssapblk \<Rightarrow> incoming list \<Rightarrow> conn_reply" where
  "SAsynRetryRequest mem tw t sb rx =
     (if SB_CONN \<in> sb_flags sb
      then \<lparr>cr_ret = RET_NOTOK (S_NOTOK SC_OPERATION), cr_sb = Some sb, cr_sc = None, cr_out = [], cr_rx = rx\<rparr>
      else if SB_TS_CONN \<in> sb_flags sb then SAsynRetryAux2 mem tw sb (sb_tc sb) rx
      else transport_next mem tw t sb rx)"

definition SAsynNextRequest :: "(int \<Rightarrow> bool) \<Rightarrow> (tsdu \<Rightarrow> td_reason option) \<Rightarrow> tconn \<Rightarrow> ssapblk \<Rightarrow> incoming list \<Rightarrow> conn_reply" where
  "SAsynNextRequest mem tw t sb rx =
     (if SB_CONN \<in> sb_flags sb
      then \<lparr>cr_ret = RET_NOTOK (S_NOTOK SC_OPERATION), cr_sb = Some sb, cr_sc = None, cr_out = [], cr_rx = rx\<rparr>
      else transport_next mem tw t (set_flags {} {SB_TS_CONN} sb) rx)"

end
