(* ===== verification/Spm_Accept.thy ===== *)
theory Spm_Accept
  imports Spm_Connect
begin

text \<open>
  The session protocol machine, its responder: \<^verbatim>\<open>SInit\<close>, \<^verbatim>\<open>SConnResponse\<close> and \<^verbatim>\<open>refuse\<close> of \<^verbatim>\<open>ssap/ssaprespond.c\<close>,
  and the refusal that \<^verbatim>\<open>spktlose\<close> sends.
\<close>

section \<open>Refusals\<close>

abbreviation (input) RF_DISC_RELEASE :: byte where "RF_DISC_RELEASE \<equiv> 1"

definition lose_refuse_spkt :: "byte \<Rightarrow> ssapkt" where
  "lose_refuse_spkt b =
     (let s = Set SMASK_RF_DISC ((newspkt SPDU_RF)\<lparr>s_disconnect := u8_bis 0 RF_DISC_RELEASE, s_rdata := Some [b]\<rparr>) in
      if b = 0x84 then Set SMASK_RF_VRSN (s\<lparr>s_version := SB_ALLVRSNS\<rparr>) else s)"

text \<open>
  \<^verbatim>\<open>spktlose\<close> with \<^verbatim>\<open>SC_REFUSE\<close> added to the reason: the codes below \<^verbatim>\<open>SC_ADDRESS\<close> are official and go into a
  refusal, if they fit into its octet; the others abort.
\<close>

definition SC_OFFICIAL :: "int \<Rightarrow> bool" where
  "SC_OFFICIAL r \<longleftrightarrow> r < 0x85"

definition spktlose_refuse :: "(int \<Rightarrow> bool) \<Rightarrow> (tsdu \<Rightarrow> td_reason option) \<Rightarrow> ssapblk \<Rightarrow> sc \<Rightarrow> sres \<times> tsdu list" where
  "spktlose_refuse mem tw sb reason =
     (if SC_OFFICIAL (sc_number reason)
      then case int2u8 (sc_number reason) of
             None \<Rightarrow> (S_NOTOK reason, [])
           | Some b \<Rightarrow>
               (case spkt2sd mem tw (lose_refuse_spkt b) (SB_EXPD \<in> sb_flags sb) of
                  (S_OK, out) \<Rightarrow> (S_NOTOK reason, out)
                | (r, out) \<Rightarrow> (r, out))
      else spktlose mem tw sb SC_PROTOCOL)"

section \<open>The indication\<close>

record init_reply =
  ir_res :: sres
  ir_sb :: "ssapblk option"
  ir_ss :: "SSAPstart option"
  ir_out :: "tsdu list"

definition init_lost :: "sres \<times> tsdu list \<Rightarrow> init_reply" where
  "init_lost p = \<lparr>ir_res = fst p, ir_sb = None, ir_ss = None, ir_out = snd p\<rparr>"

text \<open>The checks of the packet: the reason with which it is turned down, and whether a refusal may say it.\<close>

definition mismatched_units :: "16 word \<Rightarrow> bool" where
  "mismatched_units req \<longleftrightarrow>
     req AND SR_EXCEPTIONS \<noteq> 0 \<and> req AND SR_HALFDUPLEX = 0 \<or> req AND SR_CAPABILITY \<noteq> 0 \<and> req AND SR_ACTIVITY = 0
     \<or> req AND (SR_HALFDUPLEX OR SR_DUPLEX) = 0"

definition mismatched_serial :: "ssapkt \<Rightarrow> bool" where
  "mismatched_serial s \<longleftrightarrow>
     (if s_require s AND SR_SYNC \<noteq> 0 then s_require s AND SR_ACTIVITY = 0 \<and> SMASK_CN_ISN \<notin> s_mask s else SMASK_CN_ISN \<in> s_mask s)"

definition turned_down :: "(int \<Rightarrow> bool) \<Rightarrow> (tsdu \<Rightarrow> td_reason option) \<Rightarrow> ssapblk \<Rightarrow> ssapkt \<Rightarrow> (sres \<times> tsdu list) option" where
  "turned_down mem tw sb s =
     (if s_errno s \<noteq> SC_ACCEPT then Some (spktlose_refuse mem tw sb (Errno (s_errno s)))
      else if s_code s \<noteq> SPDU_CN then Some (spktlose_refuse mem tw sb (SC_OTHER (-257)))
      else if SMASK_CN_VRSN \<in> s_mask s \<and> s_version s AND SB_ALLVRSNS = 0 then Some (spktlose_refuse mem tw sb SC_VERSION)
      else if SMASK_CN_REQ \<in> s_mask s \<and> mismatched_units (s_require s) then Some (spktlose mem tw sb SC_PROTOCOL)
      else if SMASK_CN_REQ \<in> s_mask s \<and> mismatched_serial s then Some (spktlose mem tw sb SC_PROTOCOL)
      else None)"

text \<open>The block and the indication that are made of the packet.\<close>

definition start_version :: "ssapkt \<Rightarrow> nat" where
  "start_version s =
     (if SMASK_CN_VRSN \<in> s_mask s then if bit (s_version s) 1 then 1 else 0 else if length (octs (s_udata s)) > SS_SIZE then 1 else 0)"

definition start_sizes :: "ssapkt \<Rightarrow> TSAPstart \<Rightarrow> (int \<times> int) option" where
  "start_sizes s ts =
     (case int2u16 (GET_TSDU_SIZE (ts_tsdusize ts)) of
        None \<Rightarrow> None
      | Some tsz \<Rightarrow>
          (let init = (if SMASK_CN_TSDU \<in> s_mask s then uint (s_tsdu_init s) else 0);
               resp = (if SMASK_CN_TSDU \<in> s_mask s then uint (s_tsdu_resp s) else 0) in
           Some (if start_version s \<ge> 1 then (0, 0) else (min (uint tsz) resp, min (uint tsz) init))))"

definition start_requirements :: "ssapkt \<Rightarrow> TSAPstart \<Rightarrow> 16 word" where
  "start_requirements s ts =
     (let req = proposed s AND SR_MYREQUIRE in if ts_expedited ts then req else u16_bic req SR_EXPEDITED)"

definition start_block :: "ssapkt \<Rightarrow> TSAPstart \<Rightarrow> ssapblk" where
  "start_block s ts =
     newsblk\<lparr>sb_version := start_version s, sb_flags := (if ts_expedited ts then {SB_EXPD} else {}),
       sb_options := (if SMASK_CN_OPT \<in> s_mask s then s_options s else 0),
       sb_V_A := (if SMASK_CN_ISN \<in> s_mask s then int (s_isn s) else 0),
       sb_V_M := (if SMASK_CN_ISN \<in> s_mask s then int (s_isn s) else 0)\<rparr>"

definition started :: "ssapblk \<Rightarrow> ssapkt \<Rightarrow> TSAPstart \<Rightarrow> int \<times> int \<Rightarrow> ssapblk" where
  "started sb s ts z =
     sb\<lparr>sb_tsdu_us := fst z, sb_tsdu_them := snd z,
       sb_settings := (if SMASK_CN_SET \<in> s_mask s then s_settings s else sb_settings sb),
       sb_requirements := start_requirements s ts,
       sb_initiating := (if SMASK_CN_CALLING \<in> s_mask s then take SSSIZE (s_calling s) else []),
       sb_responding := (if SMASK_CN_CALLED \<in> s_mask s then take SSSIZE (s_called s) else [])\<rparr>"

definition start_indication :: "ssapblk \<Rightarrow> ssapkt \<Rightarrow> TSAPstart \<Rightarrow> SSAPstart" where
  "start_indication sb s ts =
     \<lparr>ss_connect = (if SMASK_CN_REF \<in> s_mask s then s_reference s else null_ref),
      ss_calling = sb_initiating sb, ss_called = sb_responding sb, ss_requirements = sb_requirements sb,
      ss_settings = (if SMASK_CN_SET \<in> s_mask s then s_settings s else 0),
      ss_isn = (if SMASK_CN_ISN \<in> s_mask s then int (s_isn s) else SERIAL_NONE),
      ss_ssdusize = (if sb_tsdu_us sb - SSDU_MAGIC < 0 then ts_tsdusize ts else sb_tsdu_us sb) - SSDU_MAGIC,
      ss_qos = \<lparr>qos_sversion = int (sb_version sb) + 1, qos_extended = (SB_EXPD \<in> sb_flags sb)\<rparr>,
      ss_data = s_udata s\<rparr>"

definition start_session :: "ssapkt \<Rightarrow> TSAPstart \<Rightarrow> init_reply" where
  "start_session s ts =
     (let sb = start_block s ts in
      case start_sizes s ts of
        None \<Rightarrow> \<lparr>ir_res = S_NOTOK (Errno SC_PROTOCOL), ir_sb = Some sb, ir_ss = None, ir_out = []\<rparr>
      | Some z \<Rightarrow>
          (let sb1 = started sb s ts z in
           \<lparr>ir_res = S_OK, ir_sb = Some sb1, ir_ss = Some (start_indication sb1 s ts), ir_out = []\<rparr>))"

text \<open>A packet that another program has read comes without the checks.\<close>

definition SInit :: "(int \<Rightarrow> bool) \<Rightarrow> (tsdu \<Rightarrow> td_reason option) \<Rightarrow> TSAPstart \<Rightarrow> incoming + ssapkt \<Rightarrow> init_reply" where
  "SInit mem tw ts src =
     (case src of
        Inl (Gone r) \<Rightarrow> init_lost (S_NOTOK (ts2sslose r), [])
      | Inl (Arrive expd q) \<Rightarrow>
          (case tsdu2spkt mem q (int (length (concat q))) True of
             Done (s, n, q') \<Rightarrow>
               (case turned_down mem tw newsblk s of Some p \<Rightarrow> init_lost p | None \<Rightarrow> start_session s ts)
           | Notok \<Rightarrow> init_lost (spktlose_refuse mem tw newsblk (Errno SC_CONGEST))
           | _ \<Rightarrow> init_lost (S_FAULT, []))
      | Inr s \<Rightarrow>
          if s_errno s = SC_ACCEPT then start_session s ts else init_lost (S_NOTOK SC_PARAMETER, []))"

section \<open>The response\<close>

definition put_setting :: "nat \<Rightarrow> int \<Rightarrow> int \<Rightarrow> int" where
  "put_setting n v w = (w AND NOT (push_bit n 3)) OR push_bit n v"

text \<open>
  The tokens at the responder: the settings that are sent, the ownership and the wishes. The last component
  says whether all choices were proper; what was done before a bad one stays.
\<close>

fun respond_tokens :: "ssapblk \<Rightarrow> nat list \<Rightarrow> int \<Rightarrow> byte \<Rightarrow> byte \<Rightarrow> int \<times> byte \<times> byte \<times> bool" where
  "respond_tokens sb [] w owned please = (w, owned, please, True)"
| "respond_tokens sb (n # ns) w owned please =
     (let v = setting (uint (sb_settings sb)) n in
      if \<not> token_exists sb n \<or> v = 3 then respond_tokens sb ns w owned please
      else if v = ST_CALL_VALUE
      then if setting w n = ST_INIT_VALUE then respond_tokens sb ns (put_setting n ST_INIT_VALUE w) owned please
           else if setting w n = ST_RESP_VALUE then respond_tokens sb ns (put_setting n ST_RESP_VALUE w) (set_bit n owned) please
           else (w, owned, please, False)
      else if v = ST_INIT_VALUE
      then respond_tokens sb ns (put_setting n ST_INIT_VALUE w) owned (if setting w n = 3 then set_bit n please else please)
      else respond_tokens sb ns (put_setting n ST_RESP_VALUE w) (set_bit n owned) please)"

definition refuse_spkt :: "SSAPref \<Rightarrow> int \<Rightarrow> 16 word option \<Rightarrow> byte list \<Rightarrow> ssapkt" where
  "refuse_spkt ref status req d =
     (let s = Set SMASK_RF_DISC (Set SMASK_RF_REF ((newspkt SPDU_RF)\<lparr>s_reference := ref, s_disconnect := u8_bis 0 RF_DISC_RELEASE,
                s_rdata := Some (word_of_int status # d)\<rparr>)) in
      case req of None \<Rightarrow> s | Some r \<Rightarrow> Set SMASK_RF_REQ (s\<lparr>s_require := r\<rparr>))"

definition refuse_connection :: "(int \<Rightarrow> bool) \<Rightarrow> (tsdu \<Rightarrow> td_reason option) \<Rightarrow> ssapblk \<Rightarrow> SSAPref \<Rightarrow> int \<Rightarrow> int \<Rightarrow> byte list \<Rightarrow> sres \<times> tsdu list" where
  "refuse_connection mem tw sb ref status requirements d =
     (if status = 2 \<and> int2u16 requirements = None then (S_NOTOK SC_PARAMETER, [])
      else if \<not> mem (1 + int (length d)) then (S_NOTOK (Errno SC_CONGEST), [])
      else spkt2sd mem tw (refuse_spkt ref status (if status = 2 then int2u16 requirements else None) d) (SB_EXPD \<in> sb_flags sb))"

definition accept_spkt :: "ssapblk \<Rightarrow> SSAPref \<Rightarrow> byte list option \<Rightarrow> byte \<Rightarrow> byte \<Rightarrow> int \<Rightarrow> byte list \<Rightarrow> ssapkt" where
  "accept_spkt sb ref responding w please isn d =
     (let s0 = Set SMASK_CN_REF (Set SMASK_CN_OPT (Set SMASK_CN_VRSN
                ((newspkt SPDU_AC)\<lparr>s_reference := ref, s_options := 0, s_version := push_bit (sb_version sb) 1\<rparr>)));
          s1 = (if isn \<noteq> SERIAL_NONE then Set SMASK_CN_ISN (s0\<lparr>s_isn := nat isn\<rparr>) else s0);
          s2 = offer_units sb w (offer_sizes sb s1);
          s3 = (if please \<noteq> 0 then Set SMASK_AC_TOKEN (s2\<lparr>s_token := please\<rparr>) else s2);
          s4 = (case responding of None \<Rightarrow> s3 | Some a \<Rightarrow> Set SMASK_CN_CALLED (s3\<lparr>s_called := a\<rparr>)) in
      add_udata d s4)"

definition too_much_connect :: "ssapblk \<Rightarrow> byte list \<Rightarrow> bool" where
  "too_much_connect sb d \<longleftrightarrow> length d > (if sb_version sb < 1 then 512 else 65400)"

text \<open>An acceptance whose parameters have passed: the packet is sent. \<open>None\<close> for the settings is a value out of range.\<close>

definition send_accept :: "(int \<Rightarrow> bool) \<Rightarrow> (tsdu \<Rightarrow> td_reason option) \<Rightarrow> ssapblk \<Rightarrow> SSAPref \<Rightarrow> byte list option \<Rightarrow> int \<Rightarrow> byte \<Rightarrow> int \<Rightarrow>
    byte list \<Rightarrow> reply" where
  "send_accept mem tw sb ref responding w please isn d =
     (if too_much_connect sb d then refuse SC_PARAMETER sb
      else case (if requires sb SR_TOKENS then int2u8 w else Some 0) of
        None \<Rightarrow> \<lparr>rp_res = S_NOTOK SC_PARAMETER, rp_sb = None, rp_out = [], rp_ssn = None\<rparr>
      | Some b \<Rightarrow>
          if (case responding of Some a \<Rightarrow> length a > SSSIZE | None \<Rightarrow> False)
          then \<lparr>rp_res = S_FAULT, rp_sb = None, rp_out = [], rp_ssn = None\<rparr>
          else settle (spkt2sd mem tw (accept_spkt sb ref responding b please isn d) False) (set_flags {SB_CONN} {} sb))"

definition accept_connection :: "(int \<Rightarrow> bool) \<Rightarrow> (tsdu \<Rightarrow> td_reason option) \<Rightarrow> ssapblk \<Rightarrow> SSAPref \<Rightarrow> byte list option \<Rightarrow> int \<Rightarrow> int \<Rightarrow> int \<Rightarrow>
    byte list \<Rightarrow> reply" where
  "accept_connection mem tw sb ref responding requirements settings isn d =
     (let req = word_of_int requirements in
      if requirements AND NOT (uint SR_MYREQUIRE) \<noteq> 0 \<or> req AND SR_HALFDUPLEX \<noteq> 0 \<and> req AND SR_DUPLEX \<noteq> 0
         \<or> req AND SR_EXCEPTIONS \<noteq> 0 \<and> req AND SR_HALFDUPLEX = 0
      then refuse SC_PARAMETER sb
      else let sb1 = sb\<lparr>sb_requirements := sb_requirements sb AND req\<rparr> in
        case respond_tokens sb1 tokens settings 0 0 of
          (w, owned, please, ok) \<Rightarrow>
            (let sb2 = sb1\<lparr>sb_owned := owned\<rparr> in
             if \<not> ok \<or> bad_serial (sb_requirements sb2) isn then refuse SC_PARAMETER sb2
             else send_accept mem tw sb2 ref responding w please isn d))"

abbreviation (input) CONN_ACCEPT :: int where "CONN_ACCEPT \<equiv> -1"

definition SConnResponse :: "(int \<Rightarrow> bool) \<Rightarrow> (tsdu \<Rightarrow> td_reason option) \<Rightarrow> ssapblk \<Rightarrow> SSAPref \<Rightarrow> byte list option \<Rightarrow> int \<Rightarrow> int \<Rightarrow> int \<Rightarrow> int \<Rightarrow>
    byte list \<Rightarrow> reply" where
  "SConnResponse mem tw sb ref responding status requirements settings isn d =
     (if SB_CONN \<in> sb_flags sb \<or> refmuchP ref \<or> sr_vdata ref \<noteq> [] then refuse SC_PARAMETER sb
      else let sb1 = (case responding of Some a \<Rightarrow> sb\<lparr>sb_responding := a\<rparr> | None \<Rightarrow> sb) in
        if status = CONN_ACCEPT then accept_connection mem tw sb1 ref responding requirements settings isn d
        else if status \<notin> {0, 1, 2} \<or> too_much_connect sb1 d then refuse SC_PARAMETER sb1
        else case refuse_connection mem tw sb1 ref status requirements d of
          (r, out) \<Rightarrow> \<lparr>rp_res = r, rp_sb = None, rp_out = out, rp_ssn = None\<rparr>)"

end
