(* ===== verification/Spm_Arrive.thy ===== *)
theory Spm_Arrive
  imports Spdu_Roundtrip Spm_Accept
begin

text \<open>
  The connection packets on their way: the packet that the reader makes of a connect or accept packet, with
  every field.
\<close>

section \<open>The packets as they are read\<close>

definition read_CN :: "ssapkt \<Rightarrow> ssapkt" where
  "read_CN s = (with_conn s (start_packet True SPDU_CN (int (length (render (params_CN s))))))\<lparr>s_mask := s_mask s, s_udata := s_udata s\<rparr>"

definition read_AC :: "ssapkt \<Rightarrow> ssapkt" where
  "read_AC s = with_tail s (with_conn s (start_packet True SPDU_AC (int (length (render (params_AC s))))))"

lemma start_conn: "c = SPDU_CN \<or> c = SPDU_AC \<Longrightarrow> fresh c {} (start_packet True c li)"
  by (auto simp: fresh_def start_packet_def set_category_def newspkt_def)

lemma start_fields:
  "c = SPDU_CN \<or> c = SPDU_AC \<Longrightarrow> start_packet True c li = (newspkt c)\<lparr>s_li := li, s_errno := SC_ACCEPT\<rparr>"
  by (auto simp: start_packet_def set_category_def)

lemma read_CN_simps [simp]:
  "s_errno (read_CN s) = SC_ACCEPT" "s_code (read_CN s) = SPDU_CN" "s_mask (read_CN s) = s_mask s" "s_udata (read_CN s) = s_udata s"
  "s_reference (read_CN s) = (if 0 \<in> s_mask s then (s_reference s)\<lparr>sr_vdata := []\<rparr> else null_ref)"
  "s_options (read_CN s) = (if 1 \<in> s_mask s then s_options s else 0)"
  "s_tsdu_init (read_CN s) = (if 2 \<in> s_mask s then s_tsdu_init s else 0)"
  "s_tsdu_resp (read_CN s) = (if 2 \<in> s_mask s then s_tsdu_resp s else 0)"
  "s_version (read_CN s) = (if 3 \<in> s_mask s then s_version s else 0)"
  "s_isn (read_CN s) = (if 4 \<in> s_mask s then s_isn s else 0)"
  "s_settings (read_CN s) = (if 5 \<in> s_mask s then s_settings s else 0)"
  "s_require (read_CN s) = (if 7 \<in> s_mask s then s_require s else 0)"
  "s_calling (read_CN s) = (if 8 \<in> s_mask s then s_calling s else [])"
  "s_called (read_CN s) = (if 9 \<in> s_mask s then s_called s else [])"
  by (simp_all add: read_CN_def with_conn_def with_items_def start_fields newspkt_def)

lemma read_AC_simps:
  assumes "s_mask s \<subseteq> {0, 1, 2, 3, 4, 5, 6, 7, 8, 9, 13, 14}" "udata_ok 512 s"
  shows "s_errno (read_AC s) = SC_ACCEPT" "s_code (read_AC s) = SPDU_AC" "s_mask (read_AC s) = s_mask s" "s_udata (read_AC s) = s_udata s"
    "s_reference (read_AC s) = (if 0 \<in> s_mask s then (s_reference s)\<lparr>sr_vdata := []\<rparr> else null_ref)"
    "s_options (read_AC s) = (if 1 \<in> s_mask s then s_options s else 0)"
    "s_tsdu_init (read_AC s) = (if 2 \<in> s_mask s then s_tsdu_init s else 0)"
    "s_tsdu_resp (read_AC s) = (if 2 \<in> s_mask s then s_tsdu_resp s else 0)"
    "s_version (read_AC s) = (if 3 \<in> s_mask s then s_version s else 0)"
    "s_isn (read_AC s) = (if 4 \<in> s_mask s then s_isn s else 0)"
    "s_settings (read_AC s) = (if 5 \<in> s_mask s then s_settings s else 0)"
    "s_token (read_AC s) = (if 6 \<in> s_mask s then s_token s else 0)"
    "s_require (read_AC s) = (if 7 \<in> s_mask s then s_require s else 0)"
    "s_called (read_AC s) = (if 9 \<in> s_mask s then s_called s else [])"
proof -
  show "s_mask (read_AC s) = s_mask s" using assms(1) by (auto simp: read_AC_def start_fields newspkt_def)
  show "s_udata (read_AC s) = s_udata s" using assms(2)
    by (auto simp: read_AC_def with_tail_def with_conn_def with_items_def start_fields newspkt_def udata_ok_def split: option.splits)
qed (simp_all add: read_AC_def with_tail_def with_conn_def with_items_def start_fields newspkt_def)

section \<open>The packets on their way\<close>

text \<open>What such a packet is written as, and what becomes of these octets in any buffers.\<close>

lemma conn_octets:
  assumes "spkt_ok s" "clear_of_window s" "\<forall>n. mem n" "s_code s = SPDU_CN \<and> ps = params_CN s \<or> s_code s = SPDU_AC \<and> ps = params_AC s"
  shows "spkt2sd mem (\<lambda>_. None) s False = (S_OK, [Normal (spdu (s_code s) (render ps))])"
    and "length (render ps) \<le> 65535"
proof -
  obtain b where c: "spdu_case s = Some (b, ps)" using assms(4) by (auto simp: spdu_case_def)
  from spdu_travels(1) [OF assms(1-3) c] show "spkt2sd mem (\<lambda>_. None) s False = (S_OK, [Normal (spdu (s_code s) (render ps))])"
    using assms(4) by (auto simp: spkt2sd_def hand_over_def Let_def)
  show "length (render ps) \<le> 65535" using spkt_fits [OF assms(1) c] by (auto simp: fits_def)
qed

lemma CN_arrives:
  assumes "spkt_ok s" "s_code s = SPDU_CN" "\<forall>n. mem n" "length (render (params_CN s)) \<le> 65535"
    "concat q = spdu SPDU_CN (render (params_CN s))"
  shows "\<exists>n q'. tsdu2spkt mem q (int (length (concat q))) True = Done (read_CN s, n, q')"
proof -
  let ?t = "start_packet True SPDU_CN (int (length (render (params_CN s))))"
  have ok: "udata_ok 10240 s" "s_mask s \<subseteq> {0, 1, 2, 3, 4, 5, 7, 8, 9, 14}" "conn_ok s"
    using assms(1,2) by (simp_all add: spkt_ok_def)
  have "take_params mem SPDU_CN 1966179 (params_CN s) ?t = Some (read_CN s)"
    unfolding read_CN_def by (rule CN_reads) (use ok assms(3) start_conn in auto)
  then have "take_params mem SPDU_CN (si_table ! unat SPDU_CN) (params_CN s) ?t = Some (read_CN s)" by (simp add: tables_at)
  moreover have "mandatory (read_CN s)" by (simp add: mandatory_def)
  ultimately show ?thesis
    using tsdu2spkt_takes [of mem SPDU_CN "params_CN s" True "read_CN s" q "[]" "int (length (concat q))"] assms(4,5)
    by (auto simp: tables_at)
qed

lemma AC_arrives:
  assumes "spkt_ok s" "s_code s = SPDU_AC" "\<forall>n. mem n" "length (render (params_AC s)) \<le> 65535"
    "concat q = spdu SPDU_AC (render (params_AC s))" "sb_spdu sb = None" "sb_xspdu sb = None"
  shows "sb2spkt mem tw sb (Arrive False q # rx) = (Got (plain_spkt (read_AC s)), sb, [], rx)"
proof -
  let ?t = "start_packet True SPDU_AC (int (length (render (params_AC s))))"
  have ok: "udata_ok 512 s" "enclose_ok s" "s_mask s \<subseteq> {0, 1, 2, 3, 4, 5, 6, 7, 8, 9, 13, 14}" "conn_ok s"
    using assms(1,2) by (simp_all add: spkt_ok_def)
  note r = read_AC_simps [OF ok(3,1)]
  have "take_params mem SPDU_AC 917867 (params_AC s) ?t = Some (read_AC s)"
    unfolding read_AC_def by (rule AC_reads) (use ok assms(3) start_conn in auto)
  then have "take_params mem SPDU_AC (si_table ! unat SPDU_AC) (params_AC s) ?t = Some (read_AC s)" by (simp add: tables_at)
  moreover have "mandatory (read_AC s)" by (simp add: mandatory_def r)
  ultimately obtain q' where "tsdu2spkt mem q (int (length (concat q))) True = Done (read_AC s, int (length (concat q)), q')"
    using tsdu2spkt_takes [of mem SPDU_AC "params_AC s" True "read_AC s" q "[]" "int (length (concat q))"] assms(4,5)
    by (auto simp: tables_at)
  then have "next_spkt mem q (int (length (concat q))) True False = Inl (read_AC s, q', 0)" by (simp add: next_spkt_def r)
  then show ?thesis using assms(6,7) by (simp add: sb2spkt_def take_buffered_def tsdu2sb_def r CAT0_def CAT1_USER_def CAT1_def)
qed

end
