(* ===== verification/Spm_Negotiate.thy ===== *)
theory Spm_Negotiate
  imports Spm_Tokens Spm_Sync Spm_Arrive
begin

text \<open>
  The negotiation of a session connection: what the answer of the responder makes of the tokens, units,
  versions and sizes on the two sides.
\<close>

section \<open>Settings\<close>

lemma tokens_set: "set tokens = {0, 2, 4, 6}" "distinct tokens"
  by (auto simp: tokens_def)

lemma bit_set_tokens:
  fixes w :: byte
  assumes "\<forall>n \<in> set ns. n < 8"
  shows "bit (foldl (\<lambda>w n. if P n then set_bit n w else w) w ns) k \<longleftrightarrow> bit w k \<or> k \<in> set ns \<and> P k"
  using assms by (induction ns arbitrary: w) (auto simp: bit_set_bit_iff)

lemma setting_bits: "setting w n = of_bool (bit w n) + 2 * of_bool (bit w (Suc n))"
proof -
  have "setting w n = take_bit 2 (drop_bit n w)" by (simp add: setting_def take_bit_eq_mask mask_eq_exp_minus_1)
  also have "\<dots> = of_bool (bit w n) + 2 * of_bool (bit w (Suc n))"
    by (simp add: take_bit_Suc numeral_2_eq_2 bit_iff_odd_drop_bit drop_bit_Suc drop_bit_half mod2_eq_if)
  finally show ?thesis .
qed

lemma setting_range: "0 \<le> setting w n" "setting w n \<le> 3"
  by (simp_all add: setting_bits)

lemma bit_three: "bit (3 :: int) k \<longleftrightarrow> k = 0 \<or> k = Suc 0"
proof (cases k)
  case (Suc j)
  then show ?thesis by (simp add: bit_Suc bit_1_iff)
qed simp

lemma bit_put:
  assumes "v = 0 \<or> v = 1"
  shows "bit (put_setting n v w) m \<longleftrightarrow> (if m = n then v = 1 else if m = Suc n then False else bit w m)"
proof -
  have 3: "bit (push_bit n 3 :: int) m \<longleftrightarrow> m = n \<or> m = Suc n" unfolding bit_push_bit_iff bit_three by auto
  have v: "bit (push_bit n v) m \<longleftrightarrow> m = n \<and> v = 1" using assms by (auto simp: bit_push_bit_iff bit_1_iff)
  show ?thesis unfolding put_setting_def bit_or_iff bit_and_iff bit_not_iff 3 v by auto
qed

lemma setting_put:
  assumes "v = 0 \<or> v = 1" "n \<in> {0, 2, 4, 6}" "m \<in> {0, 2, 4, 6}"
  shows "setting (put_setting n v w) m = (if m = n then v else setting w m)"
  using assms by (auto simp: setting_bits bit_put)

lemma put_octet:
  assumes "v = 0 \<or> v = 1" "n \<le> 6" "0 \<le> w" "w \<le> 255"
  shows "0 \<le> put_setting n v w" "put_setting n v w \<le> 255"
proof -
  have "put_setting n v w = take_bit 8 (put_setting n v w)"
  proof (rule bit_eqI)
    fix k
    have "w = take_bit 8 w" using assms(3,4) by (simp add: take_bit_int_eq_self)
    then have "bit w k \<Longrightarrow> k < 8" by (metis bit_take_bit_iff)
    then show "bit (put_setting n v w) k = bit (take_bit 8 (put_setting n v w)) k"
      using assms(1,2) by (auto simp: bit_put bit_take_bit_iff)
  qed
  then show "0 \<le> put_setting n v w" "put_setting n v w \<le> 255"
    using take_bit_nonnegative [of 8 "put_setting n v w"] take_bit_int_less_exp [of 8 "put_setting n v w"] by auto
qed

section \<open>The tokens at the responder\<close>

definition choice :: "ssapblk \<Rightarrow> int \<Rightarrow> nat \<Rightarrow> int" where
  "choice sb w n = (if setting (uint (sb_settings sb)) n = ST_CALL_VALUE then setting w n else setting (uint (sb_settings sb)) n)"

definition shared :: "ssapblk \<Rightarrow> nat \<Rightarrow> bool" where
  "shared sb n \<longleftrightarrow> token_exists sb n \<and> setting (uint (sb_settings sb)) n \<noteq> 3"

definition proper :: "ssapblk \<Rightarrow> int \<Rightarrow> nat \<Rightarrow> bool" where
  "proper sb w n \<longleftrightarrow> (shared sb n \<longrightarrow> choice sb w n = 0 \<or> choice sb w n = 1)"

lemma respond_step:
  assumes "proper sb w n"
  shows "\<exists>please'. respond_tokens sb (n # ns) w owned please =
    (if shared sb n then respond_tokens sb ns (put_setting n (choice sb w n) w) (if choice sb w n = 1 then set_bit n owned else owned) please'
     else respond_tokens sb ns w owned please)"
  using assms setting_range [of "uint (sb_settings sb)" n] by (auto simp: proper_def shared_def choice_def Let_def)

lemma respond_tokens_spec:
  assumes "distinct ns" "set ns \<subseteq> {0, 2, 4, 6}" "\<forall>n \<in> set ns. proper sb w n" "0 \<le> w" "w \<le> 255"
  shows "\<exists>w' owned' please'. respond_tokens sb ns w owned please = (w', owned', please', True) \<and> 0 \<le> w' \<and> w' \<le> 255
    \<and> (\<forall>n. bit owned' n \<longleftrightarrow> bit owned n \<or> n \<in> set ns \<and> shared sb n \<and> choice sb w n = 1)
    \<and> (\<forall>n \<in> {0, 2, 4, 6}. setting w' n = (if n \<in> set ns \<and> shared sb n then choice sb w n else setting w n))"
  using assms
proof (induction ns arbitrary: w owned please)
  case (Cons n ns)
  have n: "n \<in> {0, 2, 4, 6}" "n \<notin> set ns" "distinct ns" "set ns \<subseteq> {0, 2, 4, 6}" using Cons.prems by auto
  have "proper sb w n" using Cons.prems by simp
  from respond_step [OF this, of ns owned please] obtain p where p: "respond_tokens sb (n # ns) w owned please =
    (if shared sb n then respond_tokens sb ns (put_setting n (choice sb w n) w) (if choice sb w n = 1 then set_bit n owned else owned) p
     else respond_tokens sb ns w owned please)" by blast
  show ?case
  proof (cases "shared sb n")
    case False
    from Cons.IH [OF n(3,4) _ Cons.prems(4,5), of owned please] Cons.prems(3) obtain w' owned' please' where
      r: "respond_tokens sb ns w owned please = (w', owned', please', True)" "0 \<le> w' \<and> w' \<le> 255"
      "\<forall>m. bit owned' m \<longleftrightarrow> bit owned m \<or> m \<in> set ns \<and> shared sb m \<and> choice sb w m = 1"
      "\<forall>m \<in> {0, 2, 4, 6}. setting w' m = (if m \<in> set ns \<and> shared sb m then choice sb w m else setting w m)" by auto
    have "bit owned' m \<longleftrightarrow> bit owned m \<or> m \<in> set (n # ns) \<and> shared sb m \<and> choice sb w m = 1" for m
      using r(3) False by auto
    moreover have "setting w' m = (if m \<in> set (n # ns) \<and> shared sb m then choice sb w m else setting w m)" if "m \<in> {0, 2, 4, 6}" for m
      using r(4) that False by auto
    ultimately show ?thesis using r(1,2) p False by (intro exI [of _ w'] exI [of _ owned'] exI [of _ please']) simp
  next
    case True
    let ?v = "choice sb w n"
    let ?w = "put_setting n ?v w"
    have v: "?v = 0 \<or> ?v = 1" using Cons.prems(3) True by (auto simp: proper_def)
    have w: "0 \<le> ?w" "?w \<le> 255" using put_octet [OF v _ Cons.prems(4,5)] n(1) by auto
    have s: "setting ?w m = (if m = n then ?v else setting w m)" if "m \<in> {0, 2, 4, 6}" for m
      by (rule setting_put [OF v n(1) that])
    have c: "choice sb ?w m = choice sb w m" if "m \<in> set ns" for m
      using s [of m] that n by (auto simp: choice_def)
    have "\<forall>m \<in> set ns. proper sb ?w m" using Cons.prems(3) c by (auto simp: proper_def)
    from Cons.IH [OF n(3,4) this w, of "if ?v = 1 then set_bit n owned else owned" p]
    obtain w' owned' please' where r: "respond_tokens sb ns ?w (if ?v = 1 then set_bit n owned else owned) p = (w', owned', please', True)"
      "0 \<le> w' \<and> w' \<le> 255"
      "\<forall>m. bit owned' m \<longleftrightarrow> bit (if ?v = 1 then set_bit n owned else owned) m \<or> m \<in> set ns \<and> shared sb m \<and> choice sb ?w m = 1"
      "\<forall>m \<in> {0, 2, 4, 6}. setting w' m = (if m \<in> set ns \<and> shared sb m then choice sb ?w m else setting ?w m)" by blast
    have "bit owned' m \<longleftrightarrow> bit owned m \<or> m \<in> set (n # ns) \<and> shared sb m \<and> choice sb w m = 1" for m
      using r(3) c True n(1) by (cases "m = n") (auto simp: bit_set_bit_iff)
    moreover have "setting w' m = (if m \<in> set (n # ns) \<and> shared sb m then choice sb w m else setting w m)" if "m \<in> {0, 2, 4, 6}" for m
      using bspec [OF r(4) that] c s [OF that] True n(2) by (cases "m = n") auto
    ultimately show ?thesis using r(1,2) p True by (intro exI [of _ w'] exI [of _ owned'] exI [of _ please']) simp
  qed
qed auto

end
