(* ===== verification/Spm_Establish.thy ===== *)
theory Spm_Establish
  imports Spm_Negotiate
begin

text \<open>
  A session connection as a whole: the request of the initiator, the indication and the response of the
  responder, and the confirmation; and the tokens of the session that is established.
\<close>

section \<open>The request\<close>

definition offered :: "int \<Rightarrow> TSAPconnect \<Rightarrow> 16 word" where
  "offered requirements tc =
     (if tc_expedited tc then word_of_int requirements else u16_bic (word_of_int requirements) SR_EXPEDITED)"

definition versions :: "byte list \<Rightarrow> QOStype option \<Rightarrow> byte" where
  "versions d qos = (if wants_version2 d qos then 2 else SB_ALLVRSNS)"

definition opened :: "TSAPconnect \<Rightarrow> SSAPref \<Rightarrow> byte list option \<Rightarrow> byte list \<Rightarrow> int \<Rightarrow> int \<Rightarrow> int \<Rightarrow> byte list \<Rightarrow> QOStype option \<Rightarrow> ssapblk" where
  "opened tc ref calling called requirements settings isn d qos =
     (let z = (if wants_version2 d qos then 0 else GET_TSDU_SIZE (tc_tsdusize tc)) in
      (connect_block calling called (offered requirements tc) (word_of_int settings) False (wants_version2 d qos)
         (connect_spkt ref calling called (versions d qos) isn d))
       \<lparr>sb_flags := (if tc_expedited tc then {SB_TS_CONN, SB_EXPD} else {SB_TS_CONN}), sb_tsdu_us := z, sb_tsdu_them := z\<rparr>)"

definition request_spkt :: "TSAPconnect \<Rightarrow> SSAPref \<Rightarrow> byte list option \<Rightarrow> byte list \<Rightarrow> int \<Rightarrow> int \<Rightarrow> int \<Rightarrow> byte list \<Rightarrow> QOStype option \<Rightarrow> ssapkt" where
  "request_spkt tc ref calling called requirements settings isn d qos =
     (let sb = opened tc ref calling called requirements settings isn d qos in
      offer_units sb (sb_settings sb) (offer_sizes sb (connect_spkt ref calling called (versions d qos) isn d)))"

text \<open>The requests that the initiator does not turn down.\<close>

definition good_request :: "SSAPref \<Rightarrow> byte list option \<Rightarrow> byte list \<Rightarrow> int \<Rightarrow> int \<Rightarrow> int \<Rightarrow> byte list \<Rightarrow> bool" where
  "good_request ref calling called requirements settings isn d \<longleftrightarrow>
     \<not> refmuchP ref \<and> sr_vdata ref = [] \<and> length called \<le> SSSIZE \<and> (case calling of Some a \<Rightarrow> length a \<le> SSSIZE | None \<Rightarrow> True)
     \<and> requirements AND NOT 0x7ff = 0 \<and> (word_of_int requirements AND SR_EXCEPTIONS \<noteq> 0 \<longrightarrow> word_of_int requirements AND SR_HALFDUPLEX \<noteq> 0)
     \<and> (\<forall>n \<in> set tokens. token_exists (newsblk\<lparr>sb_requirements := word_of_int requirements\<rparr>) n \<longrightarrow> setting settings n \<noteq> 3)
     \<and> \<not> bad_serial (word_of_int requirements) isn \<and> length d \<le> CONNECT_MAX \<and> 0 \<le> settings \<and> settings \<le> 255"

lemma supported_range:
  assumes "requirements AND NOT 0x7ff = (0 :: int)"
  shows "0 \<le> requirements" "requirements \<le> 65535"
proof -
  have "requirements = requirements AND 0x7ff"
    using assms by (metis and.commute and.right_neutral bit.conj_disj_distrib bit.disj_cancel_right or.right_neutral)
  then have "requirements = take_bit 11 requirements" by (simp add: take_bit_eq_mask mask_eq_exp_minus_1)
  then show "0 \<le> requirements" "requirements \<le> 65535"
    using take_bit_nonnegative [of 11 requirements] take_bit_int_less_exp [of 11 requirements] by auto
qed

lemma request_open:
  assumes "tc_tsdusize tc \<le> 65535"
  shows "own_sizes (transport_open (connect_block calling called (word_of_int requirements) (word_of_int settings) False (wants_version2 d qos)
      (connect_spkt ref calling called (versions d qos) isn d)) tc) tc = Some (opened tc ref calling called requirements settings isn d qos)"
  using assms
  by (auto simp: own_sizes_def transport_open_def opened_def connect_block_def offered_def set_flags_def newsblk_def int2u16_def GET_TSDU_SIZE_def
    Let_def uint_word_of_int)

lemma request_runs:
  assumes "good_request ref calling called requirements settings isn d" "tcon (wants_expedited requirements qos) False = T_OPEN tc"
    "tc_tsdusize tc \<le> 65535" "spkt2sd mem tw (request_spkt tc ref calling called requirements settings isn d qos) False = (S_OK, out)"
  shows "SAsynConnRequest mem tw tcon ref calling called requirements settings isn d qos False rx =
    (let r = SAsynRetryAux2 mem tw ((opened tc ref calling called requirements settings isn d qos)
           \<lparr>sb_retry := Some (request_spkt tc ref calling called requirements settings isn d qos)\<rparr>) tc rx in
     r\<lparr>cr_ret := (if cr_ret r = RET_DONE then RET_OK else cr_ret r), cr_out := out @ cr_out r\<rparr>)"
proof -
  let ?sb = "opened tc ref calling called requirements settings isn d qos"
  let ?s = "request_spkt tc ref calling called requirements settings isn d qos"
  let ?r = "SAsynRetryAux2 mem tw (?sb\<lparr>sb_retry := Some ?s\<rparr>) tc rx"
  have i: "int2u16 requirements = Some (word_of_int requirements)" "int2u8 settings = Some (word_of_int settings)"
    using assms(1) supported_range [of requirements] by (auto simp: good_request_def int2u16_def int2u8_def)
  have f: "sb_retry ?sb = Some (connect_spkt ref calling called (versions d qos) isn d)" "SB_ASYNC_CONN \<notin> sb_flags ?sb"
    by (simp_all add: opened_def connect_block_def Let_def)
  have "SAsynRetryAux1 mem tw (connect_block calling called (word_of_int requirements) (word_of_int settings) False (wants_version2 d qos)
      (connect_spkt ref calling called (versions d qos) isn d)) tc rx = ?r\<lparr>cr_out := out @ cr_out ?r\<rparr>"
    using assms(4) f unfolding SAsynRetryAux1_def Let_def request_open [OF assms(3)] by (simp add: request_spkt_def Let_def)
  then have "SConnRequestAux mem tw tcon ref calling called requirements settings isn d qos False rx =
      ?r\<lparr>cr_ret := (if cr_ret ?r = RET_DONE then RET_OK else cr_ret ?r), cr_out := out @ cr_out ?r\<rparr>"
    using assms(1,2) i by (cases ?r) (auto simp: SConnRequestAux_def good_request_def Let_def versions_def split: option.splits)
  then show ?thesis using assms(1)
    by (auto simp: SAsynConnRequest_def good_request_def Let_def list_ex_iff)
qed

text \<open>The fields of the packet.\<close>

lemma Set_simps [simp]:
  "s_code (Set n s) = s_code s" "s_mask (Set n s) = insert n (s_mask s)" "s_reference (Set n s) = s_reference s"
  "s_options (Set n s) = s_options s" "s_tsdu_init (Set n s) = s_tsdu_init s" "s_tsdu_resp (Set n s) = s_tsdu_resp s"
  "s_version (Set n s) = s_version s" "s_isn (Set n s) = s_isn s" "s_settings (Set n s) = s_settings s" "s_token (Set n s) = s_token s"
  "s_require (Set n s) = s_require s" "s_calling (Set n s) = s_calling s" "s_called (Set n s) = s_called s"
  "s_udata (Set n s) = s_udata s" "s_enclose (Set n s) = s_enclose s"
  by (simp_all add: Set_def)

lemma connect_fields:
  fixes ref calling called v isn d
  defines "s \<equiv> connect_spkt ref calling called v isn d"
  shows "s_code s = SPDU_CN" "s_reference s = ref" "s_options s = 0" "s_version s = v" "s_isn s = (if isn = -1 then 0 else nat isn)"
    "s_calling s = (case calling of None \<Rightarrow> [] | Some a \<Rightarrow> a)" "s_called s = called" "s_udata s = opt_data d"
    "s_mask s = {0, 1, 3} \<union> (if isn = -1 then {} else {4}) \<union> (if calling = None \<or> calling = Some [] then {} else {8})
       \<union> (if called = [] then {} else {9}) \<union> (if d = [] then {} else {14})"
  unfolding s_def
  by (cases calling; cases "isn = -1"; cases "called = []"; cases "d = []";
    auto simp: connect_spkt_def Let_def newspkt_def add_udata_def opt_data_def)+

lemma offer_fields:
  fixes sb w s
  defines "u \<equiv> offer_units sb w (offer_sizes sb s)"
  shows "s_code u = s_code s" "s_reference u = s_reference s" "s_options u = s_options s" "s_version u = s_version s" "s_isn u = s_isn s"
    "s_calling u = s_calling s" "s_called u = s_called s" "s_udata u = s_udata s" "s_require u = sb_requirements sb" "s_token u = s_token s"
    "s_settings u = (if requires sb SR_TOKENS then w else s_settings s)"
    "s_tsdu_resp u = (if sb_tsdu_us sb \<noteq> 0 \<or> sb_tsdu_them sb \<noteq> 0 then word_of_int (GET_TSDU_SIZE (sb_tsdu_us sb)) else s_tsdu_resp s)"
    "s_tsdu_init u = (if sb_tsdu_us sb \<noteq> 0 \<or> sb_tsdu_them sb \<noteq> 0 then word_of_int (GET_TSDU_SIZE (sb_tsdu_them sb)) else s_tsdu_init s)"
    "s_mask u = s_mask s \<union> {7} \<union> (if requires sb SR_TOKENS then {5} else {}) \<union> (if sb_tsdu_us sb \<noteq> 0 \<or> sb_tsdu_them sb \<noteq> 0 then {2} else {})"
  unfolding u_def by (auto simp: offer_units_def offer_sizes_def Let_def)

lemma ref_ok_not_much: "\<not> refmuchP ref \<Longrightarrow> ref_ok ref"
  by (simp add: refmuchP_def ref_ok_def)

lemma good_serial: "\<not> bad_serial req isn \<Longrightarrow> isn \<noteq> -1 \<Longrightarrow> 0 \<le> isn \<and> isn \<le> 999999"
  by (auto simp: bad_serial_def SERIAL_MAX_def split: if_splits)

lemma opened_simps [simp]:
  fixes tc ref calling called requirements settings isn d qos
  defines "sb \<equiv> opened tc ref calling called requirements settings isn d qos"
  shows "sb_requirements sb = offered requirements tc" "sb_settings sb = word_of_int settings" "sb_owned sb = 0" "sb_spdu sb = None" "sb_xspdu sb = None"
    "sb_version sb = (if wants_version2 d qos then 1 else 0)" "sb_vrsnmask sb = versions d qos" "sb_options sb = 0" "sb_V_A sb = 0" "sb_V_M sb = 0"
    "sb_flags sb = (if tc_expedited tc then {SB_TS_CONN, SB_EXPD} else {SB_TS_CONN})" "sb_tsdu_them sb = sb_tsdu_us sb" "sb_responding sb = called"
    "sb_tsdu_us sb = (if wants_version2 d qos then 0 else GET_TSDU_SIZE (tc_tsdusize tc))" "sb_qbuf sb = []" "sb_len sb = 0" "sb_pr sb = SPDU_PR" "sb_V_R sb = 0"
  unfolding sb_def by (simp_all add: opened_def connect_block_def newsblk_def versions_def Let_def)

lemma request_fields:
  fixes tc ref calling called requirements settings isn d qos
  defines "s \<equiv> request_spkt tc ref calling called requirements settings isn d qos"
    and "sb \<equiv> opened tc ref calling called requirements settings isn d qos"
  shows "s_code s = SPDU_CN" "s_reference s = ref" "s_options s = 0" "s_version s = versions d qos" "s_isn s = (if isn = -1 then 0 else nat isn)"
    "s_calling s = (case calling of None \<Rightarrow> [] | Some a \<Rightarrow> a)" "s_called s = called" "s_udata s = opt_data d"
    "s_require s = offered requirements tc" "requires sb SR_TOKENS \<Longrightarrow> s_settings s = word_of_int settings"
    "s_mask s = {0, 1, 3, 7} \<union> (if isn = -1 then {} else {4}) \<union> (if calling = None \<or> calling = Some [] then {} else {8})
       \<union> (if called = [] then {} else {9}) \<union> (if d = [] then {} else {14}) \<union> (if requires sb SR_TOKENS then {5} else {})
       \<union> (if sb_tsdu_us sb \<noteq> 0 then {2} else {})"
  unfolding s_def sb_def request_spkt_def Let_def offer_fields connect_fields by (auto simp del: opened_simps(14))

lemma request_ok:
  assumes "good_request ref calling called requirements settings isn d"
  shows "spkt_ok (request_spkt tc ref calling called requirements settings isn d qos)"
proof -
  define s where "s = request_spkt tc ref calling called requirements settings isn d qos"
  note f = request_fields [of tc ref calling called requirements settings isn d qos, folded s_def]
  have g: "\<not> refmuchP ref" "length called \<le> 64" "case calling of Some a \<Rightarrow> length a \<le> 64 | None \<Rightarrow> True"
    "\<not> bad_serial (word_of_int requirements) isn" "length d \<le> 10240"
    using assms unfolding good_request_def by blast+
  have "s_mask s \<subseteq> {0, 1, 2, 3, 4, 5, 7, 8, 9, 14}" unfolding f by auto
  moreover have "ref_ok (s_reference s)" unfolding f by (rule ref_ok_not_much [OF g(1)])
  moreover have "items_ok s" unfolding items_ok_def f(3,5) using good_serial [OF g(4)] by auto
  moreover have "length (s_calling s) \<le> 64" "length (s_called s) \<le> 64" unfolding f(6,7) using g by (auto split: option.splits)
  moreover have "udata_ok 10240 s" unfolding udata_ok_def f(8,11) opt_data_def using g(5) by auto
  ultimately have "spkt_ok s" unfolding spkt_ok_def f(1) conn_ok_def by simp
  then show ?thesis by (simp add: s_def)
qed

end
