(* ===== verification/Spm_Session.thy ===== *)
theory Spm_Session
  imports Spm_Establish
begin

text \<open>
  The two sides of a session connection together: the indication, the answer and the confirmation that
  follow a request.
\<close>

section \<open>The indication\<close>

definition indicated :: "ssapkt \<Rightarrow> TSAPstart \<Rightarrow> ssapblk" where
  "indicated s ts = started (start_block (read_CN s) ts) (read_CN s) ts (0, 0)"

lemma version2_mask: "bit v 1 \<Longrightarrow> v AND 3 \<noteq> (0 :: byte)"
proof
  assume b: "bit v 1" and "v AND 3 = 0"
  then have "\<not> bit (v AND 3) 1" by simp
  with b show False by (simp add: bit_and_iff)
qed

lemma indication_runs:
  assumes "spkt_ok s" "s_code s = SPDU_CN" "\<forall>n. mem n" "length (render (params_CN s)) \<le> 65535"
    "concat q = spdu SPDU_CN (render (params_CN s))" "{3, 7} \<subseteq> s_mask s" "bit (s_version s) 1" "\<not> mismatched_units (s_require s)"
    "\<not> mismatched_serial s" "ts_tsdusize ts \<le> 65535"
  shows "SInit mem tw ts (Inl (Arrive e q)) =
    \<lparr>ir_res = S_OK, ir_sb = Some (indicated s ts), ir_ss = Some (start_indication (indicated s ts) (read_CN s) ts), ir_out = []\<rparr>"
proof -
  from CN_arrives [OF assms(1-5)] obtain n q' where r: "tsdu2spkt mem q (int (length (concat q))) True = Done (read_CN s, n, q')" by blast
  have "mismatched_serial (read_CN s) = mismatched_serial s" using assms(6) by (simp add: mismatched_serial_def)
  then have "turned_down mem tw newsblk (read_CN s) = None"
    using assms(6-9) version2_mask [of "s_version s"] by (simp add: turned_down_def)
  moreover have "start_sizes (read_CN s) ts = Some (0, 0)"
    using assms(6,7,10) by (auto simp: start_sizes_def start_version_def int2u16_def GET_TSDU_SIZE_def)
  ultimately show ?thesis using r by (simp add: SInit_def start_session_def indicated_def Let_def)
qed

lemma indicated_fields:
  fixes s ts
  defines "b \<equiv> indicated s ts"
  assumes "{0, 1, 3, 7} \<subseteq> s_mask s" "bit (s_version s) 1"
  shows "sb_version b = 1" "sb_tsdu_us b = 0" "sb_tsdu_them b = 0" "sb_flags b = (if ts_expedited ts then {SB_EXPD} else {})"
    "sb_owned b = 0" "sb_requirements b = (if ts_expedited ts then s_require s AND SR_MYREQUIRE else u16_bic (s_require s AND SR_MYREQUIRE) SR_EXPEDITED)"
    "sb_settings b = (if 5 \<in> s_mask s then s_settings s else 0)" "sb_V_A b = (if 4 \<in> s_mask s then int (s_isn s) else 0)"
    "sb_V_M b = (if 4 \<in> s_mask s then int (s_isn s) else 0)" "sb_spdu b = None" "sb_xspdu b = None"
  using assms(2,3) unfolding b_def
  by (simp_all add: indicated_def started_def start_block_def start_version_def newsblk_def start_requirements_def proposed_def Let_def)

lemma supported_word:
  assumes "R AND NOT 0x7ff = (0 :: int)"
  shows "(word_of_int R :: 16 word) AND SR_MYREQUIRE = word_of_int R"
proof -
  have "R AND 0x7ff = R"
    using assms by (metis and.commute and.right_neutral bit.conj_disj_distrib bit.disj_cancel_right or.right_neutral)
  then have "(word_of_int (R AND 0x7ff) :: 16 word) = word_of_int R" by simp
  then show ?thesis by (simp add: of_int_and_eq)
qed

lemma offered_alt: "offered R tc = word_of_int R AND (if tc_expedited tc then -1 else -5)"
  by (simp add: offered_def u16_bic_def)

lemma offered_start:
  assumes "R AND NOT 0x7ff = (0 :: int)" "ts_expedited ts = tc_expedited tc"
  shows "(if ts_expedited ts then offered R tc AND SR_MYREQUIRE else u16_bic (offered R tc AND SR_MYREQUIRE) SR_EXPEDITED) = offered R tc"
proof -
  have "offered R tc AND SR_MYREQUIRE = offered R tc"
    unfolding offered_alt by (subst and.assoc, subst and.commute [of _ SR_MYREQUIRE], subst and.assoc [symmetric])
      (simp only: supported_word [OF assms(1)])
  moreover have "\<not> tc_expedited tc \<Longrightarrow> u16_bic (offered R tc) SR_EXPEDITED = offered R tc"
    by (simp add: offered_alt u16_bic_def and.assoc)
  ultimately show ?thesis using assms(2) by simp
qed

lemma offered_same:
  assumes "-5 AND m = m"
  shows "offered R tc AND m = word_of_int R AND m"
  using assms by (simp add: offered_alt and.assoc)

text \<open>The request makes an indication.\<close>

lemma request_serial:
  assumes "\<not> bad_serial (word_of_int R) isn" "s_require s = offered R tc" "4 \<in> s_mask s \<longleftrightarrow> isn \<noteq> -1"
  shows "\<not> mismatched_serial s"
proof -
  have "offered R tc AND SR_SYNC = word_of_int R AND SR_SYNC" "offered R tc AND SR_ACTIVITY = word_of_int R AND SR_ACTIVITY"
    by (simp_all add: offered_same)
  then show ?thesis using assms unfolding mismatched_serial_def bad_serial_def by (auto split: if_splits)
qed

section \<open>The answer\<close>

definition agreed :: "16 word \<Rightarrow> int \<Rightarrow> 16 word" where
  "agreed req requirements = req AND word_of_int requirements"

definition answer_spkt :: "ssapblk \<Rightarrow> SSAPref \<Rightarrow> byte list option \<Rightarrow> int \<Rightarrow> int \<Rightarrow> int \<Rightarrow> byte list \<Rightarrow> ssapkt" where
  "answer_spkt sb ref responding requirements settings isn d =
     (let sb1 = sb\<lparr>sb_requirements := agreed (sb_requirements sb) requirements\<rparr> in
      case respond_tokens sb1 tokens settings 0 0 of (w, owned, please, ok) \<Rightarrow> accept_spkt sb1 ref responding (word_of_int w) please isn d)"

text \<open>The answers that the responder does not turn down and the initiator takes.\<close>

definition good_answer :: "ssapblk \<Rightarrow> SSAPref \<Rightarrow> byte list option \<Rightarrow> int \<Rightarrow> int \<Rightarrow> int \<Rightarrow> byte list \<Rightarrow> bool" where
  "good_answer sb ref responding requirements settings isn d \<longleftrightarrow>
     (let sb1 = sb\<lparr>sb_requirements := agreed (sb_requirements sb) requirements\<rparr> in
      \<not> refmuchP ref \<and> sr_vdata ref = [] \<and> (case responding of Some a \<Rightarrow> length a \<le> SSSIZE | None \<Rightarrow> True)
      \<and> requirements AND NOT 0x7ff = 0
      \<and> \<not> (word_of_int requirements AND SR_HALFDUPLEX \<noteq> 0 \<and> word_of_int requirements AND SR_DUPLEX \<noteq> 0)
      \<and> (word_of_int requirements AND SR_EXCEPTIONS \<noteq> 0 \<longrightarrow> word_of_int requirements AND SR_HALFDUPLEX \<noteq> 0)
      \<and> \<not> mismatched_units (sb_requirements sb1) \<and> (\<forall>n \<in> set tokens. proper sb1 settings n)
      \<and> 0 \<le> settings \<and> settings \<le> 255 \<and> \<not> bad_serial (sb_requirements sb1) isn \<and> length d \<le> SS_SIZE)"

lemma accept_fields:
  fixes sb ref responding w please isn d
  defines "s \<equiv> accept_spkt sb ref responding w please isn d"
  assumes "sb_version sb = 1" "sb_tsdu_us sb = 0" "sb_tsdu_them sb = 0"
  shows "s_code s = SPDU_AC" "s_reference s = ref" "s_options s = 0" "s_version s = 2" "s_isn s = (if isn = -1 then 0 else nat isn)"
    "s_called s = (case responding of None \<Rightarrow> [] | Some a \<Rightarrow> a)" "s_udata s = opt_data d" "s_require s = sb_requirements sb"
    "s_settings s = (if requires sb SR_TOKENS then w else 0)" "s_token s = please"
    "s_mask s = {0, 1, 3, 7} \<union> (if isn = -1 then {} else {4}) \<union> (if requires sb SR_TOKENS then {5} else {}) \<union> (if please = 0 then {} else {6})
       \<union> (if responding = None then {} else {9}) \<union> (if d = [] then {} else {14})"
  using assms(2-4) unfolding s_def
  by (cases responding; cases "isn = -1"; cases "d = []"; cases "please = 0"; cases "requires sb SR_TOKENS";
    simp add: accept_spkt_def offer_units_def offer_sizes_def Let_def newspkt_def add_udata_def opt_data_def; auto)+

lemma accept_ok:
  assumes "sb_version sb = 1" "sb_tsdu_us sb = 0" "sb_tsdu_them sb = 0" "\<not> refmuchP ref"
    "case responding of Some a \<Rightarrow> length a \<le> 64 | None \<Rightarrow> True" "\<not> bad_serial (sb_requirements sb) isn" "length d \<le> 512"
  shows "spkt_ok (accept_spkt sb ref responding w please isn d)"
proof -
  define s where "s = accept_spkt sb ref responding w please isn d"
  note f = accept_fields [OF assms(1-3), of ref responding w please isn d, folded s_def]
  have "s_mask s \<subseteq> {0, 1, 2, 3, 4, 5, 6, 7, 8, 9, 13, 14}" "13 \<notin> s_mask s" unfolding f by auto
  moreover have "ref_ok (s_reference s)" unfolding f by (rule ref_ok_not_much [OF assms(4)])
  moreover have "items_ok s" unfolding items_ok_def f(3,5) using good_serial [OF assms(6)] by auto
  moreover have "8 \<notin> s_mask s" "length (s_called s) \<le> 64" unfolding f(6,11) using assms(5) by (auto split: option.splits)
  moreover have "udata_ok 512 s" unfolding udata_ok_def f(7,11) opt_data_def using assms(7) by auto
  ultimately have "spkt_ok s" unfolding spkt_ok_def f(1) conn_ok_def enclose_ok_def by simp
  then show ?thesis by (simp add: s_def)
qed

definition answered :: "ssapblk \<Rightarrow> byte list option \<Rightarrow> int \<Rightarrow> byte \<Rightarrow> ssapblk" where
  "answered sb responding requirements owned =
     sb\<lparr>sb_responding := (case responding of Some a \<Rightarrow> a | None \<Rightarrow> sb_responding sb), sb_requirements := agreed (sb_requirements sb) requirements,
       sb_owned := owned, sb_flags := insert SB_CONN (sb_flags sb)\<rparr>"

lemma respond_tokens_cong:
  "sb_settings sb = sb_settings sb' \<Longrightarrow> sb_requirements sb = sb_requirements sb' \<Longrightarrow> respond_tokens sb ns w o' p = respond_tokens sb' ns w o' p"
proof (induction ns arbitrary: w o' p)
  case (Cons n ns)
  have "token_exists sb n = token_exists sb' n" using Cons.prems(2) by (simp add: token_exists_def requires_def)
  with Cons show ?case by (simp add: Let_def)
qed simp

lemma accept_spkt_cong:
  assumes "sb_version sb = sb_version sb'" "sb_requirements sb = sb_requirements sb'" "sb_tsdu_us sb = sb_tsdu_us sb'" "sb_tsdu_them sb = sb_tsdu_them sb'"
    "requires sb SR_TOKENS \<Longrightarrow> w = w'"
  shows "accept_spkt sb ref responding w please isn d = accept_spkt sb' ref responding w' please isn d"
proof -
  have "offer_sizes sb = offer_sizes sb'" using assms(3,4) by (intro ext) (simp add: offer_sizes_def)
  moreover have "offer_units sb w = offer_units sb' w'" using assms(2,5) by (intro ext) (auto simp: offer_units_def requires_def Let_def)
  ultimately show ?thesis using assms(1) by (simp add: accept_spkt_def)
qed

lemma accept_connection_runs:
  assumes "good_answer sb0 ref responding R W isn d" "sb_version sb0 = 1" "sb_tsdu_us sb0 = 0" "sb_tsdu_them sb0 = 0"
    "clear_of_window (answer_spkt sb0 ref responding R W isn d)" "\<forall>n. mem n"
    "sb = sb0\<lparr>sb_responding := x\<rparr>"
    "respond_tokens (sb0\<lparr>sb_requirements := agreed (sb_requirements sb0) R\<rparr>) tokens W 0 0 = (w, owned, please, True)" "0 \<le> w" "w \<le> 255"
  shows "accept_connection mem (\<lambda>_. None) sb ref responding R W isn d =
    \<lparr>rp_res = S_OK, rp_sb = Some (set_flags {SB_CONN} {} (sb\<lparr>sb_requirements := agreed (sb_requirements sb0) R, sb_owned := owned\<rparr>)),
     rp_out = [Normal (spdu SPDU_AC (render (params_AC (answer_spkt sb0 ref responding R W isn d))))], rp_ssn = None\<rparr>"
proof -
  let ?u = "answer_spkt sb0 ref responding R W isn d"
  define s1 where "s1 = sb\<lparr>sb_requirements := agreed (sb_requirements sb0) R\<rparr>"
  define s2 where "s2 = s1\<lparr>sb_owned := owned\<rparr>"
  have g: "\<not> refmuchP ref" "case responding of Some a \<Rightarrow> length a \<le> 64 | None \<Rightarrow> True" "R AND NOT 0x7ff = 0"
    "\<not> (word_of_int R AND SR_HALFDUPLEX \<noteq> 0 \<and> word_of_int R AND SR_DUPLEX \<noteq> 0)"
    "word_of_int R AND SR_EXCEPTIONS \<noteq> 0 \<longrightarrow> word_of_int R AND SR_HALFDUPLEX \<noteq> 0"
    "\<not> bad_serial (agreed (sb_requirements sb0) R) isn" "length d \<le> 512"
    using assms(1) unfolding good_answer_def Let_def by simp_all
  have r1: "respond_tokens s1 tokens W 0 0 = (w, owned, please, True)"
    unfolding assms(8) [symmetric] by (rule respond_tokens_cong) (simp_all add: s1_def assms(7))
  have s2: "sb_requirements s2 = agreed (sb_requirements sb0) R" "sb_version s2 = 1" "sb_tsdu_us s2 = 0" "sb_tsdu_them s2 = 0"
    using assms(2-4,7) by (simp_all add: s2_def s1_def)
  have u: "accept_spkt s2 ref responding b please isn d = ?u" if "requires s2 SR_TOKENS \<Longrightarrow> b = word_of_int w" for b
    unfolding answer_spkt_def Let_def assms(8) prod.case
    by (rule accept_spkt_cong) (use s2 assms(2-4) that in simp_all)
  have ok: "spkt_ok ?u" unfolding u [of "word_of_int w", symmetric, OF refl]
    by (rule accept_ok) (use s2 g in simp_all)
  have c: "s_code ?u = SPDU_AC" unfolding u [of "word_of_int w", symmetric, OF refl] using accept_fields(1) [OF s2(2-4)] .
  have o: "spkt2sd mem (\<lambda>_. None) ?u False = (S_OK, [Normal (spdu SPDU_AC (render (params_AC ?u)))])"
    using conn_octets(1) [OF ok assms(5,6)] c by (auto simp del: not_all)
  obtain b where b: "(if requires s2 SR_TOKENS then int2u8 w else Some 0) = Some b" "requires s2 SR_TOKENS \<Longrightarrow> b = word_of_int w"
    using assms(9,10) by (cases "requires s2 SR_TOKENS") (simp_all add: int2u8_def)
  have "\<not> (case responding of Some a \<Rightarrow> length a > 64 | None \<Rightarrow> False)" using g(2) by (auto split: option.splits)
  then have "send_accept mem (\<lambda>_. None) s2 ref responding w please isn d = settle (S_OK, [Normal (spdu SPDU_AC (render (params_AC ?u)))]) (set_flags {SB_CONN} {} s2)"
    unfolding send_accept_def b(1) option.case using s2 g(7) u [OF b(2)] o by (simp add: too_much_connect_def)
  moreover have "accept_connection mem (\<lambda>_. None) sb ref responding R W isn d = send_accept mem (\<lambda>_. None) s2 ref responding w please isn d"
    unfolding accept_connection_def Let_def using g(3-6) r1 s2(1)
    by (simp add: s1_def s2_def assms(7) agreed_def; blast)
  ultimately show ?thesis by (simp add: settle_def s2_def s1_def)
qed

lemma response_runs:
  assumes "good_answer sb ref responding R W isn d" "sb_version sb = 1" "sb_tsdu_us sb = 0" "sb_tsdu_them sb = 0" "SB_CONN \<notin> sb_flags sb"
    "clear_of_window (answer_spkt sb ref responding R W isn d)" "\<forall>n. mem n"
  defines "sb1 \<equiv> sb\<lparr>sb_requirements := agreed (sb_requirements sb) R\<rparr>"
  shows "\<exists>w owned please. answer_spkt sb ref responding R W isn d = accept_spkt sb1 ref responding w please isn d
    \<and> SConnResponse mem (\<lambda>_. None) sb ref responding (-1) R W isn d =
      \<lparr>rp_res = S_OK, rp_sb = Some (answered sb responding R owned),
       rp_out = [Normal (spdu SPDU_AC (render (params_AC (answer_spkt sb ref responding R W isn d))))], rp_ssn = None\<rparr>
    \<and> (\<forall>n. bit owned n \<longleftrightarrow> n \<in> set tokens \<and> shared sb1 n \<and> choice sb1 W n = 1)
    \<and> (\<forall>n \<in> set tokens. shared sb1 n \<longrightarrow> setting (uint w) n = choice sb1 W n)"
proof -
  have g: "\<forall>n \<in> set tokens. proper sb1 W n" "0 \<le> W" "W \<le> 255" "\<not> refmuchP ref" "sr_vdata ref = []"
    using assms(1) unfolding good_answer_def Let_def sb1_def by blast+
  have ts: "set tokens \<subseteq> {0, 2, 4, 6}" by (simp add: tokens_set)
  from respond_tokens_spec [OF tokens_set(2) ts g(1-3), of 0 0] obtain w owned please where
    r: "respond_tokens sb1 tokens W 0 0 = (w, owned, please, True)" "0 \<le> w" "w \<le> 255"
      "\<forall>n. bit owned n \<longleftrightarrow> bit (0 :: byte) n \<or> n \<in> set tokens \<and> shared sb1 n \<and> choice sb1 W n = 1"
      "\<forall>n \<in> {0, 2, 4, 6}. setting w n = (if n \<in> set tokens \<and> shared sb1 n then choice sb1 W n else setting W n)" by blast
  have "uint (word_of_int w :: byte) = w" using r(2,3) by (simp add: uint_word_of_int)
  then have "\<forall>n \<in> set tokens. shared sb1 n \<longrightarrow> setting (uint (word_of_int w :: byte)) n = choice sb1 W n" using r(5) tokens_set by auto
  moreover have "answer_spkt sb ref responding R W isn d = accept_spkt sb1 ref responding (word_of_int w) please isn d"
    using r(1) by (simp add: answer_spkt_def sb1_def)
  moreover have "SConnResponse mem (\<lambda>_. None) sb ref responding (-1) R W isn d =
      \<lparr>rp_res = S_OK, rp_sb = Some (answered sb responding R owned),
       rp_out = [Normal (spdu SPDU_AC (render (params_AC (answer_spkt sb ref responding R W isn d))))], rp_ssn = None\<rparr>"
  proof -
    let ?x = "case responding of Some a \<Rightarrow> a | None \<Rightarrow> sb_responding sb"
    have x: "(case responding of Some a \<Rightarrow> sb\<lparr>sb_responding := a\<rparr> | None \<Rightarrow> sb) = sb\<lparr>sb_responding := ?x\<rparr>"
      by (cases responding) simp_all
    show ?thesis using accept_connection_runs [OF assms(1-4,6,7) refl r(1) [unfolded sb1_def] r(2,3), of ?x] assms(5) g(4,5)
      unfolding SConnResponse_def x Let_def by (simp add: answered_def set_flags_def)
  qed
  ultimately show ?thesis using r(4) by (metis bit_0_eq bot_apply bot_bool_def)
qed

section \<open>The confirmation\<close>

lemma one_of_two:
  fixes r :: "16 word"
  assumes "r AND 3 \<noteq> 0" "r AND 1 = 0 \<or> r AND 2 = 0"
  shows "r AND 3 = 1 \<or> r AND 3 = 2"
proof -
  have "uint (r AND 3) = uint r mod 4" 
    using take_bit_eq_mask [of 2 "uint r"] by (simp add: uint_and mask_eq_exp_minus_1 take_bit_eq_mod)
  then have "uint (r AND 3) \<le> 3" "0 \<le> uint (r AND 3)" by simp_all
  then have "uint (r AND 3) = 0 \<or> uint (r AND 3) = 1 \<or> uint (r AND 3) = 2 \<or> uint (r AND 3) = 3"
    unfolding le_less by (simp add: int_one_le_iff_zero_less) presburger
  then have "r AND 3 = 0 \<or> r AND 3 = 1 \<or> r AND 3 = 2 \<or> r AND 3 = 3" by (simp add: word_uint_eq_iff)
  moreover have "r AND 3 \<noteq> 3"
  proof
    assume "r AND 3 = 3"
    then have "(r AND 3) AND 1 = 1" "(r AND 3) AND 2 = 2" by simp_all
    with assms(2) show False by (simp add: and.assoc)
  qed
  ultimately show ?thesis using assms(1) by blast
qed

definition confirmed :: "ssapblk \<Rightarrow> ssapkt \<Rightarrow> ssapblk" where
  "confirmed sb u =
     (let sb1 = sb\<lparr>sb_options := s_options u, sb_tsdu_us := 0, sb_tsdu_them := 0, sb_vrsnmask := 2, sb_version := 1,
            sb_V_A := (if 4 \<in> s_mask u then int (s_isn u) else sb_V_A sb), sb_V_M := (if 4 \<in> s_mask u then int (s_isn u) else sb_V_M sb),
            sb_requirements := s_require u\<rparr> in
      set_flags {SB_CONN, SB_INIT} {} (sb1\<lparr>sb_owned := confirm_owned sb1 (read_AC u),
        sb_responding := (if 9 \<in> s_mask u then take SSSIZE (s_called u) else sb_responding sb)\<rparr>))"

lemma confirm_runs:
  assumes "s_mask u \<subseteq> {0, 1, 2, 3, 4, 5, 6, 7, 8, 9, 13, 14}" "udata_ok 512 u" "{0, 1, 3, 7} \<subseteq> s_mask u" "2 \<notin> s_mask u" "s_version u = 2"
    "sb_vrsnmask sb = 2 \<or> sb_vrsnmask sb = 3" "0 \<le> sb_tsdu_us sb" "0 \<le> sb_tsdu_them sb" "s_require u = sb_requirements sb AND x"
    "\<not> mismatched_units (s_require u)" "x AND SR_HALFDUPLEX = 0 \<or> x AND SR_DUPLEX = 0"
  shows "confirm_block sb (read_AC u) = Some (confirmed sb u)"
proof -
  note r = read_AC_simps [OF assms(1,2)]
  have m: "0 \<in> s_mask u" "1 \<in> s_mask u" "3 \<in> s_mask u" "7 \<in> s_mask u" using assms(3) by auto
  have p: "proposed (read_AC u) = s_require u" using m by (simp add: proposed_def r)
  have v: "sb_vrsnmask sb AND 2 = 2" using assms(6) by auto
  have q: "s_require u AND NOT (sb_requirements sb) = 0" "sb_requirements sb AND s_require u = s_require u"
    by (simp_all add: assms(9) and.assoc and.left_commute and.commute)
  have "s_require u AND 1 = 0 \<or> s_require u AND 2 = 0" using assms(11) by (auto simp: assms(9) and.assoc)
  moreover have "s_require u AND 3 \<noteq> 0" using assms(10) by (simp add: mismatched_units_def)
  ultimately have "s_require u AND 3 = 1 \<or> s_require u AND 3 = 2" by (intro one_of_two)
  then have c: "\<not> (s_require u AND (1 OR 2) \<noteq> 1 \<and> s_require u AND (1 OR 2) \<noteq> 2)" by simp
  have d: "\<not> (s_require u AND SR_EXCEPTIONS \<noteq> 0 \<and> s_require u AND SR_HALFDUPLEX = 0)"
    "\<not> (s_require u AND SR_CAPABILITY \<noteq> 0 \<and> s_require u AND SR_ACTIVITY = 0)"
    using assms(10) unfolding mismatched_units_def by blast+
  have e: "(if 0 < sb_tsdu_us sb then 0 else sb_tsdu_us sb) = 0" "(if 0 < sb_tsdu_them sb then 0 else sb_tsdu_them sb) = 0"
    using assms(7,8) by simp_all
  have n: "(2 \<in> s_mask u) = False" "(1 \<in> s_mask u) = True" "(3 \<in> s_mask u) = True" using m assms(4) by simp_all
  have b: "\<not> BAD_TSDU_SIZE 0" "2 AND sb_vrsnmask sb \<noteq> 0" "bit (2 :: byte) 1" using v by (simp_all add: BAD_TSDU_SIZE_def and.commute)
  show ?thesis
    unfolding confirm_block_def Let_def r p q n if_True if_False e assms(5) v using b c d
    by (simp add: confirmed_def Let_def)
qed

end
