(* ===== verification/Spm_Handshake.thy ===== *)
theory Spm_Handshake
  imports Spm_Session
begin

text \<open>
  The two machines after a session connection has been asked for and accepted.
\<close>

section \<open>The tokens of the two sides\<close>

lemma confirmed_choice:
  assumes "sb_settings a = sb_settings b" "5 \<in> s_mask u" "setting (uint (s_settings u)) n = choice b w n" "choice b w n = 0 \<or> choice b w n = 1"
  shows "confirmed_setting a u n = choice b w n"
  using assms by (auto simp: confirmed_setting_def choice_def Let_def)

lemma confirm_owned_bit:
  "sb_owned a = 0 \<Longrightarrow> bit (confirm_owned a u) n \<longleftrightarrow> n \<in> set tokens \<and> token_exists a n \<and> confirmed_setting a u n = 0"
  unfolding confirm_owned_def by (subst bit_set_tokens) (auto simp: tokens_set)

lemma token_needs_tokens: "n \<in> set tokens \<Longrightarrow> token_exists sb n \<Longrightarrow> requires sb SR_TOKENS"
proof -
  assume n: "n \<in> set tokens" and e: "token_exists sb n"
  have "requires sb m \<Longrightarrow> m AND SR_TOKENS = m \<Longrightarrow> requires sb SR_TOKENS" for m
  proof -
    assume r: "requires sb m" and m: "m AND SR_TOKENS = m"
    have "sb_requirements sb AND m = (sb_requirements sb AND SR_TOKENS) AND m"
      by (subst m [symmetric]) (simp only: ac_simps)
    with r show ?thesis by (auto simp: requires_def)
  qed
  with n e show ?thesis by (auto simp: token_exists_def tokens_set split: if_splits)
qed

text \<open>What two machines of one session have in common.\<close>

definition agree :: "ssapblk \<Rightarrow> ssapblk \<Rightarrow> bool" where
  "agree a b \<longleftrightarrow> {SB_CONN, SB_INIT} \<subseteq> sb_flags a \<and> SB_CONN \<in> sb_flags b \<and> SB_INIT \<notin> sb_flags b
     \<and> (SB_EXPD \<in> sb_flags a \<longleftrightarrow> SB_EXPD \<in> sb_flags b) \<and> sb_requirements a = sb_requirements b \<and> sb_version a = sb_version b
     \<and> sb_tsdu_us a = sb_tsdu_them b \<and> sb_tsdu_them a = sb_tsdu_us b
     \<and> (\<forall>n. if n \<in> set tokens \<and> token_exists a n then owns a n \<noteq> owns b n else \<not> owns a n \<and> \<not> owns b n)"

section \<open>The handshake\<close>

lemma versions_bit: "bit (versions d qos) 1"
  by (simp add: versions_def)

lemma request_indicated:
  fixes tc ref calling called R S isn d qos ts
  assumes "good_request ref calling called R S isn d" "ts_expedited ts = tc_expedited tc"
  defines "s \<equiv> request_spkt tc ref calling called R S isn d qos"
  defines "b \<equiv> indicated s ts"
  shows "sb_version b = 1" "sb_tsdu_us b = 0" "sb_tsdu_them b = 0" "sb_flags b = (if tc_expedited tc then {SB_EXPD} else {})"
    "sb_requirements b = offered R tc" "requires b SR_TOKENS \<Longrightarrow> sb_settings b = word_of_int S" "sb_V_A b = (if isn = -1 then 0 else isn)"
    "sb_V_M b = (if isn = -1 then 0 else isn)" "sb_spdu b = None" "sb_xspdu b = None"
proof -
  note f = request_fields [of tc ref calling called R S isn d qos, folded s_def]
  have m: "{0, 1, 3, 7} \<subseteq> s_mask s" unfolding f by auto
  have v: "bit (s_version s) 1" unfolding f by (rule versions_bit)
  note i = indicated_fields [OF m v, of ts, folded b_def]
  have g: "R AND NOT 0x7ff = 0" "\<not> bad_serial (word_of_int R) isn" using assms(1) unfolding good_request_def by blast+
  show q: "sb_requirements b = offered R tc" unfolding i(6) f(9) by (rule offered_start [OF g(1) assms(2)])
  have n: "4 \<in> s_mask s \<longleftrightarrow> isn \<noteq> -1" unfolding f by (auto split: if_splits)
  show "sb_V_A b = (if isn = -1 then 0 else isn)" "sb_V_M b = (if isn = -1 then 0 else isn)"
    unfolding i(8,9) n f(5) using good_serial [OF g(2)] by auto
  show "sb_settings b = word_of_int S" if "requires b SR_TOKENS"
  proof -
    have t: "requires (opened tc ref calling called R S isn d qos) SR_TOKENS" using that q by (simp add: requires_def)
    then have "5 \<in> s_mask s" unfolding f(11) by simp
    then show ?thesis unfolding i(7) using f(10) [OF t] by simp
  qed
  show "sb_version b = 1" "sb_tsdu_us b = 0" "sb_tsdu_them b = 0" "sb_flags b = (if tc_expedited tc then {SB_EXPD} else {})"
    "sb_spdu b = None" "sb_xspdu b = None" using i assms(2) by simp_all
qed

lemma ref_same: "sr_vdata ref = [] \<Longrightarrow> ref\<lparr>sr_vdata := []\<rparr> = ref"
  by (cases ref) simp

lemma octs_opt: "octs (opt_data d) = d"
  by (simp add: opt_data_def octs_def)

lemma request_travels:
  fixes tc ref calling called R S isn d qos ts mem q e tw
  assumes "good_request ref calling called R S isn d" "\<not> mismatched_units (offered R tc)" "ts_tsdusize ts \<le> 65535" "\<forall>n. mem n"
  defines "s \<equiv> request_spkt tc ref calling called R S isn d qos"
  assumes "clear_of_window s"
  shows "spkt2sd mem (\<lambda>_. None) s False = (S_OK, [Normal (spdu SPDU_CN (render (params_CN s)))])"
    and "concat q = spdu SPDU_CN (render (params_CN s)) \<Longrightarrow> SInit mem tw ts (Inl (Arrive e q)) =
      \<lparr>ir_res = S_OK, ir_sb = Some (indicated s ts), ir_ss = Some (start_indication (indicated s ts) (read_CN s) ts), ir_out = []\<rparr>"
    and "ss_connect (start_indication (indicated s ts) (read_CN s) ts) = ref"
    and "ss_called (start_indication (indicated s ts) (read_CN s) ts) = called"
    and "ss_isn (start_indication (indicated s ts) (read_CN s) ts) = isn"
    and "octs (ss_data (start_indication (indicated s ts) (read_CN s) ts)) = d"
proof -
  note f = request_fields [of tc ref calling called R S isn d qos, folded s_def]
  have g: "sr_vdata ref = []" "length called \<le> 64" "\<not> bad_serial (word_of_int R) isn" using assms(1) unfolding good_request_def by blast+
  have ok: "spkt_ok s" unfolding s_def by (rule request_ok [OF assms(1)])
  have m: "{0, 1, 3, 7} \<subseteq> s_mask s" "4 \<in> s_mask s \<longleftrightarrow> isn \<noteq> -1" "9 \<in> s_mask s \<longleftrightarrow> called \<noteq> []"
    unfolding f by (auto split: if_splits)
  have v: "bit (s_version s) 1" unfolding f by (rule versions_bit)
  note o = conn_octets [OF ok assms(6,4), of "params_CN s"]
  show "spkt2sd mem (\<lambda>_. None) s False = (S_OK, [Normal (spdu SPDU_CN (render (params_CN s)))])" using o(1) f(1) by simp
  have l: "length (render (params_CN s)) \<le> 65535" using o(2) f(1) by blast
  have u: "\<not> mismatched_units (s_require s)" unfolding f by (rule assms(2))
  have sn: "\<not> mismatched_serial s" by (rule request_serial [OF g(3) f(9) m(2)])
  show "SInit mem tw ts (Inl (Arrive e q)) =
      \<lparr>ir_res = S_OK, ir_sb = Some (indicated s ts), ir_ss = Some (start_indication (indicated s ts) (read_CN s) ts), ir_out = []\<rparr>"
    if "concat q = spdu SPDU_CN (render (params_CN s))"
    by (rule indication_runs [OF ok f(1) assms(4) l that _ v u sn assms(3)]) (use m in auto)
  have z: "0 \<in> s_mask s" using m by auto
  show "ss_connect (start_indication (indicated s ts) (read_CN s) ts) = ref"
    "ss_called (start_indication (indicated s ts) (read_CN s) ts) = called" "octs (ss_data (start_indication (indicated s ts) (read_CN s) ts)) = d"
    using z f(2,7,8) g(1,2) m(3) by (auto simp: start_indication_def indicated_def started_def ref_same octs_opt)
  show "ss_isn (start_indication (indicated s ts) (read_CN s) ts) = isn"
    using good_serial [OF g(3)] m(2) f(5) by (auto simp: start_indication_def)
qed

lemma confirmed_bits:
  fixes sb u
  defines "a \<equiv> confirmed sb u"
  shows "sb_flags a = sb_flags sb \<union> {SB_CONN, SB_INIT}" "sb_requirements a = s_require u" "sb_version a = 1" "sb_tsdu_us a = 0" "sb_tsdu_them a = 0"
    "sb_V_A a = (if 4 \<in> s_mask u then int (s_isn u) else sb_V_A sb)" "sb_V_M a = (if 4 \<in> s_mask u then int (s_isn u) else sb_V_M sb)"
    "sb_owned a = confirm_owned (sb\<lparr>sb_options := s_options u, sb_tsdu_us := 0, sb_tsdu_them := 0, sb_vrsnmask := 2, sb_version := 1,
            sb_V_A := (if 4 \<in> s_mask u then int (s_isn u) else sb_V_A sb), sb_V_M := (if 4 \<in> s_mask u then int (s_isn u) else sb_V_M sb),
            sb_requirements := s_require u\<rparr>) (read_AC u)"
    "sb_spdu a = sb_spdu sb" "sb_xspdu a = sb_xspdu sb"
  unfolding a_def by (simp_all add: confirmed_def set_flags_def Let_def)

lemma answer_facts:
  fixes b u
  assumes "u = accept_spkt (b\<lparr>sb_requirements := agreed (sb_requirements b) R\<rparr>) ref responding w please isn d"
    "good_answer b ref responding R W isn d" "sb_version b = 1" "sb_tsdu_us b = 0" "sb_tsdu_them b = 0"
  shows "spkt_ok u" "s_code u = SPDU_AC" "s_mask u \<subseteq> {0, 1, 2, 3, 4, 5, 6, 7, 8, 9, 13, 14}" "udata_ok 512 u" "{0, 1, 3, 7} \<subseteq> s_mask u"
    "2 \<notin> s_mask u" "s_version u = 2" "s_require u = agreed (sb_requirements b) R" "\<not> mismatched_units (s_require u)"
    "s_reference u = ref" "sr_vdata ref = []" "octs (s_udata u) = d" "4 \<in> s_mask u \<longleftrightarrow> isn \<noteq> -1" "isn \<noteq> -1 \<Longrightarrow> int (s_isn u) = isn"
    "agreed (sb_requirements b) R AND SR_TOKENS \<noteq> 0 \<Longrightarrow> 5 \<in> s_mask u \<and> s_settings u = w"
    "word_of_int R AND SR_HALFDUPLEX = 0 \<or> word_of_int R AND SR_DUPLEX = 0"
proof -
  let ?b = "b\<lparr>sb_requirements := agreed (sb_requirements b) R\<rparr>"
  have g: "\<not> refmuchP ref" "sr_vdata ref = []" "case responding of Some a \<Rightarrow> length a \<le> 64 | None \<Rightarrow> True"
    "\<not> (word_of_int R AND SR_HALFDUPLEX \<noteq> 0 \<and> word_of_int R AND SR_DUPLEX \<noteq> 0)"
    "\<not> mismatched_units (agreed (sb_requirements b) R)" "\<not> bad_serial (agreed (sb_requirements b) R) isn" "length d \<le> 512"
    using assms(2) unfolding good_answer_def Let_def by simp_all
  have b: "sb_version ?b = 1" "sb_tsdu_us ?b = 0" "sb_tsdu_them ?b = 0" using assms(3-5) by simp_all
  note f = accept_fields [OF b, of ref responding w please isn d, folded assms(1)]
  show ok: "spkt_ok u" unfolding assms(1) by (rule accept_ok [OF b g(1,3)]) (use g in simp_all)
  show c: "s_code u = SPDU_AC" by (rule f(1))
  show "s_mask u \<subseteq> {0, 1, 2, 3, 4, 5, 6, 7, 8, 9, 13, 14}" "udata_ok 512 u" using ok c by (simp_all add: spkt_ok_def)
  show "{0, 1, 3, 7} \<subseteq> s_mask u" "2 \<notin> s_mask u" "4 \<in> s_mask u \<longleftrightarrow> isn \<noteq> -1" unfolding f by (auto split: if_splits)
  show "s_version u = 2" "s_reference u = ref" by (rule f)+
  show "s_require u = agreed (sb_requirements b) R" unfolding f by simp
  then show "\<not> mismatched_units (s_require u)" using g(5) by simp
  show "sr_vdata ref = []" by (rule g(2))
  show "octs (s_udata u) = d" unfolding f by (rule octs_opt)
  show "int (s_isn u) = isn" if "isn \<noteq> -1" unfolding f using good_serial [OF g(6) that] that by simp
  show "5 \<in> s_mask u \<and> s_settings u = w" if "agreed (sb_requirements b) R AND SR_TOKENS \<noteq> 0"
  proof -
    have "requires ?b SR_TOKENS" using that by (simp add: requires_def)
    then show ?thesis unfolding f by simp
  qed
  show "word_of_int R AND SR_HALFDUPLEX = 0 \<or> word_of_int R AND SR_DUPLEX = 0" using g(4) by blast
qed

lemma confirm_travels:
  fixes a b u
  assumes "good_answer b ref responding R W isn d" "sb_version b = 1" "sb_tsdu_us b = 0" "sb_tsdu_them b = 0"
    "u = accept_spkt (b\<lparr>sb_requirements := agreed (sb_requirements b) R\<rparr>) ref responding w please isn d" "clear_of_window u" "\<forall>n. mem n"
    "sb_requirements a = sb_requirements b" "sb_spdu a = None" "sb_xspdu a = None" "sb_vrsnmask a = 2 \<or> sb_vrsnmask a = 3"
    "0 \<le> sb_tsdu_us a" "0 \<le> sb_tsdu_them a" "concat q = spdu SPDU_AC (render (params_AC u))"
  defines "a1 \<equiv> a\<lparr>sb_retry := None\<rparr>"
  shows "SAsynRetryAux2 mem tw a tc (Arrive False q # rx) =
    \<lparr>cr_ret = RET_DONE, cr_sb = Some (confirmed a1 u), cr_sc = Some (confirm_connect a1 (confirmed a1 u) tc (read_AC u)), cr_out = [], cr_rx = rx\<rparr>"
proof -
  note f = answer_facts [OF assms(5,1-4)]
  have l: "length (render (params_AC u)) \<le> 65535" using conn_octets(2) [OF f(1) assms(6,7), of "params_AC u"] f(2) by blast
  have "sb2spkt mem tw a1 (Arrive False q # rx) = (Got (plain_spkt (read_AC u)), a1, [], rx)"
    by (rule AC_arrives [OF f(1,2) assms(7) l assms(14)]) (simp_all add: a1_def assms(9,10))
  moreover have "confirm_block a1 (read_AC u) = Some (confirmed a1 u)"
    by (rule confirm_runs [OF f(3-7) _ _ _ _ f(9,16)]) (use f(8) assms(8,11-13) in \<open>simp_all add: a1_def agreed_def\<close>)
  moreover have "s_code (read_AC u) = SPDU_AC" using read_AC_simps(2) [OF f(3,4)] .
  ultimately show ?thesis unfolding SAsynRetryAux2_def a1_def [symmetric] by (simp add: Let_def)
qed

lemma and_mono: "(r AND x) AND m \<noteq> 0 \<Longrightarrow> r AND m \<noteq> (0 :: 16 word)"
proof
  assume n: "(r AND x) AND m \<noteq> 0" and z: "r AND m = 0"
  have "(r AND x) AND m = x AND (r AND m)" by (simp only: ac_simps)
  with n z show False by simp
qed

lemma token_exists_cong: "sb_requirements sb = sb_requirements sb' \<Longrightarrow> token_exists sb n = token_exists sb' n"
  by (simp add: token_exists_def requires_def)

lemma token_exists_agreed:
  assumes "token_exists sb n" "sb_requirements sb = agreed (sb_requirements sb') R"
  shows "token_exists sb' n"
  using assms and_mono unfolding token_exists_def requires_def agreed_def by metis

lemma tokens_agree:
  fixes a b u
  assumes "good_answer b ref responding R W isn d" "sb_version b = 1" "sb_tsdu_us b = 0" "sb_tsdu_them b = 0"
    "u = accept_spkt (b\<lparr>sb_requirements := agreed (sb_requirements b) R\<rparr>) ref responding w please isn d"
    "sb_requirements a = sb_requirements b" "sb_owned a = 0" "requires b SR_TOKENS \<Longrightarrow> sb_settings a = sb_settings b"
    "\<forall>n \<in> set tokens. token_exists a n \<longrightarrow> setting (uint (sb_settings a)) n \<noteq> 3"
  defines "b1 \<equiv> b\<lparr>sb_requirements := agreed (sb_requirements b) R\<rparr>"
  assumes "\<forall>n. bit owned n \<longleftrightarrow> n \<in> set tokens \<and> shared b1 n \<and> choice b1 W n = 1"
    "\<forall>n \<in> set tokens. shared b1 n \<longrightarrow> setting (uint w) n = choice b1 W n"
  shows "if n \<in> set tokens \<and> token_exists (confirmed a u) n then owns (confirmed a u) n \<noteq> owns (answered b responding R owned) n
    else \<not> owns (confirmed a u) n \<and> \<not> owns (answered b responding R owned) n"
proof -
  note f = answer_facts [OF assms(5,1-4)]
  define a1 where "a1 = a\<lparr>sb_options := s_options u, sb_tsdu_us := 0, sb_tsdu_them := 0, sb_vrsnmask := 2, sb_version := 1,
            sb_V_A := (if 4 \<in> s_mask u then int (s_isn u) else sb_V_A a), sb_V_M := (if 4 \<in> s_mask u then int (s_isn u) else sb_V_M a),
            sb_requirements := s_require u\<rparr>"
  have e: "token_exists (confirmed a u) n = token_exists a1 n" "token_exists b1 n = token_exists a1 n"
    by (rule token_exists_cong, simp add: confirmed_bits a1_def f b1_def)+
  have oa: "owns (confirmed a u) n \<longleftrightarrow> n \<in> set tokens \<and> token_exists a1 n \<and> confirmed_setting a1 (read_AC u) n = 0"
    unfolding owns_def confirmed_bits a1_def [symmetric] by (rule confirm_owned_bit) (simp add: a1_def assms(7))
  have ob: "owns (answered b responding R owned) n \<longleftrightarrow> n \<in> set tokens \<and> shared b1 n \<and> choice b1 W n = 1"
    using assms(11) by (simp add: owns_def answered_def)
  have "owns (confirmed a u) n \<noteq> owns (answered b responding R owned) n" if n: "n \<in> set tokens" and x: "token_exists a1 n"
  proof -
    have "requires a1 SR_TOKENS" by (rule token_needs_tokens [OF n x])
    then have r: "agreed (sb_requirements b) R AND SR_TOKENS \<noteq> 0" by (simp add: a1_def requires_def f)
    then have "requires b SR_TOKENS" using and_mono unfolding requires_def agreed_def by metis
    then have s: "sb_settings a1 = sb_settings b1" using assms(8) by (simp add: a1_def b1_def)
    have "token_exists a n" using token_exists_agreed [of a1 n a R] x f(8) by (simp add: a1_def assms(6))
    with assms(9) n have "setting (uint (sb_settings a1)) n \<noteq> 3" by (simp add: a1_def)
    with e(2) x s have sh: "shared b1 n" by (simp add: shared_def)
    have p: "choice b1 W n = 0 \<or> choice b1 W n = 1" using assms(1) n sh unfolding good_answer_def Let_def b1_def proper_def by blast
    have "setting (uint (s_settings (read_AC u))) n = choice b1 W n" "5 \<in> s_mask (read_AC u)"
      using f(15) [OF r] assms(12) n sh read_AC_simps(3,11) [OF f(3,4)] by simp_all
    then have "confirmed_setting a1 (read_AC u) n = choice b1 W n" using s p by (intro confirmed_choice)
    then show ?thesis using oa ob n x sh p by auto
  qed
  moreover have "\<not> (n \<in> set tokens \<and> token_exists a1 n) \<Longrightarrow> \<not> owns (confirmed a u) n \<and> \<not> owns (answered b responding R owned) n"
    using oa ob e(2) by (auto simp: shared_def)
  ultimately show ?thesis unfolding e(1) by auto
qed

lemma offered_settings:
  assumes "good_request ref calling called R S isn d" "sb_requirements a = offered R tc" "sb_settings a = word_of_int S"
  shows "\<forall>n \<in> set tokens. token_exists a n \<longrightarrow> setting (uint (sb_settings a)) n \<noteq> 3"
proof (intro ballI impI)
  fix n assume n: "n \<in> set tokens" "token_exists a n"
  have "0 \<le> S" "S \<le> 255" "token_exists (newsblk\<lparr>sb_requirements := word_of_int R\<rparr>) n \<longrightarrow> setting S n \<noteq> 3"
    using assms(1) n(1) unfolding good_request_def by blast+
  moreover from this(1,2) have "uint (word_of_int S :: byte) = S" by (simp add: uint_word_of_int)
  moreover have "token_exists (newsblk\<lparr>sb_requirements := word_of_int R\<rparr>) n"
    by (rule token_exists_agreed [OF n(2), of _ "if tc_expedited tc then -1 else -5"]) (simp add: assms(2) offered_alt agreed_def)
  ultimately show "setting (uint (sb_settings a)) n \<noteq> 3" using assms(3) by simp
qed

text \<open>The block of an initiator that waits for the answer.\<close>

definition waiting :: "16 word \<Rightarrow> byte \<Rightarrow> bool \<Rightarrow> ssapblk \<Rightarrow> bool" where
  "waiting req w expd a \<longleftrightarrow> sb_requirements a = req \<and> sb_settings a = w \<and> (SB_EXPD \<in> sb_flags a \<longleftrightarrow> expd) \<and> sb_flags a \<inter> {SB_Vact, SB_GTC} = {}
     \<and> sb_owned a = 0 \<and> sb_spdu a = None \<and> sb_xspdu a = None \<and> sb_V_A a = 0 \<and> sb_V_M a = 0 \<and> (sb_vrsnmask a = 2 \<or> sb_vrsnmask a = 3)
     \<and> 0 \<le> sb_tsdu_us a \<and> 0 \<le> sb_tsdu_them a"

lemma waiting_opened:
  "waiting (offered R tc) (word_of_int S) (tc_expedited tc) ((opened tc ref calling called R S isn d qos)\<lparr>sb_retry := x\<rparr>)"
  by (simp add: waiting_def GET_TSDU_SIZE_def versions_def)

text \<open>The responder after its answer, and the initiator after the confirmation.\<close>

definition settled :: "ssapblk \<Rightarrow> bool" where
  "settled sb \<longleftrightarrow> sb_flags sb \<inter> {SB_Vact, SB_GTC} = {} \<and> sb_spdu sb = None \<and> sb_xspdu sb = None"

lemma answered_fields:
  fixes tc ref calling called R S isn d qos ts responding R' owned
  assumes "good_request ref calling called R S isn d" "ts_expedited ts = tc_expedited tc"
  defines "b \<equiv> answered (indicated (request_spkt tc ref calling called R S isn d qos) ts) responding R' owned"
  shows "sb_requirements b = agreed (offered R tc) R'" "sb_version b = 1" "sb_tsdu_us b = 0" "sb_tsdu_them b = 0"
    "sb_flags b = insert SB_CONN (if tc_expedited tc then {SB_EXPD} else {})" "settled b"
    "sb_V_A b = (if isn = -1 then 0 else isn)" "sb_V_M b = (if isn = -1 then 0 else isn)"
  using request_indicated [OF assms(1,2), of qos] unfolding b_def by (auto simp: answered_def settled_def)

lemma confirm_report:
  fixes a u tc b
  assumes "s_mask u \<subseteq> {0, 1, 2, 3, 4, 5, 6, 7, 8, 9, 13, 14}" "udata_ok 512 u" "{0, 1, 3, 7} \<subseteq> s_mask u" "s_reference u = ref" "sr_vdata ref = []"
    "octs (s_udata u) = d" "4 \<in> s_mask u \<longleftrightarrow> isn \<noteq> -1" "isn \<noteq> -1 \<Longrightarrow> int (s_isn u) = isn"
  defines "sc \<equiv> confirm_connect a b tc (read_AC u)"
  shows "sc_result sc = -1 \<and> sc_connect sc = ref \<and> sc_isn sc = isn \<and> sc_data sc = d \<and> sc_requirements sc = sb_requirements b"
  using read_AC_simps [OF assms(1,2)] assms(3-8) unfolding sc_def confirm_connect_def by (simp add: ref_same)

lemma confirm_agrees:
  fixes tc ref calling called R S isn d qos ts mem ref' responding R' W isn' d' a0
  defines "b0 \<equiv> indicated (request_spkt tc ref calling called R S isn d qos) ts"
  defines "u \<equiv> answer_spkt b0 ref' responding R' W isn' d'"
  assumes "good_request ref calling called R S isn d" "ts_expedited ts = tc_expedited tc" "\<forall>n. mem n"
    "good_answer b0 ref' responding R' W isn' d'" "clear_of_window u" "waiting (offered R tc) (word_of_int S) (tc_expedited tc) a0"
  shows "\<exists>a b sc. SConnResponse mem (\<lambda>_. None) b0 ref' responding (-1) R' W isn' d' =
      \<lparr>rp_res = S_OK, rp_sb = Some b, rp_out = [Normal (spdu SPDU_AC (render (params_AC u)))], rp_ssn = None\<rparr>
    \<and> (\<forall>q rx. concat q = spdu SPDU_AC (render (params_AC u)) \<longrightarrow> SAsynRetryAux2 mem (\<lambda>_. None) a0 tc (Arrive False q # rx) =
        \<lparr>cr_ret = RET_DONE, cr_sb = Some a, cr_sc = Some sc, cr_out = [], cr_rx = rx\<rparr>)
    \<and> agree a b \<and> sb_requirements a = agreed (offered R tc) R'
    \<and> sb_V_A a = (if isn' = -1 then 0 else isn') \<and> sb_V_M a = (if isn' = -1 then 0 else isn')
    \<and> sb_V_A b = (if isn = -1 then 0 else isn) \<and> sb_V_M b = (if isn = -1 then 0 else isn) \<and> settled a \<and> settled b
    \<and> sc_result sc = -1 \<and> sc_connect sc = ref' \<and> sc_isn sc = isn' \<and> sc_data sc = d' \<and> sc_requirements sc = sb_requirements a"
proof -
  note i = request_indicated [OF assms(3,4), of qos, folded b0_def]
  define a1 where "a1 = a0\<lparr>sb_retry := None\<rparr>"
  have nc: "SB_CONN \<notin> sb_flags b0" using i(4) by simp
  from response_runs [OF assms(6) i(1-3) nc _ assms(5)] assms(7) obtain w owned please where
    u: "u = accept_spkt (b0\<lparr>sb_requirements := agreed (sb_requirements b0) R'\<rparr>) ref' responding w please isn' d'"
    and r: "SConnResponse mem (\<lambda>_. None) b0 ref' responding (-1) R' W isn' d' =
      \<lparr>rp_res = S_OK, rp_sb = Some (answered b0 responding R' owned), rp_out = [Normal (spdu SPDU_AC (render (params_AC u)))], rp_ssn = None\<rparr>"
    and t: "\<forall>n. bit owned n \<longleftrightarrow> n \<in> set tokens \<and> shared (b0\<lparr>sb_requirements := agreed (sb_requirements b0) R'\<rparr>) n
        \<and> choice (b0\<lparr>sb_requirements := agreed (sb_requirements b0) R'\<rparr>) W n = 1"
      "\<forall>n \<in> set tokens. shared (b0\<lparr>sb_requirements := agreed (sb_requirements b0) R'\<rparr>) n
        \<longrightarrow> setting (uint w) n = choice (b0\<lparr>sb_requirements := agreed (sb_requirements b0) R'\<rparr>) W n"
    unfolding u_def by blast
  note f = answer_facts [OF u assms(6) i(1-3)]
  have z: "sb_requirements a0 = sb_requirements b0" "sb_spdu a0 = None" "sb_xspdu a0 = None" "sb_vrsnmask a0 = 2 \<or> sb_vrsnmask a0 = 3"
    "0 \<le> sb_tsdu_us a0" "0 \<le> sb_tsdu_them a0" using assms(8) i(5) by (simp_all add: waiting_def)
  have a: "sb_requirements a1 = sb_requirements b0" "sb_owned a1 = 0" "sb_settings a1 = word_of_int S" "sb_requirements a1 = offered R tc"
    using assms(8) i(5) by (simp_all add: waiting_def a1_def)
  let ?a = "confirmed a1 u" and ?b = "answered b0 responding R' owned" and ?sc = "confirm_connect a1 (confirmed a1 u) tc (read_AC u)"
  have tk: "if n \<in> set tokens \<and> token_exists ?a n then owns ?a n \<noteq> owns ?b n else \<not> owns ?a n \<and> \<not> owns ?b n" for n
    by (rule tokens_agree [OF assms(6) i(1-3) u a(1,2) _ offered_settings [OF assms(3) a(4,3)] t]) (simp add: a(3) i(6))
  note c = confirmed_bits [of a1 u] and b = answered_fields [OF assms(3,4), of qos responding R' owned, folded b0_def]
  have w: "SB_EXPD \<in> sb_flags a1 \<longleftrightarrow> tc_expedited tc" "sb_flags a1 \<inter> {SB_Vact, SB_GTC} = {}" "sb_spdu a1 = None" "sb_xspdu a1 = None"
    "sb_V_A a1 = 0" "sb_V_M a1 = 0" using assms(8) by (simp_all add: waiting_def a1_def)
  have q: "sb_requirements ?a = agreed (offered R tc) R'" unfolding c f(8) i(5) ..
  have "agree ?a ?b" unfolding agree_def using tk b(1-5) c(1,3-5) q w(1) by simp
  moreover have "sb_V_A ?a = (if isn' = -1 then 0 else isn')" "sb_V_M ?a = (if isn' = -1 then 0 else isn')"
    unfolding c f(13) using w(5,6) f(14) by simp_all
  moreover have "settled ?a" unfolding settled_def c using w(2-4) by auto
  moreover note confirm_report [OF f(3-5,10-14), where a = a1 and b = ?a and tc = tc]
    confirm_travels [OF assms(6) i(1-3) u assms(7,5) z, folded a1_def, where tw = "\<lambda>_. None" and tc = tc] r q b(6-8)
  ultimately show ?thesis by (intro exI [of _ ?a] exI [of _ ?b] exI [of _ ?sc]) blast
qed

section \<open>Waiting for the answer, and asking for it\<close>

text \<open>A request that does not wait returns after the packet has gone out; it is asked for the answer later.\<close>

lemma request_async:
  assumes "good_request ref calling called R S isn d" "tcon (wants_expedited R qos) True = T_OPEN tc"
    "tc_tsdusize tc \<le> 65535" "spkt2sd mem tw (request_spkt tc ref calling called R S isn d qos) False = (S_OK, out)"
  defines "sb \<equiv> opened tc ref calling called R S isn d qos"
  shows "SAsynConnRequest mem tw tcon ref calling called R S isn d qos True rx =
    \<lparr>cr_ret = RET_CONNECTING, cr_sb = Some (sb\<lparr>sb_flags := insert SB_ASYNC_CONN (sb_flags sb), sb_retry := Some (request_spkt tc ref calling called R S isn d qos),
       sb_tc := tc\<rparr>), cr_sc = None, cr_out = out, cr_rx = rx\<rparr>"
proof -
  let ?sb = "sb\<lparr>sb_flags := insert SB_ASYNC_CONN (sb_flags sb)\<rparr>"
  let ?c = "connect_block calling called (word_of_int R) (word_of_int S) True (wants_version2 d qos) (connect_spkt ref calling called (versions d qos) isn d)"
  have i: "int2u16 R = Some (word_of_int R)" "int2u8 S = Some (word_of_int S)"
    using assms(1) supported_range [of R] by (auto simp: good_request_def int2u16_def int2u8_def)
  have o: "own_sizes (transport_open ?c tc) tc = Some ?sb"
    using assms(3) unfolding sb_def
    by (auto simp: own_sizes_def transport_open_def opened_def connect_block_def offered_def set_flags_def newsblk_def int2u16_def GET_TSDU_SIZE_def
      Let_def uint_word_of_int insert_commute)
  have f: "sb_retry ?sb = Some (connect_spkt ref calling called (versions d qos) isn d)" "SB_ASYNC_CONN \<in> sb_flags ?sb"
    by (simp_all add: sb_def opened_def connect_block_def Let_def)
  have p: "offer_units ?sb (sb_settings ?sb) (offer_sizes ?sb (connect_spkt ref calling called (versions d qos) isn d)) =
      request_spkt tc ref calling called R S isn d qos"
    by (simp add: request_spkt_def offer_units_def offer_sizes_def requires_def sb_def Let_def)
  have "SAsynRetryAux1 mem tw ?c tc rx = \<lparr>cr_ret = RET_CONNECTING, cr_sb = Some (?sb\<lparr>sb_retry := Some (request_spkt tc ref calling called R S isn d qos),
       sb_tc := tc\<rparr>), cr_sc = None, cr_out = out, cr_rx = rx\<rparr>"
    using assms(4) f unfolding SAsynRetryAux1_def Let_def o option.case f(1) p by simp
  then show ?thesis using assms(1,2) i
    by (auto simp: SAsynConnRequest_def SConnRequestAux_def good_request_def Let_def versions_def list_ex_iff split: option.splits)
qed

end
