(* ===== verification/Spm_Connected.thy ===== *)
theory Spm_Connected
  imports Spm_Handshake
begin

text \<open>
  What a session connection comes to: a session whose two machines agree, whose tokens stay in one place; the
  serial numbers, on which they may differ; and the refusals.
\<close>

section \<open>Acceptance\<close>

text \<open>A request that may be made, over a transport connection of which both ends see the same, and an answer that may be given.\<close>

definition connectable :: "(bool \<Rightarrow> bool \<Rightarrow> tconn) \<Rightarrow> TSAPconnect \<Rightarrow> TSAPstart \<Rightarrow> SSAPref \<Rightarrow> byte list option \<Rightarrow> byte list \<Rightarrow> int \<Rightarrow> int \<Rightarrow> int \<Rightarrow>
    byte list \<Rightarrow> QOStype option \<Rightarrow> SSAPref \<Rightarrow> byte list option \<Rightarrow> int \<Rightarrow> int \<Rightarrow> int \<Rightarrow> byte list \<Rightarrow> bool" where
  "connectable tcon tc ts ref calling called R S isn d qos ref' responding R' W isn' d' \<longleftrightarrow>
     good_request ref calling called R S isn d \<and> tcon (wants_expedited R qos) False = T_OPEN tc
     \<and> tc_tsdusize tc \<le> 65535 \<and> ts_tsdusize ts \<le> 65535 \<and> ts_expedited ts = tc_expedited tc \<and> \<not> mismatched_units (offered R tc)
     \<and> clear_of_window (request_spkt tc ref calling called R S isn d qos)
     \<and> good_answer (indicated (request_spkt tc ref calling called R S isn d qos) ts) ref' responding R' W isn' d'
     \<and> clear_of_window (answer_spkt (indicated (request_spkt tc ref calling called R S isn d qos) ts) ref' responding R' W isn' d')"

text \<open>The steps of the two sides, and the blocks that they leave.\<close>

lemma connectable_steps:
  assumes "connectable tcon tc ts ref calling called R S isn d qos ref' responding R' W isn' d'" "\<forall>n. mem n"
  obtains cn ac b0 ss a b sc where
    "\<forall>e q. concat q = cn \<longrightarrow> SInit mem (\<lambda>_. None) ts (Inl (Arrive e q)) = \<lparr>ir_res = S_OK, ir_sb = Some b0, ir_ss = Some ss, ir_out = []\<rparr>"
    "ss_connect ss = ref" "ss_called ss = called" "ss_isn ss = isn" "octs (ss_data ss) = d"
    "SConnResponse mem (\<lambda>_. None) b0 ref' responding (-1) R' W isn' d' = \<lparr>rp_res = S_OK, rp_sb = Some b, rp_out = [Normal ac], rp_ssn = None\<rparr>"
    "\<forall>q rx. concat q = ac \<longrightarrow> SAsynConnRequest mem (\<lambda>_. None) tcon ref calling called R S isn d qos False (Arrive False q # rx) =
      \<lparr>cr_ret = RET_OK, cr_sb = Some a, cr_sc = Some sc, cr_out = [Normal cn], cr_rx = rx\<rparr>"
    "\<forall>rx. \<exists>out. cr_out (SAsynConnRequest mem (\<lambda>_. None) tcon ref calling called R S isn d qos False rx) = Normal cn # out"
    "agree a b" "sb_requirements a = agreed (offered R tc) R'" "sb_V_A a = (if isn' = -1 then 0 else isn')" "sb_V_M a = (if isn' = -1 then 0 else isn')"
    "sb_V_A b = (if isn = -1 then 0 else isn)" "sb_V_M b = (if isn = -1 then 0 else isn)" "settled a" "settled b"
    "sc_result sc = -1" "sc_connect sc = ref'" "sc_isn sc = isn'" "sc_data sc = d'" "sc_requirements sc = sb_requirements a"
proof -
  define s where "s = request_spkt tc ref calling called R S isn d qos"
  define u where "u = answer_spkt (indicated s ts) ref' responding R' W isn' d'"
  have c: "good_request ref calling called R S isn d" "tcon (wants_expedited R qos) False = T_OPEN tc" "tc_tsdusize tc \<le> 65535"
    "ts_tsdusize ts \<le> 65535" "ts_expedited ts = tc_expedited tc" "\<not> mismatched_units (offered R tc)" "clear_of_window s"
    "good_answer (indicated s ts) ref' responding R' W isn' d'" "clear_of_window u"
    using assms(1) unfolding connectable_def s_def u_def by blast+
  note t = request_travels [OF c(1,6,4) assms(2) c(7) [unfolded s_def], folded s_def]
  have o: "\<exists>out. cr_out (SAsynConnRequest mem (\<lambda>_. None) tcon ref calling called R S isn d qos False rx) = Normal (spdu SPDU_CN (render (params_CN s))) # out" for rx
    using request_runs [where tcon = tcon, OF c(1-3) t(1) [unfolded s_def], of rx] by (simp add: Let_def s_def)
  note h = confirm_agrees [OF c(1,5) assms(2) c(8,9) [unfolded s_def u_def] waiting_opened
      [where x = "Some s" and ref = ref and calling = calling and called = called and isn = isn and d = d and qos = qos], folded s_def, folded u_def]
  have w: "SAsynRetryAux2 mem (\<lambda>_. None) ((opened tc ref calling called R S isn d qos)\<lparr>sb_retry := Some s\<rparr>) tc rx =
      \<lparr>cr_ret = RET_DONE, cr_sb = x, cr_sc = y, cr_out = [], cr_rx = rx'\<rparr> \<Longrightarrow>
    SAsynConnRequest mem (\<lambda>_. None) tcon ref calling called R S isn d qos False rx =
      \<lparr>cr_ret = RET_OK, cr_sb = x, cr_sc = y, cr_out = [Normal (spdu SPDU_CN (render (params_CN s)))], cr_rx = rx'\<rparr>" for rx x y rx'
    using request_runs [where tcon = tcon, OF c(1-3) t(1) [unfolded s_def], of rx] by (simp add: Let_def s_def)
  have i: "\<forall>e q. concat q = spdu SPDU_CN (render (params_CN s)) \<longrightarrow> SInit mem (\<lambda>_. None) ts (Inl (Arrive e q)) =
      \<lparr>ir_res = S_OK, ir_sb = Some (indicated s ts), ir_ss = Some (start_indication (indicated s ts) (read_CN s) ts), ir_out = []\<rparr>"
    using t(2) by blast
  from h obtain a b sc where
    r: "SConnResponse mem (\<lambda>_. None) (indicated s ts) ref' responding (-1) R' W isn' d' =
      \<lparr>rp_res = S_OK, rp_sb = Some b, rp_out = [Normal (spdu SPDU_AC (render (params_AC u)))], rp_ssn = None\<rparr>"
    and q: "\<forall>q rx. concat q = spdu SPDU_AC (render (params_AC u)) \<longrightarrow>
      SAsynRetryAux2 mem (\<lambda>_. None) ((opened tc ref calling called R S isn d qos)\<lparr>sb_retry := Some s\<rparr>) tc (Arrive False q # rx) =
        \<lparr>cr_ret = RET_DONE, cr_sb = Some a, cr_sc = Some sc, cr_out = [], cr_rx = rx\<rparr>"
    and k: "agree a b" "sb_requirements a = agreed (offered R tc) R'" "sb_V_A a = (if isn' = -1 then 0 else isn')" "sb_V_M a = (if isn' = -1 then 0 else isn')"
      "sb_V_A b = (if isn = -1 then 0 else isn)" "sb_V_M b = (if isn = -1 then 0 else isn)" "settled a" "settled b"
      "sc_result sc = -1" "sc_connect sc = ref'" "sc_isn sc = isn'" "sc_data sc = d'" "sc_requirements sc = sb_requirements a" by blast
  show thesis by (rule that [OF i t(3-6) r _ _ k]) (use q w o in blast)+
qed

text \<open>
  C3: A session connection is established. The request goes out; the unit that it makes, in any buffers,
  gives the responder the reference, the address, the serial number and the data of the request; the responder
  accepts, and its answer, in any buffers, lets the request return with the reference, the serial number and
  the data of the answer. The blocks of the two sides then agree: the same functional units, the same version
  of the protocol, matching segment sizes, expedited data on both sides or on none, one initiator, and every
  token that exists belongs to exactly one of the two.
\<close>

theorem session_connects:
  assumes "connectable tcon tc ts ref calling called R S isn d qos ref' responding R' W isn' d'" "\<forall>n. mem n"
  shows "\<exists>cn ac b0 a b.
    (\<forall>e q. concat q = cn \<longrightarrow> (\<exists>ss. SInit mem (\<lambda>_. None) ts (Inl (Arrive e q)) = \<lparr>ir_res = S_OK, ir_sb = Some b0, ir_ss = Some ss, ir_out = []\<rparr>
       \<and> ss_connect ss = ref \<and> ss_called ss = called \<and> ss_isn ss = isn \<and> octs (ss_data ss) = d))
    \<and> SConnResponse mem (\<lambda>_. None) b0 ref' responding (-1) R' W isn' d' = \<lparr>rp_res = S_OK, rp_sb = Some b, rp_out = [Normal ac], rp_ssn = None\<rparr>
    \<and> (\<forall>q rx. concat q = ac \<longrightarrow> (\<exists>sc. SAsynConnRequest mem (\<lambda>_. None) tcon ref calling called R S isn d qos False (Arrive False q # rx) =
         \<lparr>cr_ret = RET_OK, cr_sb = Some a, cr_sc = Some sc, cr_out = [Normal cn], cr_rx = rx\<rparr>
       \<and> sc_result sc = -1 \<and> sc_connect sc = ref' \<and> sc_isn sc = isn' \<and> sc_data sc = d' \<and> sc_requirements sc = sb_requirements b))
    \<and> agree a b"
proof -
  from assms obtain cn ac b0 ss a b sc where
    i: "\<forall>e q. concat q = cn \<longrightarrow> SInit mem (\<lambda>_. None) ts (Inl (Arrive e q)) = \<lparr>ir_res = S_OK, ir_sb = Some b0, ir_ss = Some ss, ir_out = []\<rparr>"
      "ss_connect ss = ref" "ss_called ss = called" "ss_isn ss = isn" "octs (ss_data ss) = d"
    and r: "SConnResponse mem (\<lambda>_. None) b0 ref' responding (-1) R' W isn' d' = \<lparr>rp_res = S_OK, rp_sb = Some b, rp_out = [Normal ac], rp_ssn = None\<rparr>"
    and c: "\<forall>q rx. concat q = ac \<longrightarrow> SAsynConnRequest mem (\<lambda>_. None) tcon ref calling called R S isn d qos False (Arrive False q # rx) =
        \<lparr>cr_ret = RET_OK, cr_sb = Some a, cr_sc = Some sc, cr_out = [Normal cn], cr_rx = rx\<rparr>"
    and g: "agree a b" "sc_result sc = -1" "sc_connect sc = ref'" "sc_isn sc = isn'" "sc_data sc = d'" "sc_requirements sc = sb_requirements a"
    by (rule connectable_steps) (rule that; assumption)
  have "sc_requirements sc = sb_requirements b" using g(1,6) by (simp add: agree_def)
  with i r c g show ?thesis by (intro exI [of _ cn] exI [of _ ac] exI [of _ b0] exI [of _ a] exI [of _ b]) blast
qed

text \<open>A half-duplex session with minor synchronization, in which the responder takes the data token.\<close>

definition ref_example :: SSAPref where
  "ref_example = null_ref\<lparr>sr_udata := [1, 2]\<rparr>"

definition tc_example :: TSAPconnect where
  "tc_example = \<lparr>tc_expedited = True, tc_tsdusize = 1024\<rparr>"

definition ts_example :: TSAPstart where
  "ts_example = \<lparr>ts_expedited = True, ts_tsdusize = 2048\<rparr>"

definition cn_example :: ssapkt where
  "cn_example = request_spkt tc_example ref_example None [7] 9 2 1 [65, 66] None"

abbreviation (input) indicated_example :: ssapblk where
  "indicated_example \<equiv> indicated cn_example ts_example"

lemma small_clear:
  assumes "s_code s = SPDU_CN \<or> s_code s = SPDU_AC" "length (octs (s_udata s)) \<le> 4" "length (sr_udata (s_reference s)) \<le> 4"
    "length (sr_cdata (s_reference s)) \<le> 4" "length (sr_adata (s_reference s)) \<le> 4" "8 \<notin> s_mask s" "length (s_called s) \<le> 4"
  shows "clear_of_window s"
proof -
  have "udata_size d = int (length d) + 2" if "s_udata s = Some d" for d using assms(2) that by (simp add: udata_size_def octs_def)
  then have "(case s_udata s of None \<Rightarrow> 0 | Some d \<Rightarrow> if s_code s = SPDU_GT \<or> s_code s = SPDU_EX \<or> s_code s = SPDU_TD then 0
       else if d \<noteq> [] then udata_size d else 0) \<le> (6 :: int)" using assms(2) by (auto simp: octs_def split: option.splits)
  moreover have "ref_size (sr_udata (s_reference s)) \<le> 6" "ref_size (sr_cdata (s_reference s)) \<le> 6" "ref_size (sr_adata (s_reference s)) \<le> 6"
    using assms(3-5) by (simp_all add: ref_size_def)
  ultimately show ?thesis using assms(1,6,7)
    unfolding clear_of_window_def spdu_case_def spdu_size_def Let_def by (elim disjE) simp_all
qed

lemma setting_values: "setting 2 0 = 2" "setting 2 2 = 0" "setting 1 0 = 1" "setting 1 2 = 0"
  by (simp_all add: setting_def)

lemma ref_example_ok: "\<not> refmuchP ref_example" "sr_vdata ref_example = []"
  by (simp_all add: refmuchP_def ref_example_def null_ref_def)

lemma good_request_example: "good_request ref_example None [7] 9 2 1 [65, 66]"
  by (simp add: good_request_def ref_example_ok tokens_set token_exists_def requires_def setting_values bad_serial_def SERIAL_MAX_def)

lemma offered_example: "offered 9 tc_example = 9"
  by (simp add: offered_def tc_example_def)

lemma indicated_example_fields:
  "sb_requirements indicated_example = 9" "sb_settings indicated_example = 2" "sb_version indicated_example = 1"
  "sb_tsdu_us indicated_example = 0" "sb_tsdu_them indicated_example = 0"
  using request_indicated [OF good_request_example, of ts_example tc_example None, folded cn_example_def] offered_example
  by (simp_all add: ts_example_def tc_example_def requires_def)

lemma good_answer_example:
  assumes "isn = 1 \<or> isn = 5"
  shows "good_answer indicated_example ref_example None 9 1 isn [67]"
  using assms
  by (auto simp: good_answer_def indicated_example_fields ref_example_ok agreed_def tokens_set proper_def shared_def choice_def setting_values
    token_exists_def requires_def mismatched_units_def bad_serial_def SERIAL_MAX_def)

lemma answer_example_clear:
  assumes "isn = 1 \<or> isn = 5"
  shows "clear_of_window (answer_spkt indicated_example ref_example None 9 1 isn [67])"
proof -
  obtain w owned please ok where r: "respond_tokens (indicated_example\<lparr>sb_requirements := agreed (sb_requirements indicated_example) 9\<rparr>) tokens 1 0 0
    = (w, owned, please, ok)" by (metis prod_cases4)
  show ?thesis unfolding answer_spkt_def Let_def r prod.case
    by (rule small_clear) (use assms in \<open>auto simp: accept_fields indicated_example_fields octs_opt ref_example_def null_ref_def\<close>)
qed

lemma connectable_example:
  assumes "isn = 1 \<or> isn = 5"
  shows "connectable (\<lambda>_ _. T_OPEN tc_example) tc_example ts_example ref_example None [7] 9 2 1 [65, 66] None ref_example None 9 1 isn [67]"
proof -
  have "clear_of_window cn_example"
    by (rule small_clear) (auto simp: cn_example_def request_fields octs_opt ref_example_def null_ref_def)
  then show ?thesis unfolding connectable_def cn_example_def [symmetric] offered_example
    using good_request_example good_answer_example [OF assms] answer_example_clear [OF assms]
    by (simp add: mismatched_units_def) (simp add: tc_example_def ts_example_def)
qed

theorem session_connects_witness:
  "\<exists>cn ac b0 a b.
    (\<forall>e q. concat q = cn \<longrightarrow> (\<exists>ss. SInit (\<lambda>_. True) (\<lambda>_. None) ts_example (Inl (Arrive e q)) =
         \<lparr>ir_res = S_OK, ir_sb = Some b0, ir_ss = Some ss, ir_out = []\<rparr>
       \<and> ss_connect ss = ref_example \<and> ss_called ss = [7] \<and> ss_isn ss = 1 \<and> octs (ss_data ss) = [65, 66]))
    \<and> SConnResponse (\<lambda>_. True) (\<lambda>_. None) b0 ref_example None (-1) 9 1 1 [67] = \<lparr>rp_res = S_OK, rp_sb = Some b, rp_out = [Normal ac], rp_ssn = None\<rparr>
    \<and> (\<forall>q rx. concat q = ac \<longrightarrow> (\<exists>sc. SAsynConnRequest (\<lambda>_. True) (\<lambda>_. None) (\<lambda>_ _. T_OPEN tc_example) ref_example None [7] 9 2 1 [65, 66] None False
           (Arrive False q # rx) = \<lparr>cr_ret = RET_OK, cr_sb = Some a, cr_sc = Some sc, cr_out = [Normal cn], cr_rx = rx\<rparr>
       \<and> sc_result sc = -1 \<and> sc_connect sc = ref_example \<and> sc_isn sc = 1 \<and> sc_data sc = [67] \<and> sc_requirements sc = sb_requirements b))
    \<and> agree a b"
  by (rule session_connects [where tc = tc_example]) (simp_all add: connectable_example)

section \<open>The tokens of the session\<close>

text \<open>
  A run of the two sides: the request returns with the block \<open>a\<close> after it has sent the unit \<open>p\<close> and read the
  unit \<open>q\<close>; the responder is started by \<open>p\<close>, answers with \<open>q\<close> and keeps the block \<open>b\<close>.
\<close>

definition connect_run :: "(int \<Rightarrow> bool) \<Rightarrow> (bool \<Rightarrow> bool \<Rightarrow> tconn) \<Rightarrow> TSAPstart \<Rightarrow> SSAPref \<Rightarrow> byte list option \<Rightarrow> byte list \<Rightarrow> int \<Rightarrow> int \<Rightarrow> int \<Rightarrow>
    byte list \<Rightarrow> QOStype option \<Rightarrow> SSAPref \<Rightarrow> byte list option \<Rightarrow> int \<Rightarrow> int \<Rightarrow> int \<Rightarrow> byte list \<Rightarrow> byte list list \<Rightarrow> byte list list \<Rightarrow> ssapblk \<Rightarrow> ssapblk \<Rightarrow> bool" where
  "connect_run mem tcon ts ref calling called R S isn d qos ref' responding R' W isn' d' p q a b \<longleftrightarrow>
     (let ra = SAsynConnRequest mem (\<lambda>_. None) tcon ref calling called R S isn d qos False [Arrive False q];
          ri = SInit mem (\<lambda>_. None) ts (Inl (Arrive False p)) in
      cr_out ra = [Normal (concat p)] \<and> cr_sb ra = Some a
      \<and> (case ir_sb ri of None \<Rightarrow> False
         | Some b0 \<Rightarrow> (let rb = SConnResponse mem (\<lambda>_. None) b0 ref' responding (-1) R' W isn' d' in
             rp_out rb = [Normal (concat q)] \<and> rp_sb rb = Some b)))"

lemma connected_parts:
  assumes "connectable tcon tc ts ref calling called R S isn d qos ref' responding R' W isn' d'" "\<forall>n. mem n"
    "connect_run mem tcon ts ref calling called R S isn d qos ref' responding R' W isn' d' p q a b"
  shows "agree a b" "sb_V_A a = (if isn' = -1 then 0 else isn')" "sb_V_M a = (if isn' = -1 then 0 else isn')"
    "sb_V_A b = (if isn = -1 then 0 else isn)" "sb_V_M b = (if isn = -1 then 0 else isn)" "settled a" "settled b"
    "sb_requirements a = agreed (offered R tc) R'"
proof -
  from assms(1,2) obtain cn ac b0 ss x y sc where
    i: "\<forall>e q. concat q = cn \<longrightarrow> SInit mem (\<lambda>_. None) ts (Inl (Arrive e q)) = \<lparr>ir_res = S_OK, ir_sb = Some b0, ir_ss = Some ss, ir_out = []\<rparr>"
    and r: "SConnResponse mem (\<lambda>_. None) b0 ref' responding (-1) R' W isn' d' = \<lparr>rp_res = S_OK, rp_sb = Some y, rp_out = [Normal ac], rp_ssn = None\<rparr>"
    and c: "\<forall>q rx. concat q = ac \<longrightarrow> SAsynConnRequest mem (\<lambda>_. None) tcon ref calling called R S isn d qos False (Arrive False q # rx) =
        \<lparr>cr_ret = RET_OK, cr_sb = Some x, cr_sc = Some sc, cr_out = [Normal cn], cr_rx = rx\<rparr>"
    and o: "\<forall>rx. \<exists>out. cr_out (SAsynConnRequest mem (\<lambda>_. None) tcon ref calling called R S isn d qos False rx) = Normal cn # out"
    and k: "agree x y" "sb_requirements x = agreed (offered R tc) R'" "sb_V_A x = (if isn' = -1 then 0 else isn')" "sb_V_M x = (if isn' = -1 then 0 else isn')"
      "sb_V_A y = (if isn = -1 then 0 else isn)" "sb_V_M y = (if isn = -1 then 0 else isn)" "settled x" "settled y"
    by (rule connectable_steps) (rule that; assumption)
  from assms(3) have ra: "cr_out (SAsynConnRequest mem (\<lambda>_. None) tcon ref calling called R S isn d qos False [Arrive False q]) = [Normal (concat p)]"
      "cr_sb (SAsynConnRequest mem (\<lambda>_. None) tcon ref calling called R S isn d qos False [Arrive False q]) = Some a"
    unfolding connect_run_def Let_def by blast+
  have "concat p = cn" using spec [OF o, of "[Arrive False q]"] ra(1) by auto
  with i assms(3) r have y: "y = b" "concat q = ac" unfolding connect_run_def Let_def by auto
  have "x = a" using c y(2) ra(2) by simp
  with y(1) k show "agree a b" "sb_V_A a = (if isn' = -1 then 0 else isn')" "sb_V_M a = (if isn' = -1 then 0 else isn')"
    "sb_V_A b = (if isn = -1 then 0 else isn)" "sb_V_M b = (if isn = -1 then 0 else isn)" "settled a" "settled b"
    "sb_requirements a = agreed (offered R tc) R'" by blast+
qed

text \<open>Runs exist.\<close>

lemma connect_run_exists:
  assumes "connectable tcon tc ts ref calling called R S isn d qos ref' responding R' W isn' d'" "\<forall>n. mem n"
  obtains p q a b where "connect_run mem tcon ts ref calling called R S isn d qos ref' responding R' W isn' d' p q a b"
proof -
  from assms obtain cn ac b0 ss a b sc where
    i: "\<forall>e q. concat q = cn \<longrightarrow> SInit mem (\<lambda>_. None) ts (Inl (Arrive e q)) = \<lparr>ir_res = S_OK, ir_sb = Some b0, ir_ss = Some ss, ir_out = []\<rparr>"
    and r: "SConnResponse mem (\<lambda>_. None) b0 ref' responding (-1) R' W isn' d' = \<lparr>rp_res = S_OK, rp_sb = Some b, rp_out = [Normal ac], rp_ssn = None\<rparr>"
    and c: "\<forall>q rx. concat q = ac \<longrightarrow> SAsynConnRequest mem (\<lambda>_. None) tcon ref calling called R S isn d qos False (Arrive False q # rx) =
        \<lparr>cr_ret = RET_OK, cr_sb = Some a, cr_sc = Some sc, cr_out = [Normal cn], cr_rx = rx\<rparr>"
    by (rule connectable_steps) (rule that; assumption)
  have "connect_run mem tcon ts ref calling called R S isn d qos ref' responding R' W isn' d' [cn] [ac] a b"
    using i r c by (simp add: connect_run_def)
  then show thesis by (rule that)
qed

lemma run_example:
  assumes "isn = 1 \<or> isn = 5"
  obtains p q a b where "connect_run (\<lambda>_. True) (\<lambda>_ _. T_OPEN tc_example) ts_example ref_example None [7] 9 2 1 [65, 66] None ref_example None 9 1 isn [67] p q a b"
  by (rule connect_run_exists [OF connectable_example [OF assms], of "\<lambda>_. True"]) simp_all



section \<open>The serial numbers\<close>



section \<open>Refusal\<close>

lemma Put_Ref_inject:
  assumes "Put_Ref r c = Put_Ref r' c" "c \<noteq> 11" "c \<noteq> 12"
  shows "sr_udata r = sr_udata r'" "sr_cdata r = sr_cdata r'" "sr_adata r = sr_adata r'"
  using assms by (auto simp: Put_Ref_def If_Set_def split: if_splits)

lemma params_RF_inject:
  assumes "params_RF u = params_RF s" "s_mask u = s_mask s" "13 \<notin> s_mask s" "length (octs (s_rdata s)) \<le> 513"
  shows "octs (s_rdata u) = octs (s_rdata s)" "2 \<in> s_mask s \<Longrightarrow> be16 (s_require u) = be16 (s_require s)"
    "0 \<in> s_mask s \<Longrightarrow> Put_Ref (s_reference u) 9 = Put_Ref (s_reference s) 9"
  using assms by (auto simp: params_RF_def If_Set_def Put_Enclose_def Put_Ref_def split: if_splits)

lemma RF_arrives:
  assumes "spkt_ok s" "clear_of_window s" "s_code s = SPDU_RF" "\<forall>n. mem n" "13 \<notin> s_mask s" "concat q = spdu SPDU_RF (render (params_RF s))"
    "sb_spdu sb = None" "sb_xspdu sb = None"
  obtains u where "sb2spkt mem tw sb (Arrive False q # rx) = (Got (plain_spkt u), sb, [], rx)" "s_code u = SPDU_RF" "s_mask u = s_mask s"
    "octs (s_rdata u) = octs (s_rdata s)" "0 \<in> s_mask s \<Longrightarrow> Put_Ref (s_reference u) 9 = Put_Ref (s_reference s) 9"
proof -
  have c: "spdu_case s = Some (13, params_RF s)" using assms(3) by (simp add: spdu_case_def)
  have k: "category s" using assms(3) by (simp add: category_def)
  have l: "length (octs (s_rdata s)) \<le> 513" using assms(1,3) by (simp add: spkt_ok_def)
  from spdu_travels(2) [OF assms(1,2,4) c, of q "[]" "int (length (concat q))"] assms(3,6) k obtain u q' where
    u: "tsdu2spkt mem q (int (length (concat q))) True = Done (u, int (length (concat q)), q')"
      "s_errno u = SC_ACCEPT" "s_code u = SPDU_RF" "s_mask u = s_mask s" "spdu_case u = spdu_case s" by auto
  have p: "params_RF u = params_RF s" using u(3,5) c by (simp add: spdu_case_def)
  have "next_spkt mem q (int (length (concat q))) True False = Inl (u, q', 0)" by (simp add: next_spkt_def u)
  then have "sb2spkt mem tw sb (Arrive False q # rx) = (Got (plain_spkt u), sb, [], rx)"
    using assms(7,8) u(3) by (simp add: sb2spkt_def take_buffered_def tsdu2sb_def CAT0_def CAT1_USER_def CAT1_def)
  then show thesis using params_RF_inject [OF p u(4) assms(5) l] u(3,4) by (intro that)
qed

lemma RF_octets:
  assumes "spkt_ok s" "clear_of_window s" "s_code s = SPDU_RF" "\<forall>n. mem n"
  shows "spkt2sd mem (\<lambda>_. None) s False = (S_OK, [Normal (spdu SPDU_RF (render (params_RF s)))])"
  using spdu_travels(1) [OF assms(1,2,4), of 13 "params_RF s"] assms(3) by (simp add: spdu_case_def spkt2sd_def hand_over_def Let_def)

text \<open>The initiator on a refusal.\<close>

lemma refusal_travels:
  assumes "spkt_ok s" "clear_of_window s" "s_code s = SPDU_RF" "\<forall>n. mem n" "13 \<notin> s_mask s" "2 \<notin> s_mask s" "9 \<notin> s_mask s" "octs (s_rdata s) = b # d"
    "concat q = spdu SPDU_RF (render (params_RF s))"
    "good_request ref calling called R S isn e" "tcon (wants_expedited R qos) False = T_OPEN tc" "tc_tsdusize tc \<le> 65535"
    "clear_of_window (request_spkt tc ref calling called R S isn e qos)"
  obtains sc where "SAsynConnRequest mem (\<lambda>_. None) tcon ref calling called R S isn e qos False (Arrive False q # rx) =
      \<lparr>cr_ret = RET_OK, cr_sb = None, cr_sc = Some sc, cr_out = [Normal (spdu SPDU_CN (render (params_CN (request_spkt tc ref calling called R S isn e qos))))], cr_rx = rx\<rparr>"
    "sc_result sc = sint b" "\<not> sc_open sc" "sc_data sc = d" "sc_cc sc = int (length d)"
    "0 \<in> s_mask s \<longrightarrow> Put_Ref (sc_connect sc) 9 = Put_Ref (s_reference s) 9"
proof -
  define p where "p = request_spkt tc ref calling called R S isn e qos"
  define a0 where "a0 = (opened tc ref calling called R S isn e qos)\<lparr>sb_retry := Some p\<rparr>"
  have ok: "spkt_ok p" unfolding p_def by (rule request_ok [OF assms(10)])
  have o: "spkt2sd mem (\<lambda>_. None) p False = (S_OK, [Normal (spdu SPDU_CN (render (params_CN p)))])"
    using conn_octets(1) [OF ok assms(13) [folded p_def] assms(4), of "params_CN p"] request_fields(1) [of tc ref calling called R S isn e qos, folded p_def] by simp
  have s: "sb_spdu (a0\<lparr>sb_retry := None\<rparr>) = None" "sb_xspdu (a0\<lparr>sb_retry := None\<rparr>) = None" by (simp_all add: a0_def)
  from RF_arrives [OF assms(1-5,9) s, of "\<lambda>_. None" rx] obtain u where
    u: "sb2spkt mem (\<lambda>_. None) (a0\<lparr>sb_retry := None\<rparr>) (Arrive False q # rx) = (Got (plain_spkt u), a0\<lparr>sb_retry := None\<rparr>, [], rx)"
      "s_code u = SPDU_RF" "s_mask u = s_mask s" "octs (s_rdata u) = b # d" "0 \<in> s_mask s \<Longrightarrow> Put_Ref (s_reference u) 9 = Put_Ref (s_reference s) 9"
    using assms(8) by auto
  let ?sc = "refused_connect (a0\<lparr>sb_retry := None\<rparr>) u"
  have "SAsynRetryAux2 mem (\<lambda>_. None) a0 tc (Arrive False q # rx) = (conn_lost RET_DONE [] rx)\<lparr>cr_sc := Some ?sc\<rparr>"
    unfolding SAsynRetryAux2_def u(1) by (simp add: u(2) Let_def)
  with request_runs [where tcon = tcon, OF assms(10-12) o [unfolded p_def], of "Arrive False q # rx"]
  have r: "SAsynConnRequest mem (\<lambda>_. None) tcon ref calling called R S isn e qos False (Arrive False q # rx) =
      \<lparr>cr_ret = RET_OK, cr_sb = None, cr_sc = Some ?sc, cr_out = [Normal (spdu SPDU_CN (render (params_CN p)))], cr_rx = rx\<rparr>"
    by (simp add: a0_def p_def Let_def conn_lost_def)
  have "sc_result ?sc = sint b" "\<not> sc_open ?sc" "sc_data ?sc = d" "sc_cc ?sc = int (length d)"
    "0 \<in> s_mask s \<longrightarrow> Put_Ref (sc_connect ?sc) 9 = Put_Ref (s_reference s) 9"
    using u(3-5) assms(7) by (simp_all add: refused_connect_def null_connect_def Let_def)
  with r show thesis unfolding p_def by (rule that)
qed

lemma refuse_fields:
  "s_code (refuse_spkt ref status None d) = SPDU_RF" "s_mask (refuse_spkt ref status None d) = {0, 1}" "s_reference (refuse_spkt ref status None d) = ref"
  "octs (s_rdata (refuse_spkt ref status None d)) = word_of_int status # d" "s_disconnect (refuse_spkt ref status None d) = 1"
  "s_udata (refuse_spkt ref status None d) = None"
  by (auto simp: refuse_spkt_def newspkt_def octs_def u8_bis_def Set_def Let_def)

lemma refuse_ok: "\<not> refmuchP ref \<Longrightarrow> length d \<le> 512 \<Longrightarrow> spkt_ok (refuse_spkt ref status None d)"
  by (simp add: spkt_ok_def refuse_fields ref_ok_not_much enclose_ok_def)



text \<open>
  C26: A refusal that the responder itself decides on is reported with another code. Congestion and an
  unsupported version are sent as the octets 131 and 132; the initiator takes the octet as a signed
  character, so that the code that it reports is lower by 256 and is no code of the service.
\<close>

theorem refusal_code_altered:
  assumes "good_request ref calling called R S isn e" "tcon (wants_expedited R qos) False = T_OPEN tc" "tc_tsdusize tc \<le> 65535"
    "clear_of_window (request_spkt tc ref calling called R S isn e qos)" "\<forall>n. mem n" "reason = Errno SC_CONGEST \<or> reason = SC_VERSION"
    "SB_EXPD \<notin> sb_flags b"
  shows "\<exists>rf. spktlose_refuse mem (\<lambda>_. None) b reason = (S_NOTOK reason, [Normal rf])
    \<and> (\<forall>q rx. concat q = rf \<longrightarrow> (\<exists>cn sc. SAsynConnRequest mem (\<lambda>_. None) tcon ref calling called R S isn e qos False (Arrive False q # rx) =
        \<lparr>cr_ret = RET_OK, cr_sb = None, cr_sc = Some sc, cr_out = [Normal cn], cr_rx = rx\<rparr> \<and> sc_result sc = sc_number reason - 256))"
proof -
  define c :: byte where "c = (if reason = SC_VERSION then 0x84 else 0x83)"
  have c: "c = 0x83 \<or> c = 0x84" "sc_number reason = uint c" "int2u8 (sc_number reason) = Some c" "SC_OFFICIAL (sc_number reason)"
    using assms(6) by (auto simp: int2u8_def SC_OFFICIAL_def c_def)
  define s where "s = lose_refuse_spkt c"
  have f: "s_code s = SPDU_RF" "octs (s_rdata s) = [c]" "s_mask s \<subseteq> {1, 3}" "s_disconnect s = 1" "s_udata s = None"
    using c(1) by (auto simp: s_def lose_refuse_spkt_def newspkt_def octs_def u8_bis_def Set_def Let_def)
  have m: "13 \<notin> s_mask s" "2 \<notin> s_mask s" "9 \<notin> s_mask s" "0 \<notin> s_mask s" using f(3) by auto
  have ok: "spkt_ok s" using f m by (auto simp: spkt_ok_def enclose_ok_def)
  have w: "clear_of_window s" using f m by (simp add: clear_of_window_def spdu_case_def spdu_size_def udata_size_def)
  from RF_octets [OF ok w f(1) assms(5)] have r: "spktlose_refuse mem (\<lambda>_. None) b reason = (S_NOTOK reason, [Normal (spdu SPDU_RF (render (params_RF s)))])"
    using assms(7) c(3,4) by (simp add: spktlose_refuse_def s_def)
  have si: "sint c = sc_number reason - 256" using c(1,2) by auto
  show ?thesis
  proof (rule exI [of _ "spdu SPDU_RF (render (params_RF s))"], intro conjI allI impI r)
    fix q rx assume q: "concat q = spdu SPDU_RF (render (params_RF s))"
    obtain sc where "SAsynConnRequest mem (\<lambda>_. None) tcon ref calling called R S isn e qos False (Arrive False q # rx) =
        \<lparr>cr_ret = RET_OK, cr_sb = None, cr_sc = Some sc, cr_out = [Normal (spdu SPDU_CN (render (params_CN (request_spkt tc ref calling called R S isn e qos))))], cr_rx = rx\<rparr>"
      "sc_result sc = sint c"
      by (rule refusal_travels [where tcon = tcon and rx = rx, OF ok w f(1) assms(5) m(1-3) f(2) q assms(1-4)]) (rule that; assumption)
    then show "\<exists>cn sc. SAsynConnRequest mem (\<lambda>_. None) tcon ref calling called R S isn e qos False (Arrive False q # rx) =
        \<lparr>cr_ret = RET_OK, cr_sb = None, cr_sc = Some sc, cr_out = [Normal cn], cr_rx = rx\<rparr> \<and> sc_result sc = sc_number reason - 256"
      using si by simp
  qed
qed

theorem refusal_code_altered_witness:
  "\<exists>rf. spktlose_refuse (\<lambda>_. True) (\<lambda>_. None) newsblk SC_VERSION = (S_NOTOK SC_VERSION, [Normal rf])
    \<and> (\<forall>q rx. concat q = rf \<longrightarrow> (\<exists>cn sc. SAsynConnRequest (\<lambda>_. True) (\<lambda>_. None) (\<lambda>_ _. T_OPEN tc_example) ref_example None [7] 9 2 1 [65, 66] None False
        (Arrive False q # rx) = \<lparr>cr_ret = RET_OK, cr_sb = None, cr_sc = Some sc, cr_out = [Normal cn], cr_rx = rx\<rparr> \<and> sc_result sc = sc_number SC_VERSION - 256))"
proof (rule refusal_code_altered [OF good_request_example])
  show "clear_of_window (request_spkt tc_example ref_example None [7] 9 2 1 [65, 66] None)"
    using connectable_example [of 1] unfolding connectable_def by blast
qed (simp_all add: newsblk_def tc_example_def)

end
