(* ===== verification/Spm_Async.thy ===== *)
theory Spm_Async
  imports Spm_Connected
begin

text \<open>
  A connection that is asked for without waiting: it takes its course as one that is waited for.
\<close>

section \<open>The mark of such a connection\<close>

definition marked :: "TSAPconnect \<Rightarrow> ssapblk \<Rightarrow> ssapblk" where
  "marked tc sb = sb\<lparr>sb_flags := insert SB_ASYNC_CONN (sb_flags sb), sb_tc := tc\<rparr>"

lemma marked_fields [simp]:
  "sb_pr (marked tc sb) = sb_pr sb" "sb_xspdu (marked tc sb) = sb_xspdu sb" "sb_spdu (marked tc sb) = sb_spdu sb"
  "sb_settings (marked tc sb) = sb_settings sb" "sb_requirements (marked tc sb) = sb_requirements sb" "sb_owned (marked tc sb) = sb_owned sb"
  "sb_tsdu_us (marked tc sb) = sb_tsdu_us sb" "sb_tsdu_them (marked tc sb) = sb_tsdu_them sb" "sb_vrsnmask (marked tc sb) = sb_vrsnmask sb"
  "sb_V_A (marked tc sb) = sb_V_A sb" "sb_V_M (marked tc sb) = sb_V_M sb" "sb_options (marked tc sb) = sb_options sb"
  "sb_responding (marked tc sb) = sb_responding sb" "sb_version (marked tc sb) = sb_version sb" "sb_tc (marked tc sb) = tc"
  "SB_EXPD \<in> sb_flags (marked tc sb) \<longleftrightarrow> SB_EXPD \<in> sb_flags sb"
  by (simp_all add: marked_def)

lemma marked_updates:
  "(marked tc sb)\<lparr>sb_spdu := x\<rparr> = marked tc (sb\<lparr>sb_spdu := x\<rparr>)" "(marked tc sb)\<lparr>sb_xspdu := x\<rparr> = marked tc (sb\<lparr>sb_xspdu := x\<rparr>)"
  "(marked tc sb)\<lparr>sb_retry := y\<rparr> = marked tc (sb\<lparr>sb_retry := y\<rparr>)"
  by (simp_all add: marked_def)

lemma marked_spktlose: "spktlose mem tw (marked tc sb) e = spktlose mem tw sb e"
  by (simp add: spktlose_def)

lemma marked_lost: "lost mem tw (marked tc sb) e = (case lost mem tw sb e of (g, sb', out) \<Rightarrow> (g, marked tc sb', out))"
  by (simp add: lost_def marked_spktlose split: option.splits prod.splits)

lemma marked_concatenated:
  "concatenated mem tw (marked tc sb) p q cc expd = (case concatenated mem tw sb p q cc expd of (g, sb', out) \<Rightarrow> (g, marked tc sb', out))"
proof (cases "next_spkt mem q cc False expd")
  case (Inl r)
  obtain s q' cc' where "r = (s, q', cc')" by (cases r)
  with Inl show ?thesis by (simp add: concatenated_def marked_updates marked_lost Let_def)
qed (simp add: concatenated_def marked_updates marked_lost)

lemma marked_tsdu2sb: "tsdu2sb mem tw (marked tc sb) expd q = (case tsdu2sb mem tw sb expd q of (g, sb', out) \<Rightarrow> (g, marked tc sb', out))"
  by (simp add: tsdu2sb_def marked_concatenated marked_lost split: sum.splits prod.splits)

lemma marked_take_buffered: "take_buffered (marked tc sb) = map_option (map_prod (\<lambda>s. s) (marked tc)) (take_buffered sb)"
  by (simp add: take_buffered_def marked_updates split: option.splits)

lemma marked_sb2spkt: "sb2spkt mem tw (marked tc sb) rx = (case sb2spkt mem tw sb rx of (g, sb', out, rx') \<Rightarrow> (g, marked tc sb', out, rx'))"
  by (auto simp: sb2spkt_def marked_take_buffered marked_tsdu2sb split: option.splits list.splits incoming.splits prod.splits)

lemma marked_negotiated:
  "(marked tc sb)\<lparr>sb_options := o', sb_tsdu_us := us, sb_tsdu_them := them, sb_vrsnmask := vm, sb_version := v, sb_V_A := x, sb_V_M := y,
     sb_requirements := req\<rparr> = marked tc (sb\<lparr>sb_options := o', sb_tsdu_us := us, sb_tsdu_them := them, sb_vrsnmask := vm, sb_version := v,
     sb_V_A := x, sb_V_M := y, sb_requirements := req\<rparr>)"
  "(marked tc sb)\<lparr>sb_owned := w, sb_responding := r\<rparr> = marked tc (sb\<lparr>sb_owned := w, sb_responding := r\<rparr>)"
  "set_flags {SB_CONN, SB_INIT} {} (marked tc sb) = marked tc (set_flags {SB_CONN, SB_INIT} {} sb)"
  by (simp_all add: marked_def set_flags_def insert_commute)

lemma marked_token [simp]: "token_exists (marked tc sb) n = token_exists sb n" "confirmed_setting (marked tc sb) s n = confirmed_setting sb s n"
  by (simp_all add: token_exists_def requires_def confirmed_setting_def)

lemma marked_owned: "confirm_owned (marked tc sb) s = confirm_owned sb s" "confirm_settings (marked tc sb) s = confirm_settings sb s"
  "confirm_please (marked tc sb) s = confirm_please sb s"
  by (simp_all add: confirm_owned_def confirm_settings_def confirm_please_def)

lemma marked_confirm: "confirm_block (marked tc sb) s = map_option (marked tc) (confirm_block sb s)"
  unfolding confirm_block_def Let_def marked_fields marked_negotiated marked_owned if_distrib [of "map_option (marked tc)"] option.map ..

lemma marked_connect: "confirm_connect sb' (marked tc sb) tc' s = confirm_connect sb'' sb tc' s"
  by (simp add: confirm_connect_def marked_owned)

lemma marked_answer:
  "SAsynRetryAux2 mem tw (marked tc sb) tc' rx = (let r = SAsynRetryAux2 mem tw sb tc' rx in r\<lparr>cr_sb := map_option (marked tc) (cr_sb r)\<rparr>)"
proof -
  obtain g sb1 out rx1 where g: "sb2spkt mem tw (sb\<lparr>sb_retry := None\<rparr>) rx = (g, sb1, out, rx1)" by (metis prod_cases4)
  show ?thesis
  proof (cases g)
    case (GotNone r)
    with g show ?thesis by (simp add: SAsynRetryAux2_def marked_updates marked_sb2spkt conn_lost_def)
  next
    case (Got qs)
    have r: "refused_connect (marked tc sb1) s = refused_connect sb1 s" for s by (simp only: refused_connect_def marked_fields)
    have c: "confirm_connect (marked tc sb1) (marked tc x) tc' s = confirm_connect sb1 x tc' s" for x s by (rule marked_connect)
    from g Got show ?thesis
      by (cases "confirm_block sb1 (qs_pkt qs)"; cases "spktlose mem tw sb1 SC_PROTOCOL")
        (simp_all add: SAsynRetryAux2_def marked_updates marked_sb2spkt marked_spktlose marked_confirm r c conn_lost_def Let_def)
  qed
qed

section \<open>The two ways to ask\<close>



end
