(* ===== verification/Spec2Isabelle.thy ===== *)
theory Spec2Isabelle
  imports PMembers PNumber POid Ber_Codec Turbo_Index Spdu_Limits Spm_Cases Spm_Async
begin

text \<open>
  A verification development for ISODE, an implementation of the upper layers of OSI in C.

  The parts of the program and how they interact.

  An application of ISODE talks through a stack of services. The presentation service library
  (\<^verbatim>\<open>psap/\<close>) turns values into trees of presentation elements and the trees into octets of the basic
  encoding rules and back; everything above and beside it, from the directory to network management, uses
  it. The session service (\<^verbatim>\<open>ssap/\<close>) carries the octets between two users, with tokens, synchronization
  points, activities and an orderly release; it writes session protocol data units to a transport
  connection and reads those of its peer. The directory system agent keeps its entries in indexes over
  balanced trees (\<^verbatim>\<open>dsap/common/turbo_*.c\<close>).

  The theories, in the order in which they build on each other.

  \<^item> \<open>Isode_Prelude\<close>: octets, results of code that can fail or leave its memory, the checked conversions of
    \<^verbatim>\<open>h/conv.h\<close>, and the lemmas on lists and words that the components share.
  \<^item> \<open>PElement\<close>, \<open>PMembers\<close>, \<open>PNumber\<close>, \<open>POid\<close>: the presentation element of \<^verbatim>\<open>h/psap.h\<close> with allocation,
    comparison and copy; its members as sequence and set (\<^verbatim>\<open>psap/seq_*.c\<close>, \<^verbatim>\<open>set_*.c\<close>); booleans and
    integers; object identifiers. Comparison decides equality of the values that elements denote; members
    are found where they were put; numbers and identifiers survive encoding and decoding.
  \<^item> \<open>PStream\<close>, \<open>Pe2ps\<close>, \<open>Ps2pe\<close>, \<open>Ber_Codec\<close>: streams over blocks and queues of buffers, both encoders and
    the decoder. Encoding and decoding is the identity up to comparison, the encoders agree with each
    other and with the computed length, the decoder ends on every input and does not depend on the cut
    of its input into buffers.
  \<^item> \<open>Avl\<close>, \<open>Turbo_Index\<close>: balanced trees and the indexes of attribute values. Insertion and deletion keep
    the trees balanced and ordered and change exactly what they should; an index records an entry under
    exactly its values.
  \<^item> \<open>Spdu\<close>, \<open>Spdu_Read\<close>: the packet of the session protocol, its writer \<open>spkt2tsdu\<close> with the buffer that it
    lays out and moves, and its reader \<open>tsdu2spkt\<close> (\<^verbatim>\<open>ssap/tsdu2spkt.c\<close>, \<^verbatim>\<open>h/spkt.h\<close>). \<open>Spdu_Codec\<close>,
    \<open>Spdu_Params\<close>, \<open>Spdu_Groups\<close>, \<open>Spdu_Size\<close> and \<open>Spdu_Roundtrip\<close> hold the proof that what is written
    is read back, \<open>Spdu_Limits\<close> the inputs where it is not, and where the code leaves its buffers.
  \<^item> \<open>Spm_Block\<close>, \<open>Spm_Io\<close>, \<open>Spm_Request\<close>, \<open>Spm_Read\<close>, \<open>Spm_Data\<close>, \<open>Spm_Release\<close>: the session protocol
    machine. The block of \<^verbatim>\<open>h/spkt.h\<close> is the record \<open>ssapblk\<close>, with its flags as the set of the bits that
    are set. Units go to and come from the transport in \<open>spkt2sd\<close>, \<open>SWriteRequestAux\<close> and \<open>sb2spkt\<close>. A
    request returns the record \<open>reply\<close>: the result, the block (\<open>None\<close> when it was freed) and the units
    that were handed to the transport. \<open>SReadRequest\<close> takes the block and what arrives, and goes
    through the filters and the arms of the switch of \<^verbatim>\<open>ssap/ssaprovider.c\<close>, one definition each.
  \<^item> \<open>Spm_Segment\<close>: data that one machine sends are indicated by the other, whatever the size of the
    segments and the cut into buffers; and exactly when the sending loop ends.
  \<^item> \<open>Spm_System\<close>, \<open>Spm_Tokens\<close>: two machines and the units between them as a step relation, over all calls
    of the service, with memory and transport failing at any time; no token is ever in two places.
  \<^item> \<open>Spm_Sync\<close>, \<open>Spm_Cases\<close>: a major synchronization goes through and leaves both sides with equal
    numbers; colliding resynchronizations are decided the same way on both sides; inputs where the machine
    does not do what it means to.
  \<^item> \<open>Spm_Connect\<close>, \<open>Spm_Accept\<close>: the session connection, with the initiator of \<^verbatim>\<open>ssap/ssapinitiate.c\<close>
    (\<open>SAsynConnRequest\<close>, waiting or not, and the calls that ask for the answer) and the responder of
    \<^verbatim>\<open>ssap/ssaprespond.c\<close> (\<open>SInit\<close>, \<open>SConnResponse\<close>), and the refusals of \<^verbatim>\<open>ssaplose.c\<close>. The initiator
    returns the record \<open>conn_reply\<close>, \<open>SInit\<close> the record \<open>init_reply\<close>.
  \<^item> \<open>Spm_Arrive\<close>, \<open>Spm_Negotiate\<close>, \<open>Spm_Establish\<close>, \<open>Spm_Session\<close>, \<open>Spm_Handshake\<close>, \<open>Spm_Connected\<close>,
    \<open>Spm_Async\<close>: what the reader makes of the packets of the connection, what the answer makes of the
    settings of the tokens, and the steps of both sides up to the two blocks. A connection is established
    with blocks that agree (\<open>agree\<close>), from which the tokens stay in one place; refusals arrive; asking without
    waiting makes no difference; and the serial numbers and codes that the two sides see differently.

  Interfaces. What the stream decoder needs from a stream, what the index needs from its trees and what the
  reader of a packet needs from a parameter are locales with the laws as assumptions; their interpretations
  on the definitions of the model are in the theory of the provider.

  Conventions. The arguments \<open>mem\<close> and \<open>tw\<close> stand for the allocator, which grants or refuses a size, and
  for the transport, which accepts a unit or gives the reason of the disconnect. Reading outside of a
  block, writing outside of a block and using a null pointer end in the value \<open>Fault\<close>. Integers that the
  code keeps in octets, 16 or 32 bits are words or carry the wrap-around in the definition; \<^verbatim>\<open>long\<close> has
  64 bits and no modelled value comes near its end.

  Bounds and fuel. The decoder runs with fuel, and two units per octet of input and one more are enough.
  The loops of the reader of packets, of \<open>SReadRequestAux\<close> and of \<open>rel_wait\<close> are functions with a measure:
  the octets left, and the backlog of units that can still be read. The sending loop may not end and is a
  partial function with \<open>None\<close> for not returning.

  Assumptions on the machine. A \<^verbatim>\<open>char\<close> has eight bits and a sign, which the reason of a refusal depends on;
  an \<^verbatim>\<open>int\<close> has 32 bits.

  Not modelled. The argument vector of a server that another program has started, and the starting and waiting
  of servers (\<^verbatim>\<open>ssapexec.c\<close>, \<^verbatim>\<open>ssapselect.c\<close>), are input and output on processes and descriptors: \<open>SInit\<close>
  takes the unit or the packet that it would find. Of an address the session selector is modelled. The
  delivery of indications from signal handlers, logging, error texts, timers and the lists of
  blocks by descriptor have no counterpart. The transport (\<^verbatim>\<open>tsap/\<close>) is input and output on descriptors
  and an argument here. The services above the session (\<^verbatim>\<open>psap2/\<close>, \<^verbatim>\<open>acsap/\<close>, \<^verbatim>\<open>rosap/\<close>, \<^verbatim>\<open>rtsap/\<close>) build
  their units with code that \<^verbatim>\<open>pepy\<close> generates. The compilers, the directory apart from its indexes, and
  the applications are not modelled.
\<close>

end
